(* ===== verification/CedarPrelude.thy ===== *)
theory CedarPrelude
  imports Main "HOL-Library.Word" "HOL-Library.Multiset" "HOL-Library.Signed_Division"
begin

text \<open>
  Shared vocabulary of the development: the faults a C function can run into, the
  sequencing of fallible steps, singly linked chains in a table of nodes (the queues of
  \<^verbatim>\<open>fbm.c\<close>, \<^verbatim>\<open>CdcMessageQueue.c\<close> and \<^verbatim>\<open>sbmFrameBase.c\<close> are such chains), the
  interface every FIFO of the program implements, and the C alignment idiom
  \<^verbatim>\<open>(x + a - 1) & ~(a - 1)\<close>.
\<close>

unbundle bit_operations_syntax

section \<open>Faults and results\<close>

text \<open>
  A C function either returns normally or runs into one of these; the program itself
  calls \<^verbatim>\<open>abort()\<close> in a few places, the others are undefined behaviour of C (or a
  loop that never ends), which a model must not hide behind an arbitrary value.
\<close>

datatype fault = Aborted | NullDeref | OutOfBounds | UseAfterFree | SignedOverflow | DivByZero | Diverges

type_synonym 'a res = "fault + 'a"

fun and_then :: "'a res \<Rightarrow> ('a \<Rightarrow> 'b res) \<Rightarrow> 'b res" where
  "and_then (Inl e) k = Inl e"
| "and_then (Inr x) k = k x"

fun of_option :: "fault \<Rightarrow> 'a option \<Rightarrow> 'a res" where
  "of_option e None = Inl e"
| "of_option e (Some x) = Inr x"

lemma and_then_Inr_iff:
  "and_then r k = Inr y \<longleftrightarrow> (\<exists>x. r = Inr x \<and> k x = Inr y)"
  by (cases r) auto

lemma of_option_Inr_iff [simp]: "of_option e r = Inr x \<longleftrightarrow> r = Some x"
  by (cases r) auto

text \<open>An addition of two C \<^verbatim>\<open>int\<close>s: overflow is undefined.\<close>

definition int_result :: "int \<Rightarrow> int res" where
  "int_result x = (if - (2 ^ 31) \<le> x \<and> x < 2 ^ 31 then Inr x else Inl SignedOverflow)"

lemma int_result_ok [simp]: "- (2 ^ 31) \<le> x \<Longrightarrow> x < 2 ^ 31 \<Longrightarrow> int_result x = Inr x"
  by (simp add: int_result_def)

text \<open>Result codes of the decoders (\<^verbatim>\<open>include/vdecoder.h\<close>, \<^verbatim>\<open>h264_dec.h\<close>)\<close>

definition VRESULT_ERR_FAIL :: int where "VRESULT_ERR_FAIL = 251"
definition VDECODE_RESULT_OK :: int where "VDECODE_RESULT_OK = 0"
definition VDECODE_RESULT_UNSUPPORTED :: int where "VDECODE_RESULT_UNSUPPORTED = - 1"
definition VDECODE_RESULT_RESOLUTION_CHANGE :: int where "VDECODE_RESULT_RESOLUTION_CHANGE = 6"

named_theorems op_defs \<open>definitions of the operations of a component\<close>
named_theorems inv_defs \<open>definitions of the invariants of a component\<close>

section \<open>Linked chains in a node table\<close>

text \<open>
  \<open>chain nx h xs\<close>: following \<open>nx\<close> from the head pointer \<open>h\<close> visits exactly the nodes
  \<open>xs\<close>, in this order, and then reaches NULL.
\<close>

fun chain :: "('p \<Rightarrow> 'p option) \<Rightarrow> 'p option \<Rightarrow> 'p list \<Rightarrow> bool" where
  "chain nx h [] \<longleftrightarrow> h = None"
| "chain nx h (x # xs) \<longleftrightarrow> h = Some x \<and> chain nx (nx x) xs"

lemma chain_None [simp]: "chain nx None xs \<longleftrightarrow> xs = []"
  by (cases xs) auto

lemma chain_Some: "chain nx (Some p) xs \<longleftrightarrow> (\<exists>ys. xs = p # ys \<and> chain nx (nx p) ys)"
  by (cases xs) auto

lemma chain_append:
  "chain nx h (xs @ y # ys) \<Longrightarrow> chain nx (Some y) (y # ys)"
  by (induction xs arbitrary: h) auto

lemma chain_deterministic: "chain nx h xs \<Longrightarrow> chain nx h ys \<Longrightarrow> xs = ys"
proof (induction xs arbitrary: h ys)
  case Nil
  then show ?case by simp
next
  case (Cons x xs)
  then show ?case by (cases ys) auto
qed

text \<open>A chain ends in NULL, so it cannot visit a node twice.\<close>

lemma chain_distinct: "chain nx h xs \<Longrightarrow> distinct xs"
proof (induction xs arbitrary: h)
  case Nil
  then show ?case by simp
next
  case (Cons x xs)
  have "x \<notin> set xs"
  proof
    assume "x \<in> set xs"
    then obtain as bs where xs: "xs = as @ x # bs" by (auto simp: in_set_conv_decomp)
    from Cons.prems xs have "chain nx (nx x) (as @ x # bs)" by simp
    moreover from this have "chain nx (nx x) bs"
      by (auto dest: chain_append)
    ultimately have "as @ x # bs = bs" by (rule chain_deterministic)
    then have "length (as @ x # bs) = length bs" by simp
    then show False by simp
  qed
  with Cons show ?case by auto
qed

text \<open>Writing the link of a node outside a chain leaves the chain alone.\<close>

lemma chain_cong:
  "(\<And>x. x \<in> set xs \<Longrightarrow> nx' x = nx x) \<Longrightarrow> chain nx' h xs = chain nx h xs"
  by (induction xs arbitrary: h) auto

lemma chain_upd_other [simp]: "p \<notin> set xs \<Longrightarrow> chain (nx(p := q)) h xs = chain nx h xs"
  by (rule chain_cong) auto

text \<open>
  The loop \<^verbatim>\<open>while(pCur->pNext != NULL) pCur = pCur->pNext;\<close> of every enqueue.
  It may run forever on a circular list, so it is a partial function.
\<close>

partial_function (option) walk_last :: "('p \<Rightarrow> 'p option) \<Rightarrow> 'p \<Rightarrow> 'p option" where
  "walk_last nx p = (case nx p of None \<Rightarrow> Some p | Some q \<Rightarrow> walk_last nx q)"

declare walk_last.simps [code]

lemma walk_last_chain: "chain nx (Some p) xs \<Longrightarrow> walk_last nx p = Some (last xs)"
proof (induction xs arbitrary: p)
  case Nil
  then show ?case by simp
next
  case (Cons x xs)
  then show ?case
    by (cases xs) (auto simp: walk_last.simps [of nx x])
qed

text \<open>Linking a fresh node behind the last one extends the chain at its end.\<close>

lemma chain_snoc:
  assumes "chain nx h xs" and "xs \<noteq> []" and "p \<notin> set xs"
  shows "chain (nx(last xs := Some p, p := None)) h (xs @ [p])"
  using assms
proof (induction xs arbitrary: h)
  case Nil
  then show ?case by simp
next
  case (Cons x xs)
  show ?case
  proof (cases xs)
    case Nil
    with Cons.prems show ?thesis by auto
  next
    case (Cons y ys)
    have "x \<notin> set xs" using chain_distinct [OF Cons.prems(1)] by simp
    moreover have "last xs \<in> set xs" using \<open>xs = y # ys\<close> by (metis last_in_set list.discI)
    ultimately have "x \<noteq> last xs" by auto
    with Cons.IH [of "nx x"] Cons.prems \<open>xs = y # ys\<close> show ?thesis by auto
  qed
qed

text \<open>The executable reading of a queue, at most \<open>n\<close> nodes of it.\<close>

fun chain_take :: "nat \<Rightarrow> ('p \<Rightarrow> 'p option) \<Rightarrow> 'p option \<Rightarrow> 'p list" where
  "chain_take 0 nx h = []"
| "chain_take (Suc n) nx h = (case h of None \<Rightarrow> [] | Some x \<Rightarrow> x # chain_take n nx (nx x))"

lemma chain_take_chain: "chain nx h xs \<Longrightarrow> length xs \<le> n \<Longrightarrow> chain_take n nx h = xs"
proof (induction xs arbitrary: n h)
  case Nil
  then show ?case by (cases n) auto
next
  case (Cons x xs)
  then show ?case by (cases n) auto
qed

section \<open>The FIFO interface\<close>

text \<open>Clients of a queue, over its two operations: put a list, take \<open>n\<close>, any mix.\<close>

fun put_all :: "('q \<Rightarrow> 'a \<Rightarrow> 'q res) \<Rightarrow> 'q \<Rightarrow> 'a list \<Rightarrow> 'q res" where
  "put_all enq q [] = Inr q"
| "put_all enq q (x # xs) = and_then (enq q x) (\<lambda>q'. put_all enq q' xs)"

fun take_n :: "('q \<Rightarrow> ('a option \<times> 'q) res) \<Rightarrow> 'q \<Rightarrow> nat \<Rightarrow> ('a option list \<times> 'q) res" where
  "take_n deq q 0 = Inr ([], q)"
| "take_n deq q (Suc n) = and_then (deq q) (\<lambda>(x, q1).
     and_then (take_n deq q1 n) (\<lambda>(xs, q2). Inr (x # xs, q2)))"

datatype 'a queue_op = Put 'a | Take

fun run_queue :: "('q \<Rightarrow> 'a \<Rightarrow> 'q res) \<Rightarrow> ('q \<Rightarrow> ('a option \<times> 'q) res) \<Rightarrow> 'q \<Rightarrow>
    'a queue_op list \<Rightarrow> ('a option list \<times> 'q) res" where
  "run_queue enq deq q [] = Inr ([], q)"
| "run_queue enq deq q (Put x # ops) = and_then (enq q x) (\<lambda>q'. run_queue enq deq q' ops)"
| "run_queue enq deq q (Take # ops) = and_then (deq q) (\<lambda>(x, q1).
     and_then (run_queue enq deq q1 ops) (\<lambda>(xs, q2). Inr (x # xs, q2)))"

text \<open>The same on a plain list of at most \<open>cap\<close> elements: what the takes return, what remains.\<close>

fun run_list :: "nat \<Rightarrow> 'a list \<Rightarrow> 'a queue_op list \<Rightarrow> 'a option list \<times> 'a list" where
  "run_list cap xs [] = ([], xs)"
| "run_list cap xs (Put x # ops) =
     run_list cap (if length xs < cap then xs @ [x] else xs) ops"
| "run_list cap [] (Take # ops) = (let (rs, ys) = run_list cap [] ops in (None # rs, ys))"
| "run_list cap (x # xs) (Take # ops) = (let (rs, ys) = run_list cap xs ops in (Some x # rs, ys))"

fun room_all :: "('a list \<Rightarrow> 'a \<Rightarrow> bool) \<Rightarrow> 'a list \<Rightarrow> 'a list \<Rightarrow> bool" where
  "room_all room ys [] = True"
| "room_all room ys (x # xs) = (room ys x \<and> room_all room (ys @ [x]) xs)"

text \<open>
  What every queue of the program promises its clients. \<open>rep q xs\<close> relates a queue to
  the list of its elements, oldest first; \<open>room xs x\<close> says when \<open>x\<close> may be put onto a
  queue that holds \<open>xs\<close> (a node that is not already linked, a ring that is not full).
\<close>

locale fifo =
  fixes rep :: "'q \<Rightarrow> 'a list \<Rightarrow> bool"
    and room :: "'a list \<Rightarrow> 'a \<Rightarrow> bool"
    and enq :: "'q \<Rightarrow> 'a \<Rightarrow> 'q res"
    and deq :: "'q \<Rightarrow> ('a option \<times> 'q) res"
  assumes enq_rep: "rep q xs \<Longrightarrow> room xs x \<Longrightarrow> \<exists>q'. enq q x = Inr q' \<and> rep q' (xs @ [x])"
    and deq_empty: "rep q [] \<Longrightarrow> \<exists>q'. deq q = Inr (None, q') \<and> rep q' []"
    and deq_rep: "rep q (x # xs) \<Longrightarrow> \<exists>q'. deq q = Inr (Some x, q') \<and> rep q' xs"
begin

lemma put_all_rep:
  "rep q ys \<Longrightarrow> room_all room ys xs \<Longrightarrow> \<exists>q'. put_all enq q xs = Inr q' \<and> rep q' (ys @ xs)"
proof (induction xs arbitrary: q ys)
  case Nil
  then show ?case by simp
next
  case (Cons x xs)
  from Cons.prems obtain q1 where q1: "enq q x = Inr q1" "rep q1 (ys @ [x])"
    using enq_rep by fastforce
  from Cons.prems(2) have "room_all room (ys @ [x]) xs" by simp
  from Cons.IH [OF q1(2) this] q1(1) show ?case by auto
qed

lemma take_n_rep:
  "rep q (xs @ ys) \<Longrightarrow> \<exists>q'. take_n deq q (length xs) = Inr (map Some xs, q') \<and> rep q' ys"
proof (induction xs arbitrary: q)
  case Nil
  then show ?case by simp
next
  case (Cons x xs)
  then obtain q1 where q1: "deq q = Inr (Some x, q1)" "rep q1 (xs @ ys)"
    using deq_rep by fastforce
  from Cons.IH [OF q1(2)] q1(1) show ?case by auto
qed

text \<open>First in, first out: what is put onto an empty queue comes off in the same order.\<close>

lemma fifo_order:
  assumes "rep q []" and "room_all room [] xs"
  shows "\<exists>q1 q2. put_all enq q xs = Inr q1 \<and>
    take_n deq q1 (length xs) = Inr (map Some xs, q2) \<and> rep q2 []"
proof -
  obtain q1 where q1: "put_all enq q xs = Inr q1" "rep q1 (xs @ [])"
    using put_all_rep [OF assms] by auto
  from take_n_rep [OF q1(2)] q1(1) show ?thesis by auto
qed

end

text \<open>
  A queue with a fixed capacity that refuses what does not fit and stays as it is.
\<close>

locale bounded_fifo = fifo +
  fixes capacity :: nat
  assumes room_iff: "room xs x \<longleftrightarrow> length xs < capacity"
    and enq_full: "rep q xs \<Longrightarrow> \<not> room xs x \<Longrightarrow> enq q x = Inr q"
begin

text \<open>Every mix of puts and takes behaves as on a list that drops what does not fit.\<close>

lemma run_queue_rep:
  "rep q xs \<Longrightarrow> cap = capacity \<Longrightarrow>
     \<exists>q'. run_queue enq deq q ops = Inr (fst (run_list cap xs ops), q') \<and>
     rep q' (snd (run_list cap xs ops))"
proof (induction cap xs ops arbitrary: q rule: run_list.induct)
  case (1 cap xs)
  then show ?case by simp
next
  case (2 cap xs x ops)
  let ?xs' = "if length xs < cap then xs @ [x] else xs"
  obtain q1 where q1: "enq q x = Inr q1" "rep q1 ?xs'"
    using enq_rep [OF 2(2), of x] enq_full [OF 2(2), of x] 2(2) room_iff [of xs x]
    2(3) by (cases "length xs < cap") auto
  from 2(1) [OF q1(2) 2(3)] q1(1) show ?case by simp
next
  case (3 cap ops)
  then obtain q1 where q1: "deq q = Inr (None, q1)" "rep q1 []"
    using deq_empty by blast
  from 3(1) [OF q1(2)] 3(3) q1(1) show ?case by (auto split: prod.splits)
next
  case (4 cap x xs ops)
  then obtain q1 where q1: "deq q = Inr (Some x, q1)" "rep q1 xs"
    using deq_rep by blast
  from 4(1) [OF q1(2)] 4(3) q1(1) show ?case by (auto split: prod.splits)
qed

end

section \<open>Components that follow a specification call by call\<close>

text \<open>
  A component with calls \<open>'c\<close> and results \<open>'r\<close>, run on a list of calls; its specification on an
  abstract state; and the calls the specification's client is allowed to make.
\<close>

fun run_calls :: "('c \<Rightarrow> 's \<Rightarrow> ('r \<times> 's) res) \<Rightarrow> 'c list \<Rightarrow> 's \<Rightarrow> ('r list \<times> 's) res" where
  "run_calls exec [] s = Inr ([], s)"
| "run_calls exec (c # cs) s = and_then (exec c s) (\<lambda>(r, s1).
     and_then (run_calls exec cs s1) (\<lambda>(rs, s2). Inr (r # rs, s2)))"

fun spec_calls :: "('c \<Rightarrow> 'a \<Rightarrow> 'r \<times> 'a) \<Rightarrow> 'c list \<Rightarrow> 'a \<Rightarrow> 'r list \<times> 'a" where
  "spec_calls spec [] a = ([], a)"
| "spec_calls spec (c # cs) a =
     (let (r, a1) = spec c a; (rs, a2) = spec_calls spec cs a1 in (r # rs, a2))"

fun allowed_calls :: "('c \<Rightarrow> 'a \<Rightarrow> bool) \<Rightarrow> ('c \<Rightarrow> 'a \<Rightarrow> 'r \<times> 'a) \<Rightarrow> 'c list \<Rightarrow> 'a \<Rightarrow> bool" where
  "allowed_calls ok spec [] a = True"
| "allowed_calls ok spec (c # cs) a = (ok c a \<and> allowed_calls ok spec cs (snd (spec c a)))"

locale follows_spec =
  fixes rep :: "'s \<Rightarrow> 'a \<Rightarrow> bool"
    and exec :: "'c \<Rightarrow> 's \<Rightarrow> ('r \<times> 's) res"
    and ok :: "'c \<Rightarrow> 'a \<Rightarrow> bool"
    and spec :: "'c \<Rightarrow> 'a \<Rightarrow> 'r \<times> 'a"
  assumes exec_spec: "rep s a \<Longrightarrow> ok c a \<Longrightarrow>
      \<exists>s'. exec c s = Inr (fst (spec c a), s') \<and> rep s' (snd (spec c a))"
begin

text \<open>No allowed sequence of calls faults, and its results are those of the specification.\<close>

lemma run_calls_spec:
  "rep s a \<Longrightarrow> allowed_calls ok spec cs a \<Longrightarrow>
     \<exists>s'. run_calls exec cs s = Inr (fst (spec_calls spec cs a), s') \<and>
       rep s' (snd (spec_calls spec cs a))"
proof (induction cs arbitrary: s a)
  case Nil
  then show ?case by simp
next
  case (Cons c cs)
  then obtain s1 where s1: "exec c s = Inr (fst (spec c a), s1)" "rep s1 (snd (spec c a))"
    using exec_spec by fastforce
  from Cons.IH [OF s1(2)] Cons.prems(2) obtain s2 where
      "run_calls exec cs s1 = Inr (fst (spec_calls spec cs (snd (spec c a))), s2)"
      "rep s2 (snd (spec_calls spec cs (snd (spec c a))))" by auto
  with s1(1) show ?case by (simp add: Let_def case_prod_beta)
qed

end

section \<open>Positions in a ring\<close>

text \<open>
  The code advances a ring position by \<^verbatim>\<open>p++; if(p >= n) p = 0;\<close> and steps it back by
  \<^verbatim>\<open>p--; if(p < 0) p = n - 1;\<close>.
\<close>

lemma ring_succ: "0 \<le> p \<Longrightarrow> p < n \<Longrightarrow> (if n \<le> p + 1 then 0 else p + 1) = (p + 1) mod (n::int)"
  by (cases "p + 1 = n") auto

lemma ring_pred: "0 \<le> p \<Longrightarrow> p < n \<Longrightarrow> (if p - 1 < 0 then n - 1 else p - 1) = (p - 1) mod (n::int)"
  by (cases "p = 0") (auto simp: zmod_minus1)

lemma ring_shift: "((a + 1) mod n + int k) mod n = (a + int (Suc k)) mod (n::int)"
  by (simp add: mod_simps ac_simps)

lemma ring_range: "0 < n \<Longrightarrow> 0 \<le> x mod (n::int) \<and> x mod n < n"
  by simp

lemma ring_inj:
  assumes "(a + int i) mod int n = (a + int j) mod int n" and "i < n" and "j < n"
  shows "i = j"
proof -
  have "int i mod int n = int j mod int n"
    using assms(1) by (metis add_diff_cancel_left' mod_diff_left_eq)
  with assms(2,3) show ?thesis by simp
qed

section \<open>The stream buffer interface\<close>

text \<open>Two clients: the parser that adds a frame, a decoder that requests, reads and flushes one.\<close>

definition stream_put :: "('s \<Rightarrow> 'f \<Rightarrow> (int \<times> 's) res) \<Rightarrow> 's \<Rightarrow> 'f \<Rightarrow> 's res" where
  "stream_put add s d = and_then (add s d) (\<lambda>(r, s'). Inr s')"

definition stream_decode :: "('s \<Rightarrow> ('h option \<times> 's) res) \<Rightarrow> ('s \<Rightarrow> 'h \<Rightarrow> (int \<times> 's) res) \<Rightarrow>
    ('s \<Rightarrow> 'h \<Rightarrow> 'f) \<Rightarrow> 's \<Rightarrow> ('f option \<times> 's) res" where
  "stream_decode request release content s = and_then (request s) (\<lambda>(h, s1).
     case h of None \<Rightarrow> Inr (None, s1)
     | Some p \<Rightarrow> and_then (release s1 p) (\<lambda>(r, s2). Inr (Some (content s1 p), s2)))"

text \<open>
  A decoder that may hold several frames: it keeps the handles it got, gives back the newest
  one or flushes the oldest one. \<open>stream_run\<close> runs it on a stream buffer, \<open>stream_spec\<close> on the
  list of frames it holds and the list of frames it has not requested.
\<close>

datatype 'f stream_op = AddFrame 'f | RequestFrame | ReturnLast | FlushFirst

fun stream_run :: "('s \<Rightarrow> 'f \<Rightarrow> (int \<times> 's) res) \<Rightarrow> ('s \<Rightarrow> ('h option \<times> 's) res) \<Rightarrow>
    ('s \<Rightarrow> 'h \<Rightarrow> (int \<times> 's) res) \<Rightarrow> ('s \<Rightarrow> 'h \<Rightarrow> (int \<times> 's) res) \<Rightarrow>
    's \<Rightarrow> 'h list \<Rightarrow> 'f stream_op list \<Rightarrow> ('s \<times> 'h list) res" where
  "stream_run add request give_back release s hs [] = Inr (s, hs)"
| "stream_run add request give_back release s hs (AddFrame d # ops) =
     and_then (add s d) (\<lambda>(r, s'). stream_run add request give_back release s' hs ops)"
| "stream_run add request give_back release s hs (RequestFrame # ops) =
     and_then (request s) (\<lambda>(h, s'). stream_run add request give_back release s'
       (case h of None \<Rightarrow> hs | Some x \<Rightarrow> hs @ [x]) ops)"
| "stream_run add request give_back release s hs (ReturnLast # ops) =
     (if hs = [] then stream_run add request give_back release s hs ops
      else and_then (give_back s (last hs)) (\<lambda>(r, s').
        stream_run add request give_back release s' (butlast hs) ops))"
| "stream_run add request give_back release s hs (FlushFirst # ops) =
     (if hs = [] then stream_run add request give_back release s hs ops
      else and_then (release s (hd hs)) (\<lambda>(r, s').
        stream_run add request give_back release s' (tl hs) ops))"

fun stream_spec :: "('f list \<Rightarrow> 'f \<Rightarrow> bool) \<Rightarrow> ('f \<Rightarrow> 'f) \<Rightarrow> 'f list \<Rightarrow> 'f list \<Rightarrow>
    'f stream_op list \<Rightarrow> 'f list \<times> 'f list" where
  "stream_spec fits stored out pend [] = (out, pend)"
| "stream_spec fits stored out pend (AddFrame d # ops) =
     stream_spec fits stored out
       (if fits (out @ pend) d then pend @ [stored d] else pend) ops"
| "stream_spec fits stored out [] (RequestFrame # ops) = stream_spec fits stored out [] ops"
| "stream_spec fits stored out (d # pend) (RequestFrame # ops) =
     stream_spec fits stored (out @ [d]) pend ops"
| "stream_spec fits stored out pend (ReturnLast # ops) =
     (if out = [] then stream_spec fits stored out pend ops
      else stream_spec fits stored (butlast out) (last out # pend) ops)"
| "stream_spec fits stored out pend (FlushFirst # ops) =
     (if out = [] then stream_spec fits stored out pend ops
      else stream_spec fits stored (tl out) pend ops)"

text \<open>
  What \<^verbatim>\<open>SbmInterface\<close> (\<^verbatim>\<open>vdecoder/include/sbmInterface.h\<close>) promises the decoder.
  \<open>rep s out pend\<close>: the buffer holds the frames \<open>out @ pend\<close> in stream order, of which the
  decoder has requested \<open>out\<close>; \<open>handle s k\<close> is the pointer to the \<open>k\<close>-th frame it holds.
  \<open>stored d\<close> is what is kept of an added frame \<open>d\<close>.
\<close>

locale stream_buffer =
  fixes rep :: "'s \<Rightarrow> 'f list \<Rightarrow> 'f list \<Rightarrow> bool"
    and fits :: "'f list \<Rightarrow> 'f \<Rightarrow> bool"
    and admissible :: "'f \<Rightarrow> bool"
    and stored :: "'f \<Rightarrow> 'f"
    and add :: "'s \<Rightarrow> 'f \<Rightarrow> (int \<times> 's) res"
    and request :: "'s \<Rightarrow> ('h option \<times> 's) res"
    and give_back :: "'s \<Rightarrow> 'h \<Rightarrow> (int \<times> 's) res"
    and release :: "'s \<Rightarrow> 'h \<Rightarrow> (int \<times> 's) res"
    and handle :: "'s \<Rightarrow> nat \<Rightarrow> 'h"
    and content :: "'s \<Rightarrow> 'h \<Rightarrow> 'f"
  assumes add_fits: "rep s out pend \<Longrightarrow> fits (out @ pend) d \<Longrightarrow>
      \<exists>s'. add s d = Inr (0, s') \<and> rep s' out (pend @ [stored d]) \<and> handle s' = handle s"
    and add_full: "rep s out pend \<Longrightarrow> admissible d \<Longrightarrow> \<not> fits (out @ pend) d \<Longrightarrow> add s d = Inr (-1, s)"
    and request_none: "rep s out [] \<Longrightarrow> request s = Inr (None, s)"
    and request_some: "rep s out (d # pend) \<Longrightarrow>
      \<exists>s'. request s = Inr (Some (handle s (length out)), s') \<and> rep s' (out @ [d]) pend \<and>
        handle s' = handle s"
    and give_back_last: "rep s (out @ [d]) pend \<Longrightarrow>
      \<exists>s'. give_back s (handle s (length out)) = Inr (0, s') \<and> rep s' out (d # pend) \<and>
        handle s' = handle s"
    and release_first: "rep s (d # out) pend \<Longrightarrow>
      \<exists>s'. release s (handle s 0) = Inr (0, s') \<and> rep s' out pend \<and>
        (\<forall>k < length out. handle s' k = handle s (Suc k))"
    and content_out: "rep s out pend \<Longrightarrow> k < length out \<Longrightarrow> content s (handle s k) = out ! k"
begin

text \<open>One turn of a decoder that holds nothing: request a frame, use it, flush it.\<close>

lemma request_release:
  assumes "rep s [] (d # pend)"
  shows "\<exists>h s1 s2. request s = Inr (Some h, s1) \<and> content s1 h = d \<and>
    release s1 h = Inr (0, s2) \<and> rep s2 [] pend"
proof -
  obtain s1 where s1: "request s = Inr (Some (handle s 0), s1)" "rep s1 [d] pend"
      "handle s1 = handle s"
    using request_some [OF assms] by auto
  have "content s1 (handle s1 0) = d" using content_out [OF s1(2), of 0] by simp
  moreover obtain s2 where "release s1 (handle s1 0) = Inr (0, s2)" "rep s2 [] pend"
    using release_first [OF s1(2)] by auto
  ultimately show ?thesis using s1 by auto
qed

text \<open>Requesting a frame and giving it back leaves the same frames in the same order.\<close>

lemma request_give_back:
  assumes "rep s out (d # pend)"
  shows "\<exists>h s1 s2. request s = Inr (Some h, s1) \<and> content s1 h = d \<and>
    give_back s1 h = Inr (0, s2) \<and> rep s2 out (d # pend)"
proof -
  obtain s1 where s1: "request s = Inr (Some (handle s (length out)), s1)"
      "rep s1 (out @ [d]) pend" "handle s1 = handle s"
    using request_some [OF assms] by auto
  have "content s1 (handle s1 (length out)) = d"
    using content_out [OF s1(2), of "length out"] by simp
  moreover obtain s2 where "give_back s1 (handle s1 (length out)) = Inr (0, s2)"
      "rep s2 out (d # pend)"
    using give_back_last [OF s1(2)] by auto
  ultimately show ?thesis using s1 by auto
qed

text \<open>Every such decoder and every parser see exactly the two lists, and no call faults.\<close>

lemma stream_run_spec:
  "rep s out pend \<Longrightarrow> hs = map (handle s) [0..<length out] \<Longrightarrow>
     (\<forall>d. AddFrame d \<in> set ops \<longrightarrow> admissible d) \<Longrightarrow>
     \<exists>s' hs'. stream_run add request give_back release s hs ops = Inr (s', hs') \<and>
       (case stream_spec fits stored out pend ops of (out', pend') \<Rightarrow>
         rep s' out' pend' \<and> map (content s') hs' = out')"
proof (induction ops arbitrary: s hs out pend)
  case Nil
  then have "map (content s) hs = out"
    using content_out [OF Nil(1)] by (auto intro!: nth_equalityI)
  with Nil show ?case by auto
next
  case (Cons op ops)
  from Cons.prems(3) have adm: "\<forall>d. AddFrame d \<in> set ops \<longrightarrow> admissible d" by simp
  note IH = Cons.IH [OF _ _ adm]
  show ?case
  proof (cases op)
    case (AddFrame d)
    have "admissible d" using Cons.prems(3) AddFrame by simp
    then obtain r s1 where s1: "add s d = Inr (r, s1)"
        "rep s1 out (if fits (out @ pend) d then pend @ [stored d] else pend)" "handle s1 = handle s"
      using add_fits [OF Cons.prems(1)] add_full [OF Cons.prems(1)] Cons.prems(1)
      by (cases "fits (out @ pend) d") fastforce+
    from IH [OF s1(2), of hs] s1 Cons.prems(2) AddFrame show ?thesis by simp
  next
    case RequestFrame
    show ?thesis
    proof (cases pend)
      case Nil
      with IH [OF Cons.prems(1,2)] request_none [of s out] Cons.prems(1) RequestFrame
      show ?thesis by simp
    next
      case (Cons d pend')
      then obtain s1 where s1: "request s = Inr (Some (handle s (length out)), s1)"
          "rep s1 (out @ [d]) pend'" "handle s1 = handle s"
        using request_some Cons.prems(1) by blast
      from IH [OF s1(2), of "hs @ [handle s (length out)]"] s1 Cons.prems(2) RequestFrame Cons
      show ?thesis by simp
    qed
  next
    case ReturnLast
    show ?thesis
    proof (cases "out = []")
      case True
      with IH [OF Cons.prems(1,2)] Cons.prems(2) ReturnLast show ?thesis by (cases pend) simp_all
    next
      case False
      then obtain xs x where out: "out = xs @ [x]" by (meson rev_exhaust)
      obtain s1 where s1: "give_back s (handle s (length xs)) = Inr (0, s1)"
          "rep s1 xs (x # pend)" "handle s1 = handle s"
        using give_back_last Cons.prems(1) unfolding out by blast
      from IH [OF s1(2), of "map (handle s) [0..<length xs]"] s1 Cons.prems(2) out ReturnLast
      show ?thesis by (cases pend) simp_all
    qed
  next
    case FlushFirst
    show ?thesis
    proof (cases out)
      case Nil
      with IH [OF Cons.prems(1,2)] Cons.prems(2) FlushFirst show ?thesis by (cases pend) simp_all
    next
      case out: (Cons x xs)
      obtain s1 where s1: "release s (handle s 0) = Inr (0, s1)" "rep s1 xs pend"
          "\<forall>k < length xs. handle s1 k = handle s (Suc k)"
        using release_first Cons.prems(1) unfolding out by blast
      have "hs = handle s 0 # map (handle s1) [0..<length xs]"
        using s1(3) unfolding Cons.prems(2) out
        by (simp add: upt_conv_Cons map_Suc_upt [symmetric] del: upt_Suc)
      with IH [OF s1(2), of "map (handle s1) [0..<length xs]"] s1 out FlushFirst
      show ?thesis by (cases pend) simp_all
    qed
  qed
qed

end

text \<open>A stream buffer whose frames are already in stored form is a FIFO for such a decoder.\<close>

sublocale stream_buffer \<subseteq> fifo "\<lambda>s fs. rep s [] fs" "\<lambda>fs d. fits fs d \<and> stored d = d"
  "stream_put add" "stream_decode request release content"
proof
  fix q xs x
  assume "rep q [] xs" and "fits xs x \<and> stored x = x"
  then show "\<exists>q'. stream_put add q x = Inr q' \<and> rep q' [] (xs @ [x])"
    using add_fits [of q "[]" xs x] by (auto simp: stream_put_def)
next
  fix q
  assume "rep q [] []"
  then show "\<exists>q'. stream_decode request release content q = Inr (None, q') \<and> rep q' [] []"
    using request_none [of q "[]"] by (auto simp: stream_decode_def)
next
  fix q x xs
  assume "rep q [] (x # xs)"
  from request_release [OF this]
  show "\<exists>q'. stream_decode request release content q = Inr (Some x, q') \<and> rep q' [] xs"
    by (auto simp: stream_decode_def)
qed

section \<open>C division\<close>

text \<open>\<^verbatim>\<open>/\<close> and \<^verbatim>\<open>%\<close> of C truncate towards zero: \<open>sdiv\<close> and \<open>smod\<close> of the library.\<close>

lemma sdiv_nonneg [simp]: "0 \<le> (a::int) \<Longrightarrow> 0 < b \<Longrightarrow> a sdiv b = a div b"
  by (cases "a = 0") (simp_all add: signed_divide_int_def sgn_1_pos)

lemma smod_nonneg [simp]: "0 \<le> (a::int) \<Longrightarrow> 0 < b \<Longrightarrow> a smod b = a mod b"
  by (cases "a = 0") (simp_all add: signed_modulo_int_def minus_div_mult_eq_mod)

section \<open>C alignment\<close>

text \<open>
  \<^verbatim>\<open>(x + a - 1) & ~(a - 1)\<close> on a C \<^verbatim>\<open>int\<close> in two's complement; \<open>a\<close> is a power of two
  at every use that means anything.
\<close>

definition align_up :: "int \<Rightarrow> int \<Rightarrow> int" where
  "align_up x a = (x + a - 1) AND NOT (a - 1)"

lemma and_not_mask_int: "(x::int) AND NOT (mask n) = x - x mod 2 ^ n"
proof -
  have "x AND NOT (mask n) = push_bit n (drop_bit n x)"
    by (rule bit_eqI) (auto simp: bit_simps)
  also have "\<dots> = x - x mod 2 ^ n"
    by (simp add: push_bit_eq_mult drop_bit_eq_div minus_mod_eq_div_mult)
  finally show ?thesis .
qed

lemma align_up_pow2:
  "align_up x (2 ^ n) = (x + 2 ^ n - 1) div 2 ^ n * 2 ^ n"
  using and_not_mask_int [of "x + 2 ^ n - 1" n]
  by (simp add: align_up_def mask_eq_exp_minus_1 minus_mod_eq_div_mult)

lemma align_up_ge: "x \<le> align_up x (2 ^ n)"
proof -
  have "(x + 2 ^ n - 1) mod 2 ^ n < 2 ^ n" by simp
  then show ?thesis
    unfolding align_up_pow2 minus_mod_eq_div_mult [symmetric] by linarith
qed

lemma align_up_less: "align_up x (2 ^ n) < x + 2 ^ n"
proof -
  have "0 \<le> (x + 2 ^ n - 1) mod 2 ^ n" by simp
  then show ?thesis
    unfolding align_up_pow2 minus_mod_eq_div_mult [symmetric] by linarith
qed

lemma align_up_dvd: "2 ^ n dvd align_up x (2 ^ n)"
  by (simp add: align_up_pow2)

lemma align_up_id: "2 ^ n dvd x \<Longrightarrow> align_up x (2 ^ n) = x"
proof -
  assume d: "2 ^ n dvd x"
  then have "2 ^ n dvd align_up x (2 ^ n) - x" by (simp add: align_up_dvd)
  moreover have "0 \<le> align_up x (2 ^ n) - x" "align_up x (2 ^ n) - x < 2 ^ n"
    using align_up_ge [of x n] align_up_less [of x n] by auto
  ultimately have "align_up x (2 ^ n) - x = 0"
    by (meson zdvd_imp_le not_less order_le_less)
  then show ?thesis by simp
qed

section \<open>Bytes and words\<close>

lemma unat_lt8: "unat (x :: 8 word) < 256"
  using unsigned_less [of x] by simp

lemma unat_ucast8 [simp]: "unat (ucast (b :: 8 word) :: 32 word) = unat b"
  using unat_lt8 [of b] by (simp add: unsigned_ucast_eq take_bit_nat_eq_self)

lemma sint_small: "unat (w :: 32 word) < 2 ^ 31 \<Longrightarrow> sint w = int (unat w)"
proof -
  assume "unat w < 2 ^ 31"
  then have "int (unat w) < int (2 ^ 31)" by (simp only: of_nat_less_iff)
  then have "uint w < 2 ^ 31" unfolding of_nat_unat by simp
  then show ?thesis unfolding sint_uint
    by (subst signed_take_bit_int_eq_self) (simp_all add: order_trans [OF _ unsigned_greater_eq])
qed

end
