(* ===== verification/MessageQueue.thy ===== *)
theory MessageQueue
  imports CedarPrelude
begin

text \<open>
  The message queue of \<^verbatim>\<open>base/CdcMessageQueue.c\<close>: a fixed table of nodes, a linked list
  of the nodes in use, a counter and a semaphore that counts the messages for waiting
  readers. First the functions as they run alone, then the system of many threads, where a
  call is cut at the points where it leaves the mutex.
\<close>

section \<open>Data\<close>

record CdcMessage =
  messageId :: int
  params :: "64 word list"

text \<open>A node pointer is the node's index in \<^verbatim>\<open>Nodes\<close>; NULL is \<open>None\<close>.\<close>

record MessageNode =
  next_node :: "nat option"
  valid :: bool
  msg :: CdcMessage

record MessageQueueContext =
  pName :: "string option"
  pHead :: "nat option"
  nCount :: int
  Nodes :: "nat \<Rightarrow> MessageNode"
  nMaxMessageNum :: int
  sem :: nat

section \<open>Creation and destruction\<close>

text \<open>
  The heap blocks a queue is made of. Whether an allocation succeeds is decided by the
  C library, here by \<open>ok\<close>; the functions return the blocks that are allocated when they
  return.
\<close>

datatype block = CtxBlock | NameBlock | NodesBlock | MsgBlock nat

definition empty_message :: CdcMessage where
  "empty_message = \<lparr>messageId = 0, params = [0, 0, 0, 0]\<rparr>"

definition zero_node :: MessageNode where
  "zero_node = \<lparr>next_node = None, valid = False, msg = empty_message\<rparr>"

text \<open>The loop that allocates the messages; \<open>Inl\<close> is its error path, all blocks \<open>j < i\<close> freed.\<close>

fun calloc_msgs :: "(block \<Rightarrow> bool) \<Rightarrow> nat \<Rightarrow> nat \<Rightarrow> block set \<Rightarrow> block set + block set" where
  "calloc_msgs ok i 0 live = Inr live"
| "calloc_msgs ok i (Suc n) live =
     (if ok (MsgBlock i) then calloc_msgs ok (Suc i) n (insert (MsgBlock i) live)
      else Inl (live - MsgBlock ` {0..<i}))"

definition CdcMessageQueueCreate ::
    "(block \<Rightarrow> bool) \<Rightarrow> int \<Rightarrow> string option \<Rightarrow> MessageQueueContext option \<times> block set" where
  "CdcMessageQueueCreate ok nMax name =
     (if \<not> ok CtxBlock then (None, {})
      else
        let pname = (if ok NameBlock then name else None);
            live = insert CtxBlock (if pname \<noteq> None then {NameBlock} else {})
        in if \<not> ok NodesBlock
           then (None, live - (if pname \<noteq> None then {NameBlock} else {}) - {CtxBlock})
           else case calloc_msgs ok 0 (nat nMax) (insert NodesBlock live) of
             Inl live' \<Rightarrow> (None, live' - {NameBlock} - {NodesBlock} - {CtxBlock})
           | Inr live' \<Rightarrow>
               (Some \<lparr>pName = pname, pHead = None, nCount = 0, Nodes = (\<lambda>_. zero_node),
                      nMaxMessageNum = nMax, sem = 0\<rparr>, live'))"

definition CdcMessageQueueDestroy :: "MessageQueueContext \<Rightarrow> block set \<Rightarrow> block set" where
  "CdcMessageQueueDestroy q live =
     live - MsgBlock ` {0..<nat (nMaxMessageNum q)} - {NodesBlock}
       - (if pName q \<noteq> None then {NameBlock} else {}) - {CtxBlock}"

section \<open>Posting, getting, flushing\<close>

text \<open>The scan for a free node, \<open>n\<close> nodes from index \<open>i\<close> on.\<close>

fun find_free :: "(nat \<Rightarrow> MessageNode) \<Rightarrow> nat \<Rightarrow> nat \<Rightarrow> nat option" where
  "find_free nodes i 0 = None"
| "find_free nodes i (Suc n) =
     (if \<not> valid (nodes i) then Some i else find_free nodes (Suc i) n)"

text \<open>The part of \<^verbatim>\<open>CdcMessageQueuePostMessage\<close> between lock and unlock.\<close>

definition post_locked ::
    "MessageQueueContext \<Rightarrow> CdcMessage \<Rightarrow> (int \<times> MessageQueueContext) res" where
  "post_locked q m =
     (if nCount q \<ge> nMaxMessageNum q then Inr (-1, q)
      else case find_free (Nodes q) 0 (nat (nMaxMessageNum q)) of
        None \<Rightarrow> Inl NullDeref
      | Some node \<Rightarrow>
          let nodes = (Nodes q)(node := \<lparr>next_node = None, valid = True, msg = m\<rparr>)
          in case pHead q of
               None \<Rightarrow> Inr (0, q\<lparr>Nodes := nodes, pHead := Some node, nCount := nCount q + 1\<rparr>)
             | Some p \<Rightarrow>
                 and_then (of_option Diverges (walk_last (\<lambda>i. next_node (nodes i)) p)) (\<lambda>l.
                   Inr (0, q\<lparr>Nodes := nodes(l := (nodes l)\<lparr>next_node := Some node\<rparr>),
                             nCount := nCount q + 1\<rparr>)))"

definition sem_post :: "MessageQueueContext \<Rightarrow> MessageQueueContext" where
  "sem_post q = q\<lparr>sem := Suc (sem q)\<rparr>"

definition CdcMessageQueuePostMessage ::
    "MessageQueueContext \<Rightarrow> CdcMessage \<Rightarrow> (int \<times> MessageQueueContext) res" where
  "CdcMessageQueuePostMessage q m =
     and_then (post_locked q m) (\<lambda>(r, q'). Inr (r, if r = 0 then sem_post q' else q'))"

text \<open>
  \<^verbatim>\<open>SemTimedWait\<close>: with a token it takes it; without one it waits, forever for the
  timeout \<^verbatim>\<open>-1\<close> (no return: \<open>Diverges\<close>), else until the deadline, when it fails.
\<close>

definition SemTimedWait :: "MessageQueueContext \<Rightarrow> int \<Rightarrow> (int \<times> MessageQueueContext) res" where
  "SemTimedWait q time_ms =
     (if sem q > 0 then Inr (0, q\<lparr>sem := sem q - 1\<rparr>)
      else if time_ms = -1 then Inl Diverges
      else Inr (-1, q))"

text \<open>
  The deadline it passes to \<^verbatim>\<open>sem_timedwait\<close> (seconds, nanoseconds), from the clock's
  \<open>(sec, nsec)\<close>.
\<close>

definition sem_deadline :: "int \<Rightarrow> int \<Rightarrow> int \<Rightarrow> int \<times> int" where
  "sem_deadline sec nsec time_ms =
     (let nsec1 = nsec + time_ms smod 1000 * 1000 * 1000;
          sec1 = sec + (time_ms sdiv 1000 + nsec1 sdiv (1000 * 1000 * 1000))
      in (sec1, nsec1 smod (1000 * 1000 * 1000)))"

text \<open>The part of \<^verbatim>\<open>CdcMessageQueueTryGetMessage\<close> between lock and unlock.\<close>

definition get_locked ::
    "MessageQueueContext \<Rightarrow> (int \<times> CdcMessage option \<times> MessageQueueContext) res" where
  "get_locked q =
     (if nCount q \<le> 0 then Inr (-1, None, q)
      else case pHead q of
        None \<Rightarrow> Inl NullDeref
      | Some node \<Rightarrow>
          Inr (0, Some (msg (Nodes q node)),
               q\<lparr>pHead := next_node (Nodes q node),
                 Nodes := (Nodes q)(node := (Nodes q node)\<lparr>valid := False\<rparr>),
                 nCount := nCount q - 1\<rparr>))"

definition CdcMessageQueueTryGetMessage ::
    "MessageQueueContext \<Rightarrow> int \<Rightarrow> (int \<times> CdcMessage option \<times> MessageQueueContext) res" where
  "CdcMessageQueueTryGetMessage q timeout =
     and_then (SemTimedWait q timeout) (\<lambda>(err, q1).
       if err < 0 then Inr (-1, None, q1) else get_locked q1)"


definition CdcMessageQueueWaitMessage ::
    "MessageQueueContext \<Rightarrow> int \<Rightarrow> (int \<times> MessageQueueContext) res" where
  "CdcMessageQueueWaitMessage q timeout =
     and_then (SemTimedWait q timeout) (\<lambda>(err, q1).
       if err < 0 then Inr (-1, q1) else Inr (nCount q1, sem_post q1))"

text \<open>The loop of \<^verbatim>\<open>sem_getvalue\<close> and \<^verbatim>\<open>sem_trywait\<close>.\<close>

fun drain_sem :: "nat \<Rightarrow> nat" where
  "drain_sem 0 = 0"
| "drain_sem (Suc n) = drain_sem n"

definition CdcMessageQueueFlush :: "MessageQueueContext \<Rightarrow> MessageQueueContext" where
  "CdcMessageQueueFlush q =
     q\<lparr>pHead := None, nCount := 0,
       Nodes := (\<lambda>i. if int i < nMaxMessageNum q then (Nodes q i)\<lparr>valid := False\<rparr>
                     else Nodes q i),
       sem := drain_sem (sem q)\<rparr>"

definition CdcMessageQueueGetCount :: "MessageQueueContext \<Rightarrow> int" where
  "CdcMessageQueueGetCount q = nCount q"

section \<open>What a queue means\<close>

text \<open>
  \<open>mq_links q ps\<close>: the list from \<^verbatim>\<open>pHead\<close> visits the nodes \<open>ps\<close>, which are exactly the
  valid ones of the table, and \<^verbatim>\<open>nCount\<close> counts them. \<open>mq_rep cap q ms\<close>: a queue of
  capacity \<open>cap\<close> that holds the messages \<open>ms\<close>, with one semaphore token each.
\<close>

definition mq_links :: "MessageQueueContext \<Rightarrow> nat list \<Rightarrow> bool" where
  "mq_links q ps \<longleftrightarrow>
     chain (\<lambda>i. next_node (Nodes q i)) (pHead q) ps \<and>
     (\<forall>i. int i < nMaxMessageNum q \<longrightarrow> (valid (Nodes q i) \<longleftrightarrow> i \<in> set ps)) \<and>
     (\<forall>p \<in> set ps. int p < nMaxMessageNum q) \<and>
     nCount q = int (length ps)"

definition mq_messages :: "MessageQueueContext \<Rightarrow> nat list \<Rightarrow> CdcMessage list" where
  "mq_messages q ps = map (\<lambda>p. msg (Nodes q p)) ps"

definition mq_rep :: "nat \<Rightarrow> MessageQueueContext \<Rightarrow> CdcMessage list \<Rightarrow> bool" where
  "mq_rep cap q ms \<longleftrightarrow> nMaxMessageNum q = int cap \<and> sem q = length ms \<and>
     (\<exists>ps. mq_links q ps \<and> mq_messages q ps = ms)"

lemma find_free_Some:
  "find_free nodes i n = Some k \<Longrightarrow> i \<le> k \<and> k < i + n \<and> \<not> valid (nodes k)"
  by (induction n arbitrary: i) (fastforce split: if_splits)+

lemma find_free_None: "find_free nodes i n = None \<Longrightarrow> i \<le> k \<Longrightarrow> k < i + n \<Longrightarrow> valid (nodes k)"
proof (induction n arbitrary: i)
  case 0
  then show ?case by simp
next
  case (Suc n)
  then show ?case by (cases "k = i") (auto split: if_splits)
qed

text \<open>While the counter is below the maximum, the scan finds a node (a pigeonhole).\<close>

lemma find_free_total:
  assumes "mq_links q ps" and "nCount q < nMaxMessageNum q"
  shows "\<exists>k. find_free (Nodes q) 0 (nat (nMaxMessageNum q)) = Some k \<and> int k < nMaxMessageNum q
    \<and> k \<notin> set ps"
proof (cases "find_free (Nodes q) 0 (nat (nMaxMessageNum q))")
  case None
  have "{0..<nat (nMaxMessageNum q)} \<subseteq> set ps"
  proof
    fix k assume "k \<in> {0..<nat (nMaxMessageNum q)}"
    moreover from this have "valid (Nodes q k)" by (intro find_free_None [OF None]) auto
    ultimately show "k \<in> set ps" using assms(1) by (auto simp: mq_links_def)
  qed
  then have "nat (nMaxMessageNum q) \<le> card (set ps)"
    by (metis List.finite_set card_atLeastLessThan card_mono diff_zero)
  also have "\<dots> \<le> length ps" by (rule card_length)
  finally show ?thesis using assms by (simp add: mq_links_def)
next
  case (Some k)
  with find_free_Some [OF Some] assms(1) show ?thesis by (auto simp: mq_links_def)
qed

lemma mq_links_distinct: "mq_links q ps \<Longrightarrow> distinct ps"
  by (auto simp: mq_links_def dest: chain_distinct)

lemma post_locked_full:
  "nMaxMessageNum q \<le> nCount q \<Longrightarrow> post_locked q m = Inr (-1, q)"
  by (simp add: post_locked_def)

text \<open>Posting below the limit links one more node at the end and disturbs no message.\<close>

lemma post_locked_links:
  assumes "mq_links q ps" and "nCount q < nMaxMessageNum q"
  shows "\<exists>q' k. post_locked q m = Inr (0, q') \<and> mq_links q' (ps @ [k]) \<and>
    mq_messages q' (ps @ [k]) = mq_messages q ps @ [m] \<and>
    sem q' = sem q \<and> nMaxMessageNum q' = nMaxMessageNum q"
proof -
  obtain k where k: "find_free (Nodes q) 0 (nat (nMaxMessageNum q)) = Some k"
      "int k < nMaxMessageNum q" "k \<notin> set ps"
    using find_free_total [OF assms] by blast
  let ?nodes = "(Nodes q)(k := \<lparr>next_node = None, valid = True, msg = m\<rparr>)"
  have nx: "(\<lambda>i. next_node (?nodes i)) = (\<lambda>i. next_node (Nodes q i))(k := None)" by auto
  have chain: "chain (\<lambda>i. next_node (?nodes i)) (pHead q) ps"
    unfolding nx using assms(1) k(3) by (simp add: mq_links_def)
  show ?thesis
  proof (cases ps)
    case Nil
    with assms k chain show ?thesis
      by (auto simp: post_locked_def mq_links_def mq_messages_def Let_def)
  next
    case (Cons p qs)
    with chain have hd: "pHead q = Some p" by simp
    with chain have last: "walk_last (\<lambda>i. next_node (?nodes i)) p = Some (last ps)"
      by (metis walk_last_chain)
    have ne: "last ps \<noteq> k" and mem: "last ps \<in> set ps" using k(3) Cons by auto
    let ?q' = "q\<lparr>Nodes := ?nodes(last ps := (?nodes (last ps))\<lparr>next_node := Some k\<rparr>),
                 nCount := nCount q + 1\<rparr>"
    have post: "post_locked q m = Inr (0, ?q')"
      using assms(2) k(1) hd last by (simp add: post_locked_def Let_def)
    have nx': "(\<lambda>i. next_node (Nodes ?q' i)) =
        (\<lambda>i. next_node (?nodes i))(last ps := Some k, k := None)" using ne by auto
    have "chain (\<lambda>i. next_node (Nodes ?q' i)) (pHead q) (ps @ [k])"
      unfolding nx' using chain k(3) Cons by (intro chain_snoc) auto
    then have "mq_links ?q' (ps @ [k])"
      using assms(1) k(2,3) mem by (auto simp: mq_links_def)
    moreover have "mq_messages ?q' (ps @ [k]) = mq_messages q ps @ [m]"
      using k(3) ne by (auto simp: mq_messages_def)
    ultimately show ?thesis using post by auto
  qed
qed

lemma get_locked_links:
  assumes "mq_links q (p # ps)"
  shows "\<exists>q'. get_locked q = Inr (0, Some (msg (Nodes q p)), q') \<and> mq_links q' ps \<and>
    mq_messages q' ps = mq_messages q ps \<and> sem q' = sem q \<and>
    nMaxMessageNum q' = nMaxMessageNum q"
proof -
  have p: "p \<notin> set ps" using mq_links_distinct [OF assms] by simp
  let ?q' = "q\<lparr>pHead := next_node (Nodes q p),
      Nodes := (Nodes q)(p := (Nodes q p)\<lparr>valid := False\<rparr>), nCount := nCount q - 1\<rparr>"
  have nx: "(\<lambda>i. next_node (Nodes ?q' i)) = (\<lambda>i. next_node (Nodes q i))" by auto
  have "get_locked q = Inr (0, Some (msg (Nodes q p)), ?q')"
    using assms by (simp add: get_locked_def mq_links_def)
  moreover have "mq_links ?q' ps"
    using assms p unfolding mq_links_def nx by auto
  moreover have "mq_messages ?q' ps = mq_messages q ps"
    using p by (auto simp: mq_messages_def)
  ultimately show ?thesis by auto
qed


section \<open>The queue as a bounded FIFO\<close>

definition mq_enq :: "MessageQueueContext \<Rightarrow> CdcMessage \<Rightarrow> MessageQueueContext res" where
  "mq_enq q m = and_then (CdcMessageQueuePostMessage q m) (\<lambda>(r, q'). Inr q')"

definition mq_deq :: "MessageQueueContext \<Rightarrow> (CdcMessage option \<times> MessageQueueContext) res" where
  "mq_deq q = and_then (CdcMessageQueueTryGetMessage q 0) (\<lambda>(r, m, q'). Inr (m, q'))"

lemmas mq_call_defs = mq_enq_def mq_deq_def CdcMessageQueuePostMessage_def
  CdcMessageQueueTryGetMessage_def SemTimedWait_def sem_post_def

lemma mq_links_sem [simp]: "mq_links (q\<lparr>sem := n\<rparr>) ps = mq_links q ps"
  by (simp add: mq_links_def)

lemma mq_messages_sem [simp]: "mq_messages (q\<lparr>sem := n\<rparr>) ps = mq_messages q ps"
  by (simp add: mq_messages_def)

text \<open>The three calls on a queue that holds given messages.\<close>

lemma post_rep:
  assumes rep: "mq_rep cap q xs" and room: "length xs < cap"
  shows "\<exists>q'. CdcMessageQueuePostMessage q x = Inr (0, q') \<and> mq_rep cap q' (xs @ [x])"
proof -
  from rep obtain ps where ps: "mq_links q ps" "mq_messages q ps = xs" "sem q = length xs"
      "nMaxMessageNum q = int cap"
    by (auto simp: mq_rep_def)
  then have "nCount q < nMaxMessageNum q"
    using room by (auto simp: mq_links_def mq_messages_def)
  from post_locked_links [OF ps(1) this, of x] ps
  obtain q' k where q': "post_locked q x = Inr (0, q')" "mq_links q' (ps @ [k])"
      "mq_messages q' (ps @ [k]) = xs @ [x]" "sem q' = length xs" "nMaxMessageNum q' = int cap"
    by auto
  then show ?thesis by (auto simp: mq_call_defs mq_rep_def)
qed

lemma get_rep:
  assumes "mq_rep cap q (x # xs)"
  shows "\<exists>q'. CdcMessageQueueTryGetMessage q t = Inr (0, Some x, q') \<and> mq_rep cap q' xs"
proof -
  from assms obtain p ps where ps: "mq_links q (p # ps)" "msg (Nodes q p) = x"
      "mq_messages q ps = xs" "sem q = Suc (length xs)" "nMaxMessageNum q = int cap"
    by (auto simp: mq_rep_def mq_messages_def)
  from ps(1) have "mq_links (q\<lparr>sem := length xs\<rparr>) (p # ps)" by simp
  from get_locked_links [OF this] ps show ?thesis by (auto simp: mq_call_defs mq_rep_def)
qed

lemma count_rep: "mq_rep cap q xs \<Longrightarrow> CdcMessageQueueGetCount q = int (length xs)"
  by (auto simp: mq_rep_def mq_links_def mq_messages_def CdcMessageQueueGetCount_def)

interpretation mq: bounded_fifo "mq_rep cap" "\<lambda>xs x. length xs < cap" mq_enq mq_deq cap
  for cap
proof
  fix q xs x
  assume "mq_rep cap q xs" and "length xs < cap"
  from post_rep [OF this, of x] show "\<exists>q'. mq_enq q x = Inr q' \<and> mq_rep cap q' (xs @ [x])"
    by (auto simp: mq_enq_def)
next
  fix q
  assume "mq_rep cap q []"
  then show "\<exists>q'. mq_deq q = Inr (None, q') \<and> mq_rep cap q' []"
    by (auto simp: mq_call_defs mq_rep_def)
next
  fix q x xs
  assume "mq_rep cap q (x # xs)"
  from get_rep [OF this, of 0] show "\<exists>q'. mq_deq q = Inr (Some x, q') \<and> mq_rep cap q' xs"
    by (auto simp: mq_deq_def)
next
  fix xs :: "CdcMessage list" and x
  show "length xs < cap \<longleftrightarrow> length xs < cap" by simp
next
  fix q xs x
  assume "mq_rep cap q xs" and "\<not> length xs < cap"
  then have "nMaxMessageNum q \<le> nCount q"
    by (auto simp: mq_rep_def mq_links_def mq_messages_def)
  then show "mq_enq q x = Inr q" by (simp add: mq_call_defs post_locked_full)
qed

section \<open>Creation: no leak on any path\<close>

lemma calloc_msgs_Inr:
  "calloc_msgs ok i n live = Inr live' \<Longrightarrow> live' = live \<union> MsgBlock ` {i..<i + n}"
proof (induction n arbitrary: i live)
  case 0
  then show ?case by simp
next
  case (Suc n)
  then have "calloc_msgs ok (Suc i) n (insert (MsgBlock i) live) = Inr live'"
    by (simp split: if_splits)
  then have "live' = insert (MsgBlock i) live \<union> MsgBlock ` {Suc i..<Suc i + n}"
    by (rule Suc.IH)
  moreover have "{i..<i + Suc n} = insert i {Suc i..<Suc i + n}" by auto
  ultimately show ?case by simp
qed

lemma calloc_msgs_Inl:
  "calloc_msgs ok i n live = Inl live' \<Longrightarrow> live \<subseteq> L \<union> MsgBlock ` {0..<i} \<Longrightarrow>
     live' \<subseteq> L"
proof (induction n arbitrary: i live)
  case 0
  then show ?case by simp
next
  case (Suc n)
  show ?case
  proof (cases "ok (MsgBlock i)")
    case True
    have "insert (MsgBlock i) live \<subseteq> L \<union> MsgBlock ` {0..<Suc i}" using Suc.prems(2) by auto
    from Suc.IH [OF _ this] Suc.prems(1) True show ?thesis by simp
  next
    case False
    with Suc.prems show ?thesis by auto
  qed
qed

lemma create_failed_live:
  "CdcMessageQueueCreate ok nMax name = (None, live) \<Longrightarrow> live = {}"
  by (auto simp: CdcMessageQueueCreate_def Let_def split: if_splits sum.splits
      dest!: calloc_msgs_Inl [where L = "{CtxBlock, NameBlock, NodesBlock}"])

lemma create_Some:
  "CdcMessageQueueCreate ok nMax name = (Some q, live) \<Longrightarrow>
     q = \<lparr>pName = (if ok NameBlock then name else None), pHead = None, nCount = 0,
          Nodes = (\<lambda>_. zero_node), nMaxMessageNum = nMax, sem = 0\<rparr> \<and>
     live = {CtxBlock, NodesBlock} \<union> (if pName q \<noteq> None then {NameBlock} else {})
              \<union> MsgBlock ` {0..<nat nMax}"
  by (auto simp: CdcMessageQueueCreate_def Let_def split: if_splits sum.splits
      dest!: calloc_msgs_Inr)

lemma create_rep:
  "CdcMessageQueueCreate ok (int cap) name = (Some q, live) \<Longrightarrow> mq_rep cap q []"
  by (drule create_Some) (auto simp: mq_rep_def mq_links_def mq_messages_def zero_node_def)

section \<open>Many threads\<close>

text \<open>
  Every thread runs the functions above, cut where it leaves the mutex: a post is its
  critical section and then \<^verbatim>\<open>sem_post\<close>; a get is the wait on the semaphore and then its
  critical section; \<^verbatim>\<open>CdcMessageQueueWaitMessage\<close> takes a token and puts it back. Between two
  pieces any other thread may move. \<open>posting\<close>, \<open>getting\<close> and \<open>waiting\<close> count the threads
  that are between the two pieces of a call.
\<close>

record mq_sys =
  mq :: MessageQueueContext
  posting :: nat
  getting :: nat
  waiting :: nat

inductive mq_step :: "mq_sys \<Rightarrow> mq_sys \<Rightarrow> bool" where
  post_enter: "post_locked (mq s) m = Inr (0, q) \<Longrightarrow>
     mq_step s (s\<lparr>mq := q, posting := Suc (posting s)\<rparr>)"
| post_full: "post_locked (mq s) m = Inr (-1, q) \<Longrightarrow> mq_step s (s\<lparr>mq := q\<rparr>)"
| post_signal: "posting s = Suc n \<Longrightarrow> mq_step s (s\<lparr>mq := sem_post (mq s), posting := n\<rparr>)"
| get_wait: "SemTimedWait (mq s) t = Inr (0, q) \<Longrightarrow>
     mq_step s (s\<lparr>mq := q, getting := Suc (getting s)\<rparr>)"
| get_take: "getting s = Suc n \<Longrightarrow> get_locked (mq s) = Inr (r, m, q) \<Longrightarrow>
     mq_step s (s\<lparr>mq := q, getting := n\<rparr>)"
| wait_take: "SemTimedWait (mq s) t = Inr (0, q) \<Longrightarrow>
     mq_step s (s\<lparr>mq := q, waiting := Suc (waiting s)\<rparr>)"
| wait_return: "waiting s = Suc n \<Longrightarrow> mq_step s (s\<lparr>mq := sem_post (mq s), waiting := n\<rparr>)"
| flush: "mq_step s (s\<lparr>mq := CdcMessageQueueFlush (mq s)\<rparr>)"

inductive_cases mq_stepE: "mq_step s t"






lemma drain_sem_0 [simp]: "drain_sem n = 0"
  by (induction n) auto



section \<open>Properties\<close>

text \<open>C2: a freshly created message queue of capacity \<open>cap\<close> answers every sequence of posts and
  polls as a list of at most \<open>cap\<close> messages does: posts beyond the capacity are refused, polls
  return the messages in the order of the posts, and no call faults (in particular the scan
  for a free node always finds one and the walk to the last node always ends).\<close>

theorem message_queue_is_bounded_fifo:
  assumes "CdcMessageQueueCreate ok (int cap) name = (Some q, live)"
  shows "\<exists>q'. run_queue mq_enq mq_deq q ops = Inr (fst (run_list cap [] ops), q') \<and>
    mq_rep cap q' (snd (run_list cap [] ops))"
  by (rule mq.run_queue_rep [OF create_rep [OF assms] refl])

theorem message_queue_is_bounded_fifo_witness:
  "\<exists>q q'. CdcMessageQueueCreate (\<lambda>_. True) (int 2) None
      = (Some q, {CtxBlock, NodesBlock, MsgBlock 0, MsgBlock 1}) \<and>
    run_queue mq_enq mq_deq q [Put \<lparr>messageId = 1, params = []\<rparr>, Put \<lparr>messageId = 2, params = []\<rparr>,
      Put \<lparr>messageId = 3, params = []\<rparr>, Take] = Inr ([Some \<lparr>messageId = 1, params = []\<rparr>], q')"
proof -
  let ?ops = "[Put \<lparr>messageId = 1, params = []\<rparr>, Put \<lparr>messageId = 2, params = []\<rparr>,
      Put \<lparr>messageId = 3, params = []\<rparr>, Take]"
  obtain q where q: "CdcMessageQueueCreate (\<lambda>_. True) (int 2) None
      = (Some q, {CtxBlock, NodesBlock, MsgBlock 0, MsgBlock 1})"
    by (auto simp: CdcMessageQueueCreate_def numeral_2_eq_2 insert_commute)
  from message_queue_is_bounded_fifo [OF q, of ?ops] q show ?thesis
    by (auto simp: numeral_2_eq_2)
qed

text \<open>C3: creation leaks nothing whichever allocation fails, and destroying a created queue
  frees every block that its creation allocated.\<close>

theorem message_queue_create_destroy_no_leak:
  "case CdcMessageQueueCreate ok nMax name of
     (None, live) \<Rightarrow> live = {}
   | (Some q, live) \<Rightarrow> CdcMessageQueueDestroy q live = {}"
  using create_failed_live [of ok nMax name] create_Some [of ok nMax name]
  by (auto simp: CdcMessageQueueDestroy_def split: prod.splits option.splits)



text \<open>The deadline of a timed wait is exactly the clock plus the timeout, and its nanoseconds
  are a proper fraction of a second, as \<^verbatim>\<open>sem_timedwait\<close> requires.\<close>

theorem sem_deadline_exact:
  assumes "0 \<le> nsec" and "nsec < 1000000000" and "0 \<le> time_ms"
  shows "case sem_deadline sec nsec time_ms of (s, n) \<Rightarrow>
    0 \<le> n \<and> n < 1000000000 \<and>
    s * 1000000000 + n = sec * 1000000000 + nsec + time_ms * 1000000"
proof -
  let ?n = "nsec + time_ms mod 1000 * 1000000"
  have "time_ms div 1000 * 1000000000 + 1000000 * (time_ms mod 1000) = time_ms * 1000000"
    using div_mult_mod_eq [of time_ms 1000] by linarith
  moreover have "?n = ?n div 1000000000 * 1000000000 + ?n mod 1000000000" by simp
  moreover have "0 \<le> ?n" using assms by simp
  ultimately show ?thesis using assms by (simp add: sem_deadline_def Let_def)
qed

theorem sem_deadline_exact_witness:
  "sem_deadline 10 999000000 2500 = (13, 499000000) \<and>
   (13::int) * 1000000000 + 499000000 = 10 * 1000000000 + 999000000 + 2500 * 1000000"
  using sem_deadline_exact [of 999000000 2500 10]
  by (simp add: sem_deadline_def Let_def)

end
