(* ===== verification/SbmStream.thy ===== *)
theory SbmStream
  imports CedarPrelude
begin

text \<open>
  The stream buffer manager of \<^verbatim>\<open>vdecoder/sbm/sbmStream.c\<close>: a ring of frame descriptors
  with three positions (write, read, flush) over a ring of bytes with one write address.
  Bytes are written by the client at the address the manager hands out; the manager itself
  only moves positions, which is what is modelled.
\<close>

section \<open>Data\<close>

text \<open>Addresses are integers, NULL is 0.\<close>

record VideoStreamDataInfo =
  pData :: int
  nLength :: int
  nPts :: int
  nPcr :: int
  bIsFirstPart :: int
  bIsLastPart :: int
  nID :: int
  nStreamIndex :: int
  bValid :: int
  bVideoInfoFlag :: int
  pVideoInfo :: int

record StreamFrameFifo =
  pFrames :: "nat \<Rightarrow> VideoStreamDataInfo"
  nMaxFrameNum :: int
  nValidFrameNum :: int
  nUnReadFrameNum :: int
  nReadPos :: int
  nWritePos :: int
  nFlushPos :: int

record SbmStream =
  pStreamBuffer :: int
  pStreamBufferEnd :: int
  nStreamBufferSize :: int
  pWriteAddr :: int
  nValidDataSize :: int
  frameFifo :: StreamFrameFifo

text \<open>
  A pointer to a descriptor: an element of the \<^verbatim>\<open>pFrames\<close> array, or an object of the caller.
\<close>

datatype stream_ptr = Slot nat | Foreign nat

definition zero_info :: VideoStreamDataInfo where
  "zero_info = \<lparr>pData = 0, nLength = 0, nPts = 0, nPcr = 0, bIsFirstPart = 0, bIsLastPart = 0,
     nID = 0, nStreamIndex = 0, bValid = 0, bVideoInfoFlag = 0, pVideoInfo = 0\<rparr>"

definition SBM_FRAME_FIFO_SIZE :: int where
  "SBM_FRAME_FIFO_SIZE = 2048"

text \<open>An access \<^verbatim>\<open>pFrames[pos]\<close>: the array has \<^verbatim>\<open>nMaxFrameNum\<close> elements.\<close>

definition slot :: "StreamFrameFifo \<Rightarrow> int \<Rightarrow> nat res" where
  "slot f pos = (if 0 \<le> pos \<and> pos < nMaxFrameNum f then Inr (nat pos) else Inl OutOfBounds)"

section \<open>Creation\<close>

text \<open>
  The configuration as far as it is read, and what the environment answers: the stream
  buffer's address (\<open>None\<close>: no memory), whether the frame array could be allocated and the
  mutex initialised. On the two late error paths the code frees \<^verbatim>\<open>pSbm\<close> and then reads
  \<^verbatim>\<open>pSbm->mConfig\<close>.
\<close>

record SbmConfig =
  bVirFlag :: int
  nSbmBufferTotalSize :: int

definition SbmStreamInit ::
    "SbmConfig option \<Rightarrow> int option \<Rightarrow> bool \<Rightarrow> bool \<Rightarrow> (int \<times> SbmStream option) res" where
  "SbmStreamInit pSbmConfig pSbmBuf framesOk mutexOk =
     (case pSbmConfig of
        None \<Rightarrow> Inr (-1, None)
      | Some cfg \<Rightarrow>
          if nSbmBufferTotalSize cfg \<le> 0 then Inr (-1, None)
          else case pSbmBuf of
            None \<Rightarrow> Inr (-1, None)
          | Some buf \<Rightarrow>
              if \<not> framesOk then Inl UseAfterFree
              else if \<not> mutexOk then Inl UseAfterFree
              else Inr (0, Some
                \<lparr>pStreamBuffer = buf,
                 pStreamBufferEnd = buf + nSbmBufferTotalSize cfg - 1,
                 nStreamBufferSize = nSbmBufferTotalSize cfg,
                 pWriteAddr = buf,
                 nValidDataSize = 0,
                 frameFifo =
                   \<lparr>pFrames = (\<lambda>i. zero_info\<lparr>nID := int i\<rparr>),
                    nMaxFrameNum = SBM_FRAME_FIFO_SIZE,
                    nValidFrameNum = 0, nUnReadFrameNum = 0,
                    nReadPos = 0, nWritePos = 0, nFlushPos = 0\<rparr>\<rparr>))"

section \<open>Operations\<close>

text \<open>Each takes the handle, possibly NULL; \<^verbatim>\<open>pthread_mutex_lock\<close> succeeds on the mutex of
  an initialised buffer.\<close>

fun SbmStreamReset :: "SbmStream option \<Rightarrow> SbmStream option" where
  "SbmStreamReset None = None"
| "SbmStreamReset (Some s) =
     Some (s\<lparr>pWriteAddr := pStreamBuffer s, nValidDataSize := 0,
             frameFifo := (frameFifo s)\<lparr>nReadPos := 0, nWritePos := 0, nFlushPos := 0,
                                       nValidFrameNum := 0, nUnReadFrameNum := 0\<rparr>\<rparr>)"

fun SbmStreamGetBufferAddress :: "SbmStream option \<Rightarrow> int" where
  "SbmStreamGetBufferAddress None = 0"
| "SbmStreamGetBufferAddress (Some s) = pStreamBuffer s"

fun SbmStreamGetBufferSize :: "SbmStream option \<Rightarrow> int" where
  "SbmStreamGetBufferSize None = 0"
| "SbmStreamGetBufferSize (Some s) = nStreamBufferSize s"

fun SbmStreamGetStreamFrameNum :: "SbmStream option \<Rightarrow> int" where
  "SbmStreamGetStreamFrameNum None = 0"
| "SbmStreamGetStreamFrameNum (Some s) = nValidFrameNum (frameFifo s)"

fun SbmStreamGetStreamDataSize :: "SbmStream option \<Rightarrow> int" where
  "SbmStreamGetStreamDataSize None = 0"
| "SbmStreamGetStreamDataSize (Some s) = nValidDataSize s"

fun SbmStreamGetBufferWritePointer :: "SbmStream option \<Rightarrow> int" where
  "SbmStreamGetBufferWritePointer None = 0"
| "SbmStreamGetBufferWritePointer (Some s) = pWriteAddr s"

fun SbmStreamGetBufferDataInfo :: "SbmStream option \<Rightarrow> int res" where
  "SbmStreamGetBufferDataInfo None = Inr 0"
| "SbmStreamGetBufferDataInfo (Some s) =
     (if nUnReadFrameNum (frameFifo s) = 0 then Inr 0
      else and_then (slot (frameFifo s) (nReadPos (frameFifo s))) (\<lambda>i.
             Inr (pVideoInfo (pFrames (frameFifo s) i))))"

text \<open>Returns the result code and, on success, the address and size of the buffer.\<close>

fun SbmStreamRequestBuffer :: "SbmStream option \<Rightarrow> int \<Rightarrow> (int \<times> (int \<times> int) option) res" where
  "SbmStreamRequestBuffer None nRequireSize = Inr (-1, None)"
| "SbmStreamRequestBuffer (Some s) nRequireSize =
     (if nValidFrameNum (frameFifo s) \<ge> nMaxFrameNum (frameFifo s) then Inr (-1, None)
      else if nValidDataSize s < nStreamBufferSize s then
        (let nFreeSize = nStreamBufferSize s - nValidDataSize s
         in and_then (int_result (nRequireSize + 64)) (\<lambda>need.
              if need > nFreeSize then Inr (-1, None)
              else Inr (0, Some (pWriteAddr s, nRequireSize))))
      else Inr (-1, None))"

text \<open>The descriptor belongs to the caller, whose \<^verbatim>\<open>bValid\<close> is set before it is copied.\<close>

fun SbmStreamAddStream ::
    "SbmStream option \<Rightarrow> VideoStreamDataInfo option \<Rightarrow>
     (int \<times> SbmStream option \<times> VideoStreamDataInfo option) res" where
  "SbmStreamAddStream None d = Inr (-1, None, d)"
| "SbmStreamAddStream (Some s) None = Inr (-1, Some s, None)"
| "SbmStreamAddStream (Some s) (Some d) =
     (let f = frameFifo s in
      if pData d = 0 then Inr (-1, Some s, Some d)
      else if nValidFrameNum f \<ge> nMaxFrameNum f then Inr (-1, Some s, Some d)
      else and_then (int_result (nLength d + nValidDataSize s)) (\<lambda>total.
        if total > nStreamBufferSize s then Inr (-1, Some s, Some d)
        else
          let d1 = (if bValid d = 0 then d\<lparr>bValid := 1\<rparr> else d) in
          and_then (slot f (nWritePos f)) (\<lambda>i.
            let nWritePos1 = nWritePos f + 1;
                nWritePos2 = (if nWritePos1 \<ge> nMaxFrameNum f then 0 else nWritePos1);
                pNew = pWriteAddr s + nLength d1;
                pNew1 = (if pNew > pStreamBufferEnd s then pNew - nStreamBufferSize s else pNew)
            in Inr (0, Some (s\<lparr>frameFifo := f\<lparr>pFrames := (pFrames f)(i := d1),
                                             nWritePos := nWritePos2,
                                             nValidFrameNum := nValidFrameNum f + 1,
                                             nUnReadFrameNum := nUnReadFrameNum f + 1\<rparr>,
                               nValidDataSize := nValidDataSize s + nLength d1,
                               pWriteAddr := pNew1\<rparr>), Some d1))))"

fun SbmStreamRequestStream :: "SbmStream option \<Rightarrow> (stream_ptr option \<times> SbmStream option) res" where
  "SbmStreamRequestStream None = Inr (None, None)"
| "SbmStreamRequestStream (Some s) =
     (let f = frameFifo s in
      if nUnReadFrameNum f = 0 then Inr (None, Some s)
      else and_then (slot f (nReadPos f)) (\<lambda>i.
        let nReadPos1 = nReadPos f + 1;
            nReadPos2 = (if nReadPos1 \<ge> nMaxFrameNum f then 0 else nReadPos1)
        in Inr (Some (Slot i), Some (s\<lparr>frameFifo := f\<lparr>nReadPos := nReadPos2,
                                     nUnReadFrameNum := nUnReadFrameNum f - 1\<rparr>\<rparr>))))"

text \<open>\<^verbatim>\<open>pFrames[nReadPos] = *pDataInfo\<close> copies an element onto itself once the check passed.\<close>

fun SbmStreamReturnStream ::
    "SbmStream option \<Rightarrow> stream_ptr option \<Rightarrow> (int \<times> SbmStream option) res" where
  "SbmStreamReturnStream None d = Inr (-1, None)"
| "SbmStreamReturnStream (Some s) None = Inr (-1, Some s)"
| "SbmStreamReturnStream (Some s) (Some d) =
     (let f = frameFifo s in
      if nValidFrameNum f = 0 then Inr (-1, Some s)
      else
        let nReadPos1 = nReadPos f - 1;
            nReadPos2 = (if nReadPos1 < 0 then nMaxFrameNum f - 1 else nReadPos1);
            f1 = f\<lparr>nUnReadFrameNum := nUnReadFrameNum f + 1\<rparr>
        in and_then (slot f1 nReadPos2) (\<lambda>i.
             if d \<noteq> Slot i then Inl Aborted
             else Inr (0, Some (s\<lparr>frameFifo := f1\<lparr>pFrames := (pFrames f1)(i := pFrames f1 i),
                                                 nReadPos := nReadPos2\<rparr>\<rparr>))))"

fun SbmStreamFlushStream ::
    "SbmStream option \<Rightarrow> stream_ptr option \<Rightarrow> (int \<times> SbmStream option) res" where
  "SbmStreamFlushStream None d = Inr (-1, None)"
| "SbmStreamFlushStream (Some s) d =
     (let f = frameFifo s in
      if nValidFrameNum f = 0 then Inr (-1, Some s)
      else and_then (slot f (nFlushPos f)) (\<lambda>i.
        if d \<noteq> Some (Slot i) then Inl Aborted
        else
          let nFlushPos1 = nFlushPos f + 1;
              nFlushPos2 = (if nFlushPos1 \<ge> nMaxFrameNum f then 0 else nFlushPos1)
          in Inr (0, Some (s\<lparr>frameFifo := f\<lparr>nValidFrameNum := nValidFrameNum f - 1,
                                           nFlushPos := nFlushPos2\<rparr>,
                             nValidDataSize := nValidDataSize s - nLength (pFrames f i)\<rparr>))))"

definition SbmStreamSetEos :: "SbmStream option \<Rightarrow> int \<Rightarrow> int" where
  "SbmStreamSetEos pSelf nEosFlag = 0"

section \<open>What a stream buffer means\<close>

text \<open>The index of the \<open>k\<close>-th valid frame.\<close>

definition ring_at :: "StreamFrameFifo \<Rightarrow> nat \<Rightarrow> nat" where
  "ring_at f k = nat ((nFlushPos f + int k) mod nMaxFrameNum f)"

definition total_length :: "VideoStreamDataInfo list \<Rightarrow> int" where
  "total_length fs = sum_list (map nLength fs)"

text \<open>
  \<open>fifo_rep n f out pend\<close>: the ring of \<open>n\<close> descriptors holds \<open>out @ pend\<close> from the flush
  position on, the read position is behind \<open>out\<close> and the write position behind all of them.
\<close>

definition fifo_rep :: "nat \<Rightarrow> StreamFrameFifo \<Rightarrow> VideoStreamDataInfo list \<Rightarrow>
    VideoStreamDataInfo list \<Rightarrow> bool" where
  "fifo_rep n f out pend \<longleftrightarrow>
     0 < n \<and> nMaxFrameNum f = int n \<and> length (out @ pend) \<le> n \<and>
     nValidFrameNum f = int (length (out @ pend)) \<and> nUnReadFrameNum f = int (length pend) \<and>
     0 \<le> nFlushPos f \<and> nFlushPos f < int n \<and>
     nReadPos f = (nFlushPos f + int (length out)) mod int n \<and>
     nWritePos f = (nFlushPos f + int (length (out @ pend))) mod int n \<and>
     (\<forall>k < length (out @ pend). pFrames f (ring_at f k) = (out @ pend) ! k)"

definition bytes_rep :: "int \<Rightarrow> SbmStream \<Rightarrow> VideoStreamDataInfo list \<Rightarrow> bool" where
  "bytes_rep bytes s fs \<longleftrightarrow>
     nStreamBufferSize s = bytes \<and> 0 < bytes \<and> bytes < 2 ^ 31 \<and>
     pStreamBufferEnd s = pStreamBuffer s + bytes - 1 \<and>
     pStreamBuffer s \<le> pWriteAddr s \<and> pWriteAddr s \<le> pStreamBufferEnd s \<and>
     nValidDataSize s = total_length fs \<and> (\<forall>d \<in> set fs. 0 \<le> nLength d) \<and>
     total_length fs \<le> bytes"

definition sbm_rep :: "nat \<Rightarrow> int \<Rightarrow> SbmStream option \<Rightarrow> VideoStreamDataInfo list \<Rightarrow>
    VideoStreamDataInfo list \<Rightarrow> bool" where
  "sbm_rep n bytes so out pend \<longleftrightarrow> (\<exists>s. so = Some s \<and>
     fifo_rep n (frameFifo s) out pend \<and> bytes_rep bytes s (out @ pend))"

definition sbm_fits :: "nat \<Rightarrow> int \<Rightarrow> VideoStreamDataInfo list \<Rightarrow> VideoStreamDataInfo \<Rightarrow> bool" where
  "sbm_fits n bytes fs d \<longleftrightarrow> pData d \<noteq> 0 \<and> 0 \<le> nLength d \<and> length fs < n \<and>
     total_length fs + nLength d \<le> bytes"

definition sbm_stored :: "VideoStreamDataInfo \<Rightarrow> VideoStreamDataInfo" where
  "sbm_stored d = (if bValid d = 0 then d\<lparr>bValid := 1\<rparr> else d)"

definition sbm_add :: "SbmStream option \<Rightarrow> VideoStreamDataInfo \<Rightarrow> (int \<times> SbmStream option) res" where
  "sbm_add s d = and_then (SbmStreamAddStream s (Some d)) (\<lambda>(r, s', d'). Inr (r, s'))"

definition sbm_give_back :: "SbmStream option \<Rightarrow> stream_ptr \<Rightarrow> (int \<times> SbmStream option) res" where
  "sbm_give_back s h = SbmStreamReturnStream s (Some h)"

definition sbm_release :: "SbmStream option \<Rightarrow> stream_ptr \<Rightarrow> (int \<times> SbmStream option) res" where
  "sbm_release s h = SbmStreamFlushStream s (Some h)"

definition sbm_handle :: "SbmStream option \<Rightarrow> nat \<Rightarrow> stream_ptr" where
  "sbm_handle so k = (case so of None \<Rightarrow> Foreign 0 | Some s \<Rightarrow> Slot (ring_at (frameFifo s) k))"

definition sbm_content :: "SbmStream option \<Rightarrow> stream_ptr \<Rightarrow> VideoStreamDataInfo" where
  "sbm_content so h = (case so of None \<Rightarrow> zero_info
     | Some s \<Rightarrow> (case h of Slot i \<Rightarrow> pFrames (frameFifo s) i | Foreign _ \<Rightarrow> zero_info))"

lemma total_length_simps [simp]:
  "total_length [] = 0" "total_length (d # fs) = nLength d + total_length fs"
  "total_length (fs @ gs) = total_length fs + total_length gs"
  by (simp_all add: total_length_def)

lemma total_length_nonneg: "\<forall>d \<in> set fs. 0 \<le> nLength d \<Longrightarrow> 0 \<le> total_length fs"
  by (induction fs) auto

lemma sbm_stored_fields [simp]:
  "nLength (sbm_stored d) = nLength d" "pData (sbm_stored d) = pData d"
  "sbm_stored (sbm_stored d) = sbm_stored d"
  by (simp_all add: sbm_stored_def)

lemma slot_mod [simp]: "nMaxFrameNum f = int n \<Longrightarrow> 0 < n \<Longrightarrow>
    slot f (x mod int n) = Inr (nat (x mod int n))"
  by (simp add: slot_def)

lemma ring_at_inj:
  assumes "ring_at f i = ring_at f j" and "nMaxFrameNum f = int n" and "i < n" and "j < n"
  shows "i = j"
proof -
  have "0 < int n" using assms(3) by simp
  then have "(nFlushPos f + int i) mod int n = (nFlushPos f + int j) mod int n"
    using assms(1,2) by (simp add: ring_at_def nat_eq_iff)
  then show ?thesis using assms(3,4) by (rule ring_inj)
qed

text \<open>The ring of descriptors under the four moves.\<close>

lemma fifo_rep_push:
  assumes "fifo_rep n f out pend" and "length (out @ pend) < n"
  shows "fifo_rep n (f\<lparr>pFrames := (pFrames f)(nat (nWritePos f) := d),
      nWritePos := (nWritePos f + 1) mod int n, nValidFrameNum := nValidFrameNum f + 1,
      nUnReadFrameNum := nUnReadFrameNum f + 1\<rparr>) out (pend @ [d])"
proof -
  let ?m = "length (out @ pend)"
  have w: "nat (nWritePos f) = ring_at f ?m" "nMaxFrameNum f = int n"
    using assms(1) by (auto simp: fifo_rep_def ring_at_def)
  have "\<forall>k < ?m. ring_at f k \<noteq> ring_at f ?m"
    using ring_at_inj [OF _ w(2)] assms(2) by fastforce
  then have "\<forall>k < Suc ?m. ((pFrames f)(ring_at f ?m := d)) (ring_at f k) = (out @ pend @ [d]) ! k"
    using assms(1) by (auto simp: fifo_rep_def nth_append less_Suc_eq)
  moreover have "(nWritePos f + 1) mod int n = (nFlushPos f + int (Suc ?m)) mod int n"
    using assms(1) by (simp add: fifo_rep_def mod_simps ac_simps)
  ultimately show ?thesis
    using assms unfolding fifo_rep_def w(1) by (simp add: ring_at_def)
qed

lemma fifo_rep_read:
  assumes "fifo_rep n f out (d # pend)"
  shows "fifo_rep n (f\<lparr>nReadPos := (nReadPos f + 1) mod int n,
      nUnReadFrameNum := nUnReadFrameNum f - 1\<rparr>) (out @ [d]) pend"
  using assms by (auto simp: fifo_rep_def ring_at_def mod_simps ac_simps)

lemma fifo_rep_unread:
  assumes "fifo_rep n f (out @ [d]) pend"
  shows "fifo_rep n (f\<lparr>nUnReadFrameNum := nUnReadFrameNum f + 1,
      nReadPos := (nReadPos f - 1) mod int n\<rparr>) out (d # pend)"
  using assms by (auto simp: fifo_rep_def ring_at_def mod_simps ac_simps)

lemma fifo_rep_drop:
  assumes "fifo_rep n f (d # out) pend"
  shows "fifo_rep n (f\<lparr>nValidFrameNum := nValidFrameNum f - 1,
      nFlushPos := (nFlushPos f + 1) mod int n\<rparr>) out pend"
proof -
  let ?f = "f\<lparr>nValidFrameNum := nValidFrameNum f - 1, nFlushPos := (nFlushPos f + 1) mod int n\<rparr>"
  have at: "ring_at ?f k = ring_at f (Suc k)" for k
    using assms by (simp add: ring_at_def fifo_rep_def mod_simps ac_simps)
  have "\<forall>k < length (out @ pend). pFrames f (ring_at f (Suc k)) = (out @ pend) ! k"
    using assms by (auto simp: fifo_rep_def dest!: spec [of _ "Suc _"])
  moreover have "nWritePos f = ((nFlushPos f + 1) mod int n + int (length (out @ pend))) mod int n"
    unfolding ring_shift using assms by (simp add: fifo_rep_def)
  moreover have "nReadPos f = ((nFlushPos f + 1) mod int n + int (length out)) mod int n"
    unfolding ring_shift using assms by (simp add: fifo_rep_def)
  ultimately show ?thesis
    using assms unfolding fifo_rep_def at by simp
qed

lemmas sbm_iface_defs = sbm_add_def sbm_give_back_def sbm_release_def sbm_handle_def sbm_content_def

lemma fifo_rep_pos:
  assumes "fifo_rep n f out pend"
  shows "nMaxFrameNum f = int n" and "0 < int n"
    and "0 \<le> nWritePos f" and "nWritePos f < int n"
    and "0 \<le> nReadPos f" and "nReadPos f < int n"
    and "0 \<le> nFlushPos f" and "nFlushPos f < int n"
  using assms by (simp_all add: fifo_rep_def)

lemma write_wrap:
  assumes "fifo_rep n f out pend"
  shows "(if nWritePos f + 1 \<ge> nMaxFrameNum f then 0 else nWritePos f + 1)
      = (nWritePos f + 1) mod int n"
    and "slot f (nWritePos f) = Inr (nat (nWritePos f))"
  unfolding fifo_rep_pos(1) [OF assms] slot_def using fifo_rep_pos [OF assms]
  by (simp_all only: ring_succ) simp

lemma read_wrap:
  assumes "fifo_rep n f out pend"
  shows "(if nReadPos f + 1 \<ge> nMaxFrameNum f then 0 else nReadPos f + 1)
      = (nReadPos f + 1) mod int n"
    and "(if nReadPos f - 1 < 0 then nMaxFrameNum f - 1 else nReadPos f - 1)
      = (nReadPos f - 1) mod int n"
    and "slot f (nReadPos f) = Inr (ring_at f (length out))"
proof -
  note pos = fifo_rep_pos [OF assms]
  show "(if nReadPos f + 1 \<ge> nMaxFrameNum f then 0 else nReadPos f + 1)
      = (nReadPos f + 1) mod int n"
    unfolding pos(1) using pos by (intro ring_succ)
  show "(if nReadPos f - 1 < 0 then nMaxFrameNum f - 1 else nReadPos f - 1)
      = (nReadPos f - 1) mod int n"
    unfolding pos(1) using pos by (intro ring_pred)
  show "slot f (nReadPos f) = Inr (ring_at f (length out))"
    using assms by (simp add: fifo_rep_def slot_def ring_at_def)
qed

lemma flush_wrap:
  assumes "fifo_rep n f out pend"
  shows "(if nFlushPos f + 1 \<ge> nMaxFrameNum f then 0 else nFlushPos f + 1)
      = (nFlushPos f + 1) mod int n"
    and "slot f (nFlushPos f) = Inr (ring_at f 0)"
proof -
  note pos = fifo_rep_pos [OF assms]
  show "(if nFlushPos f + 1 \<ge> nMaxFrameNum f then 0 else nFlushPos f + 1)
      = (nFlushPos f + 1) mod int n"
    unfolding pos(1) using pos by (intro ring_succ)
  show "slot f (nFlushPos f) = Inr (ring_at f 0)"
    using assms by (simp add: fifo_rep_def slot_def ring_at_def)
qed

lemma SbmStreamAddStream_fits:
  assumes "fifo_rep n (frameFifo s) out pend" and "bytes_rep bytes s (out @ pend)"
    and "sbm_fits n bytes (out @ pend) d"
  shows "\<exists>s'. SbmStreamAddStream (Some s) (Some d) = Inr (0, Some s', Some (sbm_stored d)) \<and>
    fifo_rep n (frameFifo s') out (pend @ [sbm_stored d]) \<and>
    bytes_rep bytes s' (out @ pend @ [sbm_stored d]) \<and>
    (\<forall>k. ring_at (frameFifo s') k = ring_at (frameFifo s) k) \<and>
    pStreamBuffer s' = pStreamBuffer s \<and>
    pWriteAddr s' = (if pWriteAddr s + nLength d > pStreamBufferEnd s
      then pWriteAddr s + nLength d - bytes else pWriteAddr s + nLength d)"
proof -
  let ?f = "frameFifo s" and ?d = "sbm_stored d"
  let ?f' = "?f\<lparr>pFrames := (pFrames ?f)(nat (nWritePos ?f) := ?d),
      nWritePos := (nWritePos ?f + 1) mod int n, nValidFrameNum := nValidFrameNum ?f + 1,
      nUnReadFrameNum := nUnReadFrameNum ?f + 1\<rparr>"
  let ?w = "if pWriteAddr s + nLength d > pStreamBufferEnd s
      then pWriteAddr s + nLength d - bytes else pWriteAddr s + nLength d"
  let ?s' = "s\<lparr>frameFifo := ?f', nValidDataSize := nValidDataSize s + nLength d, pWriteAddr := ?w\<rparr>"
  have tot: "total_length (out @ pend) + nLength d \<le> bytes"
    using assms(3) by (simp add: sbm_fits_def)
  have "0 \<le> total_length (out @ pend)"
    using assms(2) by (intro total_length_nonneg) (simp add: bytes_rep_def)
  note tot = tot this
  have chk: "int_result (nLength d + nValidDataSize s) = Inr (nLength d + nValidDataSize s)"
    using tot assms(2,3) by (intro int_result_ok) (auto simp: bytes_rep_def sbm_fits_def)
  have ok: "pData d \<noteq> 0" "\<not> nMaxFrameNum ?f \<le> nValidFrameNum ?f" "nStreamBufferSize s = bytes"
      "\<not> bytes < nLength d + nValidDataSize s"
    using assms tot by (auto simp: sbm_fits_def fifo_rep_def bytes_rep_def)
  have "SbmStreamAddStream (Some s) (Some d) = Inr (0, Some ?s', Some ?d)"
    by (simp add: ok chk write_wrap [OF assms(1)] Let_def flip: sbm_stored_def)
  moreover have "fifo_rep n ?f' out (pend @ [?d])"
    using assms(3) by (intro fifo_rep_push [OF assms(1)]) (auto simp: sbm_fits_def)
  moreover have "bytes_rep bytes ?s' (out @ pend @ [?d])"
    using assms(2,3) tot by (auto simp: bytes_rep_def sbm_fits_def)
  ultimately show ?thesis by (auto simp: ring_at_def)
qed

definition sbm_admissible :: "int \<Rightarrow> VideoStreamDataInfo \<Rightarrow> bool" where
  "sbm_admissible bytes d \<longleftrightarrow> 0 \<le> nLength d \<and> nLength d + bytes < 2 ^ 31"

lemma SbmStreamAddStream_full:
  assumes "fifo_rep n (frameFifo s) out pend" and "bytes_rep bytes s (out @ pend)"
    and "sbm_admissible bytes d" and "\<not> sbm_fits n bytes (out @ pend) d"
  shows "SbmStreamAddStream (Some s) (Some d) = Inr (-1, Some s, Some d)"
proof -
  have "0 \<le> total_length (out @ pend)"
    by (rule total_length_nonneg) (use assms(2) in \<open>simp add: bytes_rep_def\<close>)
  then have chk: "int_result (nLength d + nValidDataSize s) = Inr (nLength d + nValidDataSize s)"
    using assms(2,3) by (intro int_result_ok) (auto simp: bytes_rep_def sbm_admissible_def)
  have "pData d = 0 \<or> nMaxFrameNum (frameFifo s) \<le> nValidFrameNum (frameFifo s) \<or>
      nStreamBufferSize s < nLength d + nValidDataSize s"
    using assms by (auto simp: sbm_fits_def sbm_admissible_def fifo_rep_def bytes_rep_def)
  with chk show ?thesis by (auto simp: Let_def)
qed

interpretation sbm: stream_buffer "sbm_rep n bytes" "sbm_fits n bytes" "sbm_admissible bytes"
  sbm_stored sbm_add
  SbmStreamRequestStream sbm_give_back sbm_release sbm_handle sbm_content
  for n bytes
proof
  fix s out pend d
  assume "sbm_rep n bytes s out pend" and fits: "sbm_fits n bytes (out @ pend) d"
  then obtain s0 where s: "s = Some s0" "fifo_rep n (frameFifo s0) out pend"
      "bytes_rep bytes s0 (out @ pend)" by (auto simp: sbm_rep_def)
  from SbmStreamAddStream_fits [OF s(2,3) fits] s(1)
  show "\<exists>s'. sbm_add s d = Inr (0, s') \<and> sbm_rep n bytes s' out (pend @ [sbm_stored d]) \<and>
      sbm_handle s' = sbm_handle s"
    by (fastforce simp: sbm_iface_defs sbm_rep_def)
next
  fix s out pend d
  assume "sbm_rep n bytes s out pend" and "sbm_admissible bytes d"
    and "\<not> sbm_fits n bytes (out @ pend) d"
  then show "sbm_add s d = Inr (-1, s)"
    using SbmStreamAddStream_full by (auto simp: sbm_rep_def sbm_add_def
        simp del: SbmStreamAddStream.simps)
next
  fix s out
  assume "sbm_rep n bytes s out []"
  then show "SbmStreamRequestStream s = Inr (None, s)"
    by (auto simp: sbm_rep_def fifo_rep_def Let_def)
next
  fix s out d pend
  assume "sbm_rep n bytes s out (d # pend)"
  then obtain s0 where s: "s = Some s0" "fifo_rep n (frameFifo s0) out (d # pend)"
      "bytes_rep bytes s0 (out @ d # pend)" by (auto simp: sbm_rep_def)
  have "nUnReadFrameNum (frameFifo s0) \<noteq> 0" using s(2) by (simp add: fifo_rep_def)
  with read_wrap [OF s(2)] fifo_rep_read [OF s(2)] s
  show "\<exists>s'. SbmStreamRequestStream s = Inr (Some (sbm_handle s (length out)), s') \<and>
      sbm_rep n bytes s' (out @ [d]) pend \<and> sbm_handle s' = sbm_handle s"
    by (auto simp: sbm_iface_defs sbm_rep_def Let_def bytes_rep_def ring_at_def)
next
  fix s out d pend
  assume "sbm_rep n bytes s (out @ [d]) pend"
  then obtain s0 where s: "s = Some s0" "fifo_rep n (frameFifo s0) (out @ [d]) pend"
      "bytes_rep bytes s0 (out @ d # pend)" by (auto simp: sbm_rep_def)
  let ?f = "frameFifo s0"
  have at: "(nReadPos ?f - 1) mod int n = (nFlushPos ?f + int (length out)) mod int n"
    using s(2) by (simp add: fifo_rep_def mod_simps)
  have v: "nValidFrameNum ?f \<noteq> 0" "nMaxFrameNum ?f = int n" "0 < n"
    using s(2) by (auto simp: fifo_rep_def)
  from v read_wrap [OF s(2)] fifo_rep_unread [OF s(2)] s
  show "\<exists>s'. sbm_give_back s (sbm_handle s (length out)) = Inr (0, s') \<and>
      sbm_rep n bytes s' out (d # pend) \<and> sbm_handle s' = sbm_handle s"
    by (auto simp: sbm_iface_defs sbm_rep_def Let_def bytes_rep_def ring_at_def at)
next
  fix s d out pend
  assume "sbm_rep n bytes s (d # out) pend"
  then obtain s0 where s: "s = Some s0" "fifo_rep n (frameFifo s0) (d # out) pend"
      "bytes_rep bytes s0 (d # out @ pend)" by (auto simp: sbm_rep_def)
  let ?f = "frameFifo s0"
  have v: "nValidFrameNum ?f \<noteq> 0" "pFrames ?f (ring_at ?f 0) = d" "nMaxFrameNum ?f = int n"
    using s(2) by (auto simp: fifo_rep_def)
  have tot: "0 \<le> total_length (out @ pend)"
    using s(3) by (intro total_length_nonneg) (auto simp: bytes_rep_def)
  from v tot flush_wrap [OF s(2)] fifo_rep_drop [OF s(2)] s
  show "\<exists>s'. sbm_release s (sbm_handle s 0) = Inr (0, s') \<and> sbm_rep n bytes s' out pend \<and>
      (\<forall>k < length out. sbm_handle s' k = sbm_handle s (Suc k))"
    by (auto simp: sbm_iface_defs sbm_rep_def Let_def bytes_rep_def ring_at_def ring_shift)
next
  fix s out pend k
  assume "sbm_rep n bytes s out pend" and "k < length out"
  then show "sbm_content s (sbm_handle s k) = out ! k"
    by (auto simp: sbm_rep_def sbm_iface_defs fifo_rep_def nth_append)
qed

section \<open>Properties\<close>

lemma init_rep:
  assumes "SbmStreamInit (Some cfg) buf framesOk mutexOk = Inr (0, s)"
    and "nSbmBufferTotalSize cfg < 2 ^ 31"
  shows "sbm_rep 2048 (nSbmBufferTotalSize cfg) s [] []"
  using assms
  by (auto simp: SbmStreamInit_def sbm_rep_def fifo_rep_def bytes_rep_def SBM_FRAME_FIFO_SIZE_def
      split: option.splits if_splits)

lemma reset_rep:
  assumes "sbm_rep n bytes s out pend"
  shows "sbm_rep n bytes (SbmStreamReset s) [] []"
  using assms by (auto simp: sbm_rep_def fifo_rep_def bytes_rep_def)

text \<open>C4: an initialised stream buffer behaves, for every sequence of adding frames, requesting one,
  giving the newest requested one back and flushing the oldest requested one, as two queues (the
  frames the decoder holds and those it has not requested), refusing exactly the frames that do
  not fit. No call aborts or leaves the descriptor ring, and the handles the decoder holds point
  at the frames of its queue.\<close>

theorem stream_buffer_refines_two_queues:
  assumes "SbmStreamInit (Some cfg) buf framesOk mutexOk = Inr (0, s)"
    and "nSbmBufferTotalSize cfg < 2 ^ 31"
    and "\<forall>d. AddFrame d \<in> set ops \<longrightarrow> sbm_admissible (nSbmBufferTotalSize cfg) d"
  shows "\<exists>s' hs. stream_run sbm_add SbmStreamRequestStream sbm_give_back sbm_release s [] ops
      = Inr (s', hs) \<and>
    (case stream_spec (sbm_fits 2048 (nSbmBufferTotalSize cfg)) sbm_stored [] [] ops of (out, pend) \<Rightarrow>
       sbm_rep 2048 (nSbmBufferTotalSize cfg) s' out pend \<and> map (sbm_content s') hs = out)"
  using sbm.stream_run_spec [OF init_rep [OF assms(1,2)], of "[]" ops] assms(3) by simp

definition sample_frame :: "int \<Rightarrow> VideoStreamDataInfo" where
  "sample_frame n = zero_info\<lparr>pData := 4096, nLength := n, bValid := 1\<rparr>"

theorem stream_buffer_refines_two_queues_witness:
  "\<exists>s s' hs. SbmStreamInit (Some \<lparr>bVirFlag = 1, nSbmBufferTotalSize = 100\<rparr>) (Some 4096) True True
      = Inr (0, s) \<and>
    stream_run sbm_add SbmStreamRequestStream sbm_give_back sbm_release s []
      [AddFrame (sample_frame 60), AddFrame (sample_frame 50), AddFrame (sample_frame 30),
       RequestFrame, RequestFrame, ReturnLast] = Inr (s', hs) \<and>
    sbm_rep 2048 100 s' [sample_frame 60] [sample_frame 30]"
proof -
  let ?ops = "[AddFrame (sample_frame 60), AddFrame (sample_frame 50), AddFrame (sample_frame 30),
       RequestFrame, RequestFrame, ReturnLast]"
  obtain s where s: "SbmStreamInit (Some \<lparr>bVirFlag = 1, nSbmBufferTotalSize = 100\<rparr>) (Some 4096)
      True True = Inr (0, s)"
    by (simp add: SbmStreamInit_def)
  let ?cfg = "\<lparr>bVirFlag = 1, nSbmBufferTotalSize = 100\<rparr>"
  have spec: "stream_spec (sbm_fits 2048 (nSbmBufferTotalSize ?cfg)) sbm_stored [] [] ?ops
      = ([sample_frame 60], [sample_frame 30])"
    by (simp add: sbm_fits_def sbm_stored_def sample_frame_def)
  have lt: "nSbmBufferTotalSize ?cfg < 2 ^ 31" by simp
  have adm: "\<forall>d. AddFrame d \<in> set ?ops \<longrightarrow> sbm_admissible (nSbmBufferTotalSize ?cfg) d"
    by (auto simp: sbm_admissible_def sample_frame_def)
  from stream_buffer_refines_two_queues [OF s lt adm, unfolded spec prod.case]
  obtain s' hs where "stream_run sbm_add SbmStreamRequestStream sbm_give_back sbm_release s [] ?ops
      = Inr (s', hs)" "sbm_rep 2048 (nSbmBufferTotalSize ?cfg) s' [sample_frame 60] [sample_frame 30]"
    by blast
  with s show ?thesis by (metis SbmConfig.select_convs(2))
qed

text \<open>Frames come out in the order they were added: adding frames that fit to an initialised
  buffer and then requesting, reading and flushing as many times yields exactly these frames, and
  the buffer is empty again.\<close>

lemma room_all_frames:
  "\<forall>d \<in> set fs. pData d \<noteq> 0 \<and> 0 \<le> nLength d \<and> bValid d \<noteq> 0 \<Longrightarrow>
   length gs + length fs \<le> n \<Longrightarrow> total_length gs + total_length fs \<le> bytes \<Longrightarrow>
   room_all (\<lambda>fs d. sbm_fits n bytes fs d \<and> sbm_stored d = d) gs fs"
proof (induction fs arbitrary: gs)
  case Nil
  then show ?case by simp
next
  case (Cons d fs)
  then have "0 \<le> total_length fs" by (intro total_length_nonneg) simp
  then have "sbm_fits n bytes gs d" "sbm_stored d = d"
    using Cons.prems by (simp_all add: sbm_fits_def sbm_stored_def)
  moreover have "room_all (\<lambda>fs d. sbm_fits n bytes fs d \<and> sbm_stored d = d) (gs @ [d]) fs"
    using Cons.prems by (intro Cons.IH) simp_all
  ultimately show ?case by simp
qed

theorem stream_frames_in_order:
  assumes "SbmStreamInit (Some cfg) buf framesOk mutexOk = Inr (0, s)"
    and "nSbmBufferTotalSize cfg < 2 ^ 31"
    and "\<forall>d \<in> set fs. pData d \<noteq> 0 \<and> 0 \<le> nLength d \<and> bValid d \<noteq> 0"
    and "length fs \<le> 2048" and "total_length fs \<le> nSbmBufferTotalSize cfg"
  shows "\<exists>s1 s2. put_all (stream_put sbm_add) s fs = Inr s1 \<and>
    SbmStreamGetStreamFrameNum s1 = int (length fs) \<and>
    SbmStreamGetStreamDataSize s1 = total_length fs \<and>
    take_n (stream_decode SbmStreamRequestStream sbm_release sbm_content) s1 (length fs)
      = Inr (map Some fs, s2) \<and>
    SbmStreamGetStreamFrameNum s2 = 0 \<and> SbmStreamGetStreamDataSize s2 = 0"
proof -
  note rep = init_rep [OF assms(1,2)]
  have "room_all (\<lambda>fs d. sbm_fits 2048 (nSbmBufferTotalSize cfg) fs d \<and> sbm_stored d = d) [] fs"
    using assms(3-5) by (intro room_all_frames) auto
  from sbm.put_all_rep [OF rep this] obtain s1 where s1: "put_all (stream_put sbm_add) s fs = Inr s1"
    "sbm_rep 2048 (nSbmBufferTotalSize cfg) s1 [] (fs @ [])" by auto
  from sbm.take_n_rep [OF s1(2)] obtain s2 where
    "take_n (stream_decode SbmStreamRequestStream sbm_release sbm_content) s1 (length fs)
      = Inr (map Some fs, s2)" "sbm_rep 2048 (nSbmBufferTotalSize cfg) s2 [] []" by auto
  with s1 show ?thesis by (auto simp: sbm_rep_def fifo_rep_def bytes_rep_def)
qed

theorem stream_frames_in_order_witness:
  "\<exists>s s1 s2. SbmStreamInit (Some \<lparr>bVirFlag = 1, nSbmBufferTotalSize = 100\<rparr>) (Some 4096) True True
      = Inr (0, s) \<and>
    put_all (stream_put sbm_add) s [sample_frame 60, sample_frame 40] = Inr s1 \<and>
    take_n (stream_decode SbmStreamRequestStream sbm_release sbm_content) s1 2
      = Inr ([Some (sample_frame 60), Some (sample_frame 40)], s2)"
proof -
  obtain s where s: "SbmStreamInit (Some \<lparr>bVirFlag = 1, nSbmBufferTotalSize = 100\<rparr>) (Some 4096)
      True True = Inr (0, s)"
    by (simp add: SbmStreamInit_def)
  from stream_frames_in_order [OF s, of "[sample_frame 60, sample_frame 40]"] s
  show ?thesis by (auto simp: sample_frame_def zero_info_def numeral_2_eq_2)
qed






end
