(* ===== verification/VideoStream.thy ===== *)
theory VideoStream
  imports SbmStream
begin

text \<open>
  The client of the stream buffer in \<^verbatim>\<open>vdecoder/vdecoder.c\<close>: handing out buffer space to
  the parser (in up to two pieces, because the buffer is a ring), collecting the parts of a
  frame and submitting the whole frame. One stream of the decoder context is modelled: its
  stream buffer manager and its partial frame.
\<close>

section \<open>Data\<close>

record VStream =
  pSbm :: "SbmStream option"
  partial :: VideoStreamDataInfo
  bVirMallocSbm :: int
  bUseNewVeMemoryProgram :: int

definition idle_partial :: "VideoStreamDataInfo \<Rightarrow> VideoStreamDataInfo" where
  "idle_partial d = d\<lparr>pData := 0, nLength := 0, nPts := -1, nPcr := -1, bIsLastPart := 0,
     bIsFirstPart := 0, bVideoInfoFlag := 0, pVideoInfo := 0\<rparr>"

section \<open>Operations\<close>

text \<open>Returns the result and the four output parameters: buffer, size, ring buffer, ring size.\<close>

definition RequestVideoStreamBuffer :: "VStream \<Rightarrow> int \<Rightarrow> (int \<times> int \<times> int \<times> int \<times> int) res" where
  "RequestVideoStreamBuffer p nRequireSize =
     (case pSbm p of
        None \<Rightarrow> Inr (-1, 0, 0, 0, 0)
      | Some s \<Rightarrow>
          let plen = nLength (partial p);
              n1 = (if nRequireSize = 0 then 4 else nRequireSize)
          in and_then (int_result (n1 + plen)) (\<lambda>n2.
             and_then (SbmStreamRequestBuffer (Some s) n2) (\<lambda>(r, grant).
               if r < 0 then Inr (-1, 0, 0, 0, 0)
               else case grant of
                 None \<Rightarrow> Inl NullDeref
               | Some (pMem, nFreeSize) \<Rightarrow>
                   if nFreeSize \<le> plen then Inr (-1, 0, 0, 0, 0)
                   else
                     let pStreamBufEnd = SbmStreamGetBufferAddress (Some s)
                                         + SbmStreamGetBufferSize (Some s);
                         pStart0 = pMem + plen;
                         pStart = (if pStart0 \<ge> pStreamBufEnd
                                   then pStart0 - SbmStreamGetBufferSize (Some s) else pStart0);
                         nFree = nFreeSize - plen
                     in if pStart + nFree \<le> pStreamBufEnd
                        then Inr (0, pStart, nFree, 0, 0)
                        else Inr (0, pStart, pStreamBufEnd - pStart,
                                  SbmStreamGetBufferAddress (Some s),
                                  nFree - (pStreamBufEnd - pStart)))))"

text \<open>The cache ranges (address, length) that are flushed for a frame.\<close>

definition FlushSbmData :: "VStream \<Rightarrow> VideoStreamDataInfo \<Rightarrow> (int \<times> int) list" where
  "FlushSbmData p d =
     (if bVirMallocSbm p = 0 \<and> bUseNewVeMemoryProgram p = 0 then
        (let pStreamBufEnd = SbmStreamGetBufferAddress (pSbm p) + SbmStreamGetBufferSize (pSbm p)
         in if pData d + nLength d \<le> pStreamBufEnd then [(pData d, nLength d)]
            else
              let nPartialLen = pStreamBufEnd - pData d
              in [(pData d, nPartialLen),
                  (SbmStreamGetBufferAddress (pSbm p), nLength d - nPartialLen)])
      else [])"

text \<open>
  \<^verbatim>\<open>SbmAddStream(pSbm, pPartialStreamDataInfo)\<close>: the result code is ignored, the \<^verbatim>\<open>bValid\<close>
  that the manager sets in the partial descriptor stays.
\<close>

definition add_partial :: "VStream \<Rightarrow> VStream res" where
  "add_partial p = and_then (SbmStreamAddStream (pSbm p) (Some (partial p))) (\<lambda>(r, s', d').
     Inr (p\<lparr>pSbm := s', partial := (case d' of None \<Rightarrow> partial p | Some d \<Rightarrow> d)\<rparr>))"

text \<open>The first half of \<^verbatim>\<open>SubmitVideoStreamData\<close>: a first part starts a new frame (an unfinished
  one is submitted as it is), any other part extends the partial frame.\<close>

definition collect_part :: "VStream \<Rightarrow> VideoStreamDataInfo \<Rightarrow> ((int \<times> int) list \<times> VStream) res" where
  "collect_part p d =
     (if bIsFirstPart d \<noteq> 0 then
        and_then
          (if nLength (partial p) \<noteq> 0
           then and_then (add_partial p) (\<lambda>p'. Inr (FlushSbmData p (partial p), p'))
           else Inr ([], p))
          (\<lambda>(fl, p'). Inr (fl, p'\<lparr>partial := (partial p')\<lparr>pData := pData d, nLength := nLength d,
             nPts := nPts d, nPcr := nPcr d, bIsFirstPart := bIsFirstPart d, bIsLastPart := 0,
             bVideoInfoFlag := bVideoInfoFlag d, pVideoInfo := pVideoInfo d\<rparr>\<rparr>))
      else
        and_then (int_result (nLength (partial p) + nLength d)) (\<lambda>len.
          Inr ([], p\<lparr>partial := (partial p)\<lparr>nLength := len,
             nPts := (if nPts (partial p) = -1 \<and> nPts d \<noteq> -1 then nPts d
                      else nPts (partial p))\<rparr>\<rparr>)))"

text \<open>The second half, for a last part: flush the caches, hand the frame over, start afresh.\<close>

definition finish_frame :: "VStream \<Rightarrow> ((int \<times> int) list \<times> VStream) res" where
  "finish_frame p =
     (let fl = (if pData (partial p) \<noteq> 0 \<and> nLength (partial p) \<noteq> 0
                then FlushSbmData p (partial p) else [])
      in and_then (add_partial p) (\<lambda>p'.
           Inr (fl, p'\<lparr>partial := idle_partial (partial p')\<rparr>)))"

definition SubmitVideoStreamData ::
    "VStream \<Rightarrow> VideoStreamDataInfo \<Rightarrow> (int \<times> (int \<times> int) list \<times> VStream) res" where
  "SubmitVideoStreamData p d =
     (if pSbm p = None then Inr (-1, [], p)
      else and_then (collect_part p d) (\<lambda>(fl1, p1).
        if bIsLastPart d \<noteq> 0
        then and_then (finish_frame p1) (\<lambda>(fl2, p2). Inr (0, fl1 @ fl2, p2))
        else Inr (0, fl1, p1)))"

definition VideoStreamBufferSize :: "VStream \<Rightarrow> int" where
  "VideoStreamBufferSize p = (case pSbm p of None \<Rightarrow> 0 | Some s \<Rightarrow> SbmStreamGetBufferSize (Some s))"

definition VideoStreamDataSize :: "VStream \<Rightarrow> int" where
  "VideoStreamDataSize p = (case pSbm p of None \<Rightarrow> 0 | Some s \<Rightarrow> SbmStreamGetStreamDataSize (Some s))"

definition VideoStreamFrameNum :: "VStream \<Rightarrow> int" where
  "VideoStreamFrameNum p = (case pSbm p of None \<Rightarrow> 0 | Some s \<Rightarrow> SbmStreamGetStreamFrameNum (Some s))"

definition VideoStreamDataInfoPointer :: "VStream \<Rightarrow> int res" where
  "VideoStreamDataInfoPointer p =
     (case pSbm p of None \<Rightarrow> Inr 0 | Some s \<Rightarrow> SbmStreamGetBufferDataInfo (Some s))"

lemma FlushSbmData_partial [simp]: "FlushSbmData (p\<lparr>partial := d\<rparr>) e = FlushSbmData p e"
  by (simp add: FlushSbmData_def Let_def)

section \<open>Addresses of the ring\<close>

text \<open>The address \<open>k\<close> bytes after \<open>a\<close> in the ring of \<open>n\<close> bytes at \<open>b\<close>.\<close>

definition ring_addr :: "int \<Rightarrow> int \<Rightarrow> int \<Rightarrow> int \<Rightarrow> int" where
  "ring_addr b n a k = b + (a - b + k) mod n"

text \<open>The bytes of the two pieces that \<^verbatim>\<open>RequestVideoStreamBuffer\<close> hands out, in order.\<close>

definition granted_byte :: "int \<Rightarrow> int \<Rightarrow> int \<Rightarrow> int \<Rightarrow> int" where
  "granted_byte buf bufSize ring k = (if k < bufSize then buf + k else ring + (k - bufSize))"

lemma ring_addr_range:
  "0 < n \<Longrightarrow> b \<le> ring_addr b n a k \<and> ring_addr b n a k < b + n"
  by (simp add: ring_addr_def)

lemma mod_reduce_once: "0 < n \<Longrightarrow> n \<le> x \<Longrightarrow> x < 2 * n \<Longrightarrow> x mod n = x - (n::int)"
  by (metis diff_ge_0_iff_ge diff_less_eq minus_mod_self2 mod_pos_pos_trivial mult_2)

lemma ring_addr_small:
  assumes "b \<le> a" and "a < b + n" and "0 \<le> k" and "k \<le> n"
  shows "ring_addr b n a k = (if a + k < b + n then a + k else a + k - n)"
  using assms by (auto simp: ring_addr_def mod_reduce_once)

lemma ring_addr_0: "b \<le> a \<Longrightarrow> a < b + n \<Longrightarrow> ring_addr b n a 0 = a"
  by (simp add: ring_addr_def)

lemma ring_addr_add: "ring_addr b n (ring_addr b n a j) k = ring_addr b n a (j + k)"
  by (simp add: ring_addr_def mod_simps ac_simps)

lemma ring_addr_eq_iff:
  assumes "0 < n" and "\<bar>j - k\<bar> < n"
  shows "ring_addr b n a j = ring_addr b n a k \<longleftrightarrow> j = k"
proof
  assume "ring_addr b n a j = ring_addr b n a k"
  then have "(a - b + j) mod n = (a - b + k) mod n" by (simp add: ring_addr_def)
  then have "n dvd (a - b + j) - (a - b + k)" by (rule mod_eq_dvd_iff [THEN iffD1])
  then have "n dvd j - k" by simp
  with assms show "j = k"
    by (metis abs_ge_zero dvd_imp_le_int linorder_not_less right_minus_eq abs_of_pos)
qed simp

text \<open>
  \<open>frames_placed s fs\<close>: the data of the valid frames \<open>fs\<close> lie back to back in the ring and
  end at the write address.
\<close>

definition frames_placed :: "SbmStream \<Rightarrow> VideoStreamDataInfo list \<Rightarrow> bool" where
  "frames_placed s fs \<longleftrightarrow> (\<forall>i < length fs. pData (fs ! i) =
     ring_addr (pStreamBuffer s) (nStreamBufferSize s) (pWriteAddr s) (- total_length (drop i fs)))"

lemma placed_byte:
  assumes "frames_placed s fs" and "\<forall>d \<in> set fs. 0 \<le> nLength d" and "d \<in> set fs"
    and "0 \<le> j" and "j < nLength d"
  shows "\<exists>m. - total_length fs \<le> m \<and> m < 0 \<and>
    ring_addr (pStreamBuffer s) (nStreamBufferSize s) (pData d) j
      = ring_addr (pStreamBuffer s) (nStreamBufferSize s) (pWriteAddr s) m"
proof -
  obtain i where i: "i < length fs" "d = fs ! i" using assms(3) by (metis in_set_conv_nth)
  have split: "drop i fs = d # drop (Suc i) fs" using i by (simp add: Cons_nth_drop_Suc)
  have "0 \<le> total_length (drop (Suc i) fs)" "0 \<le> total_length (take i fs)"
    using assms(2) by (auto intro!: total_length_nonneg dest: in_set_dropD in_set_takeD)
  moreover have "total_length fs = total_length (take i fs) + total_length (drop i fs)"
    by (metis append_take_drop_id total_length_simps(3))
  ultimately have "- total_length fs \<le> - total_length (drop i fs) + j"
      "- total_length (drop i fs) + j < 0"
    using assms(4,5) unfolding split by auto
  moreover have "ring_addr (pStreamBuffer s) (nStreamBufferSize s) (pData d) j
      = ring_addr (pStreamBuffer s) (nStreamBufferSize s) (pWriteAddr s) (- total_length (drop i fs) + j)"
    using assms(1) i by (simp add: frames_placed_def ring_addr_add)
  ultimately show ?thesis by blast
qed

lemma frames_placed_snoc:
  assumes "frames_placed s fs" and "pData d = pWriteAddr s"
    and "pStreamBuffer s \<le> pWriteAddr s" "pWriteAddr s < pStreamBuffer s + nStreamBufferSize s"
    and "pStreamBuffer s' = pStreamBuffer s" "nStreamBufferSize s' = nStreamBufferSize s"
    and "pWriteAddr s' = ring_addr (pStreamBuffer s) (nStreamBufferSize s) (pWriteAddr s) (nLength d)"
  shows "frames_placed s' (fs @ [d])"
  using assms by (auto simp: frames_placed_def nth_append ring_addr_add less_Suc_eq ring_addr_0)

lemma frames_placed_tl: "frames_placed s (d # fs) \<Longrightarrow> frames_placed s fs"
  by (auto simp: frames_placed_def dest: spec [of _ "Suc _"])

section \<open>Requests\<close>

lemma SbmStreamRequestBuffer_eq:
  assumes "int_result (n + 64) = Inr (n + 64)"
  shows "SbmStreamRequestBuffer (Some s) n =
    Inr (if nValidFrameNum (frameFifo s) < nMaxFrameNum (frameFifo s) \<and>
            nValidDataSize s < nStreamBufferSize s \<and>
            n + 64 \<le> nStreamBufferSize s - nValidDataSize s
         then (0, Some (pWriteAddr s, n)) else (-1, None))"
  using assms by auto

lemma SbmStreamRequestBuffer_0:
  assumes "SbmStreamRequestBuffer (Some s) n = Inr (r, g)" and "\<not> r < 0"
  shows "r = 0 \<and> g = Some (pWriteAddr s, n) \<and> n + 64 \<le> nStreamBufferSize s - nValidDataSize s"
  using assms by (auto simp: int_result_def Let_def split: if_splits)

text \<open>How the two pieces are cut, for a start address and a size.\<close>

definition cut_pieces :: "int \<Rightarrow> int \<Rightarrow> int \<Rightarrow> int \<Rightarrow> int \<times> int \<times> int \<times> int" where
  "cut_pieces b bytes st n =
     (if st + n \<le> b + bytes then (st, n, 0, 0)
      else (st, b + bytes - st, b, n - (b + bytes - st)))"

abbreviation request_start :: "SbmStream \<Rightarrow> int \<Rightarrow> int" where
  "request_start s plen \<equiv>
     (if pStreamBuffer s + nStreamBufferSize s \<le> pWriteAddr s + plen
      then pWriteAddr s + plen - nStreamBufferSize s else pWriteAddr s + plen)"

lemma request_cut:
  assumes "pSbm p = Some s" and "0 < n" and "n = (if req = 0 then 4 else req)"
    and "int_result (n + nLength (partial p)) = Inr (n + nLength (partial p))"
    and "SbmStreamRequestBuffer (Some s) (n + nLength (partial p))
      = Inr (0, Some (pWriteAddr s, n + nLength (partial p)))"
  shows "RequestVideoStreamBuffer p req = Inr (0, cut_pieces (pStreamBuffer s)
    (nStreamBufferSize s) (request_start s (nLength (partial p))) n)"
proof -
  have "\<not> n + nLength (partial p) \<le> nLength (partial p)" using assms(2) by simp
  with assms(1,4,5) show ?thesis
    unfolding RequestVideoStreamBuffer_def assms(3) [symmetric]
    by (simp add: Let_def cut_pieces_def del: SbmStreamRequestBuffer.simps)
qed

lemma request_ok_iff:
  assumes rep: "fifo_rep n (frameFifo s) out pend" "bytes_rep bytes s (out @ pend)"
    and p: "pSbm p = Some s" "0 \<le> nLength (partial p)" "0 \<le> req"
    and no_overflow: "max req 4 + nLength (partial p) + 64 < 2 ^ 31"
  shows "(\<exists>x. RequestVideoStreamBuffer p req = Inr (0, x)) \<longleftrightarrow>
    length (out @ pend) < n \<and>
    (if req = 0 then 4 else req) + nLength (partial p) + 64 \<le> bytes - total_length (out @ pend)"
    (is "?ok \<longleftrightarrow> ?room")
proof -
  let ?n = "if req = 0 then 4 else req"
  let ?r = "?n + nLength (partial p)"
  have n: "0 < ?n" using p by simp
  have i1: "int_result ?r = Inr ?r"
    using p no_overflow by (intro int_result_ok) (auto split: if_splits)
  have i2: "int_result (?r + 64) = Inr (?r + 64)"
    using p no_overflow by (intro int_result_ok) (auto split: if_splits)
  have room: "?room \<longleftrightarrow> nValidFrameNum (frameFifo s) < nMaxFrameNum (frameFifo s) \<and>
      nValidDataSize s < nStreamBufferSize s \<and>
      ?r + 64 \<le> nStreamBufferSize s - nValidDataSize s"
    using rep p(2) n unfolding fifo_rep_def bytes_rep_def by auto
  show ?thesis
  proof
    assume ?room
    then have "SbmStreamRequestBuffer (Some s) ?r = Inr (0, Some (pWriteAddr s, ?r))"
      unfolding SbmStreamRequestBuffer_eq [OF i2] by (simp only: room if_P if_True)
    from request_cut [OF p(1) n refl i1 this] show ?ok by blast
  next
    assume ?ok
    show ?room
    proof (rule ccontr)
      assume "\<not> ?room"
      then have "SbmStreamRequestBuffer (Some s) ?r = Inr (-1, None)"
        unfolding SbmStreamRequestBuffer_eq [OF i2] by (simp only: room if_not_P if_False)
      with \<open>?ok\<close> p(1) i1 show False
        by (simp add: RequestVideoStreamBuffer_def Let_def del: SbmStreamRequestBuffer.simps)
    qed
  qed
qed

lemma request_inv:
  assumes "pSbm p = Some s" and "n = (if req = 0 then 4 else req)" and "0 < n"
    and "RequestVideoStreamBuffer p req = Inr (0, pieces)"
  shows "n + nLength (partial p) + 64 \<le> nStreamBufferSize s - nValidDataSize s \<and>
    pieces = cut_pieces (pStreamBuffer s) (nStreamBufferSize s)
      (request_start s (nLength (partial p))) n"
proof -
  let ?r = "n + nLength (partial p)"
  have i1: "int_result ?r = Inr ?r"
    using assms(1,4) unfolding RequestVideoStreamBuffer_def assms(2) [symmetric]
    by (auto simp: Let_def and_then_Inr_iff int_result_def split: if_splits)
  obtain r g where rg: "SbmStreamRequestBuffer (Some s) ?r = Inr (r, g)" "\<not> r < 0"
    using assms(1,4) i1 unfolding RequestVideoStreamBuffer_def assms(2) [symmetric]
    by (auto simp: Let_def and_then_Inr_iff split: if_splits
        simp del: SbmStreamRequestBuffer.simps)
  from SbmStreamRequestBuffer_0 [OF rg] rg
  have "SbmStreamRequestBuffer (Some s) ?r = Inr (0, Some (pWriteAddr s, ?r))"
    and le: "?r + 64 \<le> nStreamBufferSize s - nValidDataSize s" by auto
  from request_cut [OF assms(1,3,2) i1 this(1)] assms(4) le show ?thesis by simp
qed

text \<open>The two pieces are, byte by byte, the ring from behind the partial frame on.\<close>

lemma request_pieces:
  assumes rep: "bytes_rep bytes s fs" and p: "pSbm p = Some s" "0 \<le> nLength (partial p)" "0 \<le> req"
    and ok: "RequestVideoStreamBuffer p req = Inr (0, buf, bs, ring, rs)"
  shows "bs + rs = (if req = 0 then 4 else req)" and "0 < bs" and "0 \<le> rs"
    and "nLength (partial p) + (bs + rs) + 64 \<le> bytes - total_length fs"
    and "0 \<le> k \<Longrightarrow> k < bs + rs \<Longrightarrow> granted_byte buf bs ring k =
      ring_addr (pStreamBuffer s) bytes (pWriteAddr s) (nLength (partial p) + k)"
proof -
  let ?b = "pStreamBuffer s" and ?pl = "nLength (partial p)" and ?n = "if req = 0 then 4 else req"
  let ?st = "request_start s ?pl"
  have bytes [simp]: "nStreamBufferSize s = bytes" using rep by (simp add: bytes_rep_def)
  have n: "0 < ?n" using p by simp
  from request_inv [OF p(1) refl n ok] rep
  have r: "?pl + ?n + 64 \<le> bytes - total_length fs"
    and pieces: "(buf, bs, ring, rs) = cut_pieces ?b bytes ?st ?n"
    by (auto simp: bytes_rep_def)
  note pieces = pieces [unfolded cut_pieces_def]
  from rep have rng: "?b \<le> pWriteAddr s" "pWriteAddr s < ?b + bytes" "0 \<le> total_length fs"
    by (auto simp: bytes_rep_def intro: total_length_nonneg)
  have st: "?st = ring_addr ?b bytes (pWriteAddr s) ?pl" "?b \<le> ?st" "?st < ?b + bytes"
    using rng r p by (auto simp: ring_addr_small split: if_splits)
  show sum: "bs + rs = ?n" using pieces by (auto split: if_splits)
  show "0 < bs" "0 \<le> rs" using pieces st p by (auto split: if_splits)
  show "?pl + (bs + rs) + 64 \<le> bytes - total_length fs" using r sum by simp
  assume k: "0 \<le> k" "k < bs + rs"
  have "granted_byte buf bs ring k = (if ?st + k < ?b + bytes then ?st + k else ?st + k - bytes)"
    using pieces k sum by (auto simp: granted_byte_def split: if_splits)
  also have "\<dots> = ring_addr ?b bytes ?st k"
    using st k r rng p sum by (subst ring_addr_small) auto
  finally show "granted_byte buf bs ring k = ring_addr ?b bytes (pWriteAddr s) (?pl + k)"
    by (simp only: st(1) ring_addr_add)
qed

section \<open>Submitting a frame in parts\<close>

text \<open>A well-formed frame: only its first part is flagged first, only its last one last.\<close>

fun frame_parts :: "VideoStreamDataInfo list \<Rightarrow> bool" where
  "frame_parts [] = False"
| "frame_parts (d # ds) = (bIsFirstPart d \<noteq> 0 \<and> (\<forall>x \<in> set ds. bIsFirstPart x = 0) \<and>
     bIsLastPart (last (d # ds)) \<noteq> 0 \<and> (\<forall>x \<in> set (butlast (d # ds)). bIsLastPart x = 0) \<and>
     (\<forall>x \<in> set (d # ds). 0 \<le> nLength x))"

fun submit_all :: "VStream \<Rightarrow> VideoStreamDataInfo list \<Rightarrow> ((int \<times> int) list \<times> VStream) res" where
  "submit_all p [] = Inr ([], p)"
| "submit_all p (d # ds) = and_then (SubmitVideoStreamData p d) (\<lambda>(r, fl, p1).
     and_then (submit_all p1 ds) (\<lambda>(fl', p2). Inr (fl @ fl', p2)))"

text \<open>
  The frame that the parts describe: the address and the flags of the first part, the sum of
  the lengths, the first time stamp that is known.
\<close>

fun first_pts :: "VideoStreamDataInfo list \<Rightarrow> int" where
  "first_pts [] = -1"
| "first_pts (d # ds) = (if nPts d \<noteq> -1 then nPts d else first_pts ds)"

definition assemble :: "VideoStreamDataInfo \<Rightarrow> VideoStreamDataInfo list \<Rightarrow> VideoStreamDataInfo" where
  "assemble base ds = base\<lparr>pData := pData (hd ds), nLength := total_length ds,
     nPts := first_pts ds, nPcr := nPcr (hd ds), bIsFirstPart := bIsFirstPart (hd ds),
     bIsLastPart := 0, bVideoInfoFlag := bVideoInfoFlag (hd ds), pVideoInfo := pVideoInfo (hd ds)\<rparr>"

lemma first_pts_snoc: "first_pts (ds @ [d]) = (if first_pts ds = -1 then nPts d else first_pts ds)"
  by (induction ds) auto

lemma assemble_idem [simp]: "assemble (assemble base ds) es = assemble base es"
  by (simp add: assemble_def)

lemma collect_first:
  assumes "bIsFirstPart d \<noteq> 0" and "nLength (partial p) = 0"
  shows "collect_part p d = Inr ([], p\<lparr>partial := assemble (partial p) [d]\<rparr>)"
  using assms by (auto simp: collect_part_def assemble_def)

lemma collect_next:
  assumes "bIsFirstPart d = 0" and "ds \<noteq> []" and "partial p = assemble base ds"
    and "0 \<le> total_length ds" "0 \<le> nLength d" "total_length (ds @ [d]) < 2 ^ 31"
  shows "collect_part p d = Inr ([], p\<lparr>partial := assemble base (ds @ [d])\<rparr>)"
proof -
  have "int_result (total_length ds + nLength d) = Inr (total_length ds + nLength d)"
    using assms by (intro int_result_ok) auto
  with assms show ?thesis
    by (auto simp: collect_part_def assemble_def first_pts_snoc)
qed

lemma submit_middle:
  assumes "pSbm p \<noteq> None" and "ds \<noteq> []" and "partial p = assemble base ds"
    and "\<forall>x \<in> set es. bIsFirstPart x = 0 \<and> bIsLastPart x = 0 \<and> 0 \<le> nLength x"
    and "0 \<le> total_length ds" and "total_length (ds @ es) < 2 ^ 31"
  shows "submit_all p es = Inr ([], p\<lparr>partial := assemble base (ds @ es)\<rparr>)"
  using assms
proof (induction es arbitrary: p ds)
  case Nil
  then show ?case by (cases p) simp
next
  case (Cons e es)
  have nn: "0 \<le> total_length es"
    using Cons.prems(4) by (intro total_length_nonneg) simp
  have c: "collect_part p e = Inr ([], p\<lparr>partial := assemble base (ds @ [e])\<rparr>)"
    using Cons.prems nn by (intro collect_next) auto
  have "submit_all (p\<lparr>partial := assemble base (ds @ [e])\<rparr>) es =
      Inr ([], p\<lparr>partial := assemble base (ds @ [e])\<rparr>\<lparr>partial := assemble base ((ds @ [e]) @ es)\<rparr>)"
    using Cons.prems by (intro Cons.IH) auto
  with c Cons.prems show ?case by (auto simp: SubmitVideoStreamData_def)
qed

lemma finish_frame_fits:
  assumes rep: "sbm_rep n bytes (pSbm p) out pend" and some: "pSbm p = Some s"
    and fits: "sbm_fits n bytes (out @ pend) (partial p)"
  shows "\<exists>p'. finish_frame p = Inr (if nLength (partial p) \<noteq> 0 then FlushSbmData p (partial p) else [], p')
    \<and> sbm_rep n bytes (pSbm p') out (pend @ [sbm_stored (partial p)])
    \<and> partial p' = idle_partial (sbm_stored (partial p))
    \<and> (frames_placed s (out @ pend) \<longrightarrow> pData (partial p) = pWriteAddr s \<longrightarrow>
         frames_placed (the (pSbm p')) (out @ pend @ [sbm_stored (partial p)]))"
proof -
  from rep some have s: "pSbm p = Some s" "fifo_rep n (frameFifo s) out pend"
      "bytes_rep bytes s (out @ pend)" by (auto simp: sbm_rep_def)
  from SbmStreamAddStream_fits [OF s(2,3) fits]
  obtain s' where "SbmStreamAddStream (Some s) (Some (partial p))
      = Inr (0, Some s', Some (sbm_stored (partial p)))"
      "fifo_rep n (frameFifo s') out (pend @ [sbm_stored (partial p)])"
      "bytes_rep bytes s' (out @ pend @ [sbm_stored (partial p)])"
    and at: "pStreamBuffer s' = pStreamBuffer s"
      "pWriteAddr s' = (if pWriteAddr s + nLength (partial p) > pStreamBufferEnd s
        then pWriteAddr s + nLength (partial p) - bytes else pWriteAddr s + nLength (partial p))"
    by blast
  moreover have "frames_placed s' (out @ pend @ [sbm_stored (partial p)])"
    if "frames_placed s (out @ pend)" "pData (partial p) = pWriteAddr s"
  proof -
    have "0 \<le> total_length (out @ pend)"
      by (rule total_length_nonneg) (use s(3) in \<open>simp add: bytes_rep_def\<close>)
    then have "pWriteAddr s' = ring_addr (pStreamBuffer s) bytes (pWriteAddr s) (nLength (partial p))"
      using s(3) fits at(2) by (auto simp: bytes_rep_def sbm_fits_def ring_addr_small)
    moreover have "nStreamBufferSize s' = bytes" "nStreamBufferSize s = bytes"
      using \<open>bytes_rep bytes s' _\<close> s(3) by (auto simp: bytes_rep_def)
    ultimately show ?thesis
      using frames_placed_snoc [OF that(1), of "sbm_stored (partial p)" s'] s(3) that(2) at(1)
      by (auto simp: bytes_rep_def)
  qed
  ultimately show ?thesis using fits s(1)
    by (auto simp: finish_frame_def add_partial_def sbm_rep_def sbm_fits_def
        simp del: SbmStreamAddStream.simps)
qed

lemma submit_all_append:
  "submit_all p (ds @ es) = and_then (submit_all p ds) (\<lambda>(fl, p1).
     and_then (submit_all p1 es) (\<lambda>(fl', p2). Inr (fl @ fl', p2)))"
proof (induction ds arbitrary: p)
  case Nil
  show ?case by (cases "submit_all p es") auto
next
  case (Cons d ds)
  show ?case
  proof (cases "SubmitVideoStreamData p d")
    case (Inl e)
    then show ?thesis by simp
  next
    case (Inr x)
    obtain r fl p1 where x: "x = (r, fl, p1)" by (cases x) auto
    show ?thesis
    proof (cases "submit_all p1 ds")
      case (Inl e)
      with Inr x Cons.IH [of p1] show ?thesis by simp
    next
      case (Inr y)
      obtain fl1 p2 where "y = (fl1, p2)" by (cases y) auto
      with Inr \<open>SubmitVideoStreamData p d = Inr x\<close> x Cons.IH [of p1] show ?thesis
        by (cases "submit_all p2 es") auto
    qed
  qed
qed

text \<open>All parts but the last collect; the last one completes the frame.\<close>

lemma submit_frame:
  assumes rep: "sbm_rep n bytes (pSbm p) out pend" and s0: "pSbm p = Some s"
    and idle: "nLength (partial p) = 0"
    and parts: "frame_parts ds" and fits: "sbm_fits n bytes (out @ pend) (assemble (partial p) ds)"
  shows "\<exists>p' fl. submit_all p ds = Inr (fl, p') \<and>
    sbm_rep n bytes (pSbm p') out (pend @ [sbm_stored (assemble (partial p) ds)]) \<and>
    nLength (partial p') = 0 \<and>
    (0 < total_length ds \<longrightarrow> fl = FlushSbmData p (assemble (partial p) ds)) \<and>
    (frames_placed s (out @ pend) \<longrightarrow> pData (hd ds) = pWriteAddr s \<longrightarrow>
      frames_placed (the (pSbm p')) (out @ pend @ [sbm_stored (assemble (partial p) ds)]))"
proof -
  from parts have ne: "ds \<noteq> []" by auto
  then obtain xs l where ds: "ds = xs @ [l]" by (meson rev_exhaust)
  have nn: "\<forall>x \<in> set ds. 0 \<le> nLength x" using parts by (cases ds) auto
  have tot: "0 \<le> total_length xs" "total_length ds < 2 ^ 31"
      "total_length ds = total_length xs + nLength l"
  proof -
    show "0 \<le> total_length xs" by (rule total_length_nonneg) (use nn ds in simp)
    show "total_length ds = total_length xs + nLength l" by (simp add: ds)
    have "0 \<le> total_length (out @ pend)"
      using rep by (intro total_length_nonneg) (auto simp: sbm_rep_def bytes_rep_def)
    then show "total_length ds < 2 ^ 31"
      using fits rep by (auto simp: sbm_fits_def assemble_def sbm_rep_def bytes_rep_def)
  qed
  have some: "pSbm p \<noteq> None" using rep by (auto simp: sbm_rep_def)
  let ?p1 = "p\<lparr>partial := assemble (partial p) ds\<rparr>"
  have "\<exists>q. submit_all p xs = Inr ([], q) \<and> pSbm q = pSbm p \<and> collect_part q l = Inr ([], ?p1)"
  proof (cases xs)
    case Nil
    with ds parts collect_first [of l p] idle show ?thesis by auto
  next
    case (Cons e es)
    let ?q = "p\<lparr>partial := assemble (partial p) xs\<rparr>"
    from Cons ds have hd: "ds = e # es @ [l]" by simp
    have flags: "bIsFirstPart e \<noteq> 0" "bIsLastPart e = 0" "bIsFirstPart l = 0"
        "\<forall>x \<in> set es. bIsFirstPart x = 0 \<and> bIsLastPart x = 0 \<and> 0 \<le> nLength x"
        "0 \<le> nLength e" "0 \<le> nLength l"
      using parts nn unfolding hd by (auto simp: butlast_append)
    have "SubmitVideoStreamData p e = Inr (0, [], p\<lparr>partial := assemble (partial p) [e]\<rparr>)"
      using collect_first [OF flags(1) idle] flags(2) some by (simp add: SubmitVideoStreamData_def)
    moreover have "submit_all (p\<lparr>partial := assemble (partial p) [e]\<rparr>) es = Inr ([], ?q)"
      using submit_middle [of "p\<lparr>partial := assemble (partial p) [e]\<rparr>" "[e]" "partial p" es]
        flags tot some Cons by simp
    ultimately have "submit_all p xs = Inr ([], ?q)" using Cons by simp
    moreover have "collect_part ?q l = Inr ([], ?q\<lparr>partial := assemble (partial p) (xs @ [l])\<rparr>)"
      using flags tot Cons by (intro collect_next) auto
    ultimately show ?thesis using ds by auto
  qed
  then obtain q where q: "submit_all p xs = Inr ([], q)" "pSbm q = pSbm p"
    "collect_part q l = Inr ([], ?p1)" by blast
  obtain p' where p': "finish_frame ?p1 = Inr (if total_length ds \<noteq> 0
        then FlushSbmData ?p1 (assemble (partial p) ds) else [], p')"
      "sbm_rep n bytes (pSbm p') out (pend @ [sbm_stored (assemble (partial p) ds)])"
      "partial p' = idle_partial (sbm_stored (assemble (partial p) ds))"
      "frames_placed s (out @ pend) \<longrightarrow> pData (hd ds) = pWriteAddr s \<longrightarrow>
        frames_placed (the (pSbm p')) (out @ pend @ [sbm_stored (assemble (partial p) ds)])"
    using finish_frame_fits [of n bytes ?p1 out pend s] rep s0 fits by (auto simp: assemble_def)
  have "bIsLastPart l \<noteq> 0" using parts ds by (cases xs) auto
  with q p' some have "submit_all q [l] = Inr (if total_length ds \<noteq> 0
        then FlushSbmData ?p1 (assemble (partial p) ds) else [], p')"
    by (auto simp: SubmitVideoStreamData_def)
  with q(1) have "submit_all p (xs @ [l]) = Inr (if total_length ds \<noteq> 0
        then FlushSbmData ?p1 (assemble (partial p) ds) else [], p')"
    by (simp only: submit_all_append) simp
  with p' ds show ?thesis by (auto simp: idle_partial_def)
qed

section \<open>Properties\<close>

text \<open>C6: the buffer space handed to the parser is free. The one or two pieces lie inside the ring,
  together have the requested size (4 bytes when none was requested), and no byte of them belongs
  to the data of a frame that the stream buffer still holds or to the partial frame collected
  so far.\<close>

theorem granted_space_is_free:
  assumes rep: "sbm_rep n bytes (Some s) out pend" and p: "pSbm p = Some s"
    and placed: "frames_placed s (out @ pend)"
    and nonneg: "0 \<le> nLength (partial p)" "0 \<le> req"
    and ok: "RequestVideoStreamBuffer p req = Inr (0, buf, bs, ring, rs)"
    and k: "0 \<le> k" "k < bs + rs"
  shows "bs + rs = (if req = 0 then 4 else req) \<and>
    pStreamBuffer s \<le> granted_byte buf bs ring k \<and>
    granted_byte buf bs ring k < pStreamBuffer s + bytes \<and>
    (\<forall>d \<in> set (out @ pend). \<forall>j. 0 \<le> j \<longrightarrow> j < nLength d \<longrightarrow>
       granted_byte buf bs ring k \<noteq> ring_addr (pStreamBuffer s) bytes (pData d) j) \<and>
    (\<forall>j. 0 \<le> j \<longrightarrow> j < nLength (partial p) \<longrightarrow>
       granted_byte buf bs ring k \<noteq> ring_addr (pStreamBuffer s) bytes (pWriteAddr s) j)"
proof -
  let ?fs = "out @ pend" and ?at = "\<lambda>m. ring_addr (pStreamBuffer s) bytes (pWriteAddr s) m"
  from rep have b: "bytes_rep bytes s ?fs" by (simp add: sbm_rep_def)
  then have bytes: "nStreamBufferSize s = bytes" "0 < bytes" "\<forall>d \<in> set ?fs. 0 \<le> nLength d"
    by (auto simp: bytes_rep_def)
  note pieces = request_pieces [OF b p nonneg ok]
  have at: "granted_byte buf bs ring k = ?at (nLength (partial p) + k)"
    using pieces(5) k by blast
  have tot: "0 \<le> total_length ?fs" by (rule total_length_nonneg) (rule bytes(3))
  have sep: "?at (nLength (partial p) + k) \<noteq> ?at m"
    if "- total_length ?fs \<le> m" "m < nLength (partial p)" for m
  proof -
    have "\<bar>nLength (partial p) + k - m\<bar> < bytes"
      using that pieces(4) k nonneg tot by linarith
    then have "?at (nLength (partial p) + k) = ?at m \<longleftrightarrow> nLength (partial p) + k = m"
      by (rule ring_addr_eq_iff [OF bytes(2)])
    with that k show ?thesis by simp
  qed
  have "granted_byte buf bs ring k \<noteq> ring_addr (pStreamBuffer s) bytes (pData d) j"
    if "d \<in> set ?fs" "0 \<le> j" "j < nLength d" for d j
    using placed_byte [OF placed bytes(3) that] sep nonneg unfolding at bytes(1) by fastforce
  moreover have "granted_byte buf bs ring k \<noteq> ?at j" if "0 \<le> j" "j < nLength (partial p)" for j
    unfolding at using sep [of j] that tot by linarith
  ultimately show ?thesis
    using pieces(1) ring_addr_range [OF bytes(2)] unfolding at by blast
qed

definition sample_stream :: SbmStream where
  "sample_stream = \<lparr>pStreamBuffer = 4096, pStreamBufferEnd = 4295, nStreamBufferSize = 200,
     pWriteAddr = 4266, nValidDataSize = 0, frameFifo = \<lparr>pFrames = (\<lambda>_. zero_info),
     nMaxFrameNum = 8, nValidFrameNum = 0, nUnReadFrameNum = 0, nReadPos = 0, nWritePos = 0,
     nFlushPos = 0\<rparr>\<rparr>"

definition sample_vstream :: VStream where
  "sample_vstream = \<lparr>pSbm = Some sample_stream, partial = zero_info, bVirMallocSbm = 0,
     bUseNewVeMemoryProgram = 0\<rparr>"

lemma sample_rep: "sbm_rep 8 200 (Some sample_stream) [] []"
  by (simp add: sbm_rep_def fifo_rep_def bytes_rep_def sample_stream_def)

lemma sample_request: "RequestVideoStreamBuffer sample_vstream 50 = Inr (0, 4266, 30, 4096, 20)"
  by (simp add: RequestVideoStreamBuffer_def sample_vstream_def sample_stream_def zero_info_def
      int_result_def Let_def)

theorem granted_space_is_free_witness:
  "RequestVideoStreamBuffer sample_vstream 50 = Inr (0, 4266, 30, 4096, 20) \<and>
   granted_byte 4266 30 4096 40 = 4106 \<and> (30::int) + 20 = 50"
  using granted_space_is_free [OF sample_rep, of sample_vstream 50 4266 30 4096 20 40] sample_request
  by (simp add: sample_vstream_def frames_placed_def zero_info_def granted_byte_def)

text \<open>C7: a request succeeds exactly when a descriptor is free and the requested bytes, the partial
  frame and the 64 bytes kept in reserve fit into the unused part of the ring.\<close>

theorem request_succeeds_iff_room:
  assumes "sbm_rep n bytes (Some s) out pend" and "pSbm p = Some s"
    and "0 \<le> nLength (partial p)" and "0 \<le> req"
    and "max req 4 + nLength (partial p) + 64 < 2 ^ 31"
  shows "(\<exists>x. RequestVideoStreamBuffer p req = Inr (0, x)) \<longleftrightarrow>
    length (out @ pend) < n \<and>
    (if req = 0 then 4 else req) + nLength (partial p) + 64 \<le> bytes - total_length (out @ pend)"
  using assms by (intro request_ok_iff) (auto simp: sbm_rep_def)

theorem request_succeeds_iff_room_witness:
  "(\<exists>x. RequestVideoStreamBuffer sample_vstream 136 = Inr (0, x)) \<and>
   \<not> (\<exists>x. RequestVideoStreamBuffer sample_vstream 137 = Inr (0, x))"
  using request_succeeds_iff_room [OF sample_rep, of sample_vstream 136]
    request_succeeds_iff_room [OF sample_rep, of sample_vstream 137]
  by (simp add: sample_vstream_def zero_info_def)

text \<open>C8: submitting the parts of one frame in turn queues exactly one frame behind the others: it
  starts at the address of the first part, has the total length and the first known time stamp,
  its cache range is flushed, the collector is idle again; and when the first part was written
  where the buffer pointed, the frames stay packed back to back in the ring. The stored frame
  has \<^verbatim>\<open>bIsLastPart = 0\<close>, although the comment above \<^verbatim>\<open>SbmStreamAddStream\<close> asks for 1.\<close>

theorem submitted_parts_become_one_frame:
  assumes "sbm_rep n bytes (pSbm p) out pend" and "pSbm p = Some s"
    and "nLength (partial p) = 0" and "frame_parts ds"
    and "sbm_fits n bytes (out @ pend) (assemble (partial p) ds)" and "0 < total_length ds"
    and "frames_placed s (out @ pend)" and "pData (hd ds) = pWriteAddr s"
  shows "\<exists>p' s'. submit_all p ds = Inr (FlushSbmData p (assemble (partial p) ds), p') \<and>
    pSbm p' = Some s' \<and>
    sbm_rep n bytes (Some s') out (pend @ [sbm_stored (assemble (partial p) ds)]) \<and>
    nLength (partial p') = 0 \<and>
    frames_placed s' (out @ pend @ [sbm_stored (assemble (partial p) ds)]) \<and>
    bIsLastPart (sbm_stored (assemble (partial p) ds)) = 0"
proof -
  from submit_frame [OF assms(1-5)] obtain p' fl where p': "submit_all p ds = Inr (fl, p')"
    "sbm_rep n bytes (pSbm p') out (pend @ [sbm_stored (assemble (partial p) ds)])"
    "nLength (partial p') = 0" "fl = FlushSbmData p (assemble (partial p) ds)"
    "frames_placed (the (pSbm p')) (out @ pend @ [sbm_stored (assemble (partial p) ds)])"
    using assms(6-8) by blast
  moreover from p'(2) obtain s' where "pSbm p' = Some s'" by (auto simp: sbm_rep_def)
  ultimately show ?thesis by (auto simp: sbm_stored_def assemble_def)
qed

definition sample_parts :: "VideoStreamDataInfo list" where
  "sample_parts = [zero_info\<lparr>pData := 4266, nLength := 20, nPts := -1, bIsFirstPart := 1\<rparr>,
     zero_info\<lparr>pData := 4286, nLength := 30, nPts := 77, bIsLastPart := 1\<rparr>]"

theorem submitted_parts_become_one_frame_witness:
  "\<exists>p'. submit_all sample_vstream sample_parts = Inr ([(4266, 30), (4096, 20)], p') \<and>
    sbm_rep 8 200 (pSbm p') [] [zero_info\<lparr>pData := 4266, nLength := 50, nPts := 77,
      bIsFirstPart := 1, bValid := 1\<rparr>]"
proof -
  have frame: "assemble (partial sample_vstream) sample_parts =
      zero_info\<lparr>pData := 4266, nLength := 50, nPts := 77, bIsFirstPart := 1\<rparr>"
    by (simp add: assemble_def sample_parts_def sample_vstream_def zero_info_def)
  have flush: "FlushSbmData sample_vstream (assemble (partial sample_vstream) sample_parts)
      = [(4266, 30), (4096, 20)]"
    unfolding frame by (simp add: FlushSbmData_def sample_vstream_def sample_stream_def zero_info_def)
  have "frame_parts sample_parts" "pData (hd sample_parts) = 4266" "0 < total_length sample_parts"
    by (simp_all add: sample_parts_def zero_info_def)
  moreover have "sbm_fits 8 200 ([] @ []) (assemble (partial sample_vstream) sample_parts)"
    unfolding frame by (simp add: sbm_fits_def)
  ultimately show ?thesis
    using submitted_parts_become_one_frame [of 8 200 sample_vstream "[]" "[]" sample_stream sample_parts]
      sample_rep flush unfolding frame
    by (auto simp: sample_vstream_def frames_placed_def zero_info_def sbm_stored_def
        sample_stream_def)
qed

end
