(* ===== verification/FbmTypes.thy ===== *)
theory FbmTypes
  imports CedarPrelude
begin

text \<open>
  The data of the frame buffer manager \<^verbatim>\<open>vdecoder/fbm.c\<close> (\<^verbatim>\<open>fbm.h\<close>, \<^verbatim>\<open>vdecoder.h\<close>) and its
  node queues. Integers of the interface are \<^verbatim>\<open>int\<close>, addresses are integers with NULL = 0, the
  status word of a picture is a 32-bit word. The four flags of a node only ever hold 0 or 1
  and are truth values here.
\<close>

section \<open>Pictures, nodes, managers\<close>

record VideoPicture =
  nID :: int
  ePixelFormat :: int
  nWidth :: int
  nHeight :: int
  nLineStride :: int
  nTopOffset :: int
  nLeftOffset :: int
  nBottomOffset :: int
  nRightOffset :: int
  nFrameRate :: int
  nAspectRatio :: int
  bIsProgressive :: int
  pData0 :: int
  pData1 :: int
  pData2 :: int
  pData3 :: int
  nBufId :: int
  phyYBufAddr :: int
  phyCBufAddr :: int
  pPrivate :: int
  nBufFd :: int
  nBufStatus :: "32 word"
  nColorPrimary :: int
  pMetaData :: int
  nLower2BitBufSize :: int
  nLower2BitBufOffset :: int
  nLower2BitBufStride :: int
  b10BitPicFlag :: int
  bEnableAfbcFlag :: int
  nBufSize :: int
  nAfbcSize :: int

record FrameNodeFlag =
  bUsedByDecoder :: bool
  bUsedByRender :: bool
  bInValidPictureQueue :: bool
  bAlreadyDisplayed :: bool
  bNeedRelease :: bool

text \<open>A node is its flags followed by its picture and its link; a link is the index of a node
  of the same manager.\<close>

record FrameNode = FrameNodeFlag +
  vpicture :: VideoPicture
  pNext :: "nat option"

record Fbm =
  nMaxFrameNum :: int
  nEmptyBufferNum :: int
  nValidPictureNum :: int
  nReleaseBufferNum :: int
  pEmptyBufferQueue :: "nat option"
  pValidPictureQueue :: "nat option"
  pReleaseBufferQueue :: "nat option"
  bThumbnailMode :: int
  pFrames :: "nat \<Rightarrow> FrameNode"
  bUseGpuBuf :: int
  nAlignValue :: int
  pFbmInfo :: bool
  nDecoderHoldingNum :: int
  nRenderHoldingNum :: int
  nWaitForDispNum :: int

text \<open>
  A pointer to a picture: the picture of node \<open>i\<close> of the manager at address \<open>b\<close>, or an object of
  the caller.
\<close>

datatype pic_ptr = Pic nat nat | Ext nat

record FbmBufInfo =
  nBufNum :: int
  nBufWidth :: int
  nBufHeight :: int
  eBufPixelFormat :: int
  nBufAlignValue :: int
  bProgressiveFlag :: int
  bBufSoftDecoderFlag :: int
  bHdrVideoFlag :: int
  b10bitVideoFlag :: int
  bAfbcModeFlag :: int
  nBufTopOffset :: int
  nBufBottomOffset :: int
  nBufLeftOffset :: int
  nBufRightOffset :: int

record VideoFbmInfo =
  nValidBufNum :: int
  pFbmFirst :: "nat option"
  pFbmSecond :: "nat option"
  pFbmBufInfo :: FbmBufInfo
  bIs3DStream :: int
  bTwoStreamShareOneFbm :: int
  pMajorDispFrame :: "pic_ptr option"
  pMajorDecoderFrame :: "pic_ptr option"
  nMinorYBufOffset :: int
  nMinorCBufOffset :: int
  bIsFrameCtsTestFlag :: int
  bIsSoftDecoderFlag :: int

text \<open>The memory the functions work on: the managers by address, the shared information block
  and the pictures that belong to callers; \<open>flushed\<close> logs the cache flushes, newest first.\<close>

record fbm_world =
  fbms :: "nat \<Rightarrow> Fbm"
  info :: VideoFbmInfo
  extPics :: "nat \<Rightarrow> VideoPicture"
  flushed :: "(int \<times> int) list"

fun get_pic :: "fbm_world \<Rightarrow> pic_ptr \<Rightarrow> VideoPicture" where
  "get_pic w (Pic b i) = vpicture (pFrames (fbms w b) i)"
| "get_pic w (Ext i) = extPics w i"

definition upd_node :: "nat \<Rightarrow> (FrameNode \<Rightarrow> FrameNode) \<Rightarrow> Fbm \<Rightarrow> Fbm" where
  "upd_node i f b = b\<lparr>pFrames := (pFrames b)(i := f (pFrames b i))\<rparr>"

definition set_fbm :: "nat \<Rightarrow> Fbm \<Rightarrow> fbm_world \<Rightarrow> fbm_world" where
  "set_fbm b x w = w\<lparr>fbms := (fbms w)(b := x)\<rparr>"

fun upd_pic :: "(VideoPicture \<Rightarrow> VideoPicture) \<Rightarrow> pic_ptr \<Rightarrow> fbm_world \<Rightarrow> fbm_world" where
  "upd_pic f (Pic b i) w =
     set_fbm b (upd_node i (\<lambda>n. n\<lparr>vpicture := f (vpicture n)\<rparr>) (fbms w b)) w"
| "upd_pic f (Ext i) w = w\<lparr>extPics := (extPics w)(i := f (extPics w i))\<rparr>"

definition upd_info :: "(VideoFbmInfo \<Rightarrow> VideoFbmInfo) \<Rightarrow> fbm_world \<Rightarrow> fbm_world" where
  "upd_info f w = w\<lparr>info := f (info w)\<rparr>"

section \<open>The node queues\<close>

definition FbmEnqueue :: "(nat \<Rightarrow> FrameNode) \<Rightarrow> nat option \<Rightarrow> nat \<Rightarrow>
    ((nat \<Rightarrow> FrameNode) \<times> nat option) res" where
  "FbmEnqueue fs head p =
     (case head of
        None \<Rightarrow> Inr (fs(p := (fs p)\<lparr>pNext := None\<rparr>), Some p)
      | Some h \<Rightarrow>
          and_then (of_option Diverges (walk_last (\<lambda>i. pNext (fs i)) h)) (\<lambda>cur.
            let fs1 = fs(cur := (fs cur)\<lparr>pNext := Some p\<rparr>)
            in Inr (fs1(p := (fs1 p)\<lparr>pNext := None\<rparr>), head)))"

definition FbmEnqueueToHead :: "(nat \<Rightarrow> FrameNode) \<Rightarrow> nat option \<Rightarrow> nat \<Rightarrow>
    (nat \<Rightarrow> FrameNode) \<times> nat option" where
  "FbmEnqueueToHead fs head p = (fs(p := (fs p)\<lparr>pNext := head\<rparr>), Some p)"

definition FbmDequeue :: "(nat \<Rightarrow> FrameNode) \<Rightarrow> nat option \<Rightarrow>
    nat option \<times> (nat \<Rightarrow> FrameNode) \<times> nat option" where
  "FbmDequeue fs head =
     (case head of
        None \<Rightarrow> (None, fs, None)
      | Some h \<Rightarrow> (Some h, fs(h := (fs h)\<lparr>pNext := None\<rparr>), pNext (fs h)))"

text \<open>The three queues of a manager.\<close>

definition enq_empty :: "nat \<Rightarrow> Fbm \<Rightarrow> Fbm res" where
  "enq_empty i b = and_then (FbmEnqueue (pFrames b) (pEmptyBufferQueue b) i)
     (\<lambda>(fs, h). Inr (b\<lparr>pFrames := fs, pEmptyBufferQueue := h,
                       nEmptyBufferNum := nEmptyBufferNum b + 1\<rparr>))"

definition enq_valid :: "nat \<Rightarrow> Fbm \<Rightarrow> Fbm res" where
  "enq_valid i b = and_then (FbmEnqueue (pFrames b) (pValidPictureQueue b) i)
     (\<lambda>(fs, h). Inr (b\<lparr>pFrames := fs, pValidPictureQueue := h,
                       nValidPictureNum := nValidPictureNum b + 1,
                       nWaitForDispNum := nWaitForDispNum b + 1\<rparr>))"

definition enq_release :: "nat \<Rightarrow> Fbm \<Rightarrow> Fbm res" where
  "enq_release i b = and_then (FbmEnqueue (pFrames b) (pReleaseBufferQueue b) i)
     (\<lambda>(fs, h). Inr (b\<lparr>pFrames := fs, pReleaseBufferQueue := h,
                       nReleaseBufferNum := nReleaseBufferNum b + 1\<rparr>))"

definition deq_empty :: "Fbm \<Rightarrow> nat option \<times> Fbm" where
  "deq_empty b = (case FbmDequeue (pFrames b) (pEmptyBufferQueue b) of
     (n, fs, h) \<Rightarrow> (n, b\<lparr>pFrames := fs, pEmptyBufferQueue := h\<rparr>))"

definition deq_valid :: "Fbm \<Rightarrow> nat option \<times> Fbm" where
  "deq_valid b = (case FbmDequeue (pFrames b) (pValidPictureQueue b) of
     (n, fs, h) \<Rightarrow> (n, b\<lparr>pFrames := fs, pValidPictureQueue := h\<rparr>))"

definition deq_release :: "Fbm \<Rightarrow> nat option \<times> Fbm" where
  "deq_release b = (case FbmDequeue (pFrames b) (pReleaseBufferQueue b) of
     (n, fs, h) \<Rightarrow> (n, b\<lparr>pFrames := fs, pReleaseBufferQueue := h\<rparr>))"

section \<open>The queues are FIFOs of nodes\<close>

text \<open>
  On a well-formed chain, enqueueing a node that is not in it appends the node, and nothing but
  the links of the chain and of the node changes.
\<close>

abbreviation links :: "(nat \<Rightarrow> FrameNode) \<Rightarrow> nat \<Rightarrow> nat option" where
  "links fs \<equiv> \<lambda>i. pNext (fs i)"

definition same_but_links :: "(nat \<Rightarrow> FrameNode) \<Rightarrow> (nat \<Rightarrow> FrameNode) \<Rightarrow> bool" where
  "same_but_links fs fs' \<longleftrightarrow> (\<forall>i. \<exists>q. fs' i = (fs i)\<lparr>pNext := q\<rparr>)"

lemma same_but_linksD:
  assumes "same_but_links fs fs'"
  shows "bUsedByDecoder (fs' i) = bUsedByDecoder (fs i)"
    "bUsedByRender (fs' i) = bUsedByRender (fs i)"
    "bInValidPictureQueue (fs' i) = bInValidPictureQueue (fs i)"
    "bAlreadyDisplayed (fs' i) = bAlreadyDisplayed (fs i)"
    "bNeedRelease (fs' i) = bNeedRelease (fs i)"
    "vpicture (fs' i) = vpicture (fs i)"
  using assms by (auto simp: same_but_links_def dest!: spec [of _ i])

lemma same_but_links_upd: "same_but_links fs gs \<Longrightarrow> same_but_links fs (gs(i := (gs i)\<lparr>pNext := q\<rparr>))"
  unfolding same_but_links_def
proof
  fix j
  assume "\<forall>i. \<exists>q. gs i = (fs i)\<lparr>pNext := q\<rparr>"
  then obtain q' where "gs j = (fs j)\<lparr>pNext := q'\<rparr>" by blast
  then show "\<exists>r. (gs(i := (gs i)\<lparr>pNext := q\<rparr>)) j = (fs j)\<lparr>pNext := r\<rparr>"
    by (cases "j = i") auto
qed

lemma same_but_links_refl: "same_but_links fs fs"
  unfolding same_but_links_def
proof
  fix i
  have "fs i = (fs i)\<lparr>pNext := pNext (fs i)\<rparr>" by simp
  then show "\<exists>q. fs i = (fs i)\<lparr>pNext := q\<rparr>" ..
qed

lemma same_but_links_trans:
  assumes "same_but_links fs gs" and "same_but_links gs hs"
  shows "same_but_links fs hs"
  unfolding same_but_links_def
proof
  fix i
  obtain q r where "gs i = (fs i)\<lparr>pNext := q\<rparr>" "hs i = (gs i)\<lparr>pNext := r\<rparr>"
    using assms unfolding same_but_links_def by metis
  then have "hs i = (fs i)\<lparr>pNext := r\<rparr>" by simp
  then show "\<exists>q. hs i = (fs i)\<lparr>pNext := q\<rparr>" ..
qed

lemmas same_but_links_intros = same_but_links_upd same_but_links_refl

lemma FbmEnqueue_chain:
  assumes "chain (links fs) h xs" and "p \<notin> set xs"
  shows "\<exists>fs' h'. FbmEnqueue fs h p = Inr (fs', h') \<and> chain (links fs') h' (xs @ [p]) \<and>
    same_but_links fs fs' \<and> (\<forall>i. i \<notin> insert p (set xs) \<longrightarrow> fs' i = fs i)"
proof (cases h)
  case None
  with assms have "xs = []" by simp
  with None show ?thesis
    by (simp add: FbmEnqueue_def same_but_links_intros)
next
  case (Some q)
  then have ne: "xs \<noteq> []" using assms(1) by auto
  have last: "walk_last (links fs) q = Some (last xs)"
    using assms(1) Some walk_last_chain by metis
  have nl: "last xs \<noteq> p" using ne assms(2) by auto
  let ?fs = "fs(last xs := (fs (last xs))\<lparr>pNext := Some p\<rparr>, p := (fs p)\<lparr>pNext := None\<rparr>)"
  have "FbmEnqueue fs h p = Inr (?fs, h)"
    using Some last nl by (simp add: FbmEnqueue_def Let_def)
  moreover have "links ?fs = (links fs)(last xs := Some p, p := None)" using nl by auto
  then have "chain (links ?fs) h (xs @ [p])"
    using chain_snoc [OF assms(1) ne assms(2)] by simp
  moreover have "same_but_links fs ?fs"
  proof -
    have "same_but_links fs (fs(last xs := (fs (last xs))\<lparr>pNext := Some p\<rparr>))"
      by (intro same_but_links_intros)
    from same_but_links_upd [OF this, of p None] nl show ?thesis by simp
  qed
  moreover have "\<forall>i. i \<notin> insert p (set xs) \<longrightarrow> ?fs i = fs i" using ne by auto
  ultimately show ?thesis by blast
qed

definition deq_node :: "(nat \<Rightarrow> FrameNode) \<times> nat option \<Rightarrow>
    (nat option \<times> ((nat \<Rightarrow> FrameNode) \<times> nat option)) res" where
  "deq_node q = Inr (FbmDequeue (fst q) (snd q))"

definition enq_node :: "(nat \<Rightarrow> FrameNode) \<times> nat option \<Rightarrow> nat \<Rightarrow>
    ((nat \<Rightarrow> FrameNode) \<times> nat option) res" where
  "enq_node q p = FbmEnqueue (fst q) (snd q) p"

lemma FbmDequeue_chain:
  assumes "chain (links fs) h (x # xs)"
  shows "\<exists>fs' h'. FbmDequeue fs h = (Some x, fs', h') \<and> chain (links fs') h' xs \<and>
    same_but_links fs fs' \<and> (\<forall>i. i \<noteq> x \<longrightarrow> fs' i = fs i)"
proof -
  have x: "x \<notin> set xs" using chain_distinct [OF assms] by simp
  let ?fs = "fs(x := (fs x)\<lparr>pNext := None\<rparr>)"
  have "links ?fs = (links fs)(x := None)" by auto
  then have "chain (links ?fs) (pNext (fs x)) xs" using assms x by simp
  moreover have "same_but_links fs ?fs" by (intro same_but_links_intros)
  ultimately show ?thesis using assms by (auto simp: FbmDequeue_def)
qed

interpretation nodes: fifo "\<lambda>q xs. chain (links (fst q)) (snd q) xs" "\<lambda>xs x. x \<notin> set xs"
  enq_node deq_node
proof
  fix q xs and x :: nat
  assume "chain (links (fst q)) (snd q) xs" and "x \<notin> set xs"
  from FbmEnqueue_chain [OF this]
  show "\<exists>q'. enq_node q x = Inr q' \<and> chain (links (fst q')) (snd q') (xs @ [x])"
    by (auto simp: enq_node_def)
next
  fix q :: "(nat \<Rightarrow> FrameNode) \<times> nat option"
  assume "chain (links (fst q)) (snd q) []"
  then show "\<exists>q'. deq_node q = Inr (None, q') \<and> chain (links (fst q')) (snd q') []"
    by (cases q) (auto simp: deq_node_def FbmDequeue_def)
next
  fix q :: "(nat \<Rightarrow> FrameNode) \<times> nat option" and x xs
  assume "chain (links (fst q)) (snd q) (x # xs)"
  from FbmDequeue_chain [OF this]
  show "\<exists>q'. deq_node q = Inr (Some x, q') \<and> chain (links (fst q')) (snd q') xs"
    by (auto simp: deq_node_def)
qed

end
