(* ===== verification/Fbm.thy ===== *)
theory Fbm
  imports FbmTypes
begin

text \<open>
  The frame buffer manager \<^verbatim>\<open>vdecoder/fbm.c\<close>, run time part: the decoder requests, shares and
  returns picture buffers, the renderer requests and returns pictures. Every function is a
  definition on the memory \<^typ>\<open>fbm_world\<close>; what it does between lock and unlock of the manager
  is a definition on the manager alone.
\<close>

section \<open>Constants and common steps\<close>

definition FRM_FORBID_USE_TAG :: int where "FRM_FORBID_USE_TAG = 0xff"
definition FRM_RELEASE_TAG :: int where "FRM_RELEASE_TAG = 0xee"
definition FBM_NEW_DISP_INVALID_TAG :: int where "FBM_NEW_DISP_INVALID_TAG = 0xdd"
definition FBM_NEED_FLUSH_CACHE_SIZE :: int where "FBM_NEED_FLUSH_CACHE_SIZE = 480"

definition MAJOR_DECODER_USE_FLAG :: "32 word" where "MAJOR_DECODER_USE_FLAG = 1"
definition MINOR_DECODER_USE_FLAG :: "32 word" where "MINOR_DECODER_USE_FLAG = 2"
definition MAJOR_DISP_USE_FLAG :: "32 word" where "MAJOR_DISP_USE_FLAG = 4"
definition MINOR_DISP_USE_FLAG :: "32 word" where "MINOR_DISP_USE_FLAG = 8"
definition MINOR_NEED_USE_FLAG :: "32 word" where "MINOR_NEED_USE_FLAG = 16"

lemmas fbm_consts = FRM_FORBID_USE_TAG_def FRM_RELEASE_TAG_def FBM_NEW_DISP_INVALID_TAG_def
  FBM_NEED_FLUSH_CACHE_SIZE_def MAJOR_DECODER_USE_FLAG_def MINOR_DECODER_USE_FLAG_def
  MAJOR_DISP_USE_FLAG_def MINOR_DISP_USE_FLAG_def MINOR_NEED_USE_FLAG_def

definition set_status :: "32 word \<Rightarrow> VideoPicture \<Rightarrow> VideoPicture" where
  "set_status m v = v\<lparr>nBufStatus := nBufStatus v OR m\<rparr>"

definition clear_status :: "32 word \<Rightarrow> VideoPicture \<Rightarrow> VideoPicture" where
  "clear_status m v = v\<lparr>nBufStatus := nBufStatus v AND NOT m\<rparr>"

definition status_has :: "32 word \<Rightarrow> VideoPicture \<Rightarrow> bool" where
  "status_has m v \<longleftrightarrow> nBufStatus v AND m \<noteq> 0"

text \<open>\<^verbatim>\<open>bTwoStreamShareOneFbm == 1 && pFbm == pFbmSecond\<close>: the minor stream of a 3D video, which
  works on the frames of the major one.\<close>

definition minor_stream :: "fbm_world \<Rightarrow> nat \<Rightarrow> bool" where
  "minor_stream w b \<longleftrightarrow> bTwoStreamShareOneFbm (info w) = 1 \<and> pFbmSecond (info w) = Some b"

text \<open>The check of a picture that comes back: its id is in range and it is the picture of that
  node. \<open>Inr None\<close> is the logged error.\<close>

definition node_of :: "fbm_world \<Rightarrow> nat option \<Rightarrow> pic_ptr \<Rightarrow> (nat \<times> nat) option res" where
  "node_of w pFbm p =
     (let index = nID (get_pic w p)
      in if index < 0 then Inr None
         else case pFbm of None \<Rightarrow> Inl NullDeref
         | Some b \<Rightarrow> if index \<ge> nMaxFrameNum (fbms w b) \<or> p \<noteq> Pic b (nat index) then Inr None
                     else Inr (Some (b, nat index)))"

text \<open>The four flags no idle frame may have.\<close>

definition in_use :: "FrameNode \<Rightarrow> bool" where
  "in_use f \<longleftrightarrow> bUsedByDecoder f \<or> bInValidPictureQueue f \<or> bUsedByRender f \<or> bAlreadyDisplayed f"

section \<open>The decoder requests a buffer\<close>

text \<open>A node with a wrong status is refused after it was taken out of the queue.\<close>

definition request_buffer_locked :: "Fbm \<Rightarrow> nat option \<times> Fbm" where
  "request_buffer_locked x =
     (case deq_empty x of
        (None, x1) \<Rightarrow> (None, x1)
      | (Some i, x1) \<Rightarrow>
          if in_use (pFrames x1 i) then (None, x1)
          else (Some i, (upd_node i (\<lambda>n. n\<lparr>bUsedByDecoder := True\<rparr>) x1)
                  \<lparr>nEmptyBufferNum := nEmptyBufferNum x1 - 1,
                   nDecoderHoldingNum := nDecoderHoldingNum x1 + 1\<rparr>))"

definition flush_cts_frame :: "fbm_world \<Rightarrow> pic_ptr \<Rightarrow> fbm_world" where
  "flush_cts_frame w p =
     (let v = get_pic w p
      in if bIsFrameCtsTestFlag (info w) \<noteq> 0 \<and> nWidth v < FBM_NEED_FLUSH_CACHE_SIZE
         then w\<lparr>flushed := (pData0 v, nWidth v * nHeight v * 3 sdiv 2) # flushed w\<rparr> else w)"

definition FbmRequestBuffer :: "fbm_world \<Rightarrow> nat option \<Rightarrow> pic_ptr option \<times> fbm_world" where
  "FbmRequestBuffer w pFbm =
     (case pFbm of None \<Rightarrow> (None, w)
      | Some b \<Rightarrow>
        if \<not> pFbmInfo (fbms w b) then (None, w)
        else if minor_stream w b then
          (case pMajorDecoderFrame (info w) of
             None \<Rightarrow> (None, w)
           | Some p \<Rightarrow> (Some p, upd_pic (\<lambda>v. clear_status MINOR_NEED_USE_FLAG
                                          (set_status MINOR_DECODER_USE_FLAG v)) p w))
        else
          let w1 = upd_info (\<lambda>f. f\<lparr>pMajorDecoderFrame := None\<rparr>) w;
              (r, x) = request_buffer_locked (fbms w1 b);
              w2 = set_fbm b x w1
          in case r of
               None \<Rightarrow> (None, w2)
             | Some i \<Rightarrow>
                 let w3 = (if bTwoStreamShareOneFbm (info w2) = 1
                           then upd_pic (\<lambda>v. set_status MINOR_NEED_USE_FLAG
                                          (set_status MAJOR_DECODER_USE_FLAG v)) (Pic b i)
                                  (upd_info (\<lambda>f. f\<lparr>pMajorDecoderFrame := Some (Pic b i)\<rparr>) w2)
                           else w2)
                 in (Some (Pic b i), flush_cts_frame w3 (Pic b i)))"

section \<open>The decoder returns a buffer\<close>

text \<open>In a 3D video the picture is only given back when the other stream is done with it.\<close>

datatype route = Stop | Go "nat option"

definition return_buffer_route :: "fbm_world \<Rightarrow> nat \<Rightarrow> pic_ptr \<Rightarrow> int \<Rightarrow> route \<times> fbm_world" where
  "return_buffer_route w b p bValidPicture =
     (if bTwoStreamShareOneFbm (info w) = 1 then
        if pFbmFirst (info w) = Some b then
          let w1 = upd_pic (clear_status MAJOR_DECODER_USE_FLAG) p w; v = get_pic w1 p
          in if status_has MINOR_DECODER_USE_FLAG v then (Stop, w1)
             else if bValidPicture = 1 \<and> status_has MINOR_NEED_USE_FLAG v then (Stop, w1)
             else (Go (Some b), w1)
        else if pFbmSecond (info w) = Some b then
          let w1 = upd_pic (clear_status MINOR_DECODER_USE_FLAG) p w
          in if status_has MAJOR_DECODER_USE_FLAG (get_pic w1 p) then (Stop, w1)
             else (Go (pFbmFirst (info w)), w1)
        else (Go (Some b), w)
      else (Go (Some b), w))"

definition decoder_done :: "Fbm \<Rightarrow> Fbm" where
  "decoder_done x = x\<lparr>nDecoderHoldingNum := nDecoderHoldingNum x - 1\<rparr>"

definition return_buffer_locked :: "nat \<Rightarrow> int \<Rightarrow> Fbm \<Rightarrow> Fbm res" where
  "return_buffer_locked i bValidPicture x =
     (let f = pFrames x i
      in if \<not> bUsedByDecoder f then Inr x
         else
           let x1 = upd_node i (\<lambda>n. n\<lparr>bUsedByDecoder := False\<rparr>) x
           in if bNeedRelease f \<and> \<not> bInValidPictureQueue f then
                and_then (enq_release i x1) (\<lambda>x2.
                  Inr (upd_node i (\<lambda>n. n\<lparr>bAlreadyDisplayed := False,
                                       bInValidPictureQueue := False\<rparr>) x2))
              else if bInValidPictureQueue f then
                (if bUsedByRender f \<or> bAlreadyDisplayed f then Inr x1 else Inr (decoder_done x1))
              else if bUsedByRender f then Inr (decoder_done x1)
              else if bAlreadyDisplayed f then
                and_then (enq_empty i (upd_node i (\<lambda>n. n\<lparr>bAlreadyDisplayed := False\<rparr>) x1)) (\<lambda>x2.
                  Inr (decoder_done x2))
              else if bValidPicture \<noteq> 0 then
                and_then (enq_valid i x1) (\<lambda>x2.
                  Inr (decoder_done (upd_node i (\<lambda>n. n\<lparr>bInValidPictureQueue := True\<rparr>) x2)))
              else and_then (enq_empty i x1) (\<lambda>x2. Inr (decoder_done x2)))"

definition FbmReturnBuffer :: "fbm_world \<Rightarrow> nat option \<Rightarrow> pic_ptr option \<Rightarrow> int \<Rightarrow> fbm_world res" where
  "FbmReturnBuffer w pFbm pVPicture bValidPicture =
     (case pFbm of None \<Rightarrow> Inr w
      | Some b \<Rightarrow>
        if \<not> pFbmInfo (fbms w b) then Inr w
        else case pVPicture of None \<Rightarrow> Inr w
        | Some p \<Rightarrow>
          (case return_buffer_route w b p bValidPicture of
             (Stop, w1) \<Rightarrow> Inr w1
           | (Go b', w1) \<Rightarrow>
               and_then (node_of w1 b' p) (\<lambda>r.
                 case r of None \<Rightarrow> Inr w1
                 | Some (c, i) \<Rightarrow>
                     and_then (return_buffer_locked i bValidPicture (fbms w1 c)) (\<lambda>x.
                       Inr (set_fbm c x w1)))))"

section \<open>The decoder shares a picture with the renderer\<close>

definition share_buffer_locked :: "nat \<Rightarrow> Fbm \<Rightarrow> Fbm res" where
  "share_buffer_locked i x =
     (let f = pFrames x i
      in if bNeedRelease f then Inr x
         else if \<not> bUsedByDecoder f \<or> bInValidPictureQueue f \<or> bAlreadyDisplayed f then Inr x
         else enq_valid i (upd_node i (\<lambda>n. n\<lparr>bInValidPictureQueue := True\<rparr>) x))"

definition FbmShareBuffer :: "fbm_world \<Rightarrow> nat option \<Rightarrow> pic_ptr option \<Rightarrow> fbm_world res" where
  "FbmShareBuffer w pFbm pVPicture =
     (case pFbm of None \<Rightarrow> Inr w
      | Some b \<Rightarrow>
        if \<not> pFbmInfo (fbms w b) then Inr w
        else case pVPicture of None \<Rightarrow> Inr w
        | Some p \<Rightarrow>
          if minor_stream w b then Inr w
          else and_then (node_of w (Some b) p) (\<lambda>r.
            case r of None \<Rightarrow> Inr w
            | Some (c, i) \<Rightarrow>
                and_then (share_buffer_locked i (fbms w c)) (\<lambda>x. Inr (set_fbm c x w))))"

section \<open>The renderer requests and returns pictures\<close>

definition request_picture_locked :: "Fbm \<Rightarrow> nat option \<times> Fbm" where
  "request_picture_locked x =
     (case deq_valid x of
        (None, x1) \<Rightarrow> (None, x1)
      | (Some i, x1) \<Rightarrow>
          let f = pFrames x1 i
          in if \<not> bInValidPictureQueue f \<or> bUsedByRender f \<or> bAlreadyDisplayed f then (None, x1)
             else (Some i, (upd_node i (\<lambda>n. n\<lparr>bInValidPictureQueue := False, bUsedByRender := True,
                              vpicture := set_status MAJOR_DISP_USE_FLAG (vpicture n)\<rparr>) x1)
                     \<lparr>nValidPictureNum := nValidPictureNum x1 - 1,
                      nWaitForDispNum := nWaitForDispNum x1 - 1,
                      nRenderHoldingNum := nRenderHoldingNum x1 + 1\<rparr>))"

definition FbmRequestPicture :: "fbm_world \<Rightarrow> nat option \<Rightarrow> (pic_ptr option \<times> fbm_world) res" where
  "FbmRequestPicture w pFbm =
     (case pFbm of None \<Rightarrow> Inr (None, w)
      | Some b \<Rightarrow>
        if \<not> pFbmInfo (fbms w b) then Inr (None, w)
        else if minor_stream w b then
          (case pMajorDispFrame (info w) of
             None \<Rightarrow> Inl NullDeref
           | Some p \<Rightarrow> Inr (Some p, upd_pic (set_status MINOR_DISP_USE_FLAG) p w))
        else
          (case request_picture_locked (fbms w b) of
             (r, x) \<Rightarrow> Inr (map_option (Pic b) r,
                upd_info (\<lambda>f. f\<lparr>pMajorDispFrame := map_option (Pic b) r\<rparr>) (set_fbm b x w))))"

definition return_picture_route :: "fbm_world \<Rightarrow> nat \<Rightarrow> pic_ptr \<Rightarrow> bool \<times> fbm_world" where
  "return_picture_route w b p =
     (if bTwoStreamShareOneFbm (info w) = 1 then
        if pFbmFirst (info w) = Some b then
          let w1 = upd_pic (clear_status MAJOR_DISP_USE_FLAG) p w
          in (\<not> status_has MINOR_DISP_USE_FLAG (get_pic w1 p), w1)
        else if pFbmSecond (info w) = Some b then
          let w1 = upd_pic (clear_status MINOR_DISP_USE_FLAG) p w
          in (\<not> status_has MAJOR_DISP_USE_FLAG (get_pic w1 p), w1)
        else (True, w)
      else (True, w))"

definition return_picture_locked :: "nat \<Rightarrow> Fbm \<Rightarrow> (int \<times> Fbm) res" where
  "return_picture_locked i x =
     (let f = pFrames x i
      in if \<not> bUsedByRender f \<or> bInValidPictureQueue f \<or> bAlreadyDisplayed f then Inr (-1, x)
         else
           let x1 = (upd_node i (\<lambda>n. n\<lparr>bUsedByRender := False\<rparr>) x)
                      \<lparr>nRenderHoldingNum := nRenderHoldingNum x - 1\<rparr>
           in if bUsedByDecoder f
              then Inr (0, upd_node i (\<lambda>n. n\<lparr>bAlreadyDisplayed := True\<rparr>) x1)
              else if \<not> bNeedRelease f then and_then (enq_empty i x1) (\<lambda>x2. Inr (0, x2))
              else and_then (enq_release i x1) (\<lambda>x2. Inr (0, x2)))"

text \<open>A picture whose id carries the forbid tag: its node goes to the empty queue. The node is
  found by the id alone, without a check of the upper bound.\<close>

definition return_forbidden :: "fbm_world \<Rightarrow> nat \<Rightarrow> pic_ptr \<Rightarrow> (int \<times> fbm_world) res" where
  "return_forbidden w b p =
     (let x = fbms w b; j = nID (get_pic w p) - FRM_FORBID_USE_TAG
      in if j \<ge> nMaxFrameNum x then Inl OutOfBounds
         else
           let f = pFrames x (nat j)
           in if bUsedByRender f \<or> bInValidPictureQueue f \<or> bAlreadyDisplayed f then Inr (-1, w)
              else and_then (enq_empty (nat j) x) (\<lambda>x1.
                Inr (0, upd_pic (\<lambda>v. v\<lparr>nID := nID v - FRM_FORBID_USE_TAG\<rparr>) p (set_fbm b x1 w))))"

definition FbmReturnPicture :: "fbm_world \<Rightarrow> nat option \<Rightarrow> pic_ptr option \<Rightarrow> (int \<times> fbm_world) res" where
  "FbmReturnPicture w pFbm pVPicture =
     (case pFbm of None \<Rightarrow> Inr (0, w)
      | Some b \<Rightarrow>
        if \<not> pFbmInfo (fbms w b) then Inr (0, w)
        else case pVPicture of None \<Rightarrow> Inr (0, w)
        | Some p \<Rightarrow>
          (case return_picture_route w b p of
             (False, w1) \<Rightarrow> Inr (0, w1)
           | (True, w1) \<Rightarrow>
               let index = nID (get_pic w1 p)
               in if (index < 0 \<or> index \<ge> nMaxFrameNum (fbms w1 b)) \<and> index \<ge> FRM_FORBID_USE_TAG
                  then return_forbidden w1 b p
                  else and_then (node_of w1 (Some b) p) (\<lambda>r.
                    case r of None \<Rightarrow> Inr (-1, w1)
                    | Some (c, i) \<Rightarrow>
                        and_then (return_picture_locked i (fbms w1 c)) (\<lambda>(k, x).
                          Inr (k, set_fbm c x w1)))))"

section \<open>Looking ahead, flushing, and the queries\<close>

text \<open>The manager that holds the frames of a stream.\<close>

definition frames_of :: "fbm_world \<Rightarrow> nat \<Rightarrow> nat option" where
  "frames_of w b = (if minor_stream w b then pFbmFirst (info w) else Some b)"

definition FbmNextPictureInfo :: "fbm_world \<Rightarrow> nat option \<Rightarrow> pic_ptr option res" where
  "FbmNextPictureInfo w pFbm =
     (case pFbm of None \<Rightarrow> Inr None
      | Some b \<Rightarrow>
        if \<not> pFbmInfo (fbms w b) then Inr None
        else and_then (of_option NullDeref (frames_of w b)) (\<lambda>c.
          Inr (map_option (Pic c) (pValidPictureQueue (fbms w c)))))"

partial_function (option) flush_loop :: "Fbm \<Rightarrow> Fbm res option" where
  "flush_loop x =
     (case deq_valid x of
        (None, x1) \<Rightarrow> Some (Inr x1)
      | (Some i, x1) \<Rightarrow>
          let f = pFrames x1 i;
              x2 = (upd_node i (\<lambda>n. n\<lparr>vpicture := (vpicture n)\<lparr>nBufStatus := 0\<rparr>\<rparr>) x1)
                     \<lparr>nValidPictureNum := nValidPictureNum x1 - 1\<rparr>
          in if bUsedByRender f \<or> bAlreadyDisplayed f then Some (Inr x2)
             else
               let x3 = upd_node i (\<lambda>n. n\<lparr>bInValidPictureQueue := False\<rparr>) x2
               in if \<not> bUsedByDecoder f
                  then (case enq_empty i x3 of
                          Inl e \<Rightarrow> Some (Inl e)
                        | Inr x4 \<Rightarrow> flush_loop x4)
                  else flush_loop (upd_node i (\<lambda>n. n\<lparr>bAlreadyDisplayed := True\<rparr>) x3))"

declare flush_loop.simps [code]

definition FbmFlush :: "fbm_world \<Rightarrow> nat option \<Rightarrow> fbm_world res" where
  "FbmFlush w pFbm =
     (case pFbm of None \<Rightarrow> Inr w
      | Some b \<Rightarrow>
        if \<not> pFbmInfo (fbms w b) then Inr w
        else if minor_stream w b then Inr w
        else and_then (of_option Diverges (flush_loop (fbms w b))) (\<lambda>r.
          and_then r (\<lambda>x. Inr (set_fbm b x w))))"

definition fbm_query :: "(Fbm \<Rightarrow> int) \<Rightarrow> fbm_world \<Rightarrow> nat option \<Rightarrow> int res" where
  "fbm_query f w pFbm =
     (case pFbm of None \<Rightarrow> Inr 0
      | Some b \<Rightarrow>
        if \<not> pFbmInfo (fbms w b) then Inr 0
        else and_then (of_option NullDeref (frames_of w b)) (\<lambda>c. Inr (f (fbms w c))))"

definition FbmTotalBufferNum :: "fbm_world \<Rightarrow> nat option \<Rightarrow> int res" where
  "FbmTotalBufferNum = fbm_query nMaxFrameNum"

definition FbmEmptyBufferNum :: "fbm_world \<Rightarrow> nat option \<Rightarrow> int res" where
  "FbmEmptyBufferNum = fbm_query nEmptyBufferNum"

definition FbmGetDecoderHoldingBufferNum :: "fbm_world \<Rightarrow> nat option \<Rightarrow> int res" where
  "FbmGetDecoderHoldingBufferNum = fbm_query nDecoderHoldingNum"

definition FbmGetRenderHoldingBufferNum :: "fbm_world \<Rightarrow> nat option \<Rightarrow> int res" where
  "FbmGetRenderHoldingBufferNum = fbm_query nRenderHoldingNum"

definition FbmGetDisplayBufferNum :: "fbm_world \<Rightarrow> nat option \<Rightarrow> int res" where
  "FbmGetDisplayBufferNum = fbm_query (\<lambda>x. nRenderHoldingNum x + nValidPictureNum x)"

definition FbmValidPictureNum :: "fbm_world \<Rightarrow> nat option \<Rightarrow> int res" where
  "FbmValidPictureNum = fbm_query nValidPictureNum"

definition FbmGetAlignValue :: "fbm_world \<Rightarrow> nat option \<Rightarrow> int res" where
  "FbmGetAlignValue = fbm_query nAlignValue"

definition FbmGetBufferInfo :: "fbm_world \<Rightarrow> nat option \<Rightarrow> pic_ptr option \<Rightarrow> (int \<times> fbm_world) res" where
  "FbmGetBufferInfo w pFbm pVPicture =
     (case pFbm of None \<Rightarrow> Inr (0, w)
      | Some b \<Rightarrow>
        if \<not> pFbmInfo (fbms w b) then Inr (0, w)
        else and_then (of_option NullDeref (frames_of w b)) (\<lambda>c.
          if nMaxFrameNum (fbms w c) < 1 then Inl OutOfBounds
          else and_then (of_option NullDeref pVPicture) (\<lambda>p.
            let v = vpicture (pFrames (fbms w c) 0)
            in Inr (0, upd_pic (\<lambda>d. d\<lparr>ePixelFormat := ePixelFormat v, nWidth := nWidth v,
                   nHeight := nHeight v, nLineStride := nLineStride v, nTopOffset := nTopOffset v,
                   nLeftOffset := nLeftOffset v, nFrameRate := nFrameRate v,
                   nAspectRatio := nAspectRatio v, bIsProgressive := bIsProgressive v\<rparr>) p w))))"

definition FbmGetBufferOffset :: "fbm_world \<Rightarrow> nat option \<Rightarrow> int \<Rightarrow> int" where
  "FbmGetBufferOffset w pFbm isYBufferFlag =
     (case pFbm of None \<Rightarrow> 0
      | Some b \<Rightarrow>
        if \<not> pFbmInfo (fbms w b) then 0
        else if pFbmFirst (info w) = Some b then 0
        else if isYBufferFlag = 1 then nMinorYBufOffset (info w) else nMinorCBufOffset (info w))"

end
