(* ===== verification/FbmPool.thy ===== *)
theory FbmPool
  imports Fbm
begin

text \<open>
  The contract of the frame buffer manager: a pool of frames with three queues and two holders,
  given by plain lists and sets. A manager represents a pool when its chains are the lists, its
  flags the memberships and its counters the sizes; every operation of \<^verbatim>\<open>fbm.c\<close> then does to the
  manager what the operation of the same name does to the pool.
\<close>

section \<open>The pool\<close>

text \<open>
  \<open>free\<close>, \<open>ready\<close> and \<open>freed\<close> are the empty, valid and release queues; \<open>decoding\<close> and
  \<open>rendering\<close> are the frames a holder has, \<open>shown\<close> those of the decoder that the renderer is
  done with, \<open>marked\<close> those that are to be released. \<open>uncounted\<close> is the number of buffers that
  were returned into the release queue, which the decoder's counter misses.
  The first \<open>installed\<close> frames have a buffer; the owner of the display buffers has the frames
  \<open>away\<close> (handed over for release) and \<open>forbidden\<close> (given to the manager, still in use outside).
\<close>

record pool =
  nframes :: nat
  free :: "nat list"
  ready :: "nat list"
  freed :: "nat list"
  decoding :: "nat set"
  rendering :: "nat set"
  shown :: "nat set"
  marked :: "nat set"
  uncounted :: nat
  installed :: nat
  away :: "nat set"
  forbidden :: "nat set"

definition pool_ok :: "pool \<Rightarrow> bool" where
  "pool_ok P \<longleftrightarrow>
     distinct (free P @ ready P @ freed P) \<and>
     set (free P @ ready P @ freed P) \<union> decoding P \<union> rendering P \<union> marked P \<subseteq> {..<nframes P} \<and>
     (set (free P) \<union> set (freed P)) \<inter> (decoding P \<union> rendering P) = {} \<and>
     set (ready P) \<inter> rendering P = {} \<and>
     shown P \<subseteq> decoding P - rendering P - set (ready P)"

fun pool_request_buffer :: "pool \<Rightarrow> nat option \<times> pool" where
  "pool_request_buffer P =
     (case free P of [] \<Rightarrow> (None, P)
      | i # is \<Rightarrow> (Some i, P\<lparr>free := is, decoding := insert i (decoding P)\<rparr>))"

fun pool_return_buffer :: "nat \<Rightarrow> bool \<Rightarrow> pool \<Rightarrow> pool" where
  "pool_return_buffer i valid P =
     (if i \<notin> decoding P then P
      else
        let P1 = P\<lparr>decoding := decoding P - {i}, shown := shown P - {i}\<rparr>
        in if i \<in> marked P \<and> i \<notin> set (ready P)
           then P1\<lparr>freed := freed P @ [i], uncounted := uncounted P + 1\<rparr>
           else if i \<in> set (ready P) \<or> i \<in> rendering P then P1
           else if i \<in> shown P \<or> \<not> valid then P1\<lparr>free := free P @ [i]\<rparr>
           else P1\<lparr>ready := ready P @ [i]\<rparr>)"

fun pool_share_buffer :: "nat \<Rightarrow> pool \<Rightarrow> pool" where
  "pool_share_buffer i P =
     (if i \<in> marked P \<or> i \<notin> decoding P \<or> i \<in> set (ready P) \<or> i \<in> shown P then P
      else P\<lparr>ready := ready P @ [i]\<rparr>)"

fun pool_request_picture :: "pool \<Rightarrow> nat option \<times> pool" where
  "pool_request_picture P =
     (case ready P of [] \<Rightarrow> (None, P)
      | i # is \<Rightarrow> (Some i, P\<lparr>ready := is, rendering := insert i (rendering P)\<rparr>))"

fun pool_return_picture :: "nat \<Rightarrow> pool \<Rightarrow> int \<times> pool" where
  "pool_return_picture i P =
     (if i \<notin> rendering P then (-1, P)
      else
        let P1 = P\<lparr>rendering := rendering P - {i}\<rparr>
        in (0, if i \<in> decoding P then P1\<lparr>shown := insert i (shown P)\<rparr>
               else if i \<in> marked P then P1\<lparr>freed := freed P @ [i]\<rparr>
               else P1\<lparr>free := free P @ [i]\<rparr>))"

fun pool_flush :: "pool \<Rightarrow> pool" where
  "pool_flush P = P\<lparr>ready := [], free := free P @ filter (\<lambda>i. i \<notin> decoding P) (ready P),
     shown := shown P \<union> (set (ready P) \<inter> decoding P)\<rparr>"

section \<open>A manager represents a pool\<close>

definition flags_rep :: "FrameNode \<Rightarrow> nat \<Rightarrow> pool \<Rightarrow> bool" where
  "flags_rep f i P \<longleftrightarrow>
     (bUsedByDecoder f \<longleftrightarrow> i \<in> decoding P) \<and>
     (bUsedByRender f \<longleftrightarrow> i \<in> rendering P) \<and>
     (bInValidPictureQueue f \<longleftrightarrow> i \<in> set (ready P)) \<and>
     (bAlreadyDisplayed f \<longleftrightarrow> i \<in> shown P) \<and>
     (bNeedRelease f \<longleftrightarrow> i \<in> marked P)"

definition queues :: "Fbm \<Rightarrow> nat list \<Rightarrow> nat list \<Rightarrow> nat list \<Rightarrow> bool" where
  "queues x es vs rs \<longleftrightarrow>
     chain (links (pFrames x)) (pEmptyBufferQueue x) es \<and>
     chain (links (pFrames x)) (pValidPictureQueue x) vs \<and>
     chain (links (pFrames x)) (pReleaseBufferQueue x) rs \<and>
     distinct (es @ vs @ rs)"

definition flags_ok :: "(nat \<Rightarrow> FrameNode) \<Rightarrow> pool \<Rightarrow> bool" where
  "flags_ok fs P \<longleftrightarrow> (\<forall>i < nframes P. flags_rep (fs i) i P)"

definition counters_ok :: "Fbm \<Rightarrow> pool \<Rightarrow> bool" where
  "counters_ok x P \<longleftrightarrow>
     nMaxFrameNum x = int (nframes P) \<and>
     nEmptyBufferNum x = int (length (free P)) \<and>
     nValidPictureNum x = int (length (ready P)) \<and>
     nReleaseBufferNum x = int (length (freed P)) \<and>
     nDecoderHoldingNum x = int (card (decoding P) + uncounted P) \<and>
     nRenderHoldingNum x = int (card (rendering P))"

definition fbm_rep :: "Fbm \<Rightarrow> pool \<Rightarrow> bool" where
  "fbm_rep x P \<longleftrightarrow> pool_ok P \<and> queues x (free P) (ready P) (freed P) \<and>
     flags_ok (pFrames x) P \<and> counters_ok x P"

section \<open>The queue operations on a manager\<close>

lemma upd_node_simps [simp]:
  "pFrames (upd_node i f x) j = (if j = i then f (pFrames x i) else pFrames x j)"
  "pEmptyBufferQueue (upd_node i f x) = pEmptyBufferQueue x"
  "pValidPictureQueue (upd_node i f x) = pValidPictureQueue x"
  "pReleaseBufferQueue (upd_node i f x) = pReleaseBufferQueue x"
  "nMaxFrameNum (upd_node i f x) = nMaxFrameNum x"
  "nEmptyBufferNum (upd_node i f x) = nEmptyBufferNum x"
  "nValidPictureNum (upd_node i f x) = nValidPictureNum x"
  "nReleaseBufferNum (upd_node i f x) = nReleaseBufferNum x"
  "nDecoderHoldingNum (upd_node i f x) = nDecoderHoldingNum x"
  "nRenderHoldingNum (upd_node i f x) = nRenderHoldingNum x"
  "nWaitForDispNum (upd_node i f x) = nWaitForDispNum x"
  "pFbmInfo (upd_node i f x) = pFbmInfo x"
  "bUseGpuBuf (upd_node i f x) = bUseGpuBuf x"
  by (simp_all add: upd_node_def)

lemma queues_upd_node [simp]:
  assumes "pNext (f (pFrames x i)) = pNext (pFrames x i)"
  shows "queues (upd_node i f x) es vs rs = queues x es vs rs"
proof -
  have "links (pFrames (upd_node i f x)) = links (pFrames x)" using assms by auto
  then show ?thesis by (simp add: queues_def)
qed

lemma queues_counters [simp]:
  "queues (x\<lparr>nEmptyBufferNum := a\<rparr>) es vs rs = queues x es vs rs"
  "queues (x\<lparr>nValidPictureNum := a\<rparr>) es vs rs = queues x es vs rs"
  "queues (x\<lparr>nReleaseBufferNum := a\<rparr>) es vs rs = queues x es vs rs"
  "queues (x\<lparr>nDecoderHoldingNum := a\<rparr>) es vs rs = queues x es vs rs"
  "queues (x\<lparr>nRenderHoldingNum := a\<rparr>) es vs rs = queues x es vs rs"
  "queues (x\<lparr>nWaitForDispNum := a\<rparr>) es vs rs = queues x es vs rs"
  by (simp_all add: queues_def)

text \<open>Each operation touches the links of its own queue only.\<close>

lemma chain_frame:
  "\<forall>i. i \<notin> A \<longrightarrow> fs' i = fs i \<Longrightarrow> set xs \<inter> A = {} \<Longrightarrow> chain (links fs') h xs = chain (links fs) h xs"
  by (rule chain_cong) (auto simp: disjoint_iff)

lemma deq_empty_queues:
  assumes "queues x (i # es) vs rs"
  shows "\<exists>fs h. deq_empty x = (Some i, x\<lparr>pFrames := fs, pEmptyBufferQueue := h\<rparr>) \<and>
    queues (x\<lparr>pFrames := fs, pEmptyBufferQueue := h\<rparr>) es vs rs \<and> same_but_links (pFrames x) fs"
proof -
  from assms have c: "chain (links (pFrames x)) (pEmptyBufferQueue x) (i # es)"
    by (simp only: queues_def)
  from FbmDequeue_chain [OF c] obtain fs h where *:
      "FbmDequeue (pFrames x) (pEmptyBufferQueue x) = (Some i, fs, h)" "chain (links fs) h es"
      "same_but_links (pFrames x) fs" "\<forall>j. j \<noteq> i \<longrightarrow> fs j = pFrames x j" by blast
  then have fr: "\<forall>j. j \<notin> {i} \<longrightarrow> fs j = pFrames x j" by simp
  have "set vs \<inter> {i} = {}" "set rs \<inter> {i} = {}" using assms by (auto simp: queues_def)
  with chain_frame [OF fr] assms * show ?thesis
    by (auto simp: deq_empty_def queues_def)
qed

lemma deq_valid_queues:
  assumes "queues x es (i # vs) rs"
  shows "\<exists>fs h. deq_valid x = (Some i, x\<lparr>pFrames := fs, pValidPictureQueue := h\<rparr>) \<and>
    queues (x\<lparr>pFrames := fs, pValidPictureQueue := h\<rparr>) es vs rs \<and> same_but_links (pFrames x) fs"
proof -
  from assms have c: "chain (links (pFrames x)) (pValidPictureQueue x) (i # vs)"
    by (simp only: queues_def)
  from FbmDequeue_chain [OF c] obtain fs h where *:
      "FbmDequeue (pFrames x) (pValidPictureQueue x) = (Some i, fs, h)" "chain (links fs) h vs"
      "same_but_links (pFrames x) fs" "\<forall>j. j \<noteq> i \<longrightarrow> fs j = pFrames x j" by blast
  then have fr: "\<forall>j. j \<notin> {i} \<longrightarrow> fs j = pFrames x j" by simp
  have "set es \<inter> {i} = {}" "set rs \<inter> {i} = {}" using assms by (auto simp: queues_def)
  with chain_frame [OF fr] assms * show ?thesis
    by (auto simp: deq_valid_def queues_def)
qed

lemma deq_release_queues:
  assumes "queues x es vs (i # rs)"
  shows "\<exists>fs h. deq_release x = (Some i, x\<lparr>pFrames := fs, pReleaseBufferQueue := h\<rparr>) \<and>
    queues (x\<lparr>pFrames := fs, pReleaseBufferQueue := h\<rparr>) es vs rs \<and> same_but_links (pFrames x) fs"
proof -
  from assms have c: "chain (links (pFrames x)) (pReleaseBufferQueue x) (i # rs)"
    by (simp only: queues_def)
  from FbmDequeue_chain [OF c] obtain fs h where *:
      "FbmDequeue (pFrames x) (pReleaseBufferQueue x) = (Some i, fs, h)" "chain (links fs) h rs"
      "same_but_links (pFrames x) fs" "\<forall>j. j \<noteq> i \<longrightarrow> fs j = pFrames x j" by blast
  then have fr: "\<forall>j. j \<notin> {i} \<longrightarrow> fs j = pFrames x j" by simp
  have "set es \<inter> {i} = {}" "set vs \<inter> {i} = {}" using assms by (auto simp: queues_def)
  with chain_frame [OF fr] assms * show ?thesis
    by (auto simp: deq_release_def queues_def)
qed

lemma enq_empty_queues:
  assumes "queues x es vs rs" and "i \<notin> set (es @ vs @ rs)"
  shows "\<exists>fs h. enq_empty i x = Inr (x\<lparr>pFrames := fs, pEmptyBufferQueue := h,
      nEmptyBufferNum := nEmptyBufferNum x + 1\<rparr>) \<and>
    queues (x\<lparr>pFrames := fs, pEmptyBufferQueue := h\<rparr>) (es @ [i]) vs rs \<and>
    same_but_links (pFrames x) fs"
proof -
  from assms have c: "chain (links (pFrames x)) (pEmptyBufferQueue x) es" "i \<notin> set es"
    by (simp_all add: queues_def)
  from FbmEnqueue_chain [OF c] obtain fs h where *:
      "FbmEnqueue (pFrames x) (pEmptyBufferQueue x) i = Inr (fs, h)" "chain (links fs) h (es @ [i])"
      "same_but_links (pFrames x) fs" "\<forall>j. j \<notin> insert i (set es) \<longrightarrow> fs j = pFrames x j" by blast
  have "set vs \<inter> insert i (set es) = {}" "set rs \<inter> insert i (set es) = {}"
    using assms by (auto simp: queues_def)
  with chain_frame [OF *(4)] assms * show ?thesis
    by (auto simp: enq_empty_def queues_def)
qed

lemma enq_valid_queues:
  assumes "queues x es vs rs" and "i \<notin> set (es @ vs @ rs)"
  shows "\<exists>fs h. enq_valid i x = Inr (x\<lparr>pFrames := fs, pValidPictureQueue := h,
      nValidPictureNum := nValidPictureNum x + 1, nWaitForDispNum := nWaitForDispNum x + 1\<rparr>) \<and>
    queues (x\<lparr>pFrames := fs, pValidPictureQueue := h\<rparr>) es (vs @ [i]) rs \<and>
    same_but_links (pFrames x) fs"
proof -
  from assms have c: "chain (links (pFrames x)) (pValidPictureQueue x) vs" "i \<notin> set vs"
    by (simp_all add: queues_def)
  from FbmEnqueue_chain [OF c] obtain fs h where *:
      "FbmEnqueue (pFrames x) (pValidPictureQueue x) i = Inr (fs, h)" "chain (links fs) h (vs @ [i])"
      "same_but_links (pFrames x) fs" "\<forall>j. j \<notin> insert i (set vs) \<longrightarrow> fs j = pFrames x j" by blast
  have "set es \<inter> insert i (set vs) = {}" "set rs \<inter> insert i (set vs) = {}"
    using assms by (auto simp: queues_def)
  with chain_frame [OF *(4)] assms * show ?thesis
    by (auto simp: enq_valid_def queues_def)
qed

lemma enq_release_queues:
  assumes "queues x es vs rs" and "i \<notin> set (es @ vs @ rs)"
  shows "\<exists>fs h. enq_release i x = Inr (x\<lparr>pFrames := fs, pReleaseBufferQueue := h,
      nReleaseBufferNum := nReleaseBufferNum x + 1\<rparr>) \<and>
    queues (x\<lparr>pFrames := fs, pReleaseBufferQueue := h\<rparr>) es vs (rs @ [i]) \<and>
    same_but_links (pFrames x) fs"
proof -
  from assms have c: "chain (links (pFrames x)) (pReleaseBufferQueue x) rs" "i \<notin> set rs"
    by (simp_all add: queues_def)
  from FbmEnqueue_chain [OF c] obtain fs h where *:
      "FbmEnqueue (pFrames x) (pReleaseBufferQueue x) i = Inr (fs, h)" "chain (links fs) h (rs @ [i])"
      "same_but_links (pFrames x) fs" "\<forall>j. j \<notin> insert i (set rs) \<longrightarrow> fs j = pFrames x j" by blast
  have "set es \<inter> insert i (set rs) = {}" "set vs \<inter> insert i (set rs) = {}"
    using assms by (auto simp: queues_def)
  with chain_frame [OF *(4)] assms * show ?thesis
    by (auto simp: enq_release_def queues_def)
qed

lemma deq_nil:
  "queues x [] vs rs \<Longrightarrow> deq_empty x = (None, x)"
  "queues x es [] rs \<Longrightarrow> deq_valid x = (None, x)"
  "queues x es vs [] \<Longrightarrow> deq_release x = (None, x)"
  by (simp_all add: queues_def deq_empty_def deq_valid_def deq_release_def FbmDequeue_def)

section \<open>Every operation does what the pool does\<close>

text \<open>What a represented pool says about a frame, in the form the proofs use.\<close>

lemma fbm_repD:
  assumes "fbm_rep x P"
  shows "pool_ok P" "queues x (free P) (ready P) (freed P)" "flags_ok (pFrames x) P"
    "counters_ok x P"
  using assms by (simp_all add: fbm_rep_def)

lemma flags_okD:
  assumes "flags_ok fs P" and "i < nframes P"
  shows "bUsedByDecoder (fs i) \<longleftrightarrow> i \<in> decoding P"
    "bUsedByRender (fs i) \<longleftrightarrow> i \<in> rendering P"
    "bInValidPictureQueue (fs i) \<longleftrightarrow> i \<in> set (ready P)"
    "bAlreadyDisplayed (fs i) \<longleftrightarrow> i \<in> shown P"
    "bNeedRelease (fs i) \<longleftrightarrow> i \<in> marked P"
  using assms by (simp_all add: flags_ok_def flags_rep_def)

lemma pool_ok_finite: "pool_ok P \<Longrightarrow> finite (decoding P) \<and> finite (rendering P)"
  by (auto simp: pool_ok_def intro: finite_subset)

text \<open>No operation of the pool touches a picture beyond its status word.\<close>

definition no_status :: "VideoPicture \<Rightarrow> VideoPicture" where
  "no_status v = v\<lparr>nBufStatus := 0\<rparr>"

definition same_pics :: "Fbm \<Rightarrow> Fbm \<Rightarrow> bool" where
  "same_pics x x' \<longleftrightarrow> pFbmInfo x' = pFbmInfo x \<and> bUseGpuBuf x' = bUseGpuBuf x \<and>
     (\<forall>i. no_status (vpicture (pFrames x' i)) = no_status (vpicture (pFrames x i)))"

lemma same_pics_refl [simp]: "same_pics x x"
  by (simp add: same_pics_def)

lemma same_pics_trans: "same_pics x y \<Longrightarrow> same_pics y z \<Longrightarrow> same_pics x z"
  by (simp add: same_pics_def)

lemma no_status_set [simp]: "no_status (set_status m v) = no_status v"
  "no_status (v\<lparr>nBufStatus := a\<rparr>) = no_status v"
  by (simp_all add: no_status_def set_status_def)

lemma no_status_nID: "no_status v = no_status v' \<Longrightarrow> nID v = nID v' \<and> nBufId v = nBufId v'"
  by (metis VideoPicture.select_convs(1,17) VideoPicture.surjective VideoPicture.update_convs(22)
      no_status_def)

lemmas rep_defs = fbm_rep_def flags_ok_def flags_rep_def counters_ok_def

lemma request_buffer_refines:
  assumes "fbm_rep x P"
  shows "\<exists>x'. request_buffer_locked x = (fst (pool_request_buffer P), x') \<and>
    fbm_rep x' (snd (pool_request_buffer P)) \<and> same_pics x x'"
proof (cases "free P")
  case Nil
  with fbm_repD(2) [OF assms] have "deq_empty x = (None, x)" by (simp add: deq_nil(1))
  with assms Nil show ?thesis by (simp add: request_buffer_locked_def)
next
  case (Cons i es)
  note rep = fbm_repD [OF assms]
  obtain fs h where d: "deq_empty x = (Some i, x\<lparr>pFrames := fs, pEmptyBufferQueue := h\<rparr>)"
      "queues (x\<lparr>pFrames := fs, pEmptyBufferQueue := h\<rparr>) es (ready P) (freed P)"
      "same_but_links (pFrames x) fs"
    using deq_empty_queues rep(2) unfolding Cons by blast
  note sl = same_but_linksD [OF d(3)]
  from rep(1) Cons have i: "i < nframes P" "i \<notin> decoding P" "i \<notin> rendering P"
      "i \<notin> set (ready P)" "i \<notin> shown P"
    by (auto simp: pool_ok_def)
  have "\<not> in_use (fs i)"
    using i by (simp add: in_use_def sl flags_okD [OF rep(3)])
  then have "request_buffer_locked x = (Some i, (upd_node i (\<lambda>n. n\<lparr>bUsedByDecoder := True\<rparr>)
      (x\<lparr>pFrames := fs, pEmptyBufferQueue := h\<rparr>))
        \<lparr>nEmptyBufferNum := nEmptyBufferNum x - 1, nDecoderHoldingNum := nDecoderHoldingNum x + 1\<rparr>)"
      (is "_ = (_, ?x)")
    by (simp add: request_buffer_locked_def d)
  moreover have "fbm_rep ?x (snd (pool_request_buffer P))"
    using rep Cons i d(2) pool_ok_finite [OF rep(1)]
    by (auto simp: rep_defs pool_ok_def sl)
  ultimately show ?thesis by (simp add: Cons same_pics_def sl)
qed

lemma share_buffer_refines:
  assumes "fbm_rep x P" and "i < nframes P" and "i \<notin> rendering P"
  shows "\<exists>x'. share_buffer_locked i x = Inr x' \<and> fbm_rep x' (pool_share_buffer i P) \<and>
    same_pics x x'"
proof (cases "i \<in> marked P \<or> i \<notin> decoding P \<or> i \<in> set (ready P) \<or> i \<in> shown P")
  case True
  then have "share_buffer_locked i x = Inr x"
    using assms(2)
    by (auto simp: share_buffer_locked_def Let_def flags_okD [OF fbm_repD(3) [OF assms(1)]])
  with True assms(1) show ?thesis by (simp del: pool_share_buffer.simps) (auto simp: Let_def)
next
  case False
  note rep = fbm_repD [OF assms(1)]
  let ?x1 = "upd_node i (\<lambda>n. n\<lparr>bInValidPictureQueue := True\<rparr>) x"
  have i: "i \<notin> set (free P @ ready P @ freed P)"
    using False rep(1) by (auto simp: pool_ok_def)
  have "queues ?x1 (free P) (ready P) (freed P)" using rep(2) by simp
  from enq_valid_queues [OF this i] obtain fs h where d:
      "enq_valid i ?x1 = Inr (?x1\<lparr>pFrames := fs, pValidPictureQueue := h,
        nValidPictureNum := nValidPictureNum x + 1, nWaitForDispNum := nWaitForDispNum x + 1\<rparr>)"
      "queues (?x1\<lparr>pFrames := fs, pValidPictureQueue := h\<rparr>) (free P) (ready P @ [i]) (freed P)"
      "same_but_links (pFrames ?x1) fs" by auto
  note sl = same_but_linksD [OF d(3)]
  have "share_buffer_locked i x = enq_valid i ?x1"
    using False assms(2) by (simp add: share_buffer_locked_def flags_okD [OF rep(3)])
  moreover have "fbm_rep (?x1\<lparr>pFrames := fs, pValidPictureQueue := h,
        nValidPictureNum := nValidPictureNum x + 1, nWaitForDispNum := nWaitForDispNum x + 1\<rparr>)
      (pool_share_buffer i P)"
    using rep False i assms d(2) by (auto simp: rep_defs pool_ok_def sl)
  ultimately show ?thesis using d(1) by (simp add: same_pics_def sl)
qed

lemma request_picture_refines:
  assumes "fbm_rep x P"
  shows "\<exists>x'. request_picture_locked x = (fst (pool_request_picture P), x') \<and>
    fbm_rep x' (snd (pool_request_picture P)) \<and> same_pics x x'"
proof (cases "ready P")
  case Nil
  with fbm_repD(2) [OF assms] have "deq_valid x = (None, x)" by (simp add: deq_nil(2))
  with assms Nil show ?thesis by (simp add: request_picture_locked_def)
next
  case (Cons i vs)
  note rep = fbm_repD [OF assms]
  obtain fs h where d: "deq_valid x = (Some i, x\<lparr>pFrames := fs, pValidPictureQueue := h\<rparr>)"
      "queues (x\<lparr>pFrames := fs, pValidPictureQueue := h\<rparr>) (free P) vs (freed P)"
      "same_but_links (pFrames x) fs"
    using deq_valid_queues rep(2) unfolding Cons by blast
  note sl = same_but_linksD [OF d(3)]
  from rep(1) Cons have i: "i < nframes P" "i \<notin> rendering P" "i \<in> set (ready P)" "i \<notin> shown P"
    by (auto simp: pool_ok_def)
  then have "request_picture_locked x = (Some i, (upd_node i
      (\<lambda>n. n\<lparr>bInValidPictureQueue := False, bUsedByRender := True,
             vpicture := set_status MAJOR_DISP_USE_FLAG (vpicture n)\<rparr>)
      (x\<lparr>pFrames := fs, pValidPictureQueue := h\<rparr>))
        \<lparr>nValidPictureNum := nValidPictureNum x - 1, nWaitForDispNum := nWaitForDispNum x - 1,
         nRenderHoldingNum := nRenderHoldingNum x + 1\<rparr>)" (is "_ = (_, ?x)")
    by (simp add: request_picture_locked_def d sl flags_okD [OF rep(3)])
  moreover have "fbm_rep ?x (snd (pool_request_picture P))"
    using rep Cons i d(2) pool_ok_finite [OF rep(1)]
    by (auto simp: rep_defs pool_ok_def sl)
  ultimately show ?thesis by (simp add: Cons same_pics_def sl)
qed

text \<open>
  A frame may be returned to the release queue only when the renderer does not have it: see
  \<open>returned_twice\<close> in \<^verbatim>\<open>FbmDisplay\<close> for what happens otherwise.
\<close>

lemma pool_return_buffer_ok:
  assumes "pool_ok P" and "i \<in> decoding P \<Longrightarrow> i \<in> marked P \<Longrightarrow> i \<notin> rendering P"
  shows "pool_ok (pool_return_buffer i v P)"
proof (cases "i \<in> decoding P")
  case True
  with assms(1) have a: "i \<notin> set (free P)" "i \<notin> set (freed P)" "i < nframes P"
    by (auto simp: pool_ok_def)
  have b: "i \<in> marked P \<Longrightarrow> i \<notin> rendering P" using assms(2) True .
  show ?thesis
    using assms(1) True a b unfolding pool_ok_def
    by (simp add: Let_def disjoint_iff subset_iff) metis
qed (simp add: assms(1))

lemma return_buffer_refines:
  assumes "fbm_rep x P" and "i < nframes P" and "i \<in> decoding P \<Longrightarrow> i \<in> marked P \<Longrightarrow> i \<notin> rendering P"
  shows "\<exists>x'. return_buffer_locked i v x = Inr x' \<and> fbm_rep x' (pool_return_buffer i (v \<noteq> 0) P) \<and>
    same_pics x x'"
proof (cases "i \<in> decoding P")
  case False
  with assms show ?thesis
    by (simp add: return_buffer_locked_def Let_def flags_okD [OF fbm_repD(3) [OF assms(1)]])
next
  case dec: True
  note rep = fbm_repD [OF assms(1)]
  note fl = flags_okD [OF rep(3) assms(2)]
  have card: "card (decoding P - {i}) = card (decoding P) - 1" "0 < card (decoding P)"
    using dec pool_ok_finite [OF rep(1)] by (auto simp: card_gt_0_iff)
  note ok' = pool_return_buffer_ok [OF rep(1) assms(3), of "v \<noteq> 0"]
  let ?x1 = "upd_node i (\<lambda>n. n\<lparr>bUsedByDecoder := False\<rparr>) x"
  let ?x0 = "upd_node i (\<lambda>n. n\<lparr>bAlreadyDisplayed := False\<rparr>) ?x1"
  have idle: "i \<notin> set (free P)" "i \<notin> set (freed P)" using dec rep(1) by (auto simp: pool_ok_def)
  have q: "queues ?x1 (free P) (ready P) (freed P)" using rep(2) by simp
  consider (release) "i \<in> marked P" "i \<notin> set (ready P)"
    | (ready) "i \<in> set (ready P)"
    | (rendering) "i \<notin> marked P" "i \<notin> set (ready P)" "i \<in> rendering P"
    | (shown) "i \<notin> marked P" "i \<notin> set (ready P)" "i \<notin> rendering P" "i \<in> shown P"
    | (valid) "i \<notin> marked P" "i \<notin> set (ready P)" "i \<notin> rendering P" "i \<notin> shown P" "v \<noteq> 0"
    | (invalid) "i \<notin> marked P" "i \<notin> set (ready P)" "i \<notin> rendering P" "i \<notin> shown P" "v = 0"
    by blast
  then show ?thesis
  proof cases
    case release
    have "i \<notin> set (free P @ ready P @ freed P)" using idle release by simp
    from enq_release_queues [OF q this] obtain fs h where d:
        "enq_release i ?x1 = Inr (?x1\<lparr>pFrames := fs, pReleaseBufferQueue := h,
          nReleaseBufferNum := nReleaseBufferNum x + 1\<rparr>)" (is "_ = Inr ?x2")
        "queues (?x1\<lparr>pFrames := fs, pReleaseBufferQueue := h\<rparr>) (free P) (ready P) (freed P @ [i])"
        "same_but_links (pFrames ?x1) fs" by auto
    note sl = same_but_linksD [OF d(3)]
    let ?y = "upd_node i (\<lambda>n. n\<lparr>bAlreadyDisplayed := False, bInValidPictureQueue := False\<rparr>) ?x2"
    have "return_buffer_locked i v x = Inr ?y"
      using release dec d(1) by (simp add: return_buffer_locked_def fl)
    moreover have "fbm_rep ?y (pool_return_buffer i (v \<noteq> 0) P)"
      using ok' rep(3,4) release dec d(2) idle card
      by (auto simp: rep_defs sl )
    ultimately show ?thesis by (simp add: same_pics_def sl)
  next
    case ready
    have sh: "i \<notin> shown P" using ready rep(1) by (auto simp: pool_ok_def)
    from ready have "return_buffer_locked i v x = Inr (decoder_done ?x1)"
      using dec rep(1) by (auto simp: return_buffer_locked_def Let_def fl pool_ok_def)
    moreover have "fbm_rep (decoder_done ?x1) (pool_return_buffer i (v \<noteq> 0) P)"
      using ok' rep(2-4) ready dec card sh
      by (auto simp: rep_defs decoder_done_def)
    ultimately show ?thesis by (simp add: decoder_done_def same_pics_def)
  next
    case rendering
    have sh: "i \<notin> shown P" using rendering rep(1) by (auto simp: pool_ok_def)
    from rendering have "return_buffer_locked i v x = Inr (decoder_done ?x1)"
      using dec by (auto simp: return_buffer_locked_def fl)
    moreover have "fbm_rep (decoder_done ?x1) (pool_return_buffer i (v \<noteq> 0) P)"
      using ok' rep(2-4) rendering dec card sh
      by (auto simp: rep_defs decoder_done_def)
    ultimately show ?thesis by (simp add: decoder_done_def same_pics_def)
  next
    case shown
    have q0: "queues ?x0 (free P) (ready P) (freed P)" using rep(2) by simp
    have "i \<notin> set (free P @ ready P @ freed P)" using idle shown by simp
    from enq_empty_queues [OF q0 this] obtain fs h where d:
        "enq_empty i ?x0 = Inr (?x0\<lparr>pFrames := fs, pEmptyBufferQueue := h,
          nEmptyBufferNum := nEmptyBufferNum x + 1\<rparr>)" (is "_ = Inr ?x2")
        "queues (?x0\<lparr>pFrames := fs, pEmptyBufferQueue := h\<rparr>) (free P @ [i]) (ready P) (freed P)"
        "same_but_links (pFrames ?x0) fs" by auto
    note sl = same_but_linksD [OF d(3)]
    have "return_buffer_locked i v x = Inr (decoder_done ?x2)"
      using shown dec d(1) by (simp add: return_buffer_locked_def fl)
    moreover have "fbm_rep (decoder_done ?x2) (pool_return_buffer i (v \<noteq> 0) P)"
      using ok' rep(3,4) shown dec d(2) idle card
      by (auto simp: rep_defs sl decoder_done_def )
    ultimately show ?thesis by (simp add: decoder_done_def same_pics_def sl)
  next
    case valid
    have "i \<notin> set (free P @ ready P @ freed P)" using idle valid by simp
    from enq_valid_queues [OF q this] obtain fs h where d:
        "enq_valid i ?x1 = Inr (?x1\<lparr>pFrames := fs, pValidPictureQueue := h,
          nValidPictureNum := nValidPictureNum x + 1,
          nWaitForDispNum := nWaitForDispNum x + 1\<rparr>)" (is "_ = Inr ?x2")
        "queues (?x1\<lparr>pFrames := fs, pValidPictureQueue := h\<rparr>) (free P) (ready P @ [i]) (freed P)"
        "same_but_links (pFrames ?x1) fs" by auto
    note sl = same_but_linksD [OF d(3)]
    let ?y = "decoder_done (upd_node i (\<lambda>n. n\<lparr>bInValidPictureQueue := True\<rparr>) ?x2)"
    have "return_buffer_locked i v x = Inr ?y"
      using valid dec d(1) by (simp add: return_buffer_locked_def fl)
    moreover have "fbm_rep ?y (pool_return_buffer i (v \<noteq> 0) P)"
      using ok' rep(3,4) valid dec d(2) idle card
      by (auto simp: rep_defs sl decoder_done_def )
    ultimately show ?thesis by (simp add: decoder_done_def same_pics_def sl)
  next
    case invalid
    have "i \<notin> set (free P @ ready P @ freed P)" using idle invalid by simp
    from enq_empty_queues [OF q this] obtain fs h where d:
        "enq_empty i ?x1 = Inr (?x1\<lparr>pFrames := fs, pEmptyBufferQueue := h,
          nEmptyBufferNum := nEmptyBufferNum x + 1\<rparr>)" (is "_ = Inr ?x2")
        "queues (?x1\<lparr>pFrames := fs, pEmptyBufferQueue := h\<rparr>) (free P @ [i]) (ready P) (freed P)"
        "same_but_links (pFrames ?x1) fs" by auto
    note sl = same_but_linksD [OF d(3)]
    have "return_buffer_locked i v x = Inr (decoder_done ?x2)"
      using invalid dec d(1) by (simp add: return_buffer_locked_def fl)
    moreover have "fbm_rep (decoder_done ?x2) (pool_return_buffer i (v \<noteq> 0) P)"
      using ok' rep(3,4) invalid dec d(2) idle card
      by (auto simp: rep_defs sl decoder_done_def )
    ultimately show ?thesis by (simp add: decoder_done_def same_pics_def sl)
  qed
qed

lemma pool_return_picture_ok:
  assumes "pool_ok P"
  shows "pool_ok (snd (pool_return_picture i P))"
proof (cases "i \<in> rendering P")
  case True
  with assms have "i \<notin> set (free P)" "i \<notin> set (freed P)" "i < nframes P" "i \<notin> set (ready P)"
    by (auto simp: pool_ok_def)
  with True assms show ?thesis
    unfolding pool_ok_def by (simp add: Let_def disjoint_iff subset_iff) metis
qed (simp add: assms)

lemma return_picture_refines:
  assumes "fbm_rep x P" and "i < nframes P"
  shows "\<exists>x'. return_picture_locked i x = Inr (fst (pool_return_picture i P), x') \<and>
    fbm_rep x' (snd (pool_return_picture i P)) \<and> same_pics x x'"
proof (cases "i \<in> rendering P")
  case False
  with assms show ?thesis
    by (simp add: return_picture_locked_def Let_def flags_okD [OF fbm_repD(3) [OF assms(1)]])
next
  case rd: True
  note rep = fbm_repD [OF assms(1)]
  note fl = flags_okD [OF rep(3) assms(2)]
  have card: "card (rendering P - {i}) = card (rendering P) - 1" "0 < card (rendering P)"
    using rd pool_ok_finite [OF rep(1)] by (auto simp: card_gt_0_iff)
  note ok' = pool_return_picture_ok [OF rep(1), of i]
  let ?x1 = "(upd_node i (\<lambda>n. n\<lparr>bUsedByRender := False\<rparr>) x)
               \<lparr>nRenderHoldingNum := nRenderHoldingNum x - 1\<rparr>"
  have idle: "i \<notin> set (free P)" "i \<notin> set (freed P)" "i \<notin> set (ready P)" "i \<notin> shown P"
    using rd rep(1) by (auto simp: pool_ok_def)
  then have ni: "i \<notin> set (free P @ ready P @ freed P)" by simp
  have q: "queues ?x1 (free P) (ready P) (freed P)" using rep(2) by simp
  consider (dec) "i \<in> decoding P" | (empty) "i \<notin> decoding P" "i \<notin> marked P"
    | (release) "i \<notin> decoding P" "i \<in> marked P" by blast
  then show ?thesis
  proof cases
    case dec
    let ?y = "upd_node i (\<lambda>n. n\<lparr>bAlreadyDisplayed := True\<rparr>) ?x1"
    have "return_picture_locked i x = Inr (0, ?y)"
      using rd dec idle by (simp add: return_picture_locked_def Let_def fl)
    moreover have "fbm_rep ?y (snd (pool_return_picture i P))"
      using ok' rep(2-4) rd dec card idle by (auto simp: rep_defs)
    ultimately show ?thesis using rd by (simp add: Let_def same_pics_def)
  next
    case empty
    from enq_empty_queues [OF q ni] obtain fs h where d:
        "enq_empty i ?x1 = Inr (?x1\<lparr>pFrames := fs, pEmptyBufferQueue := h,
          nEmptyBufferNum := nEmptyBufferNum x + 1\<rparr>)" (is "_ = Inr ?x2")
        "queues (?x1\<lparr>pFrames := fs, pEmptyBufferQueue := h\<rparr>) (free P @ [i]) (ready P) (freed P)"
        "same_but_links (pFrames ?x1) fs" by auto
    note sl = same_but_linksD [OF d(3)]
    have "return_picture_locked i x = Inr (0, ?x2)"
      using rd empty idle d(1) by (simp add: return_picture_locked_def Let_def fl)
    moreover have "fbm_rep ?x2 (snd (pool_return_picture i P))"
      using ok' rep(3,4) rd empty card idle d(2) by (auto simp: rep_defs sl)
    ultimately show ?thesis using rd by (simp add: Let_def same_pics_def sl)
  next
    case release
    from enq_release_queues [OF q ni] obtain fs h where d:
        "enq_release i ?x1 = Inr (?x1\<lparr>pFrames := fs, pReleaseBufferQueue := h,
          nReleaseBufferNum := nReleaseBufferNum x + 1\<rparr>)" (is "_ = Inr ?x2")
        "queues (?x1\<lparr>pFrames := fs, pReleaseBufferQueue := h\<rparr>) (free P) (ready P) (freed P @ [i])"
        "same_but_links (pFrames ?x1) fs" by auto
    note sl = same_but_linksD [OF d(3)]
    have "return_picture_locked i x = Inr (0, ?x2)"
      using rd release idle d(1) by (simp add: return_picture_locked_def Let_def fl)
    moreover have "fbm_rep ?x2 (snd (pool_return_picture i P))"
      using ok' rep(3,4) rd release card idle d(2) by (auto simp: rep_defs sl)
    ultimately show ?thesis using rd by (simp add: Let_def same_pics_def sl)
  qed
qed

text \<open>One round of the flush loop takes the first ready picture.\<close>

fun pool_flush1 :: "pool \<Rightarrow> pool" where
  "pool_flush1 P =
     (case ready P of [] \<Rightarrow> P
      | i # is \<Rightarrow> if i \<in> decoding P then P\<lparr>ready := is, shown := insert i (shown P)\<rparr>
                  else P\<lparr>ready := is, free := free P @ [i]\<rparr>)"

lemma pool_flush_step: "ready P = i # is \<Longrightarrow> pool_flush P = pool_flush (pool_flush1 P)"
  by auto

lemma pool_flush1_ok: "pool_ok P \<Longrightarrow> pool_ok (pool_flush1 P)"
  by (cases "ready P") (auto simp: pool_ok_def)

lemma flush_loop_refines:
  "fbm_rep x P \<Longrightarrow> \<exists>x'. flush_loop x = Some (Inr x') \<and> fbm_rep x' (pool_flush P) \<and>
     same_pics x x'"
proof (induction "ready P" arbitrary: x P)
  case Nil
  then have "deq_valid x = (None, x)" using fbm_repD(2) [OF Nil.prems] by (simp add: deq_nil(2))
  moreover have "pool_flush P = P" using Nil.hyps [symmetric] by simp
  ultimately show ?case using Nil.prems by (simp add: flush_loop.simps)
next
  case (Cons i vs)
  note rep = fbm_repD [OF Cons.prems]
  note P = Cons.hyps(2) [symmetric]
  obtain fs h where d: "deq_valid x = (Some i, x\<lparr>pFrames := fs, pValidPictureQueue := h\<rparr>)"
      "queues (x\<lparr>pFrames := fs, pValidPictureQueue := h\<rparr>) (free P) vs (freed P)"
      "same_but_links (pFrames x) fs"
    using deq_valid_queues rep(2) unfolding P by blast
  note sl = same_but_linksD [OF d(3)]
  from rep(1) P have i: "i < nframes P" "i \<notin> rendering P" "i \<notin> shown P" "i \<notin> set vs"
      "i \<notin> set (free P @ vs @ freed P)"
    by (auto simp: pool_ok_def)
  note fl = flags_okD [OF rep(3) i(1)]
  note ok' = pool_flush1_ok [OF rep(1)]
  let ?x3 = "upd_node i (\<lambda>n. n\<lparr>bInValidPictureQueue := False\<rparr>)
    ((upd_node i (\<lambda>n. n\<lparr>vpicture := (vpicture n)\<lparr>nBufStatus := 0\<rparr>\<rparr>)
       (x\<lparr>pFrames := fs, pValidPictureQueue := h\<rparr>))\<lparr>nValidPictureNum := nValidPictureNum x - 1\<rparr>)"
  have q: "queues ?x3 (free P) vs (freed P)" using d(2) by simp
  have "\<exists>y. flush_loop x = flush_loop y \<and> fbm_rep y (pool_flush1 P) \<and> same_pics x y"
  proof (cases "i \<in> decoding P")
    case True
    let ?y = "upd_node i (\<lambda>n. n\<lparr>bAlreadyDisplayed := True\<rparr>) ?x3"
    have "flush_loop x = flush_loop ?y"
      using True i by (simp add: flush_loop.simps [of x] d(1) sl fl Let_def)
    moreover have "fbm_rep ?y (pool_flush1 P)"
      using ok' rep(3,4) P True i q by (auto simp: rep_defs sl)
    moreover have "same_pics x ?y" by (simp add: same_pics_def sl)
    ultimately show ?thesis by blast
  next
    case False
    from enq_empty_queues [OF q i(5)] obtain gs k where e:
        "enq_empty i ?x3 = Inr (?x3\<lparr>pFrames := gs, pEmptyBufferQueue := k,
          nEmptyBufferNum := nEmptyBufferNum x + 1\<rparr>)" (is "_ = Inr ?y")
        "queues (?x3\<lparr>pFrames := gs, pEmptyBufferQueue := k\<rparr>) (free P @ [i]) vs (freed P)"
        "same_but_links (pFrames ?x3) gs" by auto
    note sl2 = same_but_linksD [OF e(3)]
    have "flush_loop x = flush_loop ?y"
      using False i e(1) by (simp add: flush_loop.simps [of x] d(1) sl fl Let_def)
    moreover have "fbm_rep ?y (pool_flush1 P)"
      using ok' rep(3,4) P False i e(2) by (auto simp: rep_defs sl sl2)
    moreover have "same_pics x ?y" by (simp add: same_pics_def sl sl2)
    ultimately show ?thesis by blast
  qed
  then obtain y where y: "flush_loop x = flush_loop y" "fbm_rep y (pool_flush1 P)"
      "same_pics x y" by blast
  have "vs = ready (pool_flush1 P)" using P by simp
  from Cons.hyps(1) [OF this y(2)] y(1,3) pool_flush_step [OF P] show ?case
    by (metis same_pics_trans)
qed

end
