(* ===== verification/FbmDisplay.thy ===== *)
theory FbmDisplay
  imports FbmPool
begin

text \<open>
  The second half of \<^verbatim>\<open>vdecoder/fbm.c\<close>, used when the picture buffers belong to the display: the
  display installs its buffers in the frames one by one, and on a change of the display surface
  takes them all back through the release queue and installs new ones.
\<close>

section \<open>The operations\<close>

text \<open>The manager the display works with; the argument of these functions is a pointer to the
  information block, which may be NULL.\<close>

definition display_fbm :: "VideoFbmInfo \<Rightarrow> nat option" where
  "display_fbm f = (if bIs3DStream f = 1 \<or> pFbmSecond f = None then pFbmFirst f else pFbmSecond f)"

definition FbmGetVideoBufferInfo :: "VideoFbmInfo option \<Rightarrow> FbmBufInfo option" where
  "FbmGetVideoBufferInfo pFbmInf =
     (case pFbmInf of None \<Rightarrow> None
      | Some f \<Rightarrow>
        if bIs3DStream f = 1 then
          (if pFbmFirst f \<noteq> None \<and> pFbmSecond f \<noteq> None then Some (pFbmBufInfo f) else None)
        else if nBufNum (pFbmBufInfo f) = 0 then None
        else Some (pFbmBufInfo f))"

text \<open>What is taken over from the picture the display gives; \<^verbatim>\<open>nColorPrimary\<close> is the \<^verbatim>\<open>int\<close>
  with the bits \<^verbatim>\<open>0xffffffff\<close>.\<close>

definition install_buffer :: "VideoPicture \<Rightarrow> int \<Rightarrow> VideoPicture \<Rightarrow> VideoPicture" where
  "install_buffer src i v = v\<lparr>pData0 := pData0 src, pData1 := pData1 src, pData2 := pData2 src,
     phyYBufAddr := phyYBufAddr src, phyCBufAddr := phyCBufAddr src, nBufId := nBufId src,
     nBufFd := nBufFd src, pPrivate := pPrivate src, pMetaData := pMetaData src,
     nID := i, nColorPrimary := -1\<rparr>"

definition add_forbid_tag :: "VideoPicture \<Rightarrow> VideoPicture" where
  "add_forbid_tag v = v\<lparr>nID := nID v + FRM_FORBID_USE_TAG\<rparr>"

definition upd_picture :: "nat \<Rightarrow> (VideoPicture \<Rightarrow> VideoPicture) \<Rightarrow> Fbm \<Rightarrow> Fbm" where
  "upd_picture i f = upd_node i (\<lambda>n. n\<lparr>vpicture := f (vpicture n)\<rparr>)"

definition minor_addresses :: "int \<Rightarrow> VideoPicture \<Rightarrow> VideoPicture" where
  "minor_addresses y v = v\<lparr>phyCBufAddr := phyYBufAddr v + 2 * y, pData1 := pData0 v + 2 * y\<rparr>"

definition FbmSetFbmBufAddress :: "fbm_world \<Rightarrow> bool \<Rightarrow> pic_ptr option \<Rightarrow> int \<Rightarrow>
    (pic_ptr option \<times> fbm_world) res" where
  "FbmSetFbmBufAddress w hasInfo pPicture bForbidUseFlag =
     (if \<not> hasInfo then Inr (None, w)
      else case display_fbm (info w) of
        None \<Rightarrow> Inr (None, w)
      | Some b \<Rightarrow>
          let x = fbms w b; n = nValidBufNum (info w); i = nat n
          in if n < 0 \<or> n \<ge> nMaxFrameNum x then Inl OutOfBounds
             else and_then (of_option NullDeref pPicture) (\<lambda>p.
               let x1 = upd_picture i (install_buffer (get_pic w p) n) x
               in and_then (if bForbidUseFlag = 0 then enq_empty i x1
                            else Inr (upd_picture i add_forbid_tag x1)) (\<lambda>x2.
                    let x3 = (if bIs3DStream (info w) = 1
                              then upd_picture i (minor_addresses (nMinorYBufOffset (info w))) x2
                              else x2)
                    in Inr (Some (Pic b i), upd_info (\<lambda>f. f\<lparr>nValidBufNum := n + 1\<rparr>)
                                              (set_fbm b x3 w)))))"

partial_function (option) release_loop :: "Fbm \<Rightarrow> Fbm res option" where
  "release_loop x =
     (case deq_empty x of
        (None, x1) \<Rightarrow> Some (Inr x1)
      | (Some i, x1) \<Rightarrow>
          if in_use (pFrames x1 i) then Some (Inr x1)
          else (case enq_release i (x1\<lparr>nEmptyBufferNum := nEmptyBufferNum x1 - 1\<rparr>) of
                  Inl e \<Rightarrow> Some (Inl e)
                | Inr x2 \<Rightarrow> release_loop x2))"

declare release_loop.simps [code]

definition FbmNewDispRelease :: "fbm_world \<Rightarrow> nat option \<Rightarrow> fbm_world res" where
  "FbmNewDispRelease w pFbm =
     (case pFbm of None \<Rightarrow> Inr w
      | Some b \<Rightarrow> and_then (of_option Diverges (release_loop (fbms w b))) (\<lambda>r.
          and_then r (\<lambda>x. Inr (set_fbm b x w))))"

definition mark_release :: "Fbm \<Rightarrow> Fbm" where
  "mark_release x = x\<lparr>pFrames := (\<lambda>i.
     if int i < nMaxFrameNum x \<and> nBufId (vpicture (pFrames x i)) \<noteq> FBM_NEW_DISP_INVALID_TAG
     then (pFrames x i)\<lparr>bNeedRelease := True\<rparr> else pFrames x i)\<rparr>"

definition FbmSetNewDispRelease :: "fbm_world \<Rightarrow> bool \<Rightarrow> fbm_world res" where
  "FbmSetNewDispRelease w hasInfo =
     (if \<not> hasInfo then Inr w
      else case display_fbm (info w) of
        None \<Rightarrow> Inr w
      | Some b \<Rightarrow>
          and_then (FbmFlush (set_fbm b (mark_release (fbms w b)) w) (Some b)) (\<lambda>w1.
            FbmNewDispRelease w1 (Some b)))"

definition FbmRequestReleasePicture :: "fbm_world \<Rightarrow> bool \<Rightarrow> pic_ptr option \<times> fbm_world" where
  "FbmRequestReleasePicture w hasInfo =
     (if \<not> hasInfo then (None, w)
      else case display_fbm (info w) of
        None \<Rightarrow> (None, w)
      | Some b \<Rightarrow>
          (case deq_release (fbms w b) of
             (None, x) \<Rightarrow> (None, set_fbm b x w)
           | (Some i, x) \<Rightarrow>
               (Some (Pic b i),
                set_fbm b (upd_picture i (\<lambda>v. v\<lparr>nID := FRM_RELEASE_TAG\<rparr>)
                  (x\<lparr>nReleaseBufferNum := nReleaseBufferNum x - 1\<rparr>)) w)))"

text \<open>The new buffer goes into the first frame that is away.\<close>

definition find_released :: "Fbm \<Rightarrow> nat option" where
  "find_released x = find (\<lambda>i. bNeedRelease (pFrames x i) \<and>
     nID (vpicture (pFrames x i)) = FRM_RELEASE_TAG) [0..<nat (nMaxFrameNum x)]"

definition FbmReturnReleasePicture :: "fbm_world \<Rightarrow> bool \<Rightarrow> pic_ptr option \<Rightarrow> int \<Rightarrow>
    (pic_ptr option \<times> fbm_world) res" where
  "FbmReturnReleasePicture w hasInfo pVpicture bForbidUseFlag =
     (if \<not> hasInfo then Inr (None, w)
      else case display_fbm (info w) of
        None \<Rightarrow> Inr (None, w)
      | Some b \<Rightarrow>
          let x = fbms w b
          in case find_released x of
               None \<Rightarrow> Inr (None, w)
             | Some i \<Rightarrow> and_then (of_option NullDeref pVpicture) (\<lambda>p.
                 let x1 = upd_node i (\<lambda>n. n\<lparr>bNeedRelease := False\<rparr>)
                            (upd_picture i (install_buffer (get_pic w p) (int i)) x)
                 in and_then (if bForbidUseFlag = 0 then enq_empty i x1
                              else Inr (upd_picture i add_forbid_tag x1)) (\<lambda>x2.
                      Inr (Some (Pic b i), set_fbm b x2 w))))"

section \<open>The same on the pool\<close>

fun pool_install :: "bool \<Rightarrow> pool \<Rightarrow> nat option \<times> pool" where
  "pool_install forbid P =
     (let i = installed P; P1 = P\<lparr>installed := i + 1\<rparr>
      in (Some i, if forbid then P1\<lparr>forbidden := insert i (forbidden P)\<rparr>
                  else P1\<lparr>free := free P @ [i]\<rparr>))"

fun pool_new_disp_release :: "pool \<Rightarrow> pool" where
  "pool_new_disp_release P = P\<lparr>free := [], freed := freed P @ free P\<rparr>"

fun pool_set_release :: "nat set \<Rightarrow> pool \<Rightarrow> pool" where
  "pool_set_release M P = pool_new_disp_release (pool_flush (P\<lparr>marked := marked P \<union> M\<rparr>))"

fun pool_request_release :: "pool \<Rightarrow> nat option \<times> pool" where
  "pool_request_release P =
     (case freed P of [] \<Rightarrow> (None, P)
      | i # is \<Rightarrow> (Some i, P\<lparr>freed := is, away := insert i (away P)\<rparr>))"

fun pool_return_release :: "bool \<Rightarrow> nat \<Rightarrow> pool \<Rightarrow> pool" where
  "pool_return_release forbid i P =
     (let P1 = P\<lparr>away := away P - {i}, marked := marked P - {i}\<rparr>
      in if forbid then P1\<lparr>forbidden := insert i (forbidden P)\<rparr>
         else P1\<lparr>free := free P @ [i]\<rparr>)"

fun pool_return_forbidden :: "nat \<Rightarrow> pool \<Rightarrow> pool" where
  "pool_return_forbidden i P = P\<lparr>free := free P @ [i], forbidden := forbidden P - {i}\<rparr>"

section \<open>A manager follows the pool\<close>

lemma queues_same_links:
  "links (pFrames y) = links (pFrames x) \<Longrightarrow> pEmptyBufferQueue y = pEmptyBufferQueue x \<Longrightarrow>
   pValidPictureQueue y = pValidPictureQueue x \<Longrightarrow> pReleaseBufferQueue y = pReleaseBufferQueue x \<Longrightarrow>
   queues y es vs rs = queues x es vs rs"
  by (simp add: queues_def)

text \<open>Who outside the manager has a frame does not matter to the manager.\<close>

lemma fbm_rep_cong:
  assumes "fbm_rep x P"
    and "nframes Q = nframes P" "free Q = free P" "ready Q = ready P" "freed Q = freed P"
    "decoding Q = decoding P" "rendering Q = rendering P" "shown Q = shown P"
    "marked Q = marked P" "uncounted Q = uncounted P"
  shows "fbm_rep x Q"
  using assms by (simp add: rep_defs pool_ok_def)

lemma flags_rep_upd_picture [simp]:
  "flags_rep (pFrames (upd_picture i g x) j) j P = flags_rep (pFrames x j) j P"
  by (simp add: flags_rep_def upd_picture_def)

lemma upd_picture_rep [simp]: "fbm_rep (upd_picture i g x) P = fbm_rep x P"
  by (simp add: fbm_rep_def flags_ok_def counters_ok_def) (simp add: upd_picture_def)

lemma upd_picture_simps [simp]:
  "vpicture (pFrames (upd_picture i g x) j) =
     (if j = i then g (vpicture (pFrames x i)) else vpicture (pFrames x j))"
  "nMaxFrameNum (upd_picture i g x) = nMaxFrameNum x"
  "pFbmInfo (upd_picture i g x) = pFbmInfo x"
  "bUseGpuBuf (upd_picture i g x) = bUseGpuBuf x"
  "bNeedRelease (pFrames (upd_picture i g x) j) = bNeedRelease (pFrames x j)"
  by (simp_all add: upd_picture_def)

lemma mark_release_rep:
  assumes "fbm_rep x P"
  shows "fbm_rep (mark_release x) (P\<lparr>marked := marked P \<union>
    {i. i < nframes P \<and> nBufId (vpicture (pFrames x i)) \<noteq> FBM_NEW_DISP_INVALID_TAG}\<rparr>)"
proof -
  note rep = fbm_repD [OF assms]
  have "links (pFrames (mark_release x)) = links (pFrames x)" by (auto simp: mark_release_def)
  then have "queues (mark_release x) (free P) (ready P) (freed P)"
    using rep(2) by (subst queues_same_links [of _ x]) (simp_all add: mark_release_def)
  with rep(1,3,4) show ?thesis
    by (auto simp: rep_defs pool_ok_def mark_release_def)
qed

lemma mark_release_pics:
  "vpicture (pFrames (mark_release x) i) = vpicture (pFrames x i)"
  "pFbmInfo (mark_release x) = pFbmInfo x" "bUseGpuBuf (mark_release x) = bUseGpuBuf x"
  by (simp_all add: mark_release_def)

lemma release_loop_refines:
  "fbm_rep x P \<Longrightarrow> \<exists>x'. release_loop x = Some (Inr x') \<and>
     fbm_rep x' (pool_new_disp_release P) \<and> same_pics x x'"
proof (induction "free P" arbitrary: x P)
  case Nil
  then have "deq_empty x = (None, x)" using fbm_repD(2) [OF Nil.prems] by (simp add: deq_nil(1))
  moreover have "pool_new_disp_release P = P" using Nil.hyps [symmetric] by simp
  ultimately show ?case using Nil.prems by (simp add: release_loop.simps)
next
  case (Cons i es)
  note rep = fbm_repD [OF Cons.prems]
  note P = Cons.hyps(2) [symmetric]
  let ?P1 = "P\<lparr>free := es, freed := freed P @ [i]\<rparr>"
  obtain fs h where d: "deq_empty x = (Some i, x\<lparr>pFrames := fs, pEmptyBufferQueue := h\<rparr>)"
      "queues (x\<lparr>pFrames := fs, pEmptyBufferQueue := h\<rparr>) es (ready P) (freed P)"
      "same_but_links (pFrames x) fs"
    using deq_empty_queues rep(2) unfolding P by blast
  note sl = same_but_linksD [OF d(3)]
  from rep(1) P have i: "i < nframes P" "i \<notin> rendering P" "i \<notin> shown P" "i \<notin> decoding P"
      "i \<notin> set (ready P)" "i \<notin> set (es @ ready P @ freed P)"
    by (auto simp: pool_ok_def)
  let ?x1 = "x\<lparr>pFrames := fs, pEmptyBufferQueue := h, nEmptyBufferNum := nEmptyBufferNum x - 1\<rparr>"
  have q: "queues ?x1 es (ready P) (freed P)" using d(2) by (simp add: queues_def)
  from enq_release_queues [OF q i(6)] obtain gs k where e:
      "enq_release i ?x1 = Inr (?x1\<lparr>pFrames := gs, pReleaseBufferQueue := k,
        nReleaseBufferNum := nReleaseBufferNum x + 1\<rparr>)" (is "_ = Inr ?y")
      "queues (?x1\<lparr>pFrames := gs, pReleaseBufferQueue := k\<rparr>) es (ready P) (freed P @ [i])"
      "same_but_links (pFrames ?x1) gs" by auto
  note sl2 = same_but_linksD [OF e(3)]
  have "\<not> in_use (fs i)" using i flags_okD [OF rep(3) i(1)] by (simp add: in_use_def sl)
  then have "release_loop x = release_loop ?y"
    using e(1) by (simp add: release_loop.simps [of x] d(1))
  moreover have "fbm_rep ?y ?P1"
    using rep(1,3,4) P i e(2) by (auto simp: rep_defs pool_ok_def sl sl2 queues_def)
  moreover have "same_pics x ?y" by (simp add: same_pics_def sl sl2)
  ultimately obtain x' where x': "release_loop x = Some (Inr x')"
      "fbm_rep x' (pool_new_disp_release ?P1)" "same_pics x x'"
    using Cons.hyps(1) [of ?P1 ?y] same_pics_trans by auto
  have "pool_new_disp_release ?P1 = pool_new_disp_release P" using P by simp
  with x' show ?case by (simp del: pool_new_disp_release.simps)
qed

text \<open>A frame that nobody holds may be put into the empty queue.\<close>

definition outside :: "nat \<Rightarrow> pool \<Rightarrow> bool" where
  "outside i P \<longleftrightarrow> i < nframes P \<and>
     i \<notin> set (free P @ ready P @ freed P) \<union> decoding P \<union> rendering P"

lemma enq_empty_outside:
  assumes "fbm_rep x P" and "outside i P"
  shows "\<exists>x'. enq_empty i x = Inr x' \<and> fbm_rep x' (P\<lparr>free := free P @ [i]\<rparr>) \<and>
    (\<forall>j. vpicture (pFrames x' j) = vpicture (pFrames x j)) \<and> pFbmInfo x' = pFbmInfo x \<and>
    bUseGpuBuf x' = bUseGpuBuf x"
proof -
  note rep = fbm_repD [OF assms(1)]
  have "i \<notin> set (free P @ ready P @ freed P)" using assms(2) by (simp add: outside_def)
  from enq_empty_queues [OF rep(2) this] obtain fs h where d:
      "enq_empty i x = Inr (x\<lparr>pFrames := fs, pEmptyBufferQueue := h,
        nEmptyBufferNum := nEmptyBufferNum x + 1\<rparr>)" (is "_ = Inr ?y")
      "queues (x\<lparr>pFrames := fs, pEmptyBufferQueue := h\<rparr>) (free P @ [i]) (ready P) (freed P)"
      "same_but_links (pFrames x) fs" by blast
  note sl = same_but_linksD [OF d(3)]
  have "fbm_rep ?y (P\<lparr>free := free P @ [i]\<rparr>)"
    using rep(1,3,4) assms(2) d(2) by (auto simp: rep_defs pool_ok_def sl outside_def)
  with d(1) show ?thesis by (simp add: sl)
qed

lemma unmark_rep:
  assumes "fbm_rep x P"
  shows "fbm_rep (upd_node i (\<lambda>n. n\<lparr>bNeedRelease := False\<rparr>) x) (P\<lparr>marked := marked P - {i}\<rparr>)"
  using assms by (auto simp: rep_defs pool_ok_def)

lemma deq_release_refines:
  assumes "fbm_rep x P" and "freed P = i # is"
  shows "\<exists>x'. deq_release x = (Some i, x') \<and>
    fbm_rep (x'\<lparr>nReleaseBufferNum := nReleaseBufferNum x' - 1\<rparr>) (P\<lparr>freed := is\<rparr>) \<and>
    (\<forall>j. vpicture (pFrames x' j) = vpicture (pFrames x j)) \<and> pFbmInfo x' = pFbmInfo x \<and>
    bUseGpuBuf x' = bUseGpuBuf x"
proof -
  note rep = fbm_repD [OF assms(1)]
  obtain fs h where d: "deq_release x = (Some i, x\<lparr>pFrames := fs, pReleaseBufferQueue := h\<rparr>)"
      "queues (x\<lparr>pFrames := fs, pReleaseBufferQueue := h\<rparr>) (free P) (ready P) is"
      "same_but_links (pFrames x) fs"
    using deq_release_queues rep(2) unfolding assms(2) by blast
  note sl = same_but_linksD [OF d(3)]
  have "fbm_rep (x\<lparr>pFrames := fs, pReleaseBufferQueue := h,
      nReleaseBufferNum := nReleaseBufferNum x - 1\<rparr>) (P\<lparr>freed := is\<rparr>)"
    using rep(1,3,4) assms(2) d(2) by (auto simp: rep_defs pool_ok_def sl)
  with d(1) show ?thesis by (simp add: sl)
qed

end
