(* ===== verification/FbmSystem.thy ===== *)
theory FbmSystem
  imports FbmDisplay
begin

text \<open>
  The frame buffer manager as a whole: any mix of calls from decoder, renderer and display
  behaves as on the abstract pool, never faults and loses no frame.
\<close>

section \<open>Calls and results\<close>

text \<open>
  The callers pass the pictures they were given; \<open>ReturnBuffer i v\<close> returns the picture of frame
  \<open>i\<close>. The display passes pictures of its own, \<open>InstallBuffer k f\<close> the object \<open>k\<close>.
\<close>

datatype fbm_call = RequestBuffer | ReturnBuffer nat int | ShareBuffer nat | RequestPicture
  | ReturnPicture nat | Flush | InstallBuffer nat bool | SetRelease | RequestRelease
  | ReturnRelease nat bool

datatype fbm_result = Picture "pic_ptr option" | Status int | Done

definition of_flag :: "bool \<Rightarrow> int" where
  "of_flag f = (if f then 1 else 0)"

fun exec_fbm :: "nat \<Rightarrow> fbm_call \<Rightarrow> fbm_world \<Rightarrow> (fbm_result \<times> fbm_world) res" where
  "exec_fbm b RequestBuffer w =
     (case FbmRequestBuffer w (Some b) of (p, w1) \<Rightarrow> Inr (Picture p, w1))"
| "exec_fbm b (ReturnBuffer i v) w =
     and_then (FbmReturnBuffer w (Some b) (Some (Pic b i)) v) (\<lambda>w1. Inr (Done, w1))"
| "exec_fbm b (ShareBuffer i) w =
     and_then (FbmShareBuffer w (Some b) (Some (Pic b i))) (\<lambda>w1. Inr (Done, w1))"
| "exec_fbm b RequestPicture w =
     and_then (FbmRequestPicture w (Some b)) (\<lambda>(p, w1). Inr (Picture p, w1))"
| "exec_fbm b (ReturnPicture i) w =
     and_then (FbmReturnPicture w (Some b) (Some (Pic b i))) (\<lambda>(k, w1). Inr (Status k, w1))"
| "exec_fbm b Flush w = and_then (FbmFlush w (Some b)) (\<lambda>w1. Inr (Done, w1))"
| "exec_fbm b (InstallBuffer k f) w =
     and_then (FbmSetFbmBufAddress w True (Some (Ext k)) (of_flag f)) (\<lambda>(p, w1). Inr (Picture p, w1))"
| "exec_fbm b SetRelease w = and_then (FbmSetNewDispRelease w True) (\<lambda>w1. Inr (Done, w1))"
| "exec_fbm b RequestRelease w =
     (case FbmRequestReleasePicture w True of (p, w1) \<Rightarrow> Inr (Picture p, w1))"
| "exec_fbm b (ReturnRelease k f) w =
     and_then (FbmReturnReleasePicture w True (Some (Ext k)) (of_flag f)) (\<lambda>(p, w1).
       Inr (Picture p, w1))"

fun spec_fbm :: "nat \<Rightarrow> fbm_call \<Rightarrow> pool \<Rightarrow> fbm_result \<times> pool" where
  "spec_fbm b RequestBuffer P =
     (case pool_request_buffer P of (i, P1) \<Rightarrow> (Picture (map_option (Pic b) i), P1))"
| "spec_fbm b (ReturnBuffer i v) P = (Done, pool_return_buffer i (v \<noteq> 0) P)"
| "spec_fbm b (ShareBuffer i) P = (Done, pool_share_buffer i P)"
| "spec_fbm b RequestPicture P =
     (case pool_request_picture P of (i, P1) \<Rightarrow> (Picture (map_option (Pic b) i), P1))"
| "spec_fbm b (ReturnPicture i) P =
     (if i \<in> forbidden P then (Status 0, pool_return_forbidden i P)
      else case pool_return_picture i P of (k, P1) \<Rightarrow> (Status k, P1))"
| "spec_fbm b Flush P = (Done, pool_flush P)"
| "spec_fbm b (InstallBuffer k f) P =
     (case pool_install f P of (i, P1) \<Rightarrow> (Picture (map_option (Pic b) i), P1))"
| "spec_fbm b SetRelease P = (Done, pool_set_release {..<installed P} P)"
| "spec_fbm b RequestRelease P =
     (case pool_request_release P of (i, P1) \<Rightarrow> (Picture (map_option (Pic b) i), P1))"
| "spec_fbm b (ReturnRelease k f) P =
     (case find (\<lambda>i. i \<in> away P) [0..<nframes P] of
        None \<Rightarrow> (Picture None, P)
      | Some i \<Rightarrow> (Picture (Some (Pic b i)), pool_return_release f i P))"

text \<open>
  The contract of the callers; \<open>g\<close> tells whether the buffers are the display's. The two
  conditions on \<open>rendering\<close> are needed: the code does not check them.
\<close>

fun allowed_fbm :: "bool \<Rightarrow> fbm_call \<Rightarrow> pool \<Rightarrow> bool" where
  "allowed_fbm g (ReturnBuffer i v) P =
     (i < nframes P \<and> (i \<in> decoding P \<and> i \<in> marked P \<longrightarrow> i \<notin> rendering P))"
| "allowed_fbm g (ShareBuffer i) P = (i < nframes P \<and> i \<notin> rendering P)"
| "allowed_fbm g (ReturnPicture i) P = (i < nframes P)"
| "allowed_fbm g (InstallBuffer k f) P = (g \<and> installed P < nframes P)"
| "allowed_fbm g SetRelease P = g"
| "allowed_fbm g RequestRelease P = g"
| "allowed_fbm g (ReturnRelease k f) P = g"
| "allowed_fbm g c P = True"

section \<open>The invariant\<close>

definition held :: "pool \<Rightarrow> nat set" where
  "held P = set (free P @ ready P @ freed P) \<union> decoding P \<union> rendering P"

text \<open>Every installed frame is somewhere.\<close>

definition pool_full :: "pool \<Rightarrow> bool" where
  "pool_full P \<longleftrightarrow> installed P \<le> nframes P \<and>
     held P \<union> away P \<union> forbidden P = {..<installed P} \<and>
     held P \<inter> (away P \<union> forbidden P) = {} \<and> away P \<inter> forbidden P = {} \<and>
     set (freed P) \<union> away P \<subseteq> marked P \<and> marked P \<subseteq> {..<installed P}"

text \<open>The id of a picture tells who has it.\<close>

definition pic_id :: "pool \<Rightarrow> nat \<Rightarrow> int" where
  "pic_id P i = (if i \<in> away P then FRM_RELEASE_TAG
     else if i \<in> forbidden P then int i + FRM_FORBID_USE_TAG else int i)"

definition ids_ok :: "bool \<Rightarrow> Fbm \<Rightarrow> pool \<Rightarrow> bool" where
  "ids_ok g x P \<longleftrightarrow>
     (\<forall>i < nframes P. nID (vpicture (pFrames x i)) = pic_id P i) \<and>
     (g \<longrightarrow> (\<forall>i < nframes P. nBufId (vpicture (pFrames x i)) \<noteq> FBM_NEW_DISP_INVALID_TAG
        \<longleftrightarrow> i < installed P))"

definition display_ok :: "nat \<Rightarrow> fbm_world \<Rightarrow> pool \<Rightarrow> bool" where
  "display_ok b w P \<longleftrightarrow> display_fbm (info w) = Some b \<and> bIs3DStream (info w) \<noteq> 1 \<and>
     nValidBufNum (info w) = int (installed P) \<and>
     (\<forall>k. nBufId (extPics w k) \<noteq> FBM_NEW_DISP_INVALID_TAG)"

definition fbm_inv :: "bool \<Rightarrow> nat \<Rightarrow> fbm_world \<Rightarrow> pool \<Rightarrow> bool" where
  "fbm_inv g b w P \<longleftrightarrow> fbm_rep (fbms w b) P \<and> pool_full P \<and> ids_ok g (fbms w b) P \<and>
     int (nframes P) \<le> FRM_RELEASE_TAG \<and> pFbmInfo (fbms w b) \<and>
     bTwoStreamShareOneFbm (info w) \<noteq> 1 \<and> (g \<longrightarrow> display_ok b w P)"

section \<open>Every call keeps the invariant\<close>

lemma pool_full_exec:
  assumes "pool_full P" and "pool_ok P" and "allowed_fbm g c P"
  shows "pool_full (snd (spec_fbm b c P))"
proof (cases c)
  case RequestBuffer
  with assms show ?thesis by (cases "free P") (auto simp: pool_full_def held_def)
next
  case (ReturnBuffer i v)
  with assms show ?thesis by (auto simp: pool_full_def held_def pool_ok_def Let_def)
next
  case (ShareBuffer i)
  with assms show ?thesis by (auto simp: pool_full_def held_def)
next
  case RequestPicture
  with assms show ?thesis by (cases "ready P") (auto simp: pool_full_def held_def)
next
  case (ReturnPicture i)
  with assms show ?thesis by (auto simp: pool_full_def held_def Let_def)
next
  case Flush
  with assms show ?thesis by (auto simp: pool_full_def held_def)
next
  case (InstallBuffer k f)
  with assms show ?thesis by (auto simp: pool_full_def held_def Let_def)
next
  case SetRelease
  with assms show ?thesis by (auto simp: pool_full_def held_def)
next
  case RequestRelease
  with assms show ?thesis by (cases "freed P") (auto simp: pool_full_def held_def pool_ok_def)
next
  case (ReturnRelease k f)
  with assms show ?thesis
    by (auto simp: pool_full_def held_def Let_def split: option.splits dest!: find_Some_iff [THEN iffD1])
qed

section \<open>The functions in a system with one stream\<close>

text \<open>Without a second stream, a function checks its arguments and then runs its locked part.\<close>

lemma set_fbm_simps [simp]:
  "fbms (set_fbm b x w) c = (if c = b then x else fbms w c)"
  "info (set_fbm b x w) = info w" "extPics (set_fbm b x w) = extPics w"
  by (simp_all add: set_fbm_def)

lemma upd_info_simps [simp]:
  "fbms (upd_info f w) = fbms w" "info (upd_info f w) = f (info w)"
  "extPics (upd_info f w) = extPics w"
  by (simp_all add: upd_info_def)

lemma flush_cts_frame_simps [simp]:
  "fbms (flush_cts_frame w p) = fbms w" "info (flush_cts_frame w p) = info w"
  "extPics (flush_cts_frame w p) = extPics w"
  by (simp_all add: flush_cts_frame_def Let_def)

text \<open>The invariant after a step that only touches the manager and the two remembered frames.\<close>

lemma ids_ok_same:
  assumes "ids_ok g x P" and "same_pics x x'" and "away P' = away P" "forbidden P' = forbidden P"
    "installed P' = installed P" "nframes P' = nframes P"
  shows "ids_ok g x' P'"
proof -
  have "nID (vpicture (pFrames x' i)) = nID (vpicture (pFrames x i)) \<and>
      nBufId (vpicture (pFrames x' i)) = nBufId (vpicture (pFrames x i))" for i
    using assms(2) no_status_nID unfolding same_pics_def by blast
  then show ?thesis using assms by (simp add: ids_ok_def pic_id_def)
qed

lemma fbm_inv_core:
  assumes "fbm_inv g b w P" and "fbm_rep (fbms w' b) P'" and "same_pics (fbms w b) (fbms w' b)"
    and "pool_full P'" and "away P' = away P" "forbidden P' = forbidden P"
    "installed P' = installed P" "nframes P' = nframes P"
    and "extPics w' = extPics w" "bTwoStreamShareOneFbm (info w') = bTwoStreamShareOneFbm (info w)"
    "display_fbm (info w') = display_fbm (info w)" "bIs3DStream (info w') = bIs3DStream (info w)"
    "nValidBufNum (info w') = nValidBufNum (info w)"
  shows "fbm_inv g b w' P'"
  using assms ids_ok_same [of g "fbms w b" P "fbms w' b" P']
  by (simp add: fbm_inv_def display_ok_def same_pics_def)

lemma fbm_invD:
  assumes "fbm_inv g b w P"
  shows "fbm_rep (fbms w b) P" "pool_full P" "ids_ok g (fbms w b) P" "pool_ok P"
    "int (nframes P) \<le> FRM_RELEASE_TAG" "pFbmInfo (fbms w b)" "minor_stream w b = False"
    "bTwoStreamShareOneFbm (info w) \<noteq> 1" "g \<Longrightarrow> display_ok b w P"
    "nMaxFrameNum (fbms w b) = int (nframes P)"
  using assms by (auto simp: fbm_inv_def minor_stream_def fbm_rep_def counters_ok_def)

text \<open>A picture that is not with the display passes the check, the others fail it.\<close>

lemma node_of_inv:
  assumes "fbm_inv g b w P" and "i < nframes P"
  shows "node_of w (Some b) (Pic b i) =
    Inr (if i \<in> away P \<union> forbidden P then None else Some (b, i))"
proof -
  have "nID (get_pic w (Pic b i)) = pic_id P i"
    using assms fbm_invD(3) [OF assms(1)] by (simp add: ids_ok_def)
  with assms(2) fbm_invD(5,10) [OF assms(1)] show ?thesis
    by (auto simp: node_of_def Let_def pic_id_def fbm_consts)
qed

section \<open>Call by call\<close>

abbreviation follows :: "bool \<Rightarrow> nat \<Rightarrow> fbm_call \<Rightarrow> fbm_world \<Rightarrow> pool \<Rightarrow> bool" where
  "follows g b c w P \<equiv> \<exists>w'. exec_fbm b c w = Inr (fst (spec_fbm b c P), w') \<and>
     fbm_inv g b w' (snd (spec_fbm b c P))"

lemma no_route [simp]:
  "bTwoStreamShareOneFbm (info w) \<noteq> 1 \<Longrightarrow> return_buffer_route w b p v = (Go (Some b), w)"
  "bTwoStreamShareOneFbm (info w) \<noteq> 1 \<Longrightarrow> return_picture_route w b p = (True, w)"
  by (simp_all add: return_buffer_route_def return_picture_route_def)

lemma follows_RequestBuffer:
  assumes "fbm_inv g b w P"
  shows "follows g b RequestBuffer w P"
proof -
  note D = fbm_invD [OF assms]
  obtain x where x: "request_buffer_locked (fbms w b) = (fst (pool_request_buffer P), x)"
      "fbm_rep x (snd (pool_request_buffer P))" "same_pics (fbms w b) x"
    using request_buffer_refines [OF D(1)] by blast
  let ?w2 = "set_fbm b x (upd_info (\<lambda>f. f\<lparr>pMajorDecoderFrame := None\<rparr>) w)"
  let ?w3 = "case fst (pool_request_buffer P) of None \<Rightarrow> ?w2
    | Some i \<Rightarrow> flush_cts_frame ?w2 (Pic b i)"
  have "exec_fbm b RequestBuffer w = Inr (fst (spec_fbm b RequestBuffer P), ?w3)"
    using D(6-8) x(1)
    by (simp add: FbmRequestBuffer_def Let_def case_prod_beta split: option.splits)
  moreover have "fbm_inv g b ?w3 (snd (spec_fbm b RequestBuffer P))"
    using x pool_full_exec [of P g RequestBuffer b] D(2,4)
    by (intro fbm_inv_core [OF assms]) (auto simp: display_fbm_def split: list.splits)
  ultimately show ?thesis by blast
qed

lemma follows_ReturnBuffer:
  assumes "fbm_inv g b w P" and "allowed_fbm g (ReturnBuffer i v) P"
  shows "follows g b (ReturnBuffer i v) w P"
proof (cases "i \<in> away P \<union> forbidden P")
  case True
  with fbm_invD(2) [OF assms(1)] have "i \<notin> decoding P" by (auto simp: pool_full_def held_def)
  with True assms node_of_inv [OF assms(1), of i] fbm_invD(6,8) [OF assms(1)] show ?thesis
    by (simp add: FbmReturnBuffer_def)
next
  case False
  note D = fbm_invD [OF assms(1)]
  obtain x where x: "return_buffer_locked i v (fbms w b) = Inr x"
      "fbm_rep x (pool_return_buffer i (v \<noteq> 0) P)" "same_pics (fbms w b) x"
    using return_buffer_refines [OF D(1), of i v] assms(2) by auto
  have "exec_fbm b (ReturnBuffer i v) w = Inr (Done, set_fbm b x w)"
    using False D(6,8) x(1) node_of_inv [OF assms(1), of i] assms(2)
    by (simp add: FbmReturnBuffer_def)
  moreover have "fbm_inv g b (set_fbm b x w) (pool_return_buffer i (v \<noteq> 0) P)"
    using x pool_full_exec [of P g "ReturnBuffer i v" b] D(2,4) assms(2)
    by (intro fbm_inv_core [OF assms(1)]) (simp_all del: allowed_fbm.simps add: Let_def)
  ultimately show ?thesis by simp
qed

lemma follows_ShareBuffer:
  assumes "fbm_inv g b w P" and "allowed_fbm g (ShareBuffer i) P"
  shows "follows g b (ShareBuffer i) w P"
proof (cases "i \<in> away P \<union> forbidden P")
  case True
  with fbm_invD(2) [OF assms(1)] have "i \<notin> decoding P" by (auto simp: pool_full_def held_def)
  with True assms node_of_inv [OF assms(1), of i] fbm_invD(6,7) [OF assms(1)] show ?thesis
    by (simp add: FbmShareBuffer_def)
next
  case False
  note D = fbm_invD [OF assms(1)]
  obtain x where x: "share_buffer_locked i (fbms w b) = Inr x"
      "fbm_rep x (pool_share_buffer i P)" "same_pics (fbms w b) x"
    using share_buffer_refines [OF D(1), of i] assms(2) by auto
  have "exec_fbm b (ShareBuffer i) w = Inr (Done, set_fbm b x w)"
    using False D(6,7) x(1) node_of_inv [OF assms(1), of i] assms(2)
    by (simp add: FbmShareBuffer_def)
  moreover have "fbm_inv g b (set_fbm b x w) (pool_share_buffer i P)"
    using x pool_full_exec [of P g "ShareBuffer i" b] D(2,4) assms(2)
    by (intro fbm_inv_core [OF assms(1)]) (simp_all del: allowed_fbm.simps)
  ultimately show ?thesis by simp
qed

lemma follows_RequestPicture:
  assumes "fbm_inv g b w P"
  shows "follows g b RequestPicture w P"
proof -
  note D = fbm_invD [OF assms]
  obtain x where x: "request_picture_locked (fbms w b) = (fst (pool_request_picture P), x)"
      "fbm_rep x (snd (pool_request_picture P))" "same_pics (fbms w b) x"
    using request_picture_refines [OF D(1)] by blast
  let ?w2 = "upd_info (\<lambda>f. f\<lparr>pMajorDispFrame := map_option (Pic b) (fst (pool_request_picture P))\<rparr>)
    (set_fbm b x w)"
  have "exec_fbm b RequestPicture w = Inr (fst (spec_fbm b RequestPicture P), ?w2)"
    using D(6,7) x(1) by (simp add: FbmRequestPicture_def case_prod_beta)
  moreover have "fbm_inv g b ?w2 (snd (spec_fbm b RequestPicture P))"
    using x pool_full_exec [of P g RequestPicture b] D(2,4)
    by (intro fbm_inv_core [OF assms]) (auto simp: display_fbm_def split: list.splits)
  ultimately show ?thesis by blast
qed

lemma follows_Flush:
  assumes "fbm_inv g b w P"
  shows "follows g b Flush w P"
proof -
  note D = fbm_invD [OF assms]
  obtain x where x: "flush_loop (fbms w b) = Some (Inr x)" "fbm_rep x (pool_flush P)"
      "same_pics (fbms w b) x"
    using flush_loop_refines [OF D(1)] by blast
  have "exec_fbm b Flush w = Inr (Done, set_fbm b x w)"
    using D(6,7) x(1) by (simp add: FbmFlush_def)
  moreover have "fbm_inv g b (set_fbm b x w) (pool_flush P)"
    using x pool_full_exec [of P g Flush b] D(2,4)
    by (intro fbm_inv_core [OF assms]) simp_all
  ultimately show ?thesis by simp
qed

text \<open>The calls below move a frame between the manager and the display.\<close>

lemma fbm_inv_display:
  assumes "fbm_inv g b w P" and "fbm_rep x P'" and "pFbmInfo x" and "pool_full P'"
    and "ids_ok g x P'" and "nframes P' = nframes P"
    and "info w' = (info w)\<lparr>nValidBufNum := nValidBufNum (info w) + d\<rparr>"
    and "int (installed P') = int (installed P) + d" and "extPics w' = extPics w" "fbms w' b = x"
  shows "fbm_inv g b w' P'"
  using assms by (auto simp: fbm_inv_def display_ok_def display_fbm_def)

lemma outside_display:
  assumes "pool_full P" and "i \<in> away P \<union> forbidden P \<or> (installed P \<le> i \<and> i < nframes P)"
  shows "outside i P"
proof -
  have "held P \<subseteq> {..<installed P}" "held P \<inter> (away P \<union> forbidden P) = {}"
      "away P \<union> forbidden P \<subseteq> {..<installed P}" "installed P \<le> nframes P"
    using assms(1) unfolding pool_full_def by blast+
  with assms(2) show ?thesis unfolding outside_def held_def by fastforce
qed

lemma follows_ReturnPicture:
  assumes "fbm_inv g b w P" and "allowed_fbm g (ReturnPicture i) P"
  shows "follows g b (ReturnPicture i) w P"
proof -
  note D = fbm_invD [OF assms(1)]
  have i: "i < nframes P" using assms(2) by simp
  have id: "nID (get_pic w (Pic b i)) = pic_id P i" using D(3) i by (simp add: ids_ok_def)
  have full': "pool_full (snd (spec_fbm b (ReturnPicture i) P))"
    using pool_full_exec [OF D(2,4) assms(2)] .
  consider (away) "i \<in> away P" | (forbidden) "i \<in> forbidden P" | (own) "i \<notin> away P \<union> forbidden P"
    by blast
  then show ?thesis
  proof cases
    case away
    with D(2) have "i \<notin> rendering P" "i \<notin> forbidden P" by (auto simp: pool_full_def held_def)
    with away assms node_of_inv [OF assms(1) i] D(6,8) id show ?thesis
      by (simp add: FbmReturnPicture_def pic_id_def fbm_consts)
  next
    case forbidden
    then have na: "i \<notin> away P" using D(2) by (auto simp: pool_full_def)
    have out: "outside i P" using outside_display [OF D(2)] forbidden by blast
    note fl = flags_okD [OF fbm_repD(3) [OF D(1)] i]
    obtain x where x: "enq_empty i (fbms w b) = Inr x"
        "fbm_rep x (P\<lparr>free := free P @ [i]\<rparr>)" "pFbmInfo x = pFbmInfo (fbms w b)"
        "\<forall>j. vpicture (pFrames x j) = vpicture (pFrames (fbms w b) j)"
      using enq_empty_outside [OF D(1) out] by blast
    let ?x = "upd_picture i (\<lambda>v. v\<lparr>nID := nID v - FRM_FORBID_USE_TAG\<rparr>) x"
    have sh: "i \<notin> shown P" "i \<notin> rendering P" "i \<notin> set (ready P)"
      using out D(4) by (auto simp: outside_def pool_ok_def)
    have "exec_fbm b (ReturnPicture i) w = Inr (Status 0, set_fbm b ?x (set_fbm b x w))"
      using forbidden na sh x(1) D(5,6,8,10) id i fl
      by (simp add: FbmReturnPicture_def return_forbidden_def pic_id_def fbm_consts Let_def
          upd_picture_def)
    moreover have "fbm_inv g b (set_fbm b ?x (set_fbm b x w)) (pool_return_forbidden i P)"
    proof (rule fbm_inv_display [OF assms(1), where x = ?x and d = 0])
      show "fbm_rep ?x (pool_return_forbidden i P)"
        using fbm_rep_cong [OF x(2), of "pool_return_forbidden i P"] by simp
      show "ids_ok g ?x (pool_return_forbidden i P)"
        using D(3) x(4) na forbidden by (auto simp: ids_ok_def pic_id_def)
    qed (use full' forbidden x(3) D(6) in auto)
    ultimately show ?thesis using forbidden by auto
  next
    case own
    obtain x where x: "return_picture_locked i (fbms w b) = Inr (fst (pool_return_picture i P), x)"
        "fbm_rep x (snd (pool_return_picture i P))" "same_pics (fbms w b) x"
      using return_picture_refines [OF D(1) i] by blast
    have "exec_fbm b (ReturnPicture i) w =
        Inr (Status (fst (pool_return_picture i P)), set_fbm b x w)"
      using own x(1) D(5,6,8,10) id i node_of_inv [OF assms(1) i]
      by (simp add: FbmReturnPicture_def pic_id_def del: pool_return_picture.simps)
    moreover have "fbm_inv g b (set_fbm b x w) (snd (pool_return_picture i P))"
      using x full' own by (intro fbm_inv_core [OF assms(1)])
        (simp_all add: Let_def case_prod_beta)
    ultimately show ?thesis using own
      by (simp add: case_prod_beta del: pool_return_picture.simps)
  qed
qed

lemma follows_InstallBuffer:
  assumes "fbm_inv g b w P" and "allowed_fbm g (InstallBuffer k f) P"
  shows "follows g b (InstallBuffer k f) w P"
proof -
  note D = fbm_invD [OF assms(1)]
  let ?i = "installed P"
  have g: g "?i < nframes P" using assms(2) by simp_all
  note disp = D(9) [OF g(1), unfolded display_ok_def]
  have out: "outside ?i P" using outside_display [OF D(2)] g(2) by blast
  have new: "?i \<notin> away P" "?i \<notin> forbidden P" using D(2) unfolding pool_full_def by blast+
  let ?g = "install_buffer (extPics w k) (int ?i)"
  let ?x1 = "upd_picture ?i ?g (fbms w b)"
  obtain x where x: "enq_empty ?i ?x1 = Inr x"
      "fbm_rep x (P\<lparr>free := free P @ [?i]\<rparr>)" "pFbmInfo x = pFbmInfo ?x1"
      "\<forall>j. vpicture (pFrames x j) = vpicture (pFrames ?x1 j)"
    using enq_empty_outside [of ?x1 P ?i] D(1) out by auto
  let ?y = "if f then upd_picture ?i add_forbid_tag ?x1 else x"
  let ?w = "upd_info (\<lambda>h. h\<lparr>nValidBufNum := int ?i + 1\<rparr>) (set_fbm b ?y w)"
  have "exec_fbm b (InstallBuffer k f) w = Inr (Picture (Some (Pic b ?i)), ?w)"
    using disp g(2) D(10) x(1)
    by (simp add: FbmSetFbmBufAddress_def Let_def of_flag_def)
  moreover have "fbm_inv g b ?w (snd (pool_install f P))"
  proof (rule fbm_inv_display [OF assms(1), where x = ?y and d = 1])
    show "fbm_rep ?y (snd (pool_install f P))"
      by (auto simp: Let_def intro: fbm_rep_cong [OF x(2)] fbm_rep_cong [OF D(1)])
    show "ids_ok g ?y (snd (pool_install f P))"
      using D(3) x(4) new disp
      by (auto simp: ids_ok_def pic_id_def Let_def install_buffer_def add_forbid_tag_def less_Suc_eq)
    show "pool_full (snd (pool_install f P))"
      using pool_full_exec [OF D(2,4) assms(2), of b] by (simp add: Let_def)
  qed (use x(3) D(6) disp in \<open>auto simp: Let_def\<close>)
  ultimately show ?thesis by (auto simp: Let_def)
qed

lemma follows_SetRelease:
  assumes "fbm_inv g b w P" and "allowed_fbm g SetRelease P"
  shows "follows g b SetRelease w P"
proof -
  note D = fbm_invD [OF assms(1)]
  have g: g using assms(2) by simp
  note disp = D(9) [OF g, unfolded display_ok_def]
  let ?m = "mark_release (fbms w b)" and ?P1 = "P\<lparr>marked := marked P \<union> {..<installed P}\<rparr>"
  have "{i. i < nframes P \<and> nBufId (vpicture (pFrames (fbms w b) i)) \<noteq> FBM_NEW_DISP_INVALID_TAG}
      = {..<installed P}"
    using D(2,3) g by (auto simp: ids_ok_def pool_full_def) (metis order_less_le_trans)
  then have m: "fbm_rep ?m ?P1" using mark_release_rep [OF D(1)] by simp
  obtain x where x: "flush_loop ?m = Some (Inr x)" "fbm_rep x (pool_flush ?P1)" "same_pics ?m x"
    using flush_loop_refines [OF m] by blast
  obtain y where y: "release_loop x = Some (Inr y)"
      "fbm_rep y (pool_new_disp_release (pool_flush ?P1))" "same_pics x y"
    using release_loop_refines [OF x(2)] by blast
  have same: "same_pics (fbms w b) y"
    using x(3) y(3) by (simp add: same_pics_def mark_release_pics)
  let ?w = "set_fbm b y (set_fbm b x (set_fbm b ?m w))"
  have "minor_stream (set_fbm b ?m w) b = False" using D(8) by (simp add: minor_stream_def)
  then have "exec_fbm b SetRelease w = Inr (Done, ?w)"
    using disp D(6) x(1) y(1)
    by (simp add: FbmSetNewDispRelease_def FbmFlush_def FbmNewDispRelease_def mark_release_pics)
  moreover have "fbm_inv g b ?w (pool_set_release {..<installed P} P)"
    using y(2) same pool_full_exec [OF D(2,4) assms(2), of b]
    by (intro fbm_inv_core [OF assms(1)]) simp_all
  ultimately show ?thesis by simp
qed

lemma follows_RequestRelease:
  assumes "fbm_inv g b w P" and "allowed_fbm g RequestRelease P"
  shows "follows g b RequestRelease w P"
proof -
  note D = fbm_invD [OF assms(1)]
  have g: g using assms(2) by simp
  note disp = D(9) [OF g, unfolded display_ok_def]
  have full': "pool_full (snd (spec_fbm b RequestRelease P))"
    using pool_full_exec [OF D(2,4) assms(2)] .
  show ?thesis
  proof (cases "freed P")
    case Nil
    with fbm_repD(2) [OF D(1)] have "deq_release (fbms w b) = (None, fbms w b)"
      by (simp add: deq_nil(3))
    moreover have "set_fbm b (fbms w b) w = w" by (simp add: set_fbm_def)
    ultimately show ?thesis
      using assms(1) Nil disp by (simp add: FbmRequestReleasePicture_def)
  next
    case (Cons i rs)
    obtain x where x: "deq_release (fbms w b) = (Some i, x)"
        "fbm_rep (x\<lparr>nReleaseBufferNum := nReleaseBufferNum x - 1\<rparr>) (P\<lparr>freed := rs\<rparr>)"
        "\<forall>j. vpicture (pFrames x j) = vpicture (pFrames (fbms w b) j)"
        "pFbmInfo x = pFbmInfo (fbms w b)"
      using deq_release_refines [OF D(1) Cons] by blast
    let ?P = "P\<lparr>freed := rs, away := insert i (away P)\<rparr>"
    let ?y = "upd_picture i (\<lambda>v. v\<lparr>nID := FRM_RELEASE_TAG\<rparr>)
      (x\<lparr>nReleaseBufferNum := nReleaseBufferNum x - 1\<rparr>)"
    have "exec_fbm b RequestRelease w = Inr (Picture (Some (Pic b i)), set_fbm b ?y w)"
      using disp x(1) by (simp add: FbmRequestReleasePicture_def)
    moreover have "fbm_inv g b (set_fbm b ?y w) ?P"
    proof (rule fbm_inv_display [OF assms(1), where x = ?y and d = 0])
      show "fbm_rep ?y ?P" by (auto intro: fbm_rep_cong [OF x(2)])
      show "ids_ok g ?y ?P" using D(3) x(3) by (auto simp: ids_ok_def pic_id_def)
    qed (use full' Cons x(4) D(6) in auto)
    ultimately show ?thesis using Cons by simp
  qed
qed

lemma find_released_rep:
  assumes "fbm_inv g b w P"
  shows "find_released (fbms w b) = find (\<lambda>i. i \<in> away P) [0..<nframes P]"
proof -
  note D = fbm_invD [OF assms]
  have "bNeedRelease (pFrames (fbms w b) i) \<and>
      nID (vpicture (pFrames (fbms w b) i)) = FRM_RELEASE_TAG \<longleftrightarrow> i \<in> away P"
    if "i < nframes P" for i
    using that D(2,3,5) flags_okD(5) [OF fbm_repD(3) [OF D(1)] that]
    by (auto simp: ids_ok_def pic_id_def pool_full_def fbm_consts)
  then have "find (\<lambda>i. bNeedRelease (pFrames (fbms w b) i) \<and>
      nID (vpicture (pFrames (fbms w b) i)) = FRM_RELEASE_TAG) [0..<nframes P] =
      find (\<lambda>i. i \<in> away P) [0..<nframes P]"
    by (intro find_cong) auto
  with D(10) show ?thesis by (simp add: find_released_def)
qed

lemma follows_ReturnRelease:
  assumes "fbm_inv g b w P" and "allowed_fbm g (ReturnRelease k f) P"
  shows "follows g b (ReturnRelease k f) w P"
proof -
  note D = fbm_invD [OF assms(1)]
  have g: g using assms(2) by simp
  note disp = D(9) [OF g, unfolded display_ok_def]
  show ?thesis
  proof (cases "find (\<lambda>i. i \<in> away P) [0..<nframes P]")
    case None
    with find_released_rep [OF assms(1)] disp assms(1) show ?thesis
      by (simp add: FbmReturnReleasePicture_def)
  next
    case (Some i)
    then have i: "i < nframes P" "i \<in> away P" by (auto simp: find_Some_iff)
    have out: "outside i P" using outside_display [OF D(2)] i by blast
    have new: "i \<notin> forbidden P" "i < installed P" using D(2) i unfolding pool_full_def by blast+
    let ?g = "install_buffer (extPics w k) (int i)"
    let ?x1 = "upd_node i (\<lambda>n. n\<lparr>bNeedRelease := False\<rparr>) (upd_picture i ?g (fbms w b))"
    let ?P1 = "P\<lparr>marked := marked P - {i}\<rparr>"
    have r1: "fbm_rep ?x1 ?P1" using unmark_rep [of "upd_picture i ?g (fbms w b)" P i] D(1) by simp
    have v1: "vpicture (pFrames ?x1 j) =
        (if j = i then ?g (vpicture (pFrames (fbms w b) j)) else vpicture (pFrames (fbms w b) j))" for j
      by simp
    obtain x where x: "enq_empty i ?x1 = Inr x" "fbm_rep x (?P1\<lparr>free := free ?P1 @ [i]\<rparr>)"
        "pFbmInfo x = pFbmInfo ?x1" "\<forall>j. vpicture (pFrames x j) = vpicture (pFrames ?x1 j)"
      using enq_empty_outside [OF r1, of i] out by (auto simp: outside_def)
    let ?y = "if f then upd_picture i add_forbid_tag ?x1 else x"
    have "exec_fbm b (ReturnRelease k f) w = Inr (Picture (Some (Pic b i)), set_fbm b ?y w)"
      using disp find_released_rep [OF assms(1)] Some x(1)
      by (simp add: FbmReturnReleasePicture_def Let_def of_flag_def)
    moreover have "fbm_inv g b (set_fbm b ?y w) (pool_return_release f i P)"
    proof (rule fbm_inv_display [OF assms(1), where x = ?y and d = 0])
      show "fbm_rep ?y (pool_return_release f i P)"
        using r1 by (auto simp: Let_def intro: fbm_rep_cong [OF x(2)] fbm_rep_cong [OF r1])
      show "ids_ok g ?y (pool_return_release f i P)"
        using D(3) x(4) v1 new disp
        by (auto simp: ids_ok_def pic_id_def Let_def install_buffer_def add_forbid_tag_def)
      show "pool_full (pool_return_release f i P)"
        using pool_full_exec [OF D(2,4) assms(2), of b] Some by (simp add: Let_def)
    qed (use x(3) D(6) in \<open>auto simp: Let_def\<close>)
    ultimately show ?thesis using Some by auto
  qed
qed

text \<open>All calls together: the manager follows its specification.\<close>

interpretation fbm: follows_spec "fbm_inv g b" "exec_fbm b" "allowed_fbm g" "spec_fbm b" for g b
proof
  fix w P c
  assume "fbm_inv g b w P" and "allowed_fbm g c P"
  then show "follows g b c w P"
    by (cases c) (simp_all only: follows_RequestBuffer follows_ReturnBuffer follows_ShareBuffer
      follows_RequestPicture follows_ReturnPicture follows_Flush follows_InstallBuffer
      follows_SetRelease follows_RequestRelease follows_ReturnRelease)
qed

end
