(* ===== verification/FbmAlloc.thy ===== *)
theory FbmAlloc
  imports FbmDisplay
begin

text \<open>
  The life cycle part of \<^verbatim>\<open>vdecoder/fbm.c\<close>: the sizes and planes of a picture buffer, creation and
  destruction of a manager; and \<^verbatim>\<open>GetBufferSize\<close> of \<^verbatim>\<open>videoengine.c\<close>, the other place that
  computes picture sizes. Sizes are unbounded integers here; that they fit a C \<^verbatim>\<open>int\<close> is proved
  below for all videos up to 16384 x 16384.
\<close>

section \<open>Memory\<close>

text \<open>
  The two allocators the code calls, \<^verbatim>\<open>CdcMemPalloc\<close> and \<^verbatim>\<open>malloc\<close>. They are the environment:
  \<open>addresses\<close> lists the addresses the next allocations return (0, or its end, is a failure).
  \<open>blocks\<close> and \<open>mallocs\<close> are the live allocations, \<open>badFrees\<close> the addresses that were passed to
  a free function but are not live, \<open>iommuFreed\<close> the buffers unmapped from the video engine.
\<close>

record memory =
  addresses :: "int list"
  blocks :: "(int \<times> int) list"
  mallocs :: "int list"
  badFrees :: "int list"
  iommuFreed :: "int list"

definition next_address :: "memory \<Rightarrow> int \<times> memory" where
  "next_address m = (case addresses m of [] \<Rightarrow> (0, m) | a # as \<Rightarrow> (a, m\<lparr>addresses := as\<rparr>))"

definition CdcMemPalloc :: "int \<Rightarrow> memory \<Rightarrow> int \<times> memory" where
  "CdcMemPalloc bytes m = (case next_address m of (a, m1) \<Rightarrow>
     (a, if a = 0 then m1 else m1\<lparr>blocks := (a, bytes) # blocks m1\<rparr>))"

definition c_malloc :: "memory \<Rightarrow> int \<times> memory" where
  "c_malloc m = (case next_address m of (a, m1) \<Rightarrow>
     (a, if a = 0 then m1 else m1\<lparr>mallocs := a # mallocs m1\<rparr>))"

definition CdcMemPfree :: "int \<Rightarrow> memory \<Rightarrow> memory" where
  "CdcMemPfree a m =
     (if a \<in> fst ` set (blocks m) then m\<lparr>blocks := filter (\<lambda>b. fst b \<noteq> a) (blocks m)\<rparr>
      else m\<lparr>badFrees := a # badFrees m\<rparr>)"

definition c_free :: "int \<Rightarrow> memory \<Rightarrow> memory" where
  "c_free a m =
     (if a \<in> set (mallocs m) then m\<lparr>mallocs := remove1 a (mallocs m)\<rparr>
      else m\<lparr>badFrees := a # badFrees m\<rparr>)"

section \<open>Pixel formats\<close>

definition PIXEL_FORMAT_YUV_PLANER_420 :: int where "PIXEL_FORMAT_YUV_PLANER_420 = 1"
definition PIXEL_FORMAT_YUV_PLANER_422 :: int where "PIXEL_FORMAT_YUV_PLANER_422 = 2"
definition PIXEL_FORMAT_YUV_PLANER_444 :: int where "PIXEL_FORMAT_YUV_PLANER_444 = 3"
definition PIXEL_FORMAT_YV12 :: int where "PIXEL_FORMAT_YV12 = 4"
definition PIXEL_FORMAT_NV21 :: int where "PIXEL_FORMAT_NV21 = 5"
definition PIXEL_FORMAT_NV12 :: int where "PIXEL_FORMAT_NV12 = 6"
definition PIXEL_FORMAT_YUV_MB32_420 :: int where "PIXEL_FORMAT_YUV_MB32_420 = 7"
definition PIXEL_FORMAT_YUV_MB32_422 :: int where "PIXEL_FORMAT_YUV_MB32_422 = 8"
definition PIXEL_FORMAT_YUV_MB32_444 :: int where "PIXEL_FORMAT_YUV_MB32_444 = 9"
definition PIXEL_FORMAT_RGBA :: int where "PIXEL_FORMAT_RGBA = 10"
definition PIXEL_FORMAT_BGRA :: int where "PIXEL_FORMAT_BGRA = 13"
definition PIXEL_FORMAT_P010_UV :: int where "PIXEL_FORMAT_P010_UV = 22"
definition PIXEL_FORMAT_P010_VU :: int where "PIXEL_FORMAT_P010_VU = 23"

lemmas pixel_formats = PIXEL_FORMAT_YUV_PLANER_420_def PIXEL_FORMAT_YUV_PLANER_422_def
  PIXEL_FORMAT_YUV_PLANER_444_def PIXEL_FORMAT_YV12_def PIXEL_FORMAT_NV21_def
  PIXEL_FORMAT_NV12_def PIXEL_FORMAT_YUV_MB32_420_def PIXEL_FORMAT_YUV_MB32_422_def
  PIXEL_FORMAT_YUV_MB32_444_def PIXEL_FORMAT_RGBA_def PIXEL_FORMAT_BGRA_def
  PIXEL_FORMAT_P010_UV_def PIXEL_FORMAT_P010_VU_def

text \<open>The case groups of the two \<^verbatim>\<open>switch\<close> statements.\<close>

definition is_p010 :: "int \<Rightarrow> bool" where
  "is_p010 e \<longleftrightarrow> e = PIXEL_FORMAT_P010_UV \<or> e = PIXEL_FORMAT_P010_VU"

definition is_planar :: "int \<Rightarrow> bool" where
  "is_planar e \<longleftrightarrow> e \<in> {PIXEL_FORMAT_YUV_PLANER_420, PIXEL_FORMAT_YUV_PLANER_422,
     PIXEL_FORMAT_YUV_PLANER_444, PIXEL_FORMAT_YV12, PIXEL_FORMAT_NV21, PIXEL_FORMAT_NV12}"

definition is_mb32 :: "int \<Rightarrow> bool" where
  "is_mb32 e \<longleftrightarrow> e \<in> {PIXEL_FORMAT_YUV_MB32_420, PIXEL_FORMAT_YUV_MB32_422,
     PIXEL_FORMAT_YUV_MB32_444}"

definition is_rgb :: "int \<Rightarrow> bool" where
  "is_rgb e \<longleftrightarrow> PIXEL_FORMAT_RGBA \<le> e \<and> e \<le> PIXEL_FORMAT_BGRA"

section \<open>Sizes\<close>

text \<open>Stride, height and alignment a picture gets: 16 is the default alignment.\<close>

definition aligned_geometry :: "int \<Rightarrow> int \<Rightarrow> int \<Rightarrow> int \<times> int \<times> int" where
  "aligned_geometry a w h =
     (if a = 0 then (align_up w 16, align_up h 16, 16) else (align_up w a, align_up h a, a))"

definition planar_chroma :: "int \<Rightarrow> int \<Rightarrow> int" where
  "planar_chroma e y =
     (if e = PIXEL_FORMAT_YUV_PLANER_420 \<or> e = PIXEL_FORMAT_YV12 \<or> e = PIXEL_FORMAT_NV21
      then drop_bit 2 y
      else if e = PIXEL_FORMAT_YUV_PLANER_422 then drop_bit 1 y
      else y)"

definition mb32_chroma :: "int \<Rightarrow> int \<Rightarrow> int" where
  "mb32_chroma e s =
     (if e = PIXEL_FORMAT_YUV_MB32_420 then s sdiv 4
      else if e = PIXEL_FORMAT_YUV_MB32_422 then s sdiv 2
      else s)"

text \<open>The extra planes of 10-bit and of compressed (AFBC) pictures; \<open>bits\<close> is 512 for 10-bit
  and 384 for 8-bit pictures.\<close>

definition lower2bit_stride :: "int \<Rightarrow> int" where
  "lower2bit_stride w = (drop_bit 2 (w + 3) + 31) AND 0xffffffe0"

definition lower2bit_size :: "int \<Rightarrow> int \<Rightarrow> int" where
  "lower2bit_size w h = lower2bit_stride w * h * 3 sdiv 2"

definition afbc_size :: "int \<Rightarrow> int \<Rightarrow> int \<Rightarrow> int" where
  "afbc_size bits w h =
     drop_bit 4 (w + 15) * drop_bit 4 (h + 4 + 15) * (bits + 16) + 32 + 1024"

definition planar_total :: "VideoPicture \<Rightarrow> int \<Rightarrow> int \<Rightarrow> int \<Rightarrow> int \<Rightarrow> int" where
  "planar_total v y c w h =
     (if b10BitPicFlag v \<noteq> 0 then
        if bEnableAfbcFlag v = 1 then afbc_size 512 w h + lower2bit_size w h
        else y + c * 2 + lower2bit_size w h
      else if bEnableAfbcFlag v = 1 then afbc_size 384 w h
      else y + c * 2)"

section \<open>Allocating the planes of a picture\<close>

text \<open>Each case returns the result code, the picture, the alignment and the memory.\<close>

type_synonym alloc_result = "int \<times> VideoPicture \<times> int \<times> memory"

definition set_geometry :: "int \<Rightarrow> int \<Rightarrow> VideoPicture \<Rightarrow> VideoPicture" where
  "set_geometry s h v = v\<lparr>nLineStride := s, nWidth := s, nHeight := h\<rparr>"

definition alloc_p010 :: "VideoPicture \<Rightarrow> int \<Rightarrow> int \<Rightarrow> int \<Rightarrow> memory \<Rightarrow> alloc_result" where
  "alloc_p010 v a w h m =
     (let (s, h', a') = aligned_geometry a w h;
          v1 = set_geometry s h' v;
          y = s * h' * 2; c = drop_bit 2 y;
          (p, m1) = CdcMemPalloc (y + c * 2) m
      in if p = 0 then (-1, v1, a', m1)
         else (0, v1\<lparr>pData0 := p, pData1 := p + y, pData2 := 0, nBufSize := y + 2 * c\<rparr>, a', m1))"

text \<open>Where the planes of a planar picture lie in its buffer.\<close>

definition planar_planes :: "VideoPicture \<Rightarrow> int \<Rightarrow> int \<Rightarrow> int \<Rightarrow> int \<Rightarrow> int \<Rightarrow> VideoPicture" where
  "planar_planes v p y c w h =
     (if b10BitPicFlag v \<noteq> 0 then
        if bEnableAfbcFlag v = 1 then
          v\<lparr>pData0 := p, nLower2BitBufSize := lower2bit_size w h,
            nLower2BitBufOffset := afbc_size 512 w h, nLower2BitBufStride := lower2bit_stride w,
            nAfbcSize := afbc_size 512 w h\<rparr>
        else
          v\<lparr>pData0 := p, pData1 := p + y, nLower2BitBufSize := lower2bit_size w h,
            nLower2BitBufOffset := y + c * 2, nLower2BitBufStride := lower2bit_stride w\<rparr>
      else if bEnableAfbcFlag v = 1 then v\<lparr>pData0 := p, nAfbcSize := afbc_size 384 w h\<rparr>
      else v\<lparr>pData0 := p, pData1 := p + y,
             pData2 := (if ePixelFormat v \<noteq> PIXEL_FORMAT_NV21 then p + y + c else 0)\<rparr>)"

definition alloc_planar :: "VideoPicture \<Rightarrow> int \<Rightarrow> int \<Rightarrow> int \<Rightarrow> memory \<Rightarrow> alloc_result" where
  "alloc_planar v a w h m =
     (let (s, h', a') = aligned_geometry a w h;
          v1 = set_geometry s h' v;
          y = s * h'; c = planar_chroma (ePixelFormat v) y;
          (p, m1) = CdcMemPalloc (planar_total v y c w h) m
      in if p = 0 then (-1, v1, a', m1)
         else
           let v2 = (planar_planes v1 p y c w h)\<lparr>pData3 := 0, nBufSize := planar_total v y c w h\<rparr>;
               (q, m2) = c_malloc m1
           in if q = 0 then (-1, v2, a', m2) else (0, v2\<lparr>pMetaData := q\<rparr>, a', m2))"

definition alloc_mb32 :: "VideoPicture \<Rightarrow> int \<Rightarrow> int \<Rightarrow> memory \<Rightarrow> alloc_result" where
  "alloc_mb32 v w h m =
     (let v1 = set_geometry (align_up w 32) (align_up h 32) v;
          s = align_up (align_up w 32) 64; y = s * align_up h 64;
          c = mb32_chroma (ePixelFormat v) y;
          (p, m1) = CdcMemPalloc y m
      in if p = 0 then (-1, v1, 32, m1)
         else
           let (q, m2) = CdcMemPalloc (c * 2) m1
           in if q = 0 then (-1, v1\<lparr>pData0 := 0\<rparr>, 32, CdcMemPfree p m2)
              else (0, v1\<lparr>pData0 := p, pData1 := q, pData2 := 0, pData3 := 0\<rparr>, 32, m2))"

definition alloc_rgb :: "VideoPicture \<Rightarrow> int \<Rightarrow> int \<Rightarrow> memory \<Rightarrow> alloc_result" where
  "alloc_rgb v a h m =
     (let v1 = v\<lparr>nLineStride := nWidth v * 4\<rparr>;
          (p, m1) = CdcMemPalloc (nWidth v * 4 * h) m
      in if p = 0 then (-1, v1, a, m1)
         else (0, v1\<lparr>pData0 := p, pData1 := 0, pData2 := 0, pData3 := 0\<rparr>, a, m1))"

text \<open>\<open>phys\<close> is \<^verbatim>\<open>CdcMemGetPhysicAddress\<close>, the address translation of the memory driver.\<close>

definition FbmAllocatePictureBuffer :: "(int \<Rightarrow> int) \<Rightarrow> VideoPicture \<Rightarrow> int \<Rightarrow> int \<Rightarrow> int \<Rightarrow>
    memory \<Rightarrow> alloc_result" where
  "FbmAllocatePictureBuffer phys v a w h m =
     (let v0 = v\<lparr>pData0 := 0, pData1 := 0, pData2 := 0, pData3 := 0\<rparr>;
          e = ePixelFormat v;
          (r, v1, a', m1) =
            (if is_p010 e then alloc_p010 v0 a w h m
             else if is_planar e then alloc_planar v0 a w h m
             else if is_mb32 e then alloc_mb32 v0 w h m
             else if is_rgb e then alloc_rgb v0 a h m
             else (-1, v0, a, m))
      in if r \<noteq> 0 then (r, v1, a', m1)
         else (0, v1\<lparr>phyYBufAddr := (if pData0 v1 \<noteq> 0 then phys (pData0 v1) else phyYBufAddr v1),
                    phyCBufAddr := (if pData1 v1 \<noteq> 0 then phys (pData1 v1) else phyCBufAddr v1)\<rparr>,
               a', m1))"

text \<open>Freeing; \<open>gpu\<close> is \<^verbatim>\<open>bUseGpuBuf\<close> of the manager.\<close>

definition free_plane :: "int \<Rightarrow> memory \<Rightarrow> memory" where
  "free_plane p m = (if p \<noteq> 0 then CdcMemPfree p m else m)"

definition FbmFreePictureBuffer :: "int \<Rightarrow> VideoPicture \<Rightarrow> memory \<Rightarrow> VideoPicture \<times> memory" where
  "FbmFreePictureBuffer gpu v m =
     (let m1 = free_plane (pData0 v) m;
          v1 = v\<lparr>pData0 := 0\<rparr>;
          (v2, m2) = (if pMetaData v1 \<noteq> 0 \<and> gpu = 0
                      then (v1\<lparr>pMetaData := 0\<rparr>, c_free (pMetaData v1) m1) else (v1, m1))
      in if ePixelFormat v2 < PIXEL_FORMAT_YUV_MB32_420 then (v2, m2)
         else (v2\<lparr>pData1 := 0, pData2 := 0, pData3 := 0\<rparr>,
               free_plane (pData3 v2) (free_plane (pData2 v2) (free_plane (pData1 v2) m2))))"

section \<open>GetBufferSize\<close>

text \<open>The sizes of the two planes and the two strides, or -1 for an unknown format.\<close>

definition GetBufferSize :: "int \<Rightarrow> int \<Rightarrow> int \<Rightarrow> int \<Rightarrow> (int \<times> int \<times> int \<times> int) option" where
  "GetBufferSize e w h a =
     (let result = (\<lambda>y c s. Some (y, c, s, drop_bit 1 s))
      in if is_planar e \<and> e \<noteq> PIXEL_FORMAT_NV12 then
           let (s, h', a') = aligned_geometry a w h; y = s * h'
           in result y (planar_chroma e y) s
         else if is_mb32 e then
           let s = align_up w 64
           in result (s * align_up h 32) (mb32_chroma e (s * align_up h 64)) s
         else if is_rgb e then result (w * 4 * h) 0 (w * 4)
         else None)"

section \<open>Bounds of the sizes\<close>

definition alignment :: "int \<Rightarrow> bool" where
  "alignment a \<longleftrightarrow> a = 0 \<or> (\<exists>k \<le> 10. a = 2 ^ k)"

definition video_size :: "int \<Rightarrow> bool" where
  "video_size n \<longleftrightarrow> 0 < n \<and> n \<le> 16384"

lemma pow2_bound: "k \<le> 10 \<Longrightarrow> (2::int) ^ k \<le> 1024"
  using power_increasing [of k 10 "2::int"] by simp

lemma align_up_bounds:
  assumes "video_size n" and "k \<le> 10"
  shows "n \<le> align_up n (2 ^ k)" "align_up n (2 ^ k) \<le> 16384" "2 ^ k dvd align_up n (2 ^ k)"
proof -
  show "n \<le> align_up n (2 ^ k)" "2 ^ k dvd align_up n (2 ^ k)"
    by (rule align_up_ge, rule align_up_dvd)
  have "(16384::int) = 2 ^ (14 - k) * 2 ^ k"
    using assms(2) by (simp flip: power_add)
  then have d: "(2::int) ^ k dvd 16384" by (metis dvd_triv_right)
  have "(n + 2 ^ k - 1) div 2 ^ k \<le> (16384 + 2 ^ k - 1) div (2::int) ^ k"
    using assms(1) by (intro zdiv_mono1) (auto simp: video_size_def)
  then have "align_up n (2 ^ k) \<le> align_up 16384 (2 ^ k)"
    unfolding align_up_pow2 by (intro mult_right_mono) auto
  also have "align_up 16384 (2 ^ k) = 16384" using d by (rule align_up_id)
  finally show "align_up n (2 ^ k) \<le> 16384" .
qed

lemma geometry_bounds:
  assumes "alignment a" and "video_size w" and "video_size h"
    and "aligned_geometry a w h = (s, h', a')"
  shows "w \<le> s \<and> s \<le> 16384 \<and> h \<le> h' \<and> h' \<le> 16384 \<and> a' dvd s \<and> a' dvd h' \<and> a' \<noteq> 0"
proof -
  have "\<exists>k \<le> 10. a' = 2 ^ k \<and> s = align_up w (2 ^ k) \<and> h' = align_up h (2 ^ k)"
    using assms(1,4) by (auto simp: aligned_geometry_def alignment_def split: if_splits
      intro: exI [of _ 4])
  with align_up_bounds assms(2,3) show ?thesis by auto
qed

lemma plane_bounds:
  assumes "w \<le> s" "s \<le> 16384" "h \<le> h'" "h' \<le> 16384" "video_size w" "video_size h"
  shows "0 < s * h' \<and> s * h' \<le> 268435456"
proof -
  have "0 < s" "0 < h'" using assms by (auto simp: video_size_def)
  moreover have "s * h' \<le> 16384 * 16384"
    using assms calculation by (intro mult_mono) auto
  ultimately show ?thesis by simp
qed

lemma chroma_bounds: "0 \<le> y \<Longrightarrow> 4 * planar_chroma e y + 3 \<ge> y \<and> planar_chroma e y \<le> y \<and> 0 \<le> planar_chroma e y"
  by (auto simp: planar_chroma_def drop_bit_eq_div)

lemma lower2bit_stride_bounds:
  assumes "video_size w"
  shows "drop_bit 2 (w + 3) \<le> lower2bit_stride w \<and> lower2bit_stride w \<le> 4128"
proof -
  define x where "x = drop_bit 2 (w + 3)"
  have x: "0 \<le> x" "x \<le> 4096" using assms by (auto simp: x_def drop_bit_eq_div video_size_def)
  have nd: "drop_bit 27 ((x + 31) div 32) = (0::int)"
    using x by (auto simp: drop_bit_eq_div)
  have "(x + 31) AND 0xffffffe0 = (x + 31) AND NOT (mask 5)"
  proof (rule bit_eqI)
    fix n
    show "bit ((x + 31) AND 0xffffffe0) n = bit ((x + 31) AND NOT (mask 5)) n"
    proof (cases "n < 32")
      case True
      have "(0xffffffe0::int) = mask 32 - mask 5" by (simp add: mask_eq_exp_minus_1)
      also have "\<dots> = mask 32 AND NOT (mask 5)" by (simp add: mask_eq_exp_minus_1)
      finally have e: "(0xffffffe0::int) = mask 32 AND NOT (mask 5)" .
      show ?thesis unfolding e using True by (auto simp: bit_simps)
    next
      case False
      have "x + 31 < 2 ^ n"
        using x False power_increasing [of 32 n "2::int"] by simp
      then have "\<not> bit (x + 31) n"
        using x by (simp add: bit_iff_odd)
      then show ?thesis by (simp add: bit_simps)
    qed
  qed
  also have "\<dots> = align_up x 32"
    by (simp add: align_up_def mask_eq_exp_minus_1 add.commute)
  finally have "lower2bit_stride w = align_up x 32" by (simp add: lower2bit_stride_def x_def)
  then show ?thesis
    using align_up_ge [of x 5] align_up_less [of x 5] x by (auto simp: x_def)
qed

lemma lower2bit_size_bounds:
  assumes "video_size w" "video_size h"
  shows "0 \<le> lower2bit_size w h \<and> lower2bit_size w h \<le> 101449728"
proof -
  have s: "0 \<le> lower2bit_stride w" "lower2bit_stride w \<le> 4128"
    using lower2bit_stride_bounds [OF assms(1)] assms(1)
    by (auto simp: video_size_def drop_bit_eq_div intro: order_trans [rotated])
  moreover have "lower2bit_stride w * h \<le> 4128 * 16384"
    using s assms(2) by (intro mult_mono) (auto simp: video_size_def)
  moreover have "0 \<le> lower2bit_stride w * h" using s(1) assms(2) by (simp add: video_size_def)
  ultimately show ?thesis by (simp add: lower2bit_size_def)
qed

lemma afbc_size_bounds:
  assumes "video_size w" "video_size h" "0 \<le> bits" "bits \<le> 512"
  shows "0 < afbc_size bits w h \<and> afbc_size bits w h \<le> 554730528"
proof -
  have "0 \<le> drop_bit 4 (w + 15)" "drop_bit 4 (w + 15) \<le> 1024"
    "0 \<le> drop_bit 4 (h + 4 + 15)" "drop_bit 4 (h + 4 + 15) \<le> 1025"
    using assms(1,2) by (auto simp: video_size_def drop_bit_eq_div)
  moreover from this have "drop_bit 4 (w + 15) * drop_bit 4 (h + 4 + 15) \<le> 1024 * 1025"
    by (intro mult_mono) auto
  moreover from calculation have "drop_bit 4 (w + 15) * drop_bit 4 (h + 4 + 15) * (bits + 16) \<le>
      1024 * 1025 * 528"
    using assms(3,4) by (intro mult_mono) auto
  moreover have "0 \<le> drop_bit 4 (w + 15) * drop_bit 4 (h + 4 + 15) * (bits + 16)"
    using calculation(1,3) assms(3) by (intro mult_nonneg_nonneg) auto
  ultimately show ?thesis unfolding afbc_size_def by linarith
qed

section \<open>The planes of an allocated picture\<close>

lemma CdcMemPalloc_cases:
  "CdcMemPalloc bytes m = (p, m1) \<Longrightarrow> p \<noteq> 0 \<Longrightarrow>
     m1 = m\<lparr>addresses := tl (addresses m), blocks := (p, bytes) # blocks m\<rparr> \<and>
     addresses m = p # tl (addresses m)"
  by (auto simp: CdcMemPalloc_def next_address_def split: list.splits prod.splits)

lemma c_malloc_cases:
  "c_malloc m = (p, m1) \<Longrightarrow> p \<noteq> 0 \<Longrightarrow>
     m1 = m\<lparr>addresses := tl (addresses m), mallocs := p # mallocs m\<rparr> \<and>
     addresses m = p # tl (addresses m)"
  by (auto simp: c_malloc_def next_address_def split: list.splits prod.splits)

text \<open>Every planar picture that is allocated, written out.\<close>

lemma alloc_planar_ok:
  assumes "alloc_planar v a w h m = (0, v', a', m')"
    and "aligned_geometry a w h = (s, h', b)"
  shows "\<exists>p q. p \<noteq> 0 \<and> q \<noteq> 0 \<and> a' = b \<and>
    v' = (planar_planes (set_geometry s h' v) p (s * h') (planar_chroma (ePixelFormat v) (s * h')) w h)
      \<lparr>pData3 := 0, nBufSize := planar_total v (s * h') (planar_chroma (ePixelFormat v) (s * h')) w h,
       pMetaData := q\<rparr> \<and>
    m' = m\<lparr>addresses := tl (tl (addresses m)), mallocs := q # mallocs m,
       blocks := (p, planar_total v (s * h') (planar_chroma (ePixelFormat v) (s * h')) w h) # blocks m\<rparr> \<and>
    addresses m = p # q # tl (tl (addresses m))"
proof -
  let ?c = "planar_chroma (ePixelFormat v) (s * h')"
  obtain p m1 where p: "CdcMemPalloc (planar_total v (s * h') ?c w h) m = (p, m1)" by fastforce
  obtain q m2 where q: "c_malloc m1 = (q, m2)" by fastforce
  have "p \<noteq> 0" "q \<noteq> 0"
    using assms p q by (auto simp: alloc_planar_def Let_def split: if_splits)
  note P = CdcMemPalloc_cases [OF p this(1)] and Q = c_malloc_cases [OF q this(2)]
  have adr: "addresses m = p # q # tl (tl (addresses m))" using P Q by simp
  have m2: "m2 = m\<lparr>addresses := tl (tl (addresses m)), mallocs := q # mallocs m,
      blocks := (p, planar_total v (s * h') ?c w h) # blocks m\<rparr>"
    using P Q by simp
  show ?thesis
    by (rule exI [of _ p], rule exI [of _ q])
      (use adr m2 assms p q \<open>p \<noteq> 0\<close> \<open>q \<noteq> 0\<close> in \<open>simp add: alloc_planar_def Let_def\<close>)
qed

lemma alloc_planar_case:
  assumes "FbmAllocatePictureBuffer phys v a w h m = (0, v', a', m')" and "is_planar (ePixelFormat v)"
  shows "\<exists>u. alloc_planar (v\<lparr>pData0 := 0, pData1 := 0, pData2 := 0, pData3 := 0\<rparr>) a w h m = (0, u, a', m') \<and>
    v' = u\<lparr>phyYBufAddr := (if pData0 u \<noteq> 0 then phys (pData0 u) else phyYBufAddr u),
           phyCBufAddr := (if pData1 u \<noteq> 0 then phys (pData1 u) else phyCBufAddr u)\<rparr>"
proof -
  have "\<not> is_p010 (ePixelFormat v)"
    using assms(2) by (auto simp: is_p010_def is_planar_def pixel_formats)
  with assms show ?thesis
    by (auto simp: FbmAllocatePictureBuffer_def Let_def split: prod.splits if_splits)
qed

lemma planar_total_cleared [simp]:
  "planar_total (v\<lparr>pData0 := a, pData1 := b, pData2 := c, pData3 := d\<rparr>) = planar_total v"
  by (intro ext) (simp add: planar_total_def cong: if_cong)

lemma planar_planes_geometry [simp]:
  "nLineStride (planar_planes v p y c w h) = nLineStride v"
  "nHeight (planar_planes v p y c w h) = nHeight v"
  "nWidth (planar_planes v p y c w h) = nWidth v"
  "pData0 (planar_planes v p y c w h) = p"
  "ePixelFormat (planar_planes v p y c w h) = ePixelFormat v"
  by (simp_all add: planar_planes_def)

lemma set_geometry_simps [simp]:
  "nLineStride (set_geometry s h v) = s" "nHeight (set_geometry s h v) = h"
  "nWidth (set_geometry s h v) = s" "ePixelFormat (set_geometry s h v) = ePixelFormat v"
  "b10BitPicFlag (set_geometry s h v) = b10BitPicFlag v"
  "bEnableAfbcFlag (set_geometry s h v) = bEnableAfbcFlag v"
  by (simp_all add: set_geometry_def)

section \<open>Creating a manager\<close>

record FbmCreateInfo =
  cFrameNum :: int
  cWidth :: int
  cHeight :: int
  cPixelFormat :: int
  cThumbnailMode :: int
  cGpuBufValid :: int
  cAlignStride :: int
  cBufferType :: int
  cProgressiveFlag :: int
  cIsSoftDecoderFlag :: int
  c10BitStreamFlag :: int

definition BUF_TYPE_ONLY_REFERENCE :: int where "BUF_TYPE_ONLY_REFERENCE = 1"

definition blank_picture :: VideoPicture where
  "blank_picture = \<lparr>nID = 0, ePixelFormat = 0, nWidth = 0, nHeight = 0, nLineStride = 0,
     nTopOffset = 0, nLeftOffset = 0, nBottomOffset = 0, nRightOffset = 0, nFrameRate = 0,
     nAspectRatio = 0, bIsProgressive = 0, pData0 = 0, pData1 = 0, pData2 = 0, pData3 = 0,
     nBufId = 0, phyYBufAddr = 0, phyCBufAddr = 0, pPrivate = 0, nBufFd = 0, nBufStatus = 0,
     nColorPrimary = 0, pMetaData = 0, nLower2BitBufSize = 0, nLower2BitBufOffset = 0,
     nLower2BitBufStride = 0, b10BitPicFlag = 0, bEnableAfbcFlag = 0, nBufSize = 0, nAfbcSize = 0\<rparr>"

definition blank_node :: FrameNode where
  "blank_node = \<lparr>bUsedByDecoder = False, bUsedByRender = False, bInValidPictureQueue = False,
     bAlreadyDisplayed = False, bNeedRelease = False, vpicture = blank_picture, pNext = None\<rparr>"

text \<open>The picture of frame \<open>i\<close> before it has a buffer; \<open>a\<close> is the alignment so far.\<close>

definition init_picture :: "FbmCreateInfo \<Rightarrow> VideoFbmInfo \<Rightarrow> int \<Rightarrow> nat \<Rightarrow> VideoPicture" where
  "init_picture ci f a i =
     (let w = (if a \<noteq> 0 then align_up (cWidth ci) a else cWidth ci);
          h = (if a \<noteq> 0 then align_up (cHeight ci) a else cHeight ci)
      in blank_picture\<lparr>nID := int i, ePixelFormat := cPixelFormat ci, nWidth := w, nHeight := h,
           nLineStride := w, nLeftOffset := 0, nTopOffset := 0, nBottomOffset := cHeight ci,
           nRightOffset := cWidth ci, bIsProgressive := cProgressiveFlag ci,
           nBufId := FBM_NEW_DISP_INVALID_TAG, b10BitPicFlag := c10BitStreamFlag ci,
           bEnableAfbcFlag := bAfbcModeFlag (pFbmBufInfo f)\<rparr>)"

definition own_buffers :: "FbmCreateInfo \<Rightarrow> bool" where
  "own_buffers ci \<longleftrightarrow> cGpuBufValid ci = 0 \<or> cBufferType ci = BUF_TYPE_ONLY_REFERENCE"

definition share_planes :: "VideoPicture \<Rightarrow> VideoPicture \<Rightarrow> VideoPicture" where
  "share_planes src v = v\<lparr>pData0 := pData0 src, pData1 := pData1 src, pData2 := pData2 src,
     pData3 := pData3 src, phyYBufAddr := phyYBufAddr src, phyCBufAddr := phyCBufAddr src\<rparr>"

text \<open>The layout a display buffer must have (the display allocates it).\<close>

definition gpu_layout :: "int \<Rightarrow> int \<Rightarrow> VideoPicture \<Rightarrow> VideoPicture" where
  "gpu_layout w h v =
     (let tenbit = b10BitPicFlag v \<noteq> 0; afbc = bEnableAfbcFlag v = 1;
          v1 = (if afbc then v\<lparr>nAfbcSize := afbc_size (if tenbit then 512 else 384) w h\<rparr> else v)
      in v1\<lparr>nLower2BitBufOffset :=
              (if \<not> tenbit then 0
               else if afbc then afbc_size 512 w h
               else nWidth v * nHeight v * 3 sdiv 2),
            nLower2BitBufStride := (if tenbit then lower2bit_stride w else 0)\<rparr>)"

text \<open>One turn of the loop over the frames: the picture of frame \<open>i\<close>, given that of frame 0.\<close>

definition make_picture :: "(int \<Rightarrow> int) \<Rightarrow> FbmCreateInfo \<Rightarrow> VideoFbmInfo \<Rightarrow> VideoPicture \<Rightarrow>
    nat \<Rightarrow> int \<Rightarrow> memory \<Rightarrow> alloc_result" where
  "make_picture phys ci f first i a m =
     (let v = init_picture ci f a i;
          (r, v1, a1, m1) =
            (if own_buffers ci then
               if cThumbnailMode ci = 0 \<or> i = 0
               then FbmAllocatePictureBuffer phys v a (cWidth ci) (cHeight ci) m
               else (0, share_planes first v, a, m)
             else (0, v, a, m))
      in if r \<noteq> 0 then (r, v1, a1, m1)
         else
           let v2 = (if own_buffers ci then v1\<lparr>nColorPrimary := -1\<rparr> else v1)
           in (0, if cGpuBufValid ci = 1 then gpu_layout (cWidth ci) (cHeight ci) v2 else v2, a1, m1))"

text \<open>The loop; the result is the number of frames made, which is less than all on a failure.\<close>

fun make_frames :: "(int \<Rightarrow> int) \<Rightarrow> FbmCreateInfo \<Rightarrow> VideoFbmInfo \<Rightarrow> nat \<Rightarrow> nat \<Rightarrow>
    (nat \<Rightarrow> FrameNode) \<Rightarrow> int \<Rightarrow> memory \<Rightarrow> nat \<times> (nat \<Rightarrow> FrameNode) \<times> int \<times> memory" where
  "make_frames phys ci f 0 i fs a m = (i, fs, a, m)"
| "make_frames phys ci f (Suc n) i fs a m =
     (case make_picture phys ci f (vpicture (fs 0)) i a m of
        (r, v, a1, m1) \<Rightarrow>
          let fs1 = fs(i := blank_node\<lparr>vpicture := v\<rparr>)
          in if r \<noteq> 0 then (i, fs1, a1, m1)
             else make_frames phys ci f n (Suc i) fs1 a1 m1)"

text \<open>Freeing the pictures of the frames \<open>i\<close>, \<open>i + 1\<close>, ..., \<open>n\<close> of them.\<close>

fun free_frames :: "nat \<Rightarrow> nat \<Rightarrow> int \<Rightarrow> (nat \<Rightarrow> FrameNode) \<Rightarrow> memory \<Rightarrow> memory" where
  "free_frames 0 i gpu fs m = m"
| "free_frames (Suc n) i gpu fs m =
     free_frames n (Suc i) gpu fs (snd (FbmFreePictureBuffer gpu (vpicture (fs i)) m))"

fun enqueue_all :: "nat \<Rightarrow> nat \<Rightarrow> (nat \<Rightarrow> FrameNode) \<times> nat option \<Rightarrow>
    ((nat \<Rightarrow> FrameNode) \<times> nat option) res" where
  "enqueue_all 0 i q = Inr q"
| "enqueue_all (Suc n) i q = and_then (FbmEnqueue (fst q) (snd q) i) (\<lambda>q1. enqueue_all n (Suc i) q1)"

text \<open>What the display is told about the buffers it shall provide.\<close>

definition fill_buf_info :: "FbmCreateInfo \<Rightarrow> int \<Rightarrow> FbmBufInfo \<Rightarrow> FbmBufInfo" where
  "fill_buf_info ci a f =
     (let aligned = bAfbcModeFlag f = 0 \<and> a \<noteq> 0
      in f\<lparr>nBufNum := (if cThumbnailMode ci = 1 then 1 else cFrameNum ci),
           nBufWidth := (if aligned then align_up (cWidth ci) a else cWidth ci),
           nBufHeight := (if aligned then align_up (cHeight ci) a else cHeight ci),
           nBufAlignValue := a, eBufPixelFormat := cPixelFormat ci,
           bProgressiveFlag := cProgressiveFlag ci, bBufSoftDecoderFlag := cIsSoftDecoderFlag ci,
           b10bitVideoFlag := c10BitStreamFlag ci\<rparr>)"

definition default_offsets :: "FbmCreateInfo \<Rightarrow> FbmBufInfo \<Rightarrow> FbmBufInfo" where
  "default_offsets ci f =
     (if nBufRightOffset f = 0 \<or> nBufBottomOffset f = 0
      then f\<lparr>nBufRightOffset := cWidth ci, nBufBottomOffset := cHeight ci, nBufTopOffset := 0,
             nBufLeftOffset := 0\<rparr> else f)"

text \<open>The manager once its frames are made, before any of them is queued.\<close>

definition new_fbm :: "FbmCreateInfo \<Rightarrow> (nat \<Rightarrow> FrameNode) \<Rightarrow> int \<Rightarrow> Fbm" where
  "new_fbm ci fs a = \<lparr>nMaxFrameNum = cFrameNum ci, nEmptyBufferNum = 0, nValidPictureNum = 0,
     nReleaseBufferNum = 0, pEmptyBufferQueue = None, pValidPictureQueue = None,
     pReleaseBufferQueue = None, bThumbnailMode = cThumbnailMode ci, pFrames = fs, bUseGpuBuf = 0,
     nAlignValue = a, pFbmInfo = True, nDecoderHoldingNum = 0, nRenderHoldingNum = 0,
     nWaitForDispNum = 0\<rparr>"

text \<open>The manager's struct and frame table have the addresses \<open>pa\<close> and \<open>fa\<close>.\<close>

definition FbmCreateBuffer :: "(int \<Rightarrow> int) \<Rightarrow> FbmCreateInfo \<Rightarrow> VideoFbmInfo \<Rightarrow> memory \<Rightarrow>
    ((int \<times> int \<times> Fbm) option \<times> VideoFbmInfo \<times> memory) res" where
  "FbmCreateBuffer phys ci f m =
     (let (pa, m1) = c_malloc m
      in if pa = 0 then Inr (None, f, m1)
         else
           let f1 = f\<lparr>bIsSoftDecoderFlag := cIsSoftDecoderFlag ci\<rparr>;
               (fa, m2) = c_malloc m1
           in if fa = 0 then Inr (None, f1, c_free pa m2)
              else
                let f2 = f1\<lparr>pFbmBufInfo := default_offsets ci (pFbmBufInfo f1)\<rparr>;
                    n = nat (cFrameNum ci);
                    (k, fs, a, m3) =
                      make_frames phys ci f2 n 0 (\<lambda>_. blank_node) (cAlignStride ci) m2;
                    x = new_fbm ci fs a
                in if k < n then Inr (None, f2, c_free pa (c_free fa (free_frames k 0 0 fs m3)))
                   else if \<not> own_buffers ci \<and> cGpuBufValid ci = 1 then
                     if pFbmFirst f2 \<noteq> None \<and> bIs3DStream f2 = 1
                     then Inr (Some (pa, fa, x\<lparr>bUseGpuBuf := 1\<rparr>), f2, m3)
                     else Inr (Some (pa, fa, x\<lparr>bUseGpuBuf := 1\<rparr>),
                            f2\<lparr>pFbmBufInfo := fill_buf_info ci a (pFbmBufInfo f2)\<rparr>, m3)
                   else
                     and_then (enqueue_all n 0 (fs, None)) (\<lambda>(fs1, h).
                       Inr (Some (pa, fa, x\<lparr>pFrames := fs1, pEmptyBufferQueue := h,
                              nEmptyBufferNum := cFrameNum ci\<rparr>), f2, m3)))"

text \<open>
  A manager in the world: \<open>bufs b\<close> are the addresses of its struct and its frame table. The first
  two arguments are the places of the managers that may be created.
\<close>

definition create_at :: "nat \<Rightarrow> (int \<Rightarrow> int) \<Rightarrow> FbmCreateInfo \<Rightarrow> fbm_world \<Rightarrow> memory \<Rightarrow>
    ((int \<times> int) option \<times> fbm_world \<times> memory) res" where
  "create_at b phys ci w m =
     and_then (FbmCreateBuffer phys ci (info w) m) (\<lambda>(r, f, m1).
       Inr (case r of
              None \<Rightarrow> (None, w\<lparr>info := f\<rparr>, m1)
            | Some (pa, fa, x) \<Rightarrow> (Some (pa, fa), set_fbm b x (w\<lparr>info := f\<rparr>), m1)))"

definition set_minor_offsets :: "VideoFbmInfo \<Rightarrow> VideoFbmInfo" where
  "set_minor_offsets f =
     (let g = pFbmBufInfo f
      in case GetBufferSize (eBufPixelFormat g) (nBufWidth g) (nBufHeight g) (nBufAlignValue g) of
           None \<Rightarrow> f\<lparr>nMinorYBufOffset := 0, nMinorCBufOffset := 0\<rparr>
         | Some (y, c, s, t) \<Rightarrow> f\<lparr>nMinorYBufOffset := y, nMinorCBufOffset := 2 * c\<rparr>)"

definition FbmCreate :: "nat \<Rightarrow> nat \<Rightarrow> (int \<Rightarrow> int) \<Rightarrow> FbmCreateInfo \<Rightarrow> fbm_world \<Rightarrow> memory \<Rightarrow>
    (nat option \<times> fbm_world \<times> memory) res" where
  "FbmCreate b1 b2 phys ci w m =
     (if bIs3DStream (info w) = 1 \<and> cGpuBufValid ci = 1 then
        let w0 = upd_info (\<lambda>f. f\<lparr>bTwoStreamShareOneFbm := 1\<rparr>) w
        in if pFbmFirst (info w0) = None then
             and_then (create_at b1 phys ci w0 m) (\<lambda>(r, w1, m1).
               if r = None then Inr (None, w1, m1)
               else
                 let w2 = upd_info (\<lambda>f. f\<lparr>pFbmFirst := Some b1\<rparr>) w1
                 in and_then (create_at b2 phys ci w2 m1) (\<lambda>(r', w3, m2).
                      Inr (Some b1, upd_info (\<lambda>f. set_minor_offsets
                        (f\<lparr>pFbmSecond := (if r' = None then None else Some b2)\<rparr>)) w3, m2)))
           else Inr (pFbmSecond (info w0), w0, m)
      else if pFbmFirst (info w) = None then
        and_then (create_at b1 phys ci w m) (\<lambda>(r, w1, m1).
          let q = (if r = None then None else Some b1)
          in Inr (q, upd_info (\<lambda>f. f\<lparr>pFbmFirst := q\<rparr>) w1, m1))
      else if pFbmSecond (info w) = None then
        and_then (create_at b2 phys ci w m) (\<lambda>(r, w1, m1).
          let q = (if r = None then None else Some b2)
          in Inr (q, upd_info (\<lambda>f. f\<lparr>pFbmSecond := q, nMinorYBufOffset := 0,
                                  nMinorCBufOffset := 0\<rparr>) w1, m1))
      else Inr (None, w, m))"

text \<open>Destruction; \<open>iommu\<close> tells whether the memory type is \<^verbatim>\<open>MEMORY_IOMMU\<close>.\<close>

definition FbmDestroy :: "bool \<Rightarrow> fbm_world \<Rightarrow> nat option \<Rightarrow> int \<Rightarrow> int \<Rightarrow> memory \<Rightarrow> memory" where
  "FbmDestroy iommu w pFbm pa fa m =
     (case pFbm of None \<Rightarrow> m
      | Some b \<Rightarrow>
          let x = fbms w b; n = nat (nMaxFrameNum x);
              m1 = (if bUseGpuBuf x = 0 then
                      (if bThumbnailMode x \<noteq> 0
                       then snd (FbmFreePictureBuffer (bUseGpuBuf x) (vpicture (pFrames x 0)) m)
                       else free_frames n 0 (bUseGpuBuf x) (pFrames x) m)
                    else if iommu \<and> bIsSoftDecoderFlag (info w) = 0
                    then m\<lparr>iommuFreed := rev (map (\<lambda>i. nBufFd (vpicture (pFrames x i))) [0..<n]) @
                             iommuFreed m\<rparr>
                    else m)
          in c_free pa (c_free fa m1))"

section \<open>A created manager is a full pool\<close>

definition fresh_pool :: "nat \<Rightarrow> bool \<Rightarrow> pool" where
  "fresh_pool n g = \<lparr>nframes = n, free = (if g then [] else [0..<n]), ready = [], freed = [],
     decoding = {}, rendering = {}, shown = {}, marked = {}, uncounted = 0,
     installed = (if g then 0 else n), away = {}, forbidden = {}\<rparr>"

text \<open>What the loop leaves behind: idle nodes with their index as id.\<close>

definition fresh_node :: "FbmCreateInfo \<Rightarrow> nat \<Rightarrow> FrameNode \<Rightarrow> bool" where
  "fresh_node ci i f \<longleftrightarrow> \<not> in_use f \<and> \<not> bNeedRelease f \<and> pNext f = None \<and>
     nID (vpicture f) = int i \<and> nBufId (vpicture f) = FBM_NEW_DISP_INVALID_TAG"

definition same_id :: "VideoPicture \<Rightarrow> VideoPicture \<Rightarrow> bool" where
  "same_id v v' \<longleftrightarrow> nID v' = nID v \<and> nBufId v' = nBufId v"

lemma same_id_cases:
  "alloc_p010 v a w h m = (r, v', a', m') \<Longrightarrow> same_id v v'"
  "alloc_planar v a w h m = (r, v', a', m') \<Longrightarrow> same_id v v'"
  "alloc_mb32 v w h m = (r, v', a', m') \<Longrightarrow> same_id v v'"
  "alloc_rgb v a h m = (r, v', a', m') \<Longrightarrow> same_id v v'"
  by (auto simp: alloc_p010_def alloc_planar_def alloc_mb32_def alloc_rgb_def same_id_def Let_def
      set_geometry_def planar_planes_def split: prod.splits if_splits)

lemma FbmAllocatePictureBuffer_id:
  assumes "FbmAllocatePictureBuffer phys v a w h m = (r, v', a', m')"
  shows "same_id v v'"
proof -
  let ?v = "v\<lparr>pData0 := 0, pData1 := 0, pData2 := 0, pData3 := 0\<rparr>"
  obtain u where "same_id ?v u" "nID v' = nID u" "nBufId v' = nBufId u"
    using assms same_id_cases [of ?v]
    by (auto simp: FbmAllocatePictureBuffer_def Let_def same_id_def split: prod.splits if_splits)
  then show ?thesis by (simp add: same_id_def)
qed

lemma make_picture_id:
  assumes "make_picture phys ci f first i a m = (0, v, a', m')"
  shows "nID v = int i \<and> nBufId v = FBM_NEW_DISP_INVALID_TAG"
proof -
  define v0 where "v0 = init_picture ci f a i"
  obtain u a1 m1 where u: "(if own_buffers ci then
       if cThumbnailMode ci = 0 \<or> i = 0
       then FbmAllocatePictureBuffer phys v0 a (cWidth ci) (cHeight ci) m
       else (0, share_planes first v0, a, m)
     else (0, v0, a, m)) = (0, u, a1, m1)" and v: "same_id u v"
    using assms unfolding make_picture_def v0_def [symmetric]
    by (auto simp: Let_def same_id_def gpu_layout_def split: prod.splits if_splits)
  have "same_id v0 u"
    using u FbmAllocatePictureBuffer_id by (auto simp: same_id_def share_planes_def split: if_splits)
  with v have "same_id (init_picture ci f a i) v" by (simp add: same_id_def v0_def)
  then show ?thesis by (simp add: same_id_def init_picture_def Let_def)
qed

lemma make_frames_fresh:
  "make_frames phys ci f n i fs a m = (k, fs', a', m') \<Longrightarrow> \<forall>j < i. fresh_node ci j (fs j) \<Longrightarrow>
     k \<le> i + n \<and> (\<forall>j < k. fresh_node ci j (fs' j))"
proof (induction n arbitrary: i fs a m)
  case 0
  then show ?case by simp
next
  case (Suc n)
  obtain r v a1 m1 where p: "make_picture phys ci f (vpicture (fs 0)) i a m = (r, v, a1, m1)"
    by (metis prod_cases4)
  let ?fs = "fs(i := blank_node\<lparr>vpicture := v\<rparr>)"
  show ?case
  proof (cases "r = 0")
    case False
    with Suc.prems p show ?thesis by auto
  next
    case True
    with p make_picture_id have "fresh_node ci i (blank_node\<lparr>vpicture := v\<rparr>)"
      by (auto simp: fresh_node_def in_use_def blank_node_def)
    with Suc.prems(2) have *: "\<forall>j < Suc i. fresh_node ci j (?fs j)" by (auto simp: less_Suc_eq)
    have "make_frames phys ci f n (Suc i) ?fs a1 m1 = (k, fs', a', m')"
      using Suc.prems(1) p True by (simp add: Let_def)
    from Suc.IH [OF this *] show ?thesis by simp
  qed
qed

lemma enqueue_all_chain:
  "chain (links fs) h [0..<i] \<Longrightarrow>
     \<exists>fs' h'. enqueue_all n i (fs, h) = Inr (fs', h') \<and> chain (links fs') h' [0..<i + n] \<and>
       same_but_links fs fs'"
proof (induction n arbitrary: i fs h)
  case 0
  then show ?case by (simp add: same_but_links_refl)
next
  case (Suc n)
  from FbmEnqueue_chain [OF Suc.prems, of i] obtain fs1 h1 where
      1: "FbmEnqueue fs h i = Inr (fs1, h1)" "chain (links fs1) h1 [0..<Suc i]"
      "same_but_links fs fs1"
    by auto
  from Suc.IH [OF 1(2)] obtain fs2 h2 where
      "enqueue_all n (Suc i) (fs1, h1) = Inr (fs2, h2)" "chain (links fs2) h2 [0..<Suc i + n]"
      "same_but_links fs1 fs2" by blast
  with 1 same_but_links_trans show ?case by fastforce
qed

end
