(* ===== verification/FbmTheorems.thy ===== *)
theory FbmTheorems
  imports FbmSystem FbmAlloc
begin

text \<open>
  What the frame buffer manager guarantees from its creation on: it follows the pool, no frame is
  lost, pictures are displayed in order; and the situations in which the code breaks its own rules.
\<close>

section \<open>From creation\<close>

lemma fresh_nodes_rep:
  assumes "\<forall>j < n. fresh_node ci j (fs j)" and "same_but_links fs (pFrames x)"
    and "nMaxFrameNum x = int n" "queues x (if g then [] else [0..<n]) [] []"
    and "nEmptyBufferNum x = (if g then 0 else int n)" "nValidPictureNum x = 0"
    "nReleaseBufferNum x = 0" "nDecoderHoldingNum x = 0" "nRenderHoldingNum x = 0"
  shows "fbm_rep x (fresh_pool n g) \<and> pool_full (fresh_pool n g) \<and> ids_ok g x (fresh_pool n g)"
proof -
  note sl = same_but_linksD [OF assms(2)]
  have fl: "flags_ok (pFrames x) (fresh_pool n g)"
    using assms(1) by (simp add: flags_ok_def flags_rep_def sl fresh_pool_def fresh_node_def in_use_def)
  have "pool_ok (fresh_pool n g)" "pool_full (fresh_pool n g)"
    by (auto simp: pool_ok_def fresh_pool_def pool_full_def held_def)
  moreover have "counters_ok x (fresh_pool n g)"
    using assms(3,5-9) by (simp add: counters_ok_def fresh_pool_def)
  ultimately show ?thesis
    using fl assms(1,4) by (auto simp: fbm_rep_def ids_ok_def pic_id_def fresh_pool_def sl fresh_node_def)
qed

definition display_buffers :: "FbmCreateInfo \<Rightarrow> bool" where
  "display_buffers ci \<longleftrightarrow> \<not> own_buffers ci \<and> cGpuBufValid ci = 1"

lemma FbmCreateBuffer_fresh:
  assumes "FbmCreateBuffer phys ci f m = Inr (Some (pa, fa, x), f', m')"
    and "0 \<le> cFrameNum ci"
  shows "fbm_rep x (fresh_pool (nat (cFrameNum ci)) (display_buffers ci)) \<and>
    pool_full (fresh_pool (nat (cFrameNum ci)) (display_buffers ci)) \<and>
    ids_ok (display_buffers ci) x (fresh_pool (nat (cFrameNum ci)) (display_buffers ci)) \<and>
    pFbmInfo x \<and> bIs3DStream f' = bIs3DStream f \<and> pFbmFirst f' = pFbmFirst f \<and>
    pFbmSecond f' = pFbmSecond f \<and> nValidBufNum f' = nValidBufNum f \<and>
    bTwoStreamShareOneFbm f' = bTwoStreamShareOneFbm f"
proof -
  let ?n = "nat (cFrameNum ci)"
  obtain pa1 m1 where m1: "c_malloc m = (pa1, m1)" by fastforce
  obtain fa1 m2 where m2: "c_malloc m1 = (fa1, m2)" by fastforce
  let ?f2 = "f\<lparr>bIsSoftDecoderFlag := cIsSoftDecoderFlag ci,
    pFbmBufInfo := default_offsets ci (pFbmBufInfo f)\<rparr>"
  obtain k fs a m3 where mk: "make_frames phys ci ?f2 ?n 0 (\<lambda>_. blank_node) (cAlignStride ci) m2 =
      (k, fs, a, m3)" by (metis prod_cases4)
  have fresh: "k \<le> ?n" "\<forall>j < k. fresh_node ci j (fs j)"
    using make_frames_fresh [OF mk] by auto
  obtain fs1 h where q: "enqueue_all ?n 0 (fs, None) = Inr (fs1, h)"
      "chain (links fs1) h [0..<?n]" "same_but_links fs fs1"
    using enqueue_all_chain [of fs None 0 ?n] by auto
  have k: "k = ?n"
    using assms(1) fresh(1) m1 m2 mk
    by (auto simp: FbmCreateBuffer_def Let_def split: if_splits)
  let ?x = "\<lparr>nMaxFrameNum = cFrameNum ci, nEmptyBufferNum = 0, nValidPictureNum = 0,
       nReleaseBufferNum = 0, pEmptyBufferQueue = None, pValidPictureQueue = None,
       pReleaseBufferQueue = None, bThumbnailMode = cThumbnailMode ci, pFrames = fs,
       bUseGpuBuf = 0, nAlignValue = a, pFbmInfo = True, nDecoderHoldingNum = 0,
       nRenderHoldingNum = 0, nWaitForDispNum = 0\<rparr>"
  have x: "x = (if display_buffers ci then ?x\<lparr>bUseGpuBuf := 1\<rparr>
      else ?x\<lparr>pFrames := fs1, pEmptyBufferQueue := h, nEmptyBufferNum := cFrameNum ci\<rparr>) \<and>
      (f' = ?f2 \<or> f' = ?f2\<lparr>pFbmBufInfo := fill_buf_info ci a (pFbmBufInfo ?f2)\<rparr>)"
    using assms(1) k m1 m2 mk q(1)
    by (auto simp: FbmCreateBuffer_def Let_def display_buffers_def new_fbm_def split: if_splits)
  have "same_but_links fs (pFrames x)"
    using x q(3) by (simp add: same_but_links_refl)
  moreover have "queues x (if display_buffers ci then [] else [0..<?n]) [] []"
    using x q(2) by (simp add: queues_def)
  moreover have "pFbmInfo x" using x by simp
  ultimately show ?thesis
    using fresh_nodes_rep [of ?n ci fs x "display_buffers ci"] fresh(2) k x assms(2) by auto
qed

lemma created_inv:
  assumes "FbmCreate b1 b2 phys ci w m = Inr (Some b, w', m')"
    and "pFbmFirst (info w) = None" "pFbmSecond (info w) = None" "bIs3DStream (info w) \<noteq> 1"
    "bTwoStreamShareOneFbm (info w) \<noteq> 1" "nValidBufNum (info w) = 0"
    and "0 \<le> cFrameNum ci" "cFrameNum ci \<le> FRM_RELEASE_TAG"
    and "\<forall>k. nBufId (extPics w k) \<noteq> FBM_NEW_DISP_INVALID_TAG"
  shows "b = b1 \<and> pFbmFirst (info w') = Some b1 \<and>
    fbm_inv (display_buffers ci) b1 w' (fresh_pool (nat (cFrameNum ci)) (display_buffers ci))"
proof -
  obtain r f' m1 where c: "FbmCreateBuffer phys ci (info w) m = Inr (r, f', m1)"
    using assms(1-4) by (cases "FbmCreateBuffer phys ci (info w) m")
      (auto simp: FbmCreate_def create_at_def)
  obtain pa fa x where r: "r = Some (pa, fa, x)" and b: "b = b1"
      and w': "w' = upd_info (\<lambda>f. f\<lparr>pFbmFirst := Some b1\<rparr>) (set_fbm b1 x (w\<lparr>info := f'\<rparr>))"
    using assms(1-4) c
    by (auto simp: FbmCreate_def create_at_def Let_def split: option.splits if_splits)
  note F = FbmCreateBuffer_fresh [OF c [unfolded r] assms(7)]
  show ?thesis
    using F assms by (auto simp: b w' fbm_inv_def display_ok_def display_fbm_def fresh_pool_def)
qed

text \<open>A small manager to try things on: three 16 x 16 frames with buffers of its own.\<close>

definition sample_info :: VideoFbmInfo where
  "sample_info = \<lparr>nValidBufNum = 0, pFbmFirst = None, pFbmSecond = None,
     pFbmBufInfo = \<lparr>nBufNum = 0, nBufWidth = 0, nBufHeight = 0, eBufPixelFormat = 0,
       nBufAlignValue = 0, bProgressiveFlag = 0, bBufSoftDecoderFlag = 0, bHdrVideoFlag = 0,
       b10bitVideoFlag = 0, bAfbcModeFlag = 0, nBufTopOffset = 0, nBufBottomOffset = 0,
       nBufLeftOffset = 0, nBufRightOffset = 0\<rparr>,
     bIs3DStream = 0, bTwoStreamShareOneFbm = 0, pMajorDispFrame = None, pMajorDecoderFrame = None,
     nMinorYBufOffset = 0, nMinorCBufOffset = 0, bIsFrameCtsTestFlag = 0, bIsSoftDecoderFlag = 0\<rparr>"

definition sample_world :: fbm_world where
  "sample_world = \<lparr>fbms = (\<lambda>_. \<lparr>nMaxFrameNum = 0, nEmptyBufferNum = 0, nValidPictureNum = 0,
       nReleaseBufferNum = 0, pEmptyBufferQueue = None, pValidPictureQueue = None,
       pReleaseBufferQueue = None, bThumbnailMode = 0, pFrames = (\<lambda>_. blank_node), bUseGpuBuf = 0,
       nAlignValue = 0, pFbmInfo = False, nDecoderHoldingNum = 0, nRenderHoldingNum = 0,
       nWaitForDispNum = 0\<rparr>), info = sample_info, extPics = (\<lambda>_. blank_picture), flushed = []\<rparr>"

definition sample_ci :: "int \<Rightarrow> FbmCreateInfo" where
  "sample_ci gpu = \<lparr>cFrameNum = 3, cWidth = 16, cHeight = 16,
     cPixelFormat = PIXEL_FORMAT_NV21, cThumbnailMode = 0, cGpuBufValid = gpu, cAlignStride = 16,
     cBufferType = 0, cProgressiveFlag = 1, cIsSoftDecoderFlag = 0, c10BitStreamFlag = 0\<rparr>"

definition sample_memory :: memory where
  "sample_memory = \<lparr>addresses = [1000, 2000, 3000, 3500, 4000, 4500, 5000, 5500, 6000], blocks = [],
     mallocs = [], badFrees = [], iommuFreed = []\<rparr>"

definition created :: "int \<Rightarrow> fbm_world" where
  "created gpu = (case FbmCreate 0 1 id (sample_ci gpu) sample_world sample_memory of
     Inl e \<Rightarrow> sample_world | Inr (r, w, m) \<Rightarrow> w)"

definition creation_ok :: "int \<Rightarrow> bool" where
  "creation_ok gpu = (case FbmCreate 0 1 id (sample_ci gpu) sample_world sample_memory of
     Inl e \<Rightarrow> False | Inr (r, w, m) \<Rightarrow> r = Some 0)"

lemma creation_ok_samples: "creation_ok 0" "creation_ok 1"
  by code_simp+

lemma created_eq:
  assumes "creation_ok gpu"
  shows "\<exists>m. FbmCreate 0 1 id (sample_ci gpu) sample_world sample_memory = Inr (Some 0, created gpu, m)"
  using assms by (auto simp: creation_ok_def created_def split: sum.splits prod.splits)

lemma sample_hyps:
  "pFbmFirst (info sample_world) = None" "pFbmSecond (info sample_world) = None"
  "bIs3DStream (info sample_world) \<noteq> 1" "bTwoStreamShareOneFbm (info sample_world) \<noteq> 1"
  "nValidBufNum (info sample_world) = 0" "0 \<le> cFrameNum (sample_ci g)"
  "cFrameNum (sample_ci g) \<le> FRM_RELEASE_TAG" "cFrameNum (sample_ci g) = 3"
  "\<forall>k. nBufId (extPics sample_world k) \<noteq> FBM_NEW_DISP_INVALID_TAG"
  "display_buffers (sample_ci 0) = False" "display_buffers (sample_ci 1) = True"
  by (simp_all add: sample_world_def sample_info_def sample_ci_def fbm_consts blank_picture_def
      display_buffers_def own_buffers_def BUF_TYPE_ONLY_REFERENCE_def)

text \<open>A manager that was created for a video with one stream satisfies the invariant: with
  buffers of its own all frames are free, with display buffers none is installed yet.\<close>

theorem created_manager_is_ready:
  assumes "FbmCreate b1 b2 phys ci w m = Inr (Some b, w', m')"
    and "pFbmFirst (info w) = None" "pFbmSecond (info w) = None" "bIs3DStream (info w) \<noteq> 1"
    "bTwoStreamShareOneFbm (info w) \<noteq> 1" "nValidBufNum (info w) = 0"
    and "0 \<le> cFrameNum ci" "cFrameNum ci \<le> FRM_RELEASE_TAG"
    and "\<forall>k. nBufId (extPics w k) \<noteq> FBM_NEW_DISP_INVALID_TAG"
  shows "b = b1 \<and> pFbmFirst (info w') = Some b1 \<and>
    fbm_inv (display_buffers ci) b1 w' (fresh_pool (nat (cFrameNum ci)) (display_buffers ci))"
  using assms by (rule created_inv)

theorem created_manager_is_ready_witness:
  "fbm_inv False 0 (created 0) (fresh_pool 3 False) \<and> fbm_inv True 0 (created 1) (fresh_pool 3 True)"
proof -
  obtain m m' where "FbmCreate 0 1 id (sample_ci 0) sample_world sample_memory = Inr (Some 0, created 0, m)"
      "FbmCreate 0 1 id (sample_ci 1) sample_world sample_memory = Inr (Some 0, created 1, m')"
    using created_eq creation_ok_samples by blast
  from this [THEN created_manager_is_ready, OF sample_hyps(1-7,9)]
  show ?thesis by (simp add: sample_hyps)
qed

lemma sample_inv:
  "fbm_inv False 0 (created 0) (fresh_pool 3 False)" "fbm_inv True 0 (created 1) (fresh_pool 3 True)"
proof -
  obtain m m' where "FbmCreate 0 1 id (sample_ci 0) sample_world sample_memory = Inr (Some 0, created 0, m)"
      "FbmCreate 0 1 id (sample_ci 1) sample_world sample_memory = Inr (Some 0, created 1, m')"
    using created_eq creation_ok_samples by blast
  from this [THEN created_inv, OF sample_hyps(1-7,9)]
  show "fbm_inv False 0 (created 0) (fresh_pool 3 False)"
    "fbm_inv True 0 (created 1) (fresh_pool 3 True)" by (simp_all add: sample_hyps)
qed

section \<open>The manager follows the pool\<close>

text \<open>C17 From its creation on, whatever sequence of calls decoder, renderer and display make
  within their contract, the manager answers every call as the abstract pool does, runs into no
  fault and no endless list walk, and represents the pool again afterwards.\<close>

theorem manager_follows_pool:
  assumes "FbmCreate b1 b2 phys ci w m = Inr (Some b, w0, m')"
    and "pFbmFirst (info w) = None" "pFbmSecond (info w) = None" "bIs3DStream (info w) \<noteq> 1"
    "bTwoStreamShareOneFbm (info w) \<noteq> 1" "nValidBufNum (info w) = 0"
    and "0 \<le> cFrameNum ci" "cFrameNum ci \<le> FRM_RELEASE_TAG"
    and "\<forall>k. nBufId (extPics w k) \<noteq> FBM_NEW_DISP_INVALID_TAG"
    and "P = fresh_pool (nat (cFrameNum ci)) (display_buffers ci)"
    and "allowed_calls (allowed_fbm (display_buffers ci)) (spec_fbm b) cs P"
  shows "\<exists>w'. run_calls (exec_fbm b) cs w0 = Inr (fst (spec_calls (spec_fbm b) cs P), w') \<and>
    fbm_inv (display_buffers ci) b w' (snd (spec_calls (spec_fbm b) cs P))"
proof -
  have "fbm_inv (display_buffers ci) b w0 P"
    using created_inv [OF assms(1-9)] assms(10) by simp
  from fbm.run_calls_spec [OF this assms(11)] show ?thesis .
qed

definition sample_calls :: "fbm_call list" where
  "sample_calls = [RequestBuffer, ReturnBuffer 0 1, RequestBuffer, ShareBuffer 1, RequestPicture,
     RequestPicture, ReturnPicture 1, ReturnBuffer 1 1, RequestBuffer, ReturnBuffer 2 1]"

theorem manager_follows_pool_witness:
  "\<exists>w'. run_calls (exec_fbm 0) sample_calls (created 0) =
     Inr ([Picture (Some (Pic 0 0)), Done, Picture (Some (Pic 0 1)), Done, Picture (Some (Pic 0 0)),
       Picture (Some (Pic 0 1)), Status 0, Done, Picture (Some (Pic 0 2)), Done], w')"
proof -
  obtain m where m:
      "FbmCreate 0 1 id (sample_ci 0) sample_world sample_memory = Inr (Some 0, created 0, m)"
    using created_eq creation_ok_samples by blast
  have a: "allowed_calls (allowed_fbm False) (spec_fbm 0) sample_calls (fresh_pool 3 False)"
    by code_simp
  have r: "fst (spec_calls (spec_fbm 0) sample_calls (fresh_pool 3 False)) =
     [Picture (Some (Pic 0 0)), Done, Picture (Some (Pic 0 1)), Done, Picture (Some (Pic 0 0)),
      Picture (Some (Pic 0 1)), Status 0, Done, Picture (Some (Pic 0 2)), Done]"
    by code_simp
  from manager_follows_pool [OF m sample_hyps(1-7,9) refl, of sample_calls] a r
  show ?thesis by (auto simp: sample_hyps)
qed

text \<open>The queues of a manager, as the code would walk them.\<close>

definition queue_list :: "Fbm \<Rightarrow> nat option \<Rightarrow> nat list" where
  "queue_list x h = chain_take (nat (nMaxFrameNum x)) (links (pFrames x)) h"

lemma queue_lists:
  assumes "fbm_rep x P"
  shows "queue_list x (pEmptyBufferQueue x) = free P" "queue_list x (pValidPictureQueue x) = ready P"
    "queue_list x (pReleaseBufferQueue x) = freed P"
proof -
  note rep = fbm_repD [OF assms]
  have le: "length xs \<le> nframes P" if "distinct xs" "set xs \<subseteq> {..<nframes P}" for xs
    using that card_mono [of "{..<nframes P}" "set xs"] by (simp add: distinct_card)
  have "length (free P) \<le> nframes P" "length (ready P) \<le> nframes P" "length (freed P) \<le> nframes P"
    using rep(1) by (auto simp: pool_ok_def intro!: le)
  with rep(2,4) show "queue_list x (pEmptyBufferQueue x) = free P"
      "queue_list x (pValidPictureQueue x) = ready P" "queue_list x (pReleaseBufferQueue x) = freed P"
    by (auto simp: queue_list_def queues_def counters_ok_def intro!: chain_take_chain)
qed




lemma sample_run:
  "\<exists>rs w'. run_calls (exec_fbm 0) sample_calls (created 0) = Inr (rs, w')"
proof -
  have "allowed_calls (allowed_fbm False) (spec_fbm 0) sample_calls (fresh_pool 3 False)"
    by code_simp
  from fbm.run_calls_spec [OF sample_inv(1) this] show ?thesis by blast
qed


section \<open>Display order\<close>

text \<open>The frame a call is about, if it can deliver one to the display; and the deliveries of a
  run: the calls after which the manager holds one more picture for the display.\<close>

fun frame_of_call :: "fbm_call \<Rightarrow> nat list" where
  "frame_of_call (ReturnBuffer i v) = [i]"
| "frame_of_call (ShareBuffer i) = [i]"
| "frame_of_call c = []"

fun delivered :: "nat \<Rightarrow> fbm_call list \<Rightarrow> fbm_world \<Rightarrow> nat list" where
  "delivered b [] w = []"
| "delivered b (c # cs) w =
     (case exec_fbm b c w of
        Inl e \<Rightarrow> []
      | Inr (r, w1) \<Rightarrow>
          (if nValidPictureNum (fbms w1 b) > nValidPictureNum (fbms w b) then frame_of_call c else []) @
          delivered b cs w1)"

text \<open>The frames the renderer was given.\<close>

fun handed :: "fbm_call list \<Rightarrow> fbm_result list \<Rightarrow> nat list" where
  "handed (RequestPicture # cs) (Picture (Some (Pic b i)) # rs) = i # handed cs rs"
| "handed (c # cs) (r # rs) = handed cs rs"
| "handed cs rs = []"

lemma handed_other [simp]: "c \<noteq> RequestPicture \<Longrightarrow> handed (c # cs) (r # rs) = handed cs rs"
  by (cases c) simp_all

lemma order_step:
  assumes "c \<noteq> Flush" "c \<noteq> SetRelease"
  shows "ready P @ (if length (ready (snd (spec_fbm b c P))) > length (ready P)
      then frame_of_call c else []) =
    handed [c] [fst (spec_fbm b c P)] @ ready (snd (spec_fbm b c P))"
proof (cases c)
  case RequestBuffer
  then show ?thesis by (simp split: list.splits)
next
  case RequestPicture
  then show ?thesis by (simp split: list.splits)
next
  case RequestRelease
  then show ?thesis by (simp split: list.splits)
next
  case (ReturnRelease k f)
  then show ?thesis by (simp add: Let_def split: option.splits)
qed (use assms in \<open>simp_all add: Let_def\<close>)

lemma handed_Cons: "handed (c # cs) (r # rs) = handed [c] [r] @ handed cs rs"
proof (cases "c = RequestPicture")
  case True
  consider "\<exists>b i. r = Picture (Some (Pic b i))" | "\<exists>k. r = Picture (Some (Ext k))"
    | "r = Picture None" | "\<exists>k. r = Status k" | "r = Done"
    by (metis fbm_result.exhaust pic_ptr.exhaust option.exhaust)
  then show ?thesis using True by cases auto
qed simp

lemma order_calls:
  "fbm_inv g b w P \<Longrightarrow> allowed_calls (allowed_fbm g) (spec_fbm b) cs P \<Longrightarrow>
     Flush \<notin> set cs \<Longrightarrow> SetRelease \<notin> set cs \<Longrightarrow>
     run_calls (exec_fbm b) cs w = Inr (rs, w') \<Longrightarrow>
     \<exists>P'. fbm_inv g b w' P' \<and> ready P @ delivered b cs w = handed cs rs @ ready P'"
proof (induction cs arbitrary: w P rs)
  case Nil
  then show ?case by auto
next
  case (Cons c cs)
  let ?P1 = "snd (spec_fbm b c P)"
  obtain w1 where w1: "exec_fbm b c w = Inr (fst (spec_fbm b c P), w1)" "fbm_inv g b w1 ?P1"
    using fbm.exec_spec [OF Cons.prems(1), of c] Cons.prems(2) by auto
  obtain rs1 where rs1: "run_calls (exec_fbm b) cs w1 = Inr (rs1, w')"
      "rs = fst (spec_fbm b c P) # rs1"
    using Cons.prems(5) w1(1) by (auto simp: and_then_Inr_iff)
  obtain P' where P': "fbm_inv g b w' P'" "ready ?P1 @ delivered b cs w1 = handed cs rs1 @ ready P'"
    using Cons.IH [OF w1(2) _ _ _ rs1(1)] Cons.prems by auto
  have n: "nValidPictureNum (fbms w b) = int (length (ready P))"
      "nValidPictureNum (fbms w1 b) = int (length (ready ?P1))"
    using fbm_repD(4) [OF fbm_invD(1) [OF Cons.prems(1)]] fbm_repD(4) [OF fbm_invD(1) [OF w1(2)]]
    by (simp_all add: counters_ok_def)
  let ?d = "if length (ready ?P1) > length (ready P) then frame_of_call c else []"
  have "ready P @ delivered b (c # cs) w = (ready P @ ?d) @ delivered b cs w1"
    using w1(1) n by simp
  also have "\<dots> = handed [c] [fst (spec_fbm b c P)] @ ready ?P1 @ delivered b cs w1"
    using order_step [of c P b] Cons.prems(3,4) by auto
  also have "\<dots> = handed (c # cs) rs @ ready P'"
    using P'(2) rs1(2) handed_Cons [of c cs] by simp
  finally show ?case using P'(1) by blast
qed

text \<open>C12 Pictures are displayed in the order in which they were delivered: in a run without flush,
  the frames the renderer was given, followed by the frames that still wait in the valid queue,
  are exactly the frames decoder calls delivered, in the order of these calls.\<close>

theorem pictures_displayed_in_order:
  assumes "FbmCreate b1 b2 phys ci w m = Inr (Some b, w0, m')"
    and "pFbmFirst (info w) = None" "pFbmSecond (info w) = None" "bIs3DStream (info w) \<noteq> 1"
    "bTwoStreamShareOneFbm (info w) \<noteq> 1" "nValidBufNum (info w) = 0"
    and "0 \<le> cFrameNum ci" "cFrameNum ci \<le> FRM_RELEASE_TAG"
    and "\<forall>k. nBufId (extPics w k) \<noteq> FBM_NEW_DISP_INVALID_TAG"
    and "P = fresh_pool (nat (cFrameNum ci)) (display_buffers ci)"
    and "allowed_calls (allowed_fbm (display_buffers ci)) (spec_fbm b) cs P"
    and "Flush \<notin> set cs" "SetRelease \<notin> set cs"
    and "run_calls (exec_fbm b) cs w0 = Inr (rs, w')"
  shows "delivered b cs w0 =
    handed cs rs @ queue_list (fbms w' b) (pValidPictureQueue (fbms w' b))"
proof -
  have "fbm_inv (display_buffers ci) b w0 P"
    using created_inv [OF assms(1-9)] assms(10) by simp
  from order_calls [OF this assms(11-14)] obtain P' where
      "fbm_inv (display_buffers ci) b w' P'" "ready P @ delivered b cs w0 = handed cs rs @ ready P'"
    by blast
  moreover have "ready P = []" using assms(10) by (simp add: fresh_pool_def)
  ultimately show ?thesis using queue_lists(2) [OF fbm_invD(1)] by simp
qed

theorem pictures_displayed_in_order_witness:
  "\<exists>rs w'. run_calls (exec_fbm 0) sample_calls (created 0) = Inr (rs, w') \<and>
     delivered 0 sample_calls (created 0) =
       handed sample_calls rs @ queue_list (fbms w' 0) (pValidPictureQueue (fbms w' 0))"
proof -
  obtain m where m:
      "FbmCreate 0 1 id (sample_ci 0) sample_world sample_memory = Inr (Some 0, created 0, m)"
    using created_eq creation_ok_samples by blast
  have a: "allowed_calls (allowed_fbm False) (spec_fbm 0) sample_calls (fresh_pool 3 False)"
    by code_simp
  obtain rs w' where r: "run_calls (exec_fbm 0) sample_calls (created 0) = Inr (rs, w')"
    using sample_run by blast
  have n: "Flush \<notin> set sample_calls" "SetRelease \<notin> set sample_calls"
    by (simp_all add: sample_calls_def)
  have "delivered 0 sample_calls (created 0) =
       handed sample_calls rs @ queue_list (fbms w' 0) (pValidPictureQueue (fbms w' 0))"
    using pictures_displayed_in_order [OF m sample_hyps(1-7,9) refl _ n r] a
    by (simp only: sample_hyps) simp
  with r show ?thesis by blast
qed

section \<open>Pictures of others\<close>

text \<open>A pointer that is not the picture of one of the manager's frames changes nothing: outside
  3D mode, returning or sharing it leaves the memory as it is, and returning it as a displayed
  picture answers -1 unless its id carries the forbid tag.\<close>

theorem foreign_pictures_are_refused:
  assumes "bTwoStreamShareOneFbm (info w) \<noteq> 1" "pFbmInfo (fbms w b)"
    and "\<And>i. p = Pic b i \<Longrightarrow> nID (get_pic w p) \<noteq> int i"
  shows "FbmReturnBuffer w (Some b) (Some p) v = Inr w \<and>
    FbmShareBuffer w (Some b) (Some p) = Inr w \<and>
    (nID (get_pic w p) < FRM_FORBID_USE_TAG \<longrightarrow>
       FbmReturnPicture w (Some b) (Some p) = Inr (-1, w))"
proof -
  have "node_of w (Some b) p = Inr None"
    using assms(3) [of "nat (nID (get_pic w p))"]
    by (cases "nID (get_pic w p) < 0") (auto simp: node_of_def Let_def)
  with assms(1,2) show ?thesis
    by (simp add: FbmReturnBuffer_def FbmShareBuffer_def FbmReturnPicture_def minor_stream_def)
qed

theorem foreign_pictures_are_refused_witness:
  "FbmReturnPicture (created 0) (Some 0) (Some (Ext 7)) = Inr (-1, created 0)"
proof -
  note I = fbm_invD [OF sample_inv(1)]
  have "bTwoStreamShareOneFbm (info (created 0)) \<noteq> 1" "pFbmInfo (fbms (created 0) 0)"
    using I(6,8) by simp_all
  moreover have "nID (get_pic (created 0) (Ext 7)) < FRM_FORBID_USE_TAG"
    by code_simp
  ultimately show ?thesis
    using foreign_pictures_are_refused [of "created 0" 0 "Ext 7" 0] by simp
qed

section \<open>Where the code breaks its rules\<close>

text \<open>
  In a 3D video the minor stream works on the frames of the major one. When the major stream has
  already given a displayed picture back, the minor stream is the one that must free it; but
  \<^verbatim>\<open>FbmReturnPicture\<close>, unlike \<^verbatim>\<open>FbmReturnBuffer\<close>, does not switch to the major stream's manager.
\<close>

text \<open>C13 In 3D mode a picture that the major stream gave back first is never freed: the minor
  stream's return is refused with -1 and the flags of all frames, among them the renderer's hold
  on this one, stay as they are.\<close>

theorem minor_stream_return_is_refused:
  assumes "bTwoStreamShareOneFbm (info w) = 1" "pFbmFirst (info w) = Some b1"
    "pFbmSecond (info w) = Some b2" "b1 \<noteq> b2" "pFbmInfo (fbms w b2)"
    and "\<not> status_has MAJOR_DISP_USE_FLAG (get_pic w (Pic b1 i))"
    "nID (get_pic w (Pic b1 i)) = int i" "int i < FRM_FORBID_USE_TAG"
  shows "\<exists>w'. FbmReturnPicture w (Some b2) (Some (Pic b1 i)) = Inr (-1, w') \<and>
    (\<forall>c j. bUsedByRender (pFrames (fbms w' c) j) = bUsedByRender (pFrames (fbms w c) j)) \<and>
    (\<forall>c. pEmptyBufferQueue (fbms w' c) = pEmptyBufferQueue (fbms w c))"
proof -
  let ?w = "upd_pic (clear_status MINOR_DISP_USE_FLAG) (Pic b1 i) w"
  have "\<not> status_has MAJOR_DISP_USE_FLAG (get_pic ?w (Pic b1 i))"
  proof -
    have "(s AND NOT MINOR_DISP_USE_FLAG) AND MAJOR_DISP_USE_FLAG = s AND MAJOR_DISP_USE_FLAG" for s
      unfolding fbm_consts by (subst and.assoc) simp
    with assms(6) show ?thesis by (simp add: status_has_def clear_status_def)
  qed
  then have r: "return_picture_route w b2 (Pic b1 i) = (True, ?w)"
    using assms(1-4) by (auto simp: return_picture_route_def Let_def)
  have "nID (get_pic ?w (Pic b1 i)) = int i" using assms(7) by (simp add: clear_status_def)
  then have "FbmReturnPicture w (Some b2) (Some (Pic b1 i)) = Inr (-1, ?w)"
    using assms(4,5,8) r by (simp add: FbmReturnPicture_def node_of_def Let_def)
  moreover have "bUsedByRender (pFrames (fbms ?w c) j) = bUsedByRender (pFrames (fbms w c) j) \<and>
      pEmptyBufferQueue (fbms ?w c) = pEmptyBufferQueue (fbms w c)" for c j
    by simp
  ultimately show ?thesis by blast
qed

text \<open>A 3D video whose two streams show the picture of one frame; the major stream has given it
  back, the minor stream still has it.\<close>

definition stereo_world :: fbm_world where
  "stereo_world = sample_world\<lparr>
     info := sample_info\<lparr>bIs3DStream := 1, bTwoStreamShareOneFbm := 1, pFbmFirst := Some 0,
       pFbmSecond := Some 1\<rparr>,
     fbms := (\<lambda>b. (fbms sample_world b)\<lparr>nMaxFrameNum := 1, pFbmInfo := True, nRenderHoldingNum := 1,
       pFrames := (\<lambda>_. blank_node\<lparr>bUsedByRender := True,
         vpicture := blank_picture\<lparr>nBufStatus := 8\<rparr>\<rparr>)\<rparr>)\<rparr>"

theorem minor_stream_return_is_refused_witness:
  "\<exists>w'. FbmReturnPicture stereo_world (Some 1) (Some (Pic 0 0)) = Inr (-1, w') \<and>
     bUsedByRender (pFrames (fbms w' 0) 0)"
proof -
  have "\<exists>w'. FbmReturnPicture stereo_world (Some 1) (Some (Pic 0 0)) = Inr (-1, w') \<and>
    (\<forall>c j. bUsedByRender (pFrames (fbms w' c) j) = bUsedByRender (pFrames (fbms stereo_world c) j)) \<and>
    (\<forall>c. pEmptyBufferQueue (fbms w' c) = pEmptyBufferQueue (fbms stereo_world c))"
    by (rule minor_stream_return_is_refused)
      (simp_all add: stereo_world_def status_has_def fbm_consts blank_node_def blank_picture_def)
  then show ?thesis by (auto simp: stereo_world_def)
qed

text \<open>
  A frame that decoder and renderer both have when the display takes its buffers back: the
  decoder's return puts it into the release queue although the renderer still shows it, and the
  renderer's return puts it there once more.
\<close>

definition released_twice :: "fbm_world res" where
  "released_twice = and_then (run_calls (exec_fbm 0)
     [InstallBuffer 0 False, RequestBuffer, ShareBuffer 0, RequestPicture, SetRelease,
      ReturnBuffer 0 1, ReturnPicture 0] (created 1)) (\<lambda>(rs, w). Inr w)"

text \<open>C14 The condition on a returned buffer is needed: when the display takes back its buffers
  while decoder and renderer both have a frame, the frame enters the release queue twice; the
  counter says two, the queue holds one frame, and the decoder still counts as holding it.\<close>

theorem frame_released_twice:
  "case released_twice of Inl e \<Rightarrow> False
   | Inr w \<Rightarrow> nReleaseBufferNum (fbms w 0) = 2 \<and>
       queue_list (fbms w 0) (pReleaseBufferQueue (fbms w 0)) = [0] \<and>
       nDecoderHoldingNum (fbms w 0) = 1 \<and> \<not> bUsedByDecoder (pFrames (fbms w 0) 0)"
  by code_simp

end
