(* ===== verification/FbmMemory.thy ===== *)
theory FbmMemory
  imports FbmAlloc
begin

text \<open>
  The picture buffers of \<^verbatim>\<open>fbm.c\<close>: where the planes of an allocated picture lie, the agreement with
  \<^verbatim>\<open>GetBufferSize\<close>, and that allocation and freeing match.
\<close>

section \<open>Layout and life time of a picture buffer\<close>

definition fresh_addresses :: "memory \<Rightarrow> bool" where
  "fresh_addresses m \<longleftrightarrow> distinct (filter (\<lambda>a. a \<noteq> 0) (addresses m)) \<and>
     (\<forall>a \<in> set (addresses m). a \<notin> fst ` set (blocks m) \<union> set (mallocs m))"

lemma CdcMemPfree_new:
  "p \<notin> fst ` set bs \<Longrightarrow> CdcMemPfree p (m\<lparr>blocks := (p, s) # bs\<rparr>) = m\<lparr>blocks := bs\<rparr>"
  by (auto simp: CdcMemPfree_def image_iff intro!: arg_cong [where f = "\<lambda>x. m\<lparr>blocks := x\<rparr>"]
      filter_True)

lemma alloc_rgb_ok:
  assumes "alloc_rgb v a h m = (0, v', a', m')"
  shows "\<exists>p s. p \<noteq> 0 \<and> pData0 v' = p \<and> pData1 v' = 0 \<and> pData2 v' = 0 \<and> pData3 v' = 0 \<and>
    pMetaData v' = pMetaData v \<and> ePixelFormat v' = ePixelFormat v \<and> p \<in> set (addresses m) \<and>
    m' = m\<lparr>addresses := tl (addresses m), blocks := (p, s) # blocks m\<rparr>"
proof -
  obtain p m1 where p: "CdcMemPalloc (nWidth v * 4 * h) m = (p, m1)" by fastforce
  then have "p \<noteq> 0" using assms by (auto simp: alloc_rgb_def Let_def split: if_splits)
  note P = CdcMemPalloc_cases [OF p this]
  then have "p \<in> set (addresses m)" by (metis list.set_intros(1))
  with assms p P \<open>p \<noteq> 0\<close> show ?thesis by (auto simp: alloc_rgb_def Let_def)
qed

lemma alloc_mb32_ok:
  assumes "alloc_mb32 v w h m = (0, v', a', m')"
  shows "\<exists>p q s t. p \<noteq> 0 \<and> q \<noteq> 0 \<and> pData0 v' = p \<and> pData1 v' = q \<and> pData2 v' = 0 \<and>
    pData3 v' = 0 \<and> pMetaData v' = pMetaData v \<and> ePixelFormat v' = ePixelFormat v \<and>
    addresses m = p # q # tl (tl (addresses m)) \<and>
    m' = m\<lparr>addresses := tl (tl (addresses m)), blocks := (q, t) # (p, s) # blocks m\<rparr>"
proof -
  let ?y = "align_up (align_up w 32) 64 * align_up h 64"
  obtain p m1 where p: "CdcMemPalloc ?y m = (p, m1)" by fastforce
  obtain q m2 where q: "CdcMemPalloc (mb32_chroma (ePixelFormat v) ?y * 2) m1 = (q, m2)" by fastforce
  have nz: "p \<noteq> 0" "q \<noteq> 0" using assms p q by (auto simp: alloc_mb32_def Let_def split: if_splits)
  note P = CdcMemPalloc_cases [OF p nz(1)] and Q = CdcMemPalloc_cases [OF q nz(2)]
  have adr: "addresses m = p # q # tl (tl (addresses m))" using P Q by simp
  have m2: "m2 = m\<lparr>addresses := tl (tl (addresses m)),
      blocks := (q, mb32_chroma (ePixelFormat v) ?y * 2) # (p, ?y) # blocks m\<rparr>" using P Q by simp
  have r: "v' = (set_geometry (align_up w 32) (align_up h 32) v)
      \<lparr>pData0 := p, pData1 := q, pData2 := 0, pData3 := 0\<rparr> \<and> m' = m2"
    using assms p q nz by (simp add: alloc_mb32_def Let_def)
  show ?thesis
    by (rule exI [of _ p], rule exI [of _ q], rule exI [of _ ?y],
        rule exI [of _ "mb32_chroma (ePixelFormat v) ?y * 2"])
      (use r adr m2 nz in \<open>simp add: set_geometry_def\<close>)
qed


section \<open>Sample pictures\<close>

text \<open>Pictures of 20 x 10 pixels in three formats, placed in a small memory.\<close>

definition sample_picture :: "int \<Rightarrow> VideoPicture" where
  "sample_picture e = blank_picture\<lparr>ePixelFormat := e\<rparr>"

definition small_memory :: memory where
  "small_memory = \<lparr>addresses = [4096, 8192, 12288], blocks = [], mallocs = [], badFrees = [],
     iommuFreed = []\<rparr>"

definition sample_alloc :: "int \<Rightarrow> alloc_result" where
  "sample_alloc e = FbmAllocatePictureBuffer (\<lambda>a. a) (sample_picture e) 0 20 10 small_memory"

lemma sample_alloc_ok: "fst (sample_alloc 5) = 0" "fst (sample_alloc 22) = 0"
  by code_simp+

lemma sample_alloc_eq:
  "fst (sample_alloc e) = 0 \<Longrightarrow> \<exists>v' a' m'.
     FbmAllocatePictureBuffer (\<lambda>a. a) (sample_picture e) 0 20 10 small_memory = (0, v', a', m') \<and>
     sample_alloc e = (0, v', a', m')"
  unfolding sample_alloc_def by (metis prod.collapse)

lemma picture_hyps:
  "ePixelFormat (sample_picture e) = e" "pMetaData (sample_picture e) = 0"
  "bEnableAfbcFlag (sample_picture e) = 0" "b10BitPicFlag (sample_picture e) = 0"
  "fresh_addresses small_memory" "blocks small_memory = []" "badFrees small_memory = []"
  "is_planar 5" "\<not> is_p010 5" "is_p010 22" "5 \<noteq> PIXEL_FORMAT_NV12"
  "alignment 0" "video_size 20" "video_size 10"
  by (simp_all add: sample_picture_def blank_picture_def small_memory_def fresh_addresses_def
      is_planar_def is_p010_def pixel_formats alignment_def video_size_def)

section \<open>The properties\<close>

text \<open>C19 A planar picture of any size up to 16384 x 16384 that was allocated lies in one live block
  of \<^verbatim>\<open>nBufSize\<close> bytes, which fits a C \<^verbatim>\<open>int\<close>; its stride and height cover the video and obey the
  alignment. Uncompressed, the luma plane, the chroma planes and the plane of the two low bits
  of a 10-bit video follow each other inside the block; compressed, the payload and the low
  bits do.\<close>

theorem planar_picture_layout:
  assumes "FbmAllocatePictureBuffer phys v a w h m = (0, v', a', m')"
    and "is_planar (ePixelFormat v)" "alignment a" "video_size w" "video_size h"
  shows "w \<le> nLineStride v' \<and> h \<le> nHeight v' \<and> a' dvd nLineStride v' \<and> a' dvd nHeight v' \<and>
    (pData0 v', nBufSize v') \<in> set (blocks m') \<and> nBufSize v' < 2 ^ 31 \<and>
    (let y = nLineStride v' * nHeight v'; c = planar_chroma (ePixelFormat v) y;
         pixels = (if bEnableAfbcFlag v = 1
                   then afbc_size (if b10BitPicFlag v \<noteq> 0 then 512 else 384) w h else y + 2 * c)
     in w * h \<le> y \<and> y \<le> 4 * c + 3 \<and>
        (bEnableAfbcFlag v \<noteq> 1 \<longrightarrow> pData1 v' = pData0 v' + y) \<and>
        (bEnableAfbcFlag v \<noteq> 1 \<and> b10BitPicFlag v = 0 \<and> ePixelFormat v \<noteq> PIXEL_FORMAT_NV21 \<longrightarrow>
           pData2 v' = pData1 v' + c) \<and>
        (if b10BitPicFlag v \<noteq> 0
         then nLower2BitBufOffset v' = pixels \<and>
              pixels + nLower2BitBufSize v' = nBufSize v' \<and> 0 \<le> nLower2BitBufSize v'
         else pixels = nBufSize v'))"
proof -
  obtain s h' b where g: "aligned_geometry a w h = (s, h', b)" by (metis prod_cases3)
  let ?y = "s * h'" and ?c = "planar_chroma (ePixelFormat v) (s * h')"
  obtain u where u: "alloc_planar (v\<lparr>pData0 := 0, pData1 := 0, pData2 := 0, pData3 := 0\<rparr>) a w h m =
      (0, u, a', m')"
      "v' = u\<lparr>phyYBufAddr := (if pData0 u \<noteq> 0 then phys (pData0 u) else phyYBufAddr u),
           phyCBufAddr := (if pData1 u \<noteq> 0 then phys (pData1 u) else phyCBufAddr u)\<rparr>"
    using alloc_planar_case [OF assms(1,2)] by blast
  obtain p q where ok: "a' = b"
      "u = (planar_planes (set_geometry s h' (v\<lparr>pData0 := 0, pData1 := 0, pData2 := 0, pData3 := 0\<rparr>))
         p ?y ?c w h)\<lparr>pData3 := 0, nBufSize := planar_total v ?y ?c w h, pMetaData := q\<rparr>"
      "(p, planar_total v ?y ?c w h) \<in> set (blocks m')"
    using alloc_planar_ok [OF u(1) g] by auto
  note G = geometry_bounds [OF assms(3-5) g]
  note Y = plane_bounds [of w s h h'] and C = chroma_bounds [of ?y "ePixelFormat v"]
  note L = lower2bit_size_bounds [OF assms(4,5)]
  note A = afbc_size_bounds [OF assms(4,5), of 384] afbc_size_bounds [OF assms(4,5), of 512]
  have y: "0 < ?y" "?y \<le> 268435456" using G Y assms(4,5) by auto
  have wh: "w * h \<le> ?y" using G assms(4,5) by (intro mult_mono) (auto simp: video_size_def)
  have tot: "planar_total v ?y ?c w h < 2 ^ 31"
    using y C L A by (auto simp: planar_total_def)
  have st: "nLineStride v' = s" "nHeight v' = h'" "pData0 v' = p"
      "nBufSize v' = planar_total v ?y ?c w h"
    by (simp_all add: u(2) ok(2))
  have "?y \<le> 4 * ?c + 3" using C y by simp
  with G y wh L tot ok(1,3) show ?thesis
    unfolding st Let_def
    by (cases "b10BitPicFlag v \<noteq> 0"; cases "bEnableAfbcFlag v = 1")
      (simp_all add: u(2) ok(2) planar_planes_def planar_total_def)
qed

theorem planar_picture_layout_witness:
  "case sample_alloc 5 of (r, v', a', m') \<Rightarrow>
     20 \<le> nLineStride v' \<and> 10 \<le> nHeight v' \<and> (pData0 v', nBufSize v') \<in> set (blocks m')"
proof -
  obtain v' a' m' where a: "FbmAllocatePictureBuffer (\<lambda>a. a) (sample_picture 5) 0 20 10 small_memory =
      (0, v', a', m')" and e: "sample_alloc 5 = (0, v', a', m')"
    using sample_alloc_eq [OF sample_alloc_ok(1)] by blast
  show ?thesis
    using planar_picture_layout [OF a] by (simp add: e picture_hyps)
qed

text \<open>The other size computation of the program agrees: for every planar format it knows,
  \<^verbatim>\<open>GetBufferSize\<close> returns the stride and the luma and chroma sizes at which an uncompressed
  picture was laid out, and twice the chroma after the luma is the whole 8-bit buffer.\<close>

theorem buffer_size_matches_allocation:
  assumes "FbmAllocatePictureBuffer phys v a w h m = (0, v', a', m')"
    and "is_planar (ePixelFormat v)" "ePixelFormat v \<noteq> PIXEL_FORMAT_NV12" "bEnableAfbcFlag v \<noteq> 1"
  shows "\<exists>y c. GetBufferSize (ePixelFormat v) w h a =
      Some (y, c, nLineStride v', drop_bit 1 (nLineStride v')) \<and>
    pData1 v' = pData0 v' + y \<and> (b10BitPicFlag v = 0 \<longrightarrow> nBufSize v' = y + 2 * c)"
proof -
  obtain s h' b where g: "aligned_geometry a w h = (s, h', b)" by (metis prod_cases3)
  let ?y = "s * h'" and ?c = "planar_chroma (ePixelFormat v) (s * h')"
  obtain u where u: "alloc_planar (v\<lparr>pData0 := 0, pData1 := 0, pData2 := 0, pData3 := 0\<rparr>) a w h m =
      (0, u, a', m')"
      "v' = u\<lparr>phyYBufAddr := (if pData0 u \<noteq> 0 then phys (pData0 u) else phyYBufAddr u),
           phyCBufAddr := (if pData1 u \<noteq> 0 then phys (pData1 u) else phyCBufAddr u)\<rparr>"
    using alloc_planar_case [OF assms(1,2)] by blast
  obtain p q where ok:
      "u = (planar_planes (set_geometry s h' (v\<lparr>pData0 := 0, pData1 := 0, pData2 := 0, pData3 := 0\<rparr>))
         p ?y ?c w h)\<lparr>pData3 := 0, nBufSize := planar_total v ?y ?c w h, pMetaData := q\<rparr>"
    using alloc_planar_ok [OF u(1) g] by auto
  have "GetBufferSize (ePixelFormat v) w h a = Some (?y, ?c, s, drop_bit 1 s)"
    using assms(2,3) g by (simp add: GetBufferSize_def Let_def)
  with assms(4) show ?thesis
    by (cases "b10BitPicFlag v = 0") (simp_all add: u(2) ok planar_planes_def planar_total_def)
qed

theorem buffer_size_matches_allocation_witness:
  "case sample_alloc 5 of (r, v', a', m') \<Rightarrow>
     \<exists>y c. GetBufferSize 5 20 10 0 = Some (y, c, nLineStride v', drop_bit 1 (nLineStride v')) \<and>
       nBufSize v' = y + 2 * c"
proof -
  obtain v' a' m' where a: "FbmAllocatePictureBuffer (\<lambda>a. a) (sample_picture 5) 0 20 10 small_memory =
      (0, v', a', m')" and e: "sample_alloc 5 = (0, v', a', m')"
    using sample_alloc_eq [OF sample_alloc_ok(1)] by blast
  show ?thesis
    using buffer_size_matches_allocation [OF a] by (auto simp: e picture_hyps)
qed

text \<open>C20 Allocation and freeing of a picture match, for every format but P010: when the allocators
  return fresh addresses, freeing an allocated picture restores the live blocks and gives no
  address back twice or in error.\<close>

theorem picture_alloc_free:
  assumes "FbmAllocatePictureBuffer phys v a w h m = (0, v', a', m')"
    and "\<not> is_p010 (ePixelFormat v)" "pMetaData v = 0" "fresh_addresses m"
  shows "case FbmFreePictureBuffer 0 v' m' of (v'', m'') \<Rightarrow>
    blocks m'' = blocks m \<and> mallocs m'' = mallocs m \<and> badFrees m'' = badFrees m"
proof -
  let ?v = "v\<lparr>pData0 := 0, pData1 := 0, pData2 := 0, pData3 := 0\<rparr>"
  consider (planar) "is_planar (ePixelFormat v)"
    | (mb32) "is_mb32 (ePixelFormat v)" "\<not> is_planar (ePixelFormat v)"
    | (rgb) "is_rgb (ePixelFormat v)" "\<not> is_planar (ePixelFormat v)" "\<not> is_mb32 (ePixelFormat v)"
    using assms(1,2) by (auto simp: FbmAllocatePictureBuffer_def Let_def split: if_splits)
  then show ?thesis
  proof cases
    case planar
    obtain s h' b where g: "aligned_geometry a w h = (s, h', b)" by (metis prod_cases3)
    obtain u where u: "alloc_planar ?v a w h m = (0, u, a', m')" "pData0 v' = pData0 u"
        "pMetaData v' = pMetaData u" "ePixelFormat v' = ePixelFormat u"
      using alloc_planar_case [OF assms(1) planar] by auto
    obtain p q t where ok: "p \<noteq> 0" "q \<noteq> 0" "pData0 u = p" "pMetaData u = q"
        "ePixelFormat u = ePixelFormat v" "addresses m = p # q # tl (tl (addresses m))"
        "m' = m\<lparr>addresses := tl (tl (addresses m)), mallocs := q # mallocs m,
           blocks := (p, t) # blocks m\<rparr>"
      using alloc_planar_ok [OF u(1) g] by auto
    have fresh: "p \<notin> fst ` set (blocks m)"
      using assms(4) ok(6) by (metis fresh_addresses_def list.set_intros(1) UnI1)
    have "ePixelFormat v < PIXEL_FORMAT_YUV_MB32_420"
      using planar by (auto simp: is_planar_def pixel_formats)
    then show ?thesis
      using u ok(1-5) by (simp add: FbmFreePictureBuffer_def free_plane_def ok(7)
          CdcMemPfree_new [OF fresh] c_free_def Let_def)
  next
    case mb32
    obtain u where u: "alloc_mb32 ?v w h m = (0, u, a', m')" "pData0 v' = pData0 u"
        "pMetaData v' = pMetaData u" "ePixelFormat v' = ePixelFormat u" "pData1 v' = pData1 u"
        "pData2 v' = pData2 u" "pData3 v' = pData3 u"
      using assms(1,2) mb32
      by (auto simp: FbmAllocatePictureBuffer_def Let_def split: prod.splits if_splits)
    obtain p q s t where ok: "p \<noteq> 0" "q \<noteq> 0" "pData0 u = p" "pData1 u = q" "pData2 u = 0"
        "pData3 u = 0" "pMetaData u = 0" "ePixelFormat u = ePixelFormat v"
        "addresses m = p # q # tl (tl (addresses m))"
        "m' = m\<lparr>addresses := tl (tl (addresses m)), blocks := (q, t) # (p, s) # blocks m\<rparr>"
      using alloc_mb32_ok [OF u(1)] assms(3) by auto
    obtain rest where rest: "addresses m = p # q # rest" using ok(9) by blast
    have fresh: "p \<notin> fst ` set (blocks m)" "q \<notin> fst ` set (blocks m)" and ne: "p \<noteq> q"
      using assms(4) ok(1,2) by (auto simp: fresh_addresses_def rest)
    have f1: "filter (\<lambda>b. fst b \<noteq> x) (blocks m) = blocks m" if "x \<notin> fst ` set (blocks m)" for x
      using that by (auto intro!: filter_True)
    have "\<not> ePixelFormat v < PIXEL_FORMAT_YUV_MB32_420"
      using mb32 by (auto simp: is_mb32_def pixel_formats)
    then show ?thesis
      using u ok(1-8) ne fresh by (simp add: FbmFreePictureBuffer_def free_plane_def ok(10)
          CdcMemPfree_def Let_def f1)
  next
    case rgb
    obtain u where u: "alloc_rgb ?v a h m = (0, u, a', m')" "pData0 v' = pData0 u"
        "pMetaData v' = pMetaData u" "ePixelFormat v' = ePixelFormat u" "pData1 v' = pData1 u"
        "pData2 v' = pData2 u" "pData3 v' = pData3 u"
      using assms(1,2) rgb
      by (auto simp: FbmAllocatePictureBuffer_def Let_def split: prod.splits if_splits)
    obtain p s where ok: "p \<noteq> 0" "pData0 u = p" "pData1 u = 0" "pData2 u = 0"
        "pData3 u = 0" "pMetaData u = 0" "p \<in> set (addresses m)"
        "m' = m\<lparr>addresses := tl (addresses m), blocks := (p, s) # blocks m\<rparr>"
      using alloc_rgb_ok [OF u(1)] assms(3) by auto
    have fresh: "p \<notin> fst ` set (blocks m)" using assms(4) ok(7) by (auto simp: fresh_addresses_def)
    show ?thesis
      using u(2-7) ok(1-6) by (simp add: FbmFreePictureBuffer_def free_plane_def ok(8)
          CdcMemPfree_new [OF fresh] Let_def)
  qed
qed

theorem picture_alloc_free_witness:
  "case sample_alloc 5 of (r, v', a', m') \<Rightarrow>
     blocks (snd (FbmFreePictureBuffer 0 v' m')) = [] \<and> badFrees (snd (FbmFreePictureBuffer 0 v' m')) = []"
proof -
  obtain v' a' m' where a: "FbmAllocatePictureBuffer (\<lambda>a. a) (sample_picture 5) 0 20 10 small_memory =
      (0, v', a', m')" and e: "sample_alloc 5 = (0, v', a', m')"
    using sample_alloc_eq [OF sample_alloc_ok(1)] by blast
  show ?thesis
    using picture_alloc_free [OF a] by (simp add: e picture_hyps case_prod_beta)
qed

text \<open>C21 For the P010 formats they do not match: the chroma plane of such a picture lies inside the
  buffer of the luma plane, but its address is handed to the allocator's free function as if it
  were a block of its own.\<close>

theorem p010_frees_inner_pointer:
  assumes "FbmAllocatePictureBuffer phys v a w h m = (0, v', a', m')"
    and "is_p010 (ePixelFormat v)" "pMetaData v = 0" "pData1 v' \<noteq> 0"
    "pData1 v' \<notin> fst ` set (blocks m)" "pData0 v' \<noteq> pData1 v'"
  shows "badFrees (snd (FbmFreePictureBuffer 0 v' m')) = pData1 v' # badFrees m \<and>
    (\<exists>bytes. (pData0 v', bytes) \<in> set (blocks m') \<and>
       pData1 v' = pData0 v' + nLineStride v' * nHeight v' * 2)"
proof -
  let ?v = "v\<lparr>pData0 := 0, pData1 := 0, pData2 := 0, pData3 := 0\<rparr>"
  obtain s h' b where g: "aligned_geometry a w h = (s, h', b)" by (metis prod_cases3)
  obtain u where u: "alloc_p010 ?v a w h m = (0, u, a', m')" "pData0 v' = pData0 u"
      "pMetaData v' = pMetaData u" "ePixelFormat v' = ePixelFormat u" "pData1 v' = pData1 u"
      "pData2 v' = pData2 u" "pData3 v' = pData3 u" "nLineStride v' = nLineStride u"
      "nHeight v' = nHeight u"
    using assms(1,2)
    by (auto simp: FbmAllocatePictureBuffer_def Let_def split: prod.splits if_splits)
  let ?n = "s * h' * 2 + drop_bit 2 (s * h' * 2) * 2"
  obtain p m1 where p: "CdcMemPalloc ?n m = (p, m1)" by fastforce
  have "p \<noteq> 0" using u(1) p g by (auto simp: alloc_p010_def Let_def split: if_splits)
  note P = CdcMemPalloc_cases [OF p this]
  have v': "pData0 v' = p" "pData1 v' = p + s * h' * 2" "pData2 v' = 0" "pData3 v' = 0"
      "pMetaData v' = 0" "ePixelFormat v' = ePixelFormat v" "m' = m1" "nLineStride v' = s"
      "nHeight v' = h'"
    using u g p \<open>p \<noteq> 0\<close> assms(3) by (auto simp: alloc_p010_def Let_def set_geometry_def)
  have "\<not> ePixelFormat v < PIXEL_FORMAT_YUV_MB32_420"
    using assms(2) by (auto simp: is_p010_def pixel_formats)
  then show ?thesis
    using assms(4-6) v' P \<open>p \<noteq> 0\<close>
    by (auto simp: FbmFreePictureBuffer_def free_plane_def CdcMemPfree_def Let_def image_iff)
qed

lemma sample_p010: "case sample_alloc 22 of (r, v', a', m') \<Rightarrow> pData1 v' \<noteq> 0 \<and> pData0 v' \<noteq> pData1 v'"
  by code_simp

theorem p010_frees_inner_pointer_witness:
  "case sample_alloc 22 of (r, v', a', m') \<Rightarrow>
     badFrees (snd (FbmFreePictureBuffer 0 v' m')) = [pData1 v']"
proof -
  obtain v' a' m' where a: "FbmAllocatePictureBuffer (\<lambda>a. a) (sample_picture 22) 0 20 10 small_memory =
      (0, v', a', m')" and e: "sample_alloc 22 = (0, v', a', m')"
    using sample_alloc_eq [OF sample_alloc_ok(2)] by blast
  show ?thesis
    using p010_frees_inner_pointer [OF a] sample_p010 by (simp add: e picture_hyps)
qed

end
