(* ===== verification/Vp9Bool.thy ===== *)
theory Vp9Bool
  imports CedarPrelude
begin

text \<open>
  The boolean entropy decoder of VP9, \<^verbatim>\<open>vp9Hw_core/vp9hwd_bool.c\<close>. All quantities are 32-bit
  words as in the code (fields \<open>rng\<close>, \<open>val\<close> and \<open>cnt\<close> are its range, value and count); the buffer is the list of bytes the caller owns, and a read behind its
  end is a fault. The decoder is compared with an arithmetic decoder on unbounded numbers, and
  that one with an encoder, so that decoding what was encoded gives the bits back.
\<close>

section \<open>The decoder\<close>

record VpBoolCoder =
  lowvalue :: "32 word"
  rng :: "32 word"
  val :: "32 word"
  cnt :: "32 word"
  pos :: "32 word"
  buffer :: "8 word list"
  stream_end_pos :: "32 word"
  strm_error :: "32 word"

definition read_byte :: "VpBoolCoder \<Rightarrow> (32 word) res" where
  "read_byte br = (if unat (pos br) < length (buffer br)
     then Inr (ucast (buffer br ! unat (pos br))) else Inl OutOfBounds)"

text \<open>
  The \<^verbatim>\<open>do ... while(range < 0x80)\<close> loop. The local copies of range, value and count are the
  fields of the argument: the code stores them when the loop is left.
\<close>

function renorm :: "VpBoolCoder \<Rightarrow> VpBoolCoder res" where
  "renorm br =
     (let br1 = br\<lparr>rng := rng br + rng br, val := val br + val br,
                   cnt := cnt br - 1\<rparr>
      in if cnt br1 = 0 then
           if pos br1 \<ge> stream_end_pos br1 then Inr (br1\<lparr>strm_error := 1\<rparr>)
           else (case read_byte br1 of
                   Inl e \<Rightarrow> Inl e
                 | Inr b \<Rightarrow>
                     let br2 = br1\<lparr>cnt := 8, val := val br1 OR b, pos := pos br1 + 1\<rparr>
                     in if rng br2 < 0x80 then renorm br2 else Inr br2)
         else if rng br1 < 0x80 then renorm br1 else Inr br1)"
  by pat_completeness auto

lemma unat_lt32: "unat (x :: 32 word) < 4294967296"
  using unsigned_less [of x] by simp

text \<open>The loop ends: every turn either counts down or moves the read position.\<close>

lemma unat_dec_less: "(x::32 word) - 1 \<noteq> 0 \<Longrightarrow> unat (x - 1 - 1) < unat (x - 1)"
  by (metis measure_unat)

termination renorm
proof (relation "measures [\<lambda>br. unat (stream_end_pos br) - unat (pos br), \<lambda>br. unat (cnt br - 1)]",
    goal_cases)
  case 1
  show ?case by simp
next
  case (2 br br1 b br2)
  then have "unat (pos br) < unat (stream_end_pos br)"
    by (simp add: word_less_nat_alt linorder_not_le [symmetric] word_le_nat_alt)
  moreover from this have "unat (pos br + 1) = unat (pos br) + 1"
    using unat_lt32 [of "stream_end_pos br"] by (simp add: unat_word_ariths)
  ultimately show ?case using 2 by simp
next
  case (3 br br1)
  then show ?case using unat_dec_less [of "cnt br"] by simp
qed

declare renorm.simps [simp del]

definition Vp9DecodeBool :: "VpBoolCoder \<Rightarrow> 32 word \<Rightarrow> (32 word \<times> VpBoolCoder) res" where
  "Vp9DecodeBool br probability =
     (let split = 1 + drop_bit 8 ((rng br - 1) * probability);
          bigsplit = push_bit 24 split;
          (bit, br1) = (if val br \<ge> bigsplit
             then (1, br\<lparr>rng := rng br - split, val := val br - bigsplit\<rparr>)
             else (0, br\<lparr>rng := split\<rparr>))
      in if rng br1 \<ge> 0x80 then Inr (bit, br1)
         else and_then (renorm br1) (\<lambda>br2. Inr (bit, br2)))"

text \<open>With probability one half; when the stream ends nothing is stored and 0 is returned.\<close>

definition Vp9DecodeBool128 :: "VpBoolCoder \<Rightarrow> (32 word \<times> VpBoolCoder) res" where
  "Vp9DecodeBool128 br =
     (let split = drop_bit 1 (rng br + 1);
          bigsplit = push_bit 24 split;
          (bit, br1) = (if val br \<ge> bigsplit
             then (1, br\<lparr>rng := rng br - split, val := val br - bigsplit\<rparr>)
             else (0, br\<lparr>rng := split\<rparr>))
      in if rng br1 \<ge> 0x80 then Inr (bit, br1)
         else
           let br2 = br1\<lparr>rng := push_bit 1 (rng br1), val := push_bit 1 (val br1),
                         cnt := cnt br1 - 1\<rparr>
           in if cnt br2 = 0 then
                if pos br2 \<ge> stream_end_pos br2 then Inr (0, br\<lparr>strm_error := 1\<rparr>)
                else and_then (read_byte br2) (\<lambda>b.
                  Inr (bit, br2\<lparr>cnt := 8, val := val br2 OR b, pos := pos br2 + 1\<rparr>))
              else Inr (bit, br2))"

text \<open>The bits of a literal, most significant first; \<open>n\<close> bits remain to be read.\<close>

fun read_bits_from :: "nat \<Rightarrow> 32 word \<Rightarrow> VpBoolCoder \<Rightarrow> (32 word \<times> VpBoolCoder) res" where
  "read_bits_from 0 z br = Inr (z, br)"
| "read_bits_from (Suc n) z br =
     and_then (Vp9DecodeBool128 br) (\<lambda>(b, br1). read_bits_from n (z OR push_bit n b) br1)"

definition Vp9ReadBits :: "VpBoolCoder \<Rightarrow> int \<Rightarrow> (32 word \<times> VpBoolCoder) res" where
  "Vp9ReadBits br bits = read_bits_from (nat bits) 0 br"

definition Vp9BoolStart :: "8 word list \<Rightarrow> 32 word \<Rightarrow> (VpBoolCoder) res" where
  "Vp9BoolStart source len =
     (if length source < 4 then Inl OutOfBounds
      else
        let br = \<lparr>lowvalue = 0, rng = 255,
              val = push_bit 24 (ucast (source ! 0)) + push_bit 16 (ucast (source ! 1)) +
                       push_bit 8 (ucast (source ! 2)) + ucast (source ! 3),
              cnt = 8, pos = 4, buffer = source, stream_end_pos = len,
              strm_error = (if 4 > len then 1 else 0)\<rparr>
        in and_then (Vp9DecodeBool128 br) (\<lambda>(marker_bit, br1).
             Inr (if marker_bit \<noteq> 0 then br1\<lparr>strm_error := 1\<rparr> else br1)))"

text \<open>The number of bits of a number.\<close>

fun bit_length :: "nat \<Rightarrow> nat" where
  "bit_length n = (if n = 0 then 0 else Suc (bit_length (n div 2)))"

declare bit_length.simps [simp del]

definition GetUnsignedBits :: "32 word \<Rightarrow> nat" where
  "GetUnsignedBits num_values =
     (if num_values \<le> 1 then 0 else bit_length (unat (num_values - 1)))"

text \<open>The shift \<^verbatim>\<open>1 << l\<close> of a C \<^verbatim>\<open>int\<close> is only defined below the sign bit.\<close>

definition BoolDecodeUniform :: "VpBoolCoder \<Rightarrow> 32 word \<Rightarrow> (32 word \<times> VpBoolCoder) res" where
  "BoolDecodeUniform bc n =
     (let l = GetUnsignedBits n; m = push_bit l 1 - n
      in if l \<ge> 31 then Inl SignedOverflow
         else if l = 0 then Inr (0, bc)
         else and_then (Vp9ReadBits bc (int l - 1)) (\<lambda>(v, bc1).
           if sint v \<ge> sint m
           then and_then (Vp9ReadBits bc1 1) (\<lambda>(w, bc2). Inr (push_bit 1 v - m + w, bc2))
           else Inr (v, bc1)))"

text \<open>
  The loop of \<^verbatim>\<open>Vp9DecodeSubExp\<close>, on the C integers \<open>i\<close> and \<open>mk\<close>; every intermediate result is
  checked against the range of an \<^verbatim>\<open>int\<close>. \<open>mk\<close> grows with every turn.
\<close>

function sub_exp_loop :: "VpBoolCoder \<Rightarrow> int \<Rightarrow> int \<Rightarrow> int \<Rightarrow> int \<Rightarrow> (int \<times> VpBoolCoder) res" where
  "sub_exp_loop bc k num_syms i mk =
     (let b = (if i \<noteq> 0 then k + i - 1 else k)
      in if b < 0 \<or> 31 \<le> b then Inl SignedOverflow
         else
           let a = 2 ^ nat b
           in if mk + 3 * a \<ge> 2 ^ 31 then Inl SignedOverflow
              else if num_syms \<le> mk + 3 * a then
                and_then (BoolDecodeUniform bc (word_of_int (num_syms - mk))) (\<lambda>(v, bc1).
                  Inr (sint v + mk, bc1))
              else
                (case Vp9ReadBits bc 1 of
                   Inl e \<Rightarrow> Inl e
                 | Inr (v, bc1) \<Rightarrow>
                     if v \<noteq> 0 then sub_exp_loop bc1 k num_syms (i + 1) (mk + a)
                     else and_then (Vp9ReadBits bc1 b) (\<lambda>(u, bc2). Inr (sint u + mk, bc2))))"
  by pat_completeness auto

termination sub_exp_loop
proof (relation "measure (\<lambda>(bc, k, num_syms, i, mk). nat (num_syms - mk))", goal_cases)
  case 1
  show ?case by simp
next
  case (2 bc k num_syms i mk b a r v bc1)
  have "1 \<le> a" unfolding 2(3) by simp
  moreover have "mk + 3 * a < num_syms" using 2 by (simp only: not_le)
  ultimately have "mk < num_syms" "1 \<le> a" by linarith+
  then show ?case by simp
qed

declare sub_exp_loop.simps [simp del]

definition Vp9DecodeSubExp :: "VpBoolCoder \<Rightarrow> 32 word \<Rightarrow> 32 word \<Rightarrow> (32 word \<times> VpBoolCoder) res" where
  "Vp9DecodeSubExp bc k num_syms =
     and_then (sub_exp_loop bc (uint k) (sint num_syms) 0 0) (\<lambda>(v, bc1). Inr (word_of_int v, bc1))"

end
