(* ===== verification/Vp9Exact.thy ===== *)
theory Vp9Exact
  imports Vp9Bool
begin

text \<open>
  The boolean decoder computes exactly: the 32-bit window of \<^verbatim>\<open>vp9hwd_bool.c\<close> with its byte-wise
  refills does what a decoder does that keeps the whole rest of the stream as one number; and an
  encoder for that decoder exists, which gives the round trip.
\<close>

section \<open>The decoder on unbounded numbers\<close>

text \<open>How often a range below 128 is doubled.\<close>

function shifts :: "nat \<Rightarrow> nat" where
  "shifts r = (if r = 0 \<or> 128 \<le> r then 0 else Suc (shifts (2 * r)))"
  by pat_completeness auto
termination by (relation "measure (\<lambda>r. 128 - r)") auto

declare shifts.simps [simp del]

definition split_of :: "nat \<Rightarrow> nat \<Rightarrow> nat" where
  "split_of p r = 1 + (r - 1) * p div 256"

text \<open>The state: the range \<open>r\<close>, the number \<open>v\<close> that is left of the stream, and its scale \<open>s\<close>:
  \<open>v\<close> lies below \<open>r * 2 ^ s\<close>.\<close>

fun exact_bool :: "nat \<Rightarrow> nat \<times> nat \<times> nat \<Rightarrow> bool \<times> nat \<times> nat \<times> nat" where
  "exact_bool p (r, v, s) =
     (let sp = split_of p r; big = sp * 2 ^ s;
          (b, r1, v1) = (if big \<le> v then (True, r - sp, v - big) else (False, sp, v))
      in (b, r1 * 2 ^ shifts r1, v1, s - shifts r1))"

lemma power2_eq_256: "(2::nat) ^ 8 = 256"
  by simp

lemma split_of_bounds:
  assumes "2 \<le> r" "p < 256"
  shows "1 \<le> split_of p r \<and> split_of p r < r"
proof -
  have "(r - 1) * p \<le> (r - 1) * 255" using assms(2) by simp
  then have "(r - 1) * p div 256 \<le> (r - 1) * 255 div 256" by (rule div_le_mono)
  also have "\<dots> < r - 1" using assms(1) by (simp add: div_less_iff_less_mult)
  finally show ?thesis using assms(1) by (simp add: split_of_def)
qed

lemma shifts_range: "1 \<le> r \<Longrightarrow> r < 256 \<Longrightarrow> 128 \<le> r * 2 ^ shifts r \<and> r * 2 ^ shifts r < 256"
proof (induction r rule: shifts.induct)
  case (1 r)
  show ?case
  proof (cases "128 \<le> r")
    case True
    with 1 show ?thesis by (simp add: shifts.simps [of r])
  next
    case False
    then have "128 \<le> 2 * r * 2 ^ shifts (2 * r) \<and> 2 * r * 2 ^ shifts (2 * r) < 256"
      using 1 by auto
    with False 1(2) show ?thesis by (simp add: shifts.simps [of r] mult.commute mult.left_commute)
  qed
qed

lemma shifts_le: "1 \<le> r \<Longrightarrow> shifts r \<le> 7"
proof (rule ccontr)
  assume r: "1 \<le> r" and "\<not> shifts r \<le> 7"
  then have "256 \<le> r * 2 ^ shifts r"
    using power_increasing [of 8 "shifts r" "2::nat"] mult_le_mono [of 1 r 256 "2 ^ shifts r"] by simp
  moreover have "r < 256"
  proof (rule ccontr)
    assume "\<not> r < 256"
    then have "shifts r = 0" by (simp add: shifts.simps)
    with \<open>\<not> shifts r \<le> 7\<close> show False by simp
  qed
  ultimately show False using shifts_range [of r] r by simp
qed

section \<open>The window represents the number\<close>

text \<open>The number a list of bytes spells, most significant byte first.\<close>

fun be :: "8 word list \<Rightarrow> nat" where
  "be [] = 0"
| "be (b # bs) = unat b * 256 ^ length bs + be bs"

lemma be_less: "be bs < 256 ^ length bs"
proof (induction bs)
  case Nil
  then show ?case by simp
next
  case (Cons b bs)
  have "unat b \<le> 255" using unat_lt8 [of b] by simp
  then have "unat b * 256 ^ length bs \<le> 255 * 256 ^ length bs" by (rule mult_le_mono1)
  moreover have "(256::nat) ^ length (b # bs) = 255 * 256 ^ length bs + 256 ^ length bs" by simp
  ultimately show ?case using Cons.IH by (simp only: be.simps)
qed

text \<open>The bytes the decoder has not read.\<close>

definition unread :: "VpBoolCoder \<Rightarrow> 8 word list" where
  "unread br = drop (unat (pos br)) (take (unat (stream_end_pos br)) (buffer br))"

text \<open>
  With \<open>c\<close> bits to go before the next refill the lowest \<open>8 - c\<close> bits of the window are empty; the
  rest \<open>x\<close> of the window and the unread bytes are the number.
\<close>

definition window :: "VpBoolCoder \<Rightarrow> nat \<Rightarrow> nat \<Rightarrow> nat \<Rightarrow> bool" where
  "window br r v s \<longleftrightarrow>
     unat (rng br) = r \<and> 1 \<le> unat (cnt br) \<and> unat (cnt br) \<le> 8 \<and>
     unat (pos br) \<le> unat (stream_end_pos br) \<and> unat (stream_end_pos br) \<le> length (buffer br) \<and>
     s = 16 + 8 * length (unread br) + unat (cnt br) \<and> v < r * 2 ^ s \<and>
     (\<exists>x. unat (val br) = x * 2 ^ (8 - unat (cnt br)) \<and>
          v = x * 256 ^ length (unread br) + be (unread br))"

lemma windowI:
  assumes "unat (rng br) = r" "unat (cnt br) = c" "1 \<le> c" "c \<le> 8"
    and "unat (pos br) \<le> unat (stream_end_pos br)" "unat (stream_end_pos br) \<le> length (buffer br)"
    and "s = 16 + 8 * length (unread br) + c" "v < r * 2 ^ s"
    and "unat (val br) = x * 2 ^ (8 - c)" "v = x * 256 ^ length (unread br) + be (unread br)"
  shows "window br r v s"
  unfolding window_def using assms by blast

lemma windowE:
  assumes "window br r v s"
  obtains x c n where "unat (rng br) = r" "unat (cnt br) = c" "1 \<le> c" "c \<le> 8"
    and "unat (pos br) \<le> unat (stream_end_pos br)" "unat (stream_end_pos br) \<le> length (buffer br)"
    and "length (unread br) = n" "s = 16 + 8 * n + c" "v < r * 2 ^ s"
    and "unat (val br) = x * 2 ^ (8 - c)" "v = x * 256 ^ n + be (unread br)"
  using assms unfolding window_def by blast

lemma length_unread:
  assumes "unat (pos br) \<le> unat (stream_end_pos br)" "unat (stream_end_pos br) \<le> length (buffer br)"
  shows "length (unread br) = unat (stream_end_pos br) - unat (pos br)"
  using assms by (simp add: unread_def)

lemma double_scale: "1 \<le> s \<Longrightarrow> 2 * r * 2 ^ (s - 1) = (r::nat) * 2 ^ s"
  by (cases s) simp_all

text \<open>Comparing the window with a multiple of \<open>2 ^ 24\<close> is comparing the number.\<close>

lemma window_compare:
  assumes "window br r v s"
  shows "sp * 2 ^ 24 \<le> unat (val br) \<longleftrightarrow> sp * 2 ^ s \<le> v"
proof -
  let ?n = "length (unread br)" and ?c = "unat (cnt br)"
  obtain x where x: "unat (val br) = x * 2 ^ (8 - ?c)" "v = x * 256 ^ ?n + be (unread br)"
      and c: "1 \<le> ?c" "?c \<le> 8" and s: "s = 16 + 8 * ?n + ?c"
    using assms by (auto simp: window_def)
  have e24: "(2::nat) ^ 24 = 2 ^ (16 + ?c) * 2 ^ (8 - ?c)"
    using c by (simp add: power_add [symmetric])
  have es: "(2::nat) ^ s = 2 ^ (16 + ?c) * 256 ^ ?n"
    using s by (simp add: power_add power_mult)
  have "sp * 2 ^ 24 \<le> unat (val br) \<longleftrightarrow> sp * 2 ^ (16 + ?c) \<le> x"
    unfolding x(1) e24 by (simp add: mult.assoc [symmetric])
  also have "\<dots> \<longleftrightarrow> sp * 2 ^ s \<le> v"
  proof
    assume "sp * 2 ^ (16 + ?c) \<le> x"
    then have "sp * 2 ^ (16 + ?c) * 256 ^ ?n \<le> x * 256 ^ ?n" by (rule mult_le_mono1)
    then show "sp * 2 ^ s \<le> v" unfolding x(2) es mult.assoc by (rule trans_le_add1)
  next
    assume "sp * 2 ^ s \<le> v"
    then have "sp * 2 ^ (16 + ?c) * 256 ^ ?n < (x + 1) * 256 ^ ?n"
      using be_less [of "unread br"] unfolding x(2) es by (simp add: mult.assoc)
    then have "sp * 2 ^ (16 + ?c) < x + 1" by (rule mult_less_cancel2 [THEN iffD1, THEN conjunct2])
    then show "sp * 2 ^ (16 + ?c) \<le> x" by linarith
  qed
  finally show ?thesis .
qed

text \<open>One turn of the loop: the range doubles, the scale drops by one, the number stays.\<close>

definition double_window :: "VpBoolCoder \<Rightarrow> VpBoolCoder" where
  "double_window br = br\<lparr>rng := rng br + rng br, val := val br + val br, cnt := cnt br - 1\<rparr>"

definition refill :: "VpBoolCoder \<Rightarrow> VpBoolCoder" where
  "refill br = br\<lparr>cnt := 8, val := val br OR ucast (buffer br ! unat (pos br)), pos := pos br + 1\<rparr>"

lemma window_val: "window br r v s \<Longrightarrow> unat (val br) < r * 2 ^ 24"
proof -
  assume w: "window br r v s"
  then have "\<not> r * 2 ^ s \<le> v" unfolding window_def not_le by blast
  with window_compare [OF w, of r] show ?thesis by simp
qed

lemma double_words:
  assumes "window br r v s" and "r < 128"
  shows "unat (rng br + rng br) = 2 * r" "unat (val br + val br) = 2 * unat (val br)"
    "unat (cnt br - 1) = unat (cnt br) - 1"
proof -
  have r: "unat (rng br) = r" and c: "1 \<le> unat (cnt br)" using assms(1) by (auto simp: window_def)
  show "unat (rng br + rng br) = 2 * r" using r assms(2) by (simp add: unat_word_ariths)
  have "unat (val br) < 127 * 2 ^ 24 + 2 ^ 24"
    using window_val [OF assms(1)] assms(2) mult_le_mono1 [of r 127 "2 ^ 24"] by simp
  then show "unat (val br + val br) = 2 * unat (val br)" by (simp add: unat_word_ariths)
  have "1 \<le> cnt br" using c by (simp add: word_le_nat_alt)
  then show "unat (cnt br - 1) = unat (cnt br) - 1" by (simp add: unat_sub)
qed

lemma window_double:
  assumes "window br r v s" and "r < 128" and "unat (cnt br) \<noteq> 1"
  shows "window (double_window br) (2 * r) v (s - 1)" "cnt (double_window br) \<noteq> 0"
proof -
  note W = double_words [OF assms(1,2)]
  obtain x c n where w: "unat (rng br) = r" "unat (cnt br) = c" "1 \<le> c" "c \<le> 8"
      "unat (pos br) \<le> unat (stream_end_pos br)" "unat (stream_end_pos br) \<le> length (buffer br)"
      "length (unread br) = n" "s = 16 + 8 * n + c" "v < r * 2 ^ s"
      "unat (val br) = x * 2 ^ (8 - c)" "v = x * 256 ^ n + be (unread br)"
    using assms(1) by (rule windowE)
  have u: "unread (double_window br) = unread br" by (simp add: unread_def double_window_def)
  have c2: "2 \<le> c" using assms(3) w(2,3) by simp
  have p: "(2::nat) ^ (8 - (c - 1)) = 2 * 2 ^ (8 - c)"
    using w(4) c2 by (simp flip: power_Suc add: Suc_diff_le)
  have s1: "2 * r * 2 ^ (s - 1) = r * 2 ^ s" using w(8) by (intro double_scale) linarith
  show "window (double_window br) (2 * r) v (s - 1)"
  proof (rule windowI [where x = x and c = "c - 1"])
    show "unat (rng (double_window br)) = 2 * r" using W(1) by (simp add: double_window_def)
    show "unat (cnt (double_window br)) = c - 1" using W(3) w(2) by (simp add: double_window_def)
    show "s - 1 = 16 + 8 * length (unread (double_window br)) + (c - 1)"
      using u w(7,8) c2 by simp
    show "v < 2 * r * 2 ^ (s - 1)" unfolding s1 by (rule w(9))
    show "unat (val (double_window br)) = x * 2 ^ (8 - (c - 1))"
      using W(2) w(10) unfolding p by (simp add: double_window_def)
    show "v = x * 256 ^ length (unread (double_window br)) + be (unread (double_window br))"
      unfolding u w(7) by (rule w(11))
  qed (use w c2 in \<open>simp_all add: double_window_def\<close>)
  have "unat (cnt br - 1) \<noteq> 0" using W(3) c2 w(2) by simp
  then show "cnt (double_window br) \<noteq> 0" by (auto simp: double_window_def)
qed

lemma window_refill:
  assumes "window br r v s" and "r < 128" and "unat (cnt br) = 1" and "18 \<le> s"
  shows "window (refill (double_window br)) (2 * r) v (s - 1)" "cnt (double_window br) = 0"
    "pos br < stream_end_pos br" "unat (pos br) < length (buffer br)"
proof -
  note W = double_words [OF assms(1,2)]
  have le: "unat (pos br) \<le> unat (stream_end_pos br)" "unat (stream_end_pos br) \<le> length (buffer br)"
      and sn: "s = 16 + 8 * length (unread br) + unat (cnt br)"
    using assms(1) unfolding window_def by blast+
  have pe: "unat (pos br) < unat (stream_end_pos br)"
    "unat (stream_end_pos br) \<le> length (buffer br)"
    using le length_unread [OF le] sn assms(3,4) by auto
  then show lt: "pos br < stream_end_pos br" "unat (pos br) < length (buffer br)"
    by (simp_all add: word_less_nat_alt)
  show "cnt (double_window br) = 0"
    using W(3) assms(3) by (simp add: double_window_def unat_eq_zero)
  let ?b = "buffer br ! unat (pos br)" and ?br = "refill (double_window br)"
  have p1: "unat (pos br + 1) = unat (pos br) + 1"
    using pe(1) unat_lt32 [of "stream_end_pos br"] by (simp add: unat_word_ariths)
  have u: "unread br = ?b # unread ?br"
    using pe unfolding unread_def
    by (simp add: refill_def double_window_def p1 Cons_nth_drop_Suc [symmetric])
  obtain x where x: "unat (val br) = x * 2 ^ 7"
      "v = x * 256 ^ length (unread br) + be (unread br)"
    using assms(1,3) by (auto simp: window_def)
  have "(val br + val br) AND ucast ?b = 0"
  proof (rule bit_word_eqI)
    fix i
    have "bit (val br + val br) i \<Longrightarrow> \<not> i < 8"
    proof
      assume b: "bit (val br + val br) i" and i: "i < 8"
      have "bit (unat (val br + val br)) i" using b unfolding bit_unsigned_iff
        by (auto dest: bit_imp_le_length)
      then have odd: "odd (unat (val br + val br) div 2 ^ i)" by (rule bit_iff_odd [THEN iffD1])
      have "unat (val br + val br) = x * 2 ^ (8 - i) * 2 ^ i"
        using W(2) x(1) i by (simp add: power_add [symmetric] mult.assoc)
      then have "unat (val br + val br) div 2 ^ i = x * 2 ^ (8 - i)" by simp
      with odd have "odd (x * 2 ^ (8 - i))" by metis
      then show False using i by simp
    qed
    moreover have "bit (ucast ?b :: 32 word) i \<Longrightarrow> i < 8"
      by (auto simp: bit_simps dest: bit_imp_le_length)
    ultimately show "bit ((val br + val br) AND ucast ?b) i = bit (0 :: 32 word) i"
      by (auto simp: bit_simps)
  qed
  then have or: "(val br + val br) OR ucast ?b = (val br + val br) + ucast ?b"
    by (simp add: disjunctive_add_eq_or)
  have bb: "unat (ucast ?b :: 32 word) = unat ?b"
    using unat_lt8 [of ?b] by (simp add: unsigned_ucast_eq take_bit_nat_eq_self)
  have "unat ?b < 256" by (rule unat_lt8)
  moreover have "2 * unat (val br) = x * 256" using x(1) by simp
  moreover have "x * 256 < 127 * 2 ^ 25 + 2 ^ 25"
    using window_val [OF assms(1)] assms(2) x(1) mult_le_mono1 [of r 127 "2 ^ 24"] by simp
  ultimately have v: "unat ((val br + val br) OR ucast ?b) = x * 256 + unat ?b"
    unfolding or using W(2) bb by (simp add: unat_word_ariths)
  have s1: "2 * r * 2 ^ (s - 1) = r * 2 ^ s" using assms(4) by (intro double_scale) linarith
  have vv: "v = (x * 256 + unat ?b) * 256 ^ length (unread ?br) + be (unread ?br)"
    using x(2) by (subst (asm) u, subst (asm) u) (simp add: algebra_simps)
  show "window ?br (2 * r) v (s - 1)"
  proof (rule windowI [where x = "x * 256 + unat ?b" and c = 8])
    show "unat (rng ?br) = 2 * r" using W(1) by (simp add: refill_def double_window_def)
    show "unat (pos ?br) \<le> unat (stream_end_pos ?br)"
      using pe p1 by (simp add: refill_def double_window_def)
    show "s - 1 = 16 + 8 * length (unread ?br) + 8" using sn u assms(3) by simp
    have "v < r * 2 ^ s" using assms(1) unfolding window_def by blast
    then show "v < 2 * r * 2 ^ (s - 1)" unfolding s1 .
    show "unat (val ?br) = (x * 256 + unat ?b) * 2 ^ (8 - 8)"
      using v by (simp add: refill_def double_window_def)
  qed (use vv pe in \<open>simp_all add: refill_def double_window_def\<close>)
qed

text \<open>The loop is that turn, repeated \<open>shifts r\<close> times, with a refill when a byte is used up.\<close>

lemma renorm_turn:
  assumes "window br r v s" and "1 \<le> r" "r < 128" and "18 \<le> s"
  obtains br' where "window br' (2 * r) v (s - 1)" "strm_error br' = strm_error br"
    "renorm br = (if rng br' < 0x80 then renorm br' else Inr br')"
proof (cases "unat (cnt br) = 1")
  case False
  note D = window_double [OF assms(1,3) False]
  show ?thesis
  proof (rule that [OF D(1)])
    show "strm_error (double_window br) = strm_error br" by (simp add: double_window_def)
    show "renorm br = (if rng (double_window br) < 0x80 then renorm (double_window br)
        else Inr (double_window br))"
      using D(2) by (subst renorm.simps) (simp add: double_window_def Let_def)
  qed
next
  case True
  note D = window_refill [OF assms(1,3) True assms(4)]
  show ?thesis
  proof (rule that [OF D(1)])
    show "strm_error (refill (double_window br)) = strm_error br"
      by (simp add: double_window_def refill_def)
    show "renorm br = (if rng (refill (double_window br)) < 0x80
        then renorm (refill (double_window br)) else Inr (refill (double_window br)))"
      using D(2-4)
      by (subst renorm.simps) (simp add: double_window_def refill_def read_byte_def Let_def flip: not_less)
  qed
qed

lemma window_rng: "window br r v s \<Longrightarrow> unat (rng br) = r"
  by (simp add: window_def)

lemma renorm_window:
  assumes "window br r v s" and "1 \<le> r" "r < 128" and "shifts r + 17 \<le> s"
  shows "\<exists>br'. renorm br = Inr br' \<and> window br' (r * 2 ^ shifts r) v (s - shifts r) \<and>
    strm_error br' = strm_error br"
  using assms
proof (induction r arbitrary: br s rule: shifts.induct)
  case (1 r)
  have sh: "shifts r = Suc (shifts (2 * r))" using 1(3,4) by (subst shifts.simps) simp
  have s18: "18 \<le> s" using 1(5) sh by simp
  obtain br' where br': "window br' (2 * r) v (s - 1)" "strm_error br' = strm_error br"
      "renorm br = (if rng br' < 0x80 then renorm br' else Inr br')"
    using 1(2-4) s18 by (rule renorm_turn)
  have lt: "rng br' < 0x80 \<longleftrightarrow> 2 * r < 128"
    using window_rng [OF br'(1)] by (simp add: word_less_nat_alt)
  have pw: "r * 2 ^ shifts r = 2 * r * 2 ^ shifts (2 * r)" unfolding sh by simp
  have ss: "s - shifts r = s - 1 - shifts (2 * r)" unfolding sh by simp
  show ?case
  proof (cases "2 * r < 128")
    case True
    moreover have "\<not> (r = 0 \<or> 128 \<le> r)" using 1(3,4) by simp
    moreover have "shifts (2 * r) + 17 \<le> s - 1" using 1(5) sh by simp
    ultimately show ?thesis
      using 1(1) [OF _ br'(1)] 1(3) lt br'(2,3) unfolding pw ss by simp
  next
    case False
    then have "shifts (2 * r) = 0" by (subst shifts.simps) simp
    with False lt br' show ?thesis unfolding pw ss by simp
  qed
qed

text \<open>A read of the code is a read of the exact decoder, as long as the stream lasts.\<close>

definition dsplit :: "VpBoolCoder \<Rightarrow> 32 word \<Rightarrow> 32 word" where
  "dsplit br p = 1 + drop_bit 8 ((rng br - 1) * p)"

lemma decode_split:
  assumes "window br r v s" and "2 \<le> r" "r < 256" "unat p < 256"
  shows "unat (dsplit br p) = split_of (unat p) r"
    and "unat (push_bit 24 (dsplit br p)) = split_of (unat p) r * 2 ^ 24"
    and "val br \<ge> push_bit 24 (dsplit br p) \<longleftrightarrow> split_of (unat p) r * 2 ^ s \<le> v"
proof -
  have r: "unat (rng br) = r" by (rule window_rng [OF assms(1)])
  have "1 \<le> rng br" using r assms(2) by (simp add: word_le_nat_alt)
  then have r1: "unat (rng br - 1) = r - 1" using r by (simp add: unat_sub)
  have "(r - 1) * unat p \<le> 254 * 255" using assms(3,4) by (intro mult_le_mono) auto
  then have "unat ((rng br - 1) * p) = (r - 1) * unat p"
    using r1 by (simp add: unat_word_ariths)
  then have d: "unat (drop_bit 8 ((rng br - 1) * p)) = (r - 1) * unat p div 256"
    by (metis unat_drop_bit_eq drop_bit_eq_div power2_eq_256)
  have b: "1 \<le> split_of (unat p) r" "split_of (unat p) r < r"
    using split_of_bounds [OF assms(2,4)] by auto
  then show sp: "unat (dsplit br p) = split_of (unat p) r"
    using d assms(3) by (simp add: dsplit_def unat_word_ariths split_of_def)
  show bs: "unat (push_bit 24 (dsplit br p)) = split_of (unat p) r * 2 ^ 24"
    using b assms(3) by (simp add: push_bit_eq_mult unat_word_ariths sp)
  show "val br \<ge> push_bit 24 (dsplit br p) \<longleftrightarrow> split_of (unat p) r * 2 ^ s \<le> v"
    using window_compare [OF assms(1), of "split_of (unat p) r"] bs by (simp add: word_le_nat_alt)
qed

lemma window_zero:
  assumes "window br r v s" and "unat w = sp" and "v < sp * 2 ^ s"
  shows "window (br\<lparr>rng := w\<rparr>) sp v s"
proof -
  have u: "unread (br\<lparr>rng := w\<rparr>) = unread br" by (simp add: unread_def)
  obtain x c n where w: "unat (rng br) = r" "unat (cnt br) = c" "1 \<le> c" "c \<le> 8"
      "unat (pos br) \<le> unat (stream_end_pos br)" "unat (stream_end_pos br) \<le> length (buffer br)"
      "length (unread br) = n" "s = 16 + 8 * n + c" "v < r * 2 ^ s"
      "unat (val br) = x * 2 ^ (8 - c)" "v = x * 256 ^ n + be (unread br)"
    using assms(1) by (rule windowE)
  show ?thesis
    by (rule windowI [where x = x and c = c]) (use w u assms(2,3) in simp_all)
qed

lemma window_one:
  assumes "window br r v s" and "unat w = sp" "unat bw = sp * 2 ^ 24"
    and "sp < r" and "sp * 2 ^ s \<le> v"
  shows "window (br\<lparr>rng := rng br - w, val := val br - bw\<rparr>) (r - sp) (v - sp * 2 ^ s) s"
proof -
  let ?br = "br\<lparr>rng := rng br - w, val := val br - bw\<rparr>"
  have u: "unread ?br = unread br" by (simp add: unread_def)
  obtain x c n where w: "unat (rng br) = r" "unat (cnt br) = c" "1 \<le> c" "c \<le> 8"
      "unat (pos br) \<le> unat (stream_end_pos br)" "unat (stream_end_pos br) \<le> length (buffer br)"
      "length (unread br) = n" "s = 16 + 8 * n + c" "v < r * 2 ^ s"
      "unat (val br) = x * 2 ^ (8 - c)" "v = x * 256 ^ n + be (unread br)"
    using assms(1) by (rule windowE)
  have e24: "(2::nat) ^ 24 = 2 ^ (16 + c) * 2 ^ (8 - c)"
    using w(4) by (simp add: power_add [symmetric])
  have es: "(2::nat) ^ s = 2 ^ (16 + c) * 256 ^ n"
    unfolding w(8) by (simp add: power_add power_mult)
  have cmp: "sp * 2 ^ 24 \<le> unat (val br)" using window_compare [OF assms(1)] assms(5) by simp
  have cmpx: "sp * 2 ^ (16 + c) \<le> x"
    using cmp unfolding w(10) e24 by (simp add: mult.assoc [symmetric])
  show ?thesis
  proof (rule windowI [where x = "x - sp * 2 ^ (16 + c)" and c = c])
    have "w \<le> rng br" using w(1) assms(2,4) by (simp add: word_le_nat_alt)
    then show "unat (rng ?br) = r - sp" using w(1) assms(2) by (simp add: unat_sub)
    have "bw \<le> val br" using cmp assms(3) by (simp add: word_le_nat_alt)
    then have "unat (val ?br) = x * 2 ^ (8 - c) - sp * 2 ^ 24"
      using w(10) assms(3) by (simp add: unat_sub)
    then show "unat (val ?br) = (x - sp * 2 ^ (16 + c)) * 2 ^ (8 - c)"
      unfolding e24 by (simp add: diff_mult_distrib mult.assoc)
    have "v - sp * 2 ^ s = x * 256 ^ n + be (unread br) - sp * 2 ^ (16 + c) * 256 ^ n"
      unfolding es w(11) by (simp add: mult.assoc)
    also have "\<dots> = (x - sp * 2 ^ (16 + c)) * 256 ^ n + be (unread br)"
      using mult_le_mono1 [OF cmpx, of "256 ^ n"] by (simp add: diff_mult_distrib)
    finally show "v - sp * 2 ^ s =
        (x - sp * 2 ^ (16 + c)) * 256 ^ length (unread ?br) + be (unread ?br)"
      unfolding u w(7) .
    show "v - sp * 2 ^ s < (r - sp) * 2 ^ s"
      using w(9) assms(5) by (simp add: diff_mult_distrib)
  qed (use w u in simp_all)
qed

lemma Vp9DecodeBool_exact:
  assumes "window br r v s" and "128 \<le> r" "r < 256" "unat p < 256" and "24 \<le> s"
  shows "\<exists>br'. Vp9DecodeBool br p =
      Inr (of_bool (fst (exact_bool (unat p) (r, v, s))), br') \<and>
    (case snd (exact_bool (unat p) (r, v, s)) of (r', v', s') \<Rightarrow> window br' r' v' s') \<and>
    strm_error br' = strm_error br"
proof -
  let ?sp = "split_of (unat p) r"
  have r2: "2 \<le> r" using assms(2) by simp
  note S = decode_split [OF assms(1) r2 assms(3,4)]
  have b: "1 \<le> ?sp" "?sp < r" using split_of_bounds [OF r2 assms(4)] by auto
  obtain br1 r1 v1 t where br1: "window br1 r1 v1 s" "strm_error br1 = strm_error br"
      and r1: "1 \<le> r1" "r1 < 256"
      and step: "Vp9DecodeBool br p = (if rng br1 \<ge> 0x80 then Inr (of_bool t, br1)
         else and_then (renorm br1) (\<lambda>br2. Inr (of_bool t, br2)))"
      and ex: "exact_bool (unat p) (r, v, s) = (t, r1 * 2 ^ shifts r1, v1, s - shifts r1)"
  proof (cases "?sp * 2 ^ s \<le> v")
    case True
    show ?thesis
      by (rule that [OF window_one [OF assms(1) S(1,2) b(2) True], of True])
        (use True S(3) b assms(3) in \<open>auto simp: Vp9DecodeBool_def dsplit_def Let_def\<close>)
  next
    case False
    then have "v < ?sp * 2 ^ s" by simp
    from window_zero [OF assms(1) S(1) this] show ?thesis
      by (rule that [of _ _ _ False])
        (use False S(3) b assms(3) in \<open>auto simp: Vp9DecodeBool_def dsplit_def Let_def\<close>)
  qed
  have ge: "rng br1 \<ge> 0x80 \<longleftrightarrow> 128 \<le> r1"
    using window_rng [OF br1(1)] by (simp add: word_le_nat_alt)
  show ?thesis
  proof (cases "128 \<le> r1")
    case True
    then have "shifts r1 = 0" by (subst shifts.simps) simp
    then show ?thesis using True ge br1 step ex by simp
  next
    case False
    moreover have "shifts r1 + 17 \<le> s" using shifts_le [OF r1(1)] assms(5) by simp
    ultimately show ?thesis
      using renorm_window [OF br1(1) r1(1)] ge br1(2) step ex by auto
  qed
qed

end
