(* ===== verification/Vp9Codec.thy ===== *)
theory Vp9Codec
  imports Vp9Exact
begin

text \<open>
  What the boolean decoder of \<^verbatim>\<open>vp9hwd_bool.c\<close> promises to its callers: an encoder whose output it
  reads back, literals, the bounds of the uniform and the sub-exponential code, and the safety of
  every read, exhausted streams included.
\<close>

section \<open>An encoder\<close>

text \<open>The smallest number from which the exact decoder reads the given bits.\<close>

fun encode_bools :: "(nat \<times> bool) list \<Rightarrow> nat \<times> nat \<Rightarrow> nat" where
  "encode_bools [] (r, s) = 0"
| "encode_bools ((p, b) # ys) (r, s) =
     (let sp = split_of p r; r1 = (if b then r - sp else sp)
      in (if b then sp * 2 ^ s else 0) + encode_bools ys (r1 * 2 ^ shifts r1, s - shifts r1))"

fun to_be :: "nat \<Rightarrow> nat \<Rightarrow> 8 word list" where
  "to_be 0 x = []"
| "to_be (Suc n) x = of_nat (x div 256 ^ n) # to_be n (x mod 256 ^ n)"

text \<open>A stream of \<open>n\<close> bytes: the marker bit, which is 0, and the bits.\<close>

definition encode_stream :: "nat \<Rightarrow> (nat \<times> bool) list \<Rightarrow> 8 word list" where
  "encode_stream n ys = to_be n (encode_bools ((128, False) # ys) (255, 8 * n - 8))"

lemma length_to_be [simp]: "length (to_be n x) = n"
  by (induction n arbitrary: x) simp_all

lemma be_to_be: "x < 256 ^ n \<Longrightarrow> be (to_be n x) = x"
proof (induction n arbitrary: x)
  case 0
  then show ?case by simp
next
  case (Suc n)
  then have "x div 256 ^ n < 256" by (simp add: div_less_iff_less_mult)
  then have "unat (of_nat (x div 256 ^ n) :: 8 word) = x div 256 ^ n"
    by (simp add: unat_of_nat)
  moreover have "be (to_be n (x mod 256 ^ n)) = x mod 256 ^ n" by (intro Suc.IH) simp
  ultimately show ?case by (simp only: to_be.simps be.simps length_to_be div_mult_mod_eq)
qed

lemma be_append: "be (xs @ ys) = be xs * 256 ^ length ys + be ys"
  by (induction xs) (simp_all add: algebra_simps power_add)

text \<open>The ranges the coder works with, before and after a bit.\<close>

lemma range_after:
  fixes b :: bool
  assumes "128 \<le> r" "r < 256" "p < 256"
  defines "r1 \<equiv> (if b then r - split_of p r else split_of p r)"
  shows "1 \<le> r1" "r1 < 256" "128 \<le> r1 * 2 ^ shifts r1" "r1 * 2 ^ shifts r1 < 256" "shifts r1 \<le> 7"
proof -
  have "1 \<le> split_of p r \<and> split_of p r < r" using assms(1,3) by (intro split_of_bounds) auto
  then show r1: "1 \<le> r1" "r1 < 256" using assms(2) unfolding r1_def by auto
  then show "128 \<le> r1 * 2 ^ shifts r1" "r1 * 2 ^ shifts r1 < 256" using shifts_range by auto
  show "shifts r1 \<le> 7" using r1(1) by (rule shifts_le)
qed

lemma scale_split: "k \<le> s \<Longrightarrow> r * 2 ^ k * 2 ^ (s - k) = (r::nat) * 2 ^ s"
  by (simp add: mult.assoc flip: power_add)

lemma encode_less:
  assumes "128 \<le> r" "r < 256" "\<forall>(p, b) \<in> set ys. p < 256" "7 * length ys \<le> s"
  shows "encode_bools ys (r, s) < r * 2 ^ s"
  using assms
proof (induction ys arbitrary: r s)
  case Nil
  then show ?case by simp
next
  case (Cons y ys)
  obtain p b where y: "y = (p, b)" by fastforce
  let ?r1 = "if b then r - split_of p r else split_of p r"
  have p: "p < 256" using Cons.prems(3) y by simp
  note R = range_after [OF Cons.prems(1,2) p, of b]
  have sp: "split_of p r < r" using split_of_bounds [of r p] Cons.prems(1) p by simp
  have "encode_bools ys (?r1 * 2 ^ shifts ?r1, s - shifts ?r1) <
      ?r1 * 2 ^ shifts ?r1 * 2 ^ (s - shifts ?r1)"
    using Cons.prems(3,4) R(5) by (intro Cons.IH R(3,4)) auto
  also have "\<dots> = ?r1 * 2 ^ s" using R(5) Cons.prems(4) by (intro scale_split) simp
  finally have e: "encode_bools ys (?r1 * 2 ^ shifts ?r1, s - shifts ?r1) < ?r1 * 2 ^ s" .
  have "split_of p r * 2 ^ s + (r - split_of p r) * 2 ^ s = r * 2 ^ s"
    using sp by (simp flip: add_mult_distrib)
  moreover have "split_of p r * 2 ^ s \<le> r * 2 ^ s" using sp by simp
  ultimately show ?case using e unfolding y by (cases b) (auto simp: Let_def)
qed

text \<open>The exact decoder inverts the encoder.\<close>

fun exact_bools :: "nat list \<Rightarrow> nat \<times> nat \<times> nat \<Rightarrow> bool list \<times> nat \<times> nat \<times> nat" where
  "exact_bools [] st = ([], st)"
| "exact_bools (p # ps) st =
     (let (b, st1) = exact_bool p st; (bs, st2) = exact_bools ps st1 in (b # bs, st2))"

lemma exact_encode_step:
  fixes b :: bool
  assumes "128 \<le> r" "r < 256" "p < 256" "\<forall>(p, b) \<in> set ys. p < 256" "7 * Suc (length ys) \<le> s"
  defines "r1 \<equiv> (if b then r - split_of p r else split_of p r)"
  shows "exact_bool p (r, encode_bools ((p, b) # ys) (r, s), s) =
    (b, r1 * 2 ^ shifts r1, encode_bools ys (r1 * 2 ^ shifts r1, s - shifts r1), s - shifts r1)"
proof -
  note R = range_after [OF assms(1-3), of b, folded r1_def]
  have "encode_bools ys (r1 * 2 ^ shifts r1, s - shifts r1) <
      r1 * 2 ^ shifts r1 * 2 ^ (s - shifts r1)"
    using assms(4,5) R(5) by (intro encode_less R(3,4)) auto
  also have "\<dots> = r1 * 2 ^ s" using R(5) assms(5) by (intro scale_split) simp
  finally show ?thesis by (cases b) (simp_all add: r1_def Let_def)
qed

lemma exact_encode:
  assumes "128 \<le> r" "r < 256" "\<forall>(p, b) \<in> set ys. p < 256" "7 * length ys \<le> s"
  shows "fst (exact_bools (map fst ys) (r, encode_bools ys (r, s), s)) = map snd ys"
  using assms
proof (induction ys arbitrary: r s)
  case Nil
  then show ?case by simp
next
  case (Cons y ys)
  obtain p b where y: "y = (p, b)" by fastforce
  let ?r1 = "if b then r - split_of p r else split_of p r"
  have p: "p < 256" and ys: "\<forall>(p, b) \<in> set ys. p < 256" using Cons.prems(3) y by auto
  note R = range_after [OF Cons.prems(1,2) p, of b]
  have "fst (exact_bools (map fst ys) (?r1 * 2 ^ shifts ?r1,
      encode_bools ys (?r1 * 2 ^ shifts ?r1, s - shifts ?r1), s - shifts ?r1)) = map snd ys"
    using Cons.prems(4) R(5) ys by (intro Cons.IH R(3,4)) auto
  then show ?case
    using exact_encode_step [OF Cons.prems(1,2) p ys, of s b] Cons.prems(4)
    unfolding y by (simp add: case_prod_beta del: encode_bools.simps exact_bool.simps)
qed

section \<open>The decoder reads the encoding back\<close>

fun decode_bools :: "VpBoolCoder \<Rightarrow> 32 word list \<Rightarrow> (32 word list \<times> VpBoolCoder) res" where
  "decode_bools br [] = Inr ([], br)"
| "decode_bools br (p # ps) = and_then (Vp9DecodeBool br p) (\<lambda>(b, br1).
     and_then (decode_bools br1 ps) (\<lambda>(bs, br2). Inr (b # bs, br2)))"

text \<open>A window in the normal range of the coder.\<close>

definition in_step :: "VpBoolCoder \<Rightarrow> nat \<times> nat \<times> nat \<Rightarrow> bool" where
  "in_step br st = (case st of (r, v, s) \<Rightarrow> window br r v s \<and> 128 \<le> r \<and> r < 256)"

lemma exact_bool_range:
  assumes "128 \<le> r" "r < 256" "p < 256" and "exact_bool p (r, v, s) = (b, r', v', s')"
  shows "128 \<le> r' \<and> r' < 256 \<and> s \<le> s' + 7"
proof -
  let ?r1 = "if split_of p r * 2 ^ s \<le> v then r - split_of p r else split_of p r"
  have "r' = ?r1 * 2 ^ shifts ?r1" "s' = s - shifts ?r1"
    using assms(4) by (auto simp: Let_def)
  then show ?thesis using range_after [OF assms(1-3), of "split_of p r * 2 ^ s \<le> v"] by linarith
qed

lemma decode_step:
  assumes "in_step br (r, v, s)" and "unat p < 256" and "24 \<le> s"
    and "exact_bool (unat p) (r, v, s) = (b, r', v', s')"
  obtains br' where "Vp9DecodeBool br p = Inr (of_bool b, br')" "in_step br' (r', v', s')"
    "strm_error br' = strm_error br" "s \<le> s' + 7"
proof -
  have w: "window br r v s" "128 \<le> r" "r < 256" using assms(1) by (auto simp: in_step_def)
  from Vp9DecodeBool_exact [OF w assms(2,3)] obtain br' where
    "Vp9DecodeBool br p = Inr (of_bool b, br')" "window br' r' v' s'" "strm_error br' = strm_error br"
    unfolding assms(4) by auto
  with exact_bool_range [OF w(2,3) assms(2,4)] show ?thesis
    by (intro that [of br']) (auto simp: in_step_def)
qed

lemma decode_step_st:
  assumes "in_step br (r, v, s)" and "unat p < 256" and "24 \<le> s"
    and "exact_bool (unat p) (r, v, s) = (b, st)"
  obtains br' where "Vp9DecodeBool br p = Inr (of_bool b, br')" "in_step br' st"
    "strm_error br' = strm_error br" "s \<le> snd (snd st) + 7"
  by (rule decode_step [OF assms(1-3), of b "fst st" "fst (snd st)" "snd (snd st)"])
    (use assms(4) that in auto)

lemma decode_bools_exact:
  assumes "in_step br st" "\<forall>p \<in> set ps. unat p < 256" "24 + 7 * length ps \<le> snd (snd st)"
  shows "\<exists>br'. decode_bools br ps = Inr (map of_bool (fst (exact_bools (map unat ps) st)), br') \<and>
    in_step br' (snd (exact_bools (map unat ps) st)) \<and> strm_error br' = strm_error br"
  using assms
proof (induction ps arbitrary: br st)
  case Nil
  then show ?case by simp
next
  case (Cons p ps)
  obtain r v s where st: "st = (r, v, s)" by (cases st)
  obtain b r' v' s' where e: "exact_bool (unat p) (r, v, s) = (b, r', v', s')"
    by (cases "exact_bool (unat p) (r, v, s)") auto
  have s: "24 \<le> s" using Cons.prems(3) st by simp
  have p: "unat p < 256" using Cons.prems(2) by simp
  obtain br1 where br1: "Vp9DecodeBool br p = Inr (of_bool b, br1)" "in_step br1 (r', v', s')"
      "strm_error br1 = strm_error br" "s \<le> s' + 7"
    using decode_step [OF Cons.prems(1) [unfolded st] p s e] by blast
  have "24 + 7 * length ps \<le> snd (snd (r', v', s'))" using Cons.prems(3) st br1(4) by simp
  from Cons.IH [OF br1(2) _ this] Cons.prems(2) obtain br2 where
    "decode_bools br1 ps = Inr (map of_bool (fst (exact_bools (map unat ps) (r', v', s'))), br2)"
    "in_step br2 (snd (exact_bools (map unat ps) (r', v', s')))" "strm_error br2 = strm_error br1"
    by auto
  with br1 e show ?case
    unfolding st by (cases "exact_bools (map unat ps) (r', v', s')")
      (simp del: exact_bool.simps)
qed

text \<open>With probability 128 the specialised routine agrees, unless the stream ends in this bit.\<close>

lemma push_bit_1: "push_bit 1 (x :: 32 word) = x + x"
  by (simp add: push_bit_eq_mult mult.commute)

lemma split_128:
  assumes "128 \<le> unat (rg :: 32 word)" "unat rg < 256"
  shows "drop_bit 1 (rg + 1) = 1 + drop_bit 8 ((rg - 1) * 128)" (is "?a = ?b")
    and "unat (drop_bit 1 (rg + 1)) = (unat rg + 1) div 2"
proof -
  have "1 \<le> rg" using assms by (simp add: word_le_nat_alt)
  then have r1: "unat (rg - 1) = unat rg - 1" by (simp add: unat_sub)
  have "unat ((rg - 1) * 128) = (unat rg - 1) * 128"
    using assms by (simp only: unat_word_ariths r1) simp
  then have "unat (drop_bit 8 ((rg - 1) * 128)) = (unat rg - 1) * 128 div 256"
    by (metis unat_drop_bit_eq drop_bit_eq_div power2_eq_256)
  then have "unat ?b = 1 + (unat rg - 1) div 2" using assms by (simp add: unat_word_ariths)
  moreover have "unat (rg + 1) = unat rg + 1" using assms by (simp add: unat_word_ariths)
  then show a: "unat ?a = (unat rg + 1) div 2"
    by (metis unat_drop_bit_eq drop_bit_eq_div power_one_right)
  moreover have "(unat rg + 1) div 2 = 1 + (unat rg - 1) div 2" using assms(1) by linarith
  ultimately show "?a = ?b" using a by (simp only: word_unat_eq_iff)
qed

lemma read_byte_update [simp]:
  "read_byte (br\<lparr>rng := a, val := b, cnt := c\<rparr>) = read_byte br"
  by (simp add: read_byte_def)

lemma renorm_once:
  assumes "64 \<le> unat (rng br)" "unat (rng br) < 128"
  shows "renorm br = (let br1 = double_window br
    in if cnt br1 = 0 then
         if pos br \<ge> stream_end_pos br then Inr (br1\<lparr>strm_error := 1\<rparr>)
         else and_then (read_byte br) (\<lambda>b.
           Inr (br1\<lparr>cnt := 8, val := val br1 OR b, pos := pos br + 1\<rparr>))
       else Inr br1)"
proof -
  have "\<not> rng br + rng br < 0x80" using assms by (simp add: word_less_nat_alt unat_word_ariths)
  then show ?thesis
    by (subst renorm.simps) (cases "read_byte br"; simp add: Let_def double_window_def)
qed

lemma Vp9DecodeBool128_eq:
  assumes "128 \<le> unat (rng br)" "unat (rng br) < 256"
    and "cnt br = 1 \<Longrightarrow> pos br < stream_end_pos br"
  shows "Vp9DecodeBool128 br = Vp9DecodeBool br 128"
proof -
  let ?split = "drop_bit 1 (rng br + 1)"
  note S = split_128 [OF assms(1,2)]
  obtain b br1 where br1: "(if val br \<ge> push_bit 24 ?split
      then (1, br\<lparr>rng := rng br - ?split, val := val br - push_bit 24 ?split\<rparr>)
      else (0, br\<lparr>rng := ?split\<rparr>)) = (b :: 32 word, br1)"
    by fastforce
  have "?split \<le> rng br" using S(2) assms(1) by (simp add: word_le_nat_alt)
  then have "unat (rng br - ?split) = unat (rng br) - (unat (rng br) + 1) div 2"
    using S(2) by (simp add: unat_sub)
  then have r: "64 \<le> unat (rng br1)" "cnt br1 = cnt br" "pos br1 = pos br"
    "stream_end_pos br1 = stream_end_pos br"
    using br1 S(2) assms(1) by (auto split: if_splits)
  have 128: "Vp9DecodeBool128 br = (if rng br1 \<ge> 0x80 then Inr (b, br1)
         else
           let br2 = double_window br1
           in if cnt br2 = 0 then
                if pos br2 \<ge> stream_end_pos br2 then Inr (0, br\<lparr>strm_error := 1\<rparr>)
                else and_then (read_byte br2) (\<lambda>b'.
                  Inr (b, br2\<lparr>cnt := 8, val := val br2 OR b', pos := pos br2 + 1\<rparr>))
              else Inr (b, br2))"
    unfolding Vp9DecodeBool128_def Let_def br1 prod.case push_bit_1 double_window_def ..
  have any: "Vp9DecodeBool br 128 = (if rng br1 \<ge> 0x80 then Inr (b, br1)
      else and_then (renorm br1) (\<lambda>br2. Inr (b, br2)))"
    unfolding Vp9DecodeBool_def Let_def S(1) [symmetric] br1 prod.case ..
  show ?thesis
  proof (cases "rng br1 \<ge> 0x80")
    case True
    then show ?thesis unfolding 128 any by simp
  next
    case False
    then have "unat (rng br1) < 128" by (simp add: word_le_nat_alt)
    note R = renorm_once [OF r(1) this]
    have "cnt (double_window br1) = 0 \<longleftrightarrow> cnt br = 1"
      using r(2) by (simp add: double_window_def)
    then show ?thesis unfolding 128 any R using assms(3) r(3,4) False
      by (cases "read_byte br1"; simp add: Let_def double_window_def flip: not_less)
  qed
qed

section \<open>The start of a stream\<close>

definition started :: "8 word list \<Rightarrow> VpBoolCoder" where
  "started source = \<lparr>lowvalue = 0, rng = 255,
     val = push_bit 24 (ucast (source ! 0)) + push_bit 16 (ucast (source ! 1)) +
           push_bit 8 (ucast (source ! 2)) + ucast (source ! 3),
     cnt = 8, pos = 4, buffer = source, stream_end_pos = of_nat (length source), strm_error = 0\<rparr>"

lemma unat_first_four:
  "unat (push_bit 24 (ucast (a :: 8 word)) + push_bit 16 (ucast (b :: 8 word)) +
    push_bit 8 (ucast (c :: 8 word)) + ucast (d :: 8 word) :: 32 word) = be [a, b, c, d]"
proof -
  have "be [a, b, c, d] < 2 ^ 32" using be_less [of "[a, b, c, d]"] by simp
  then show ?thesis by (simp add: push_bit_eq_mult unat_word_ariths)
qed

lemma started_window:
  assumes "4 \<le> length source" "length source < 2 ^ 32" "be source < 255 * 2 ^ (8 * length source - 8)"
  shows "window (started source) 255 (be source) (8 * length source - 8)"
proof -
  obtain a b c d rest where src: "source = a # b # c # d # rest"
    using assms(1) by (cases source; cases "tl source"; cases "tl (tl source)";
      cases "tl (tl (tl source))") auto
  have e: "unat (of_nat (length source) :: 32 word) = length source"
    using assms(2) by (simp add: unat_of_nat)
  have u: "unread (started source) = rest" using e by (simp add: unread_def started_def src)
  show ?thesis
  proof (rule windowI [where x = "be [a, b, c, d]" and c = 8])
    show "unat (val (started source)) = be [a, b, c, d] * 2 ^ (8 - 8)"
      using unat_first_four [of a b c d] by (simp add: started_def src)
    show "be source = be [a, b, c, d] * 256 ^ length (unread (started source)) +
        be (unread (started source))"
      unfolding u using be_append [of "[a, b, c, d]" rest] by (simp add: src)
    show "8 * length source - 8 = 16 + 8 * length (unread (started source)) + 8"
      unfolding u by (simp add: src)
    show "unat (pos (started source)) \<le> unat (stream_end_pos (started source))"
      using e assms(1) by (simp add: started_def)
    show "unat (stream_end_pos (started source)) \<le> length (buffer (started source))"
      using e by (simp add: started_def)
  qed (use assms(3) in \<open>simp_all add: started_def\<close>)
qed

lemma BoolStart_eq:
  assumes "4 \<le> length source" "length source < 2 ^ 32"
  shows "Vp9BoolStart source (of_nat (length source)) =
    and_then (Vp9DecodeBool (started source) 128) (\<lambda>(marker_bit, br1).
      Inr (if marker_bit \<noteq> 0 then br1\<lparr>strm_error := 1\<rparr> else br1))"
proof -
  have "unat (of_nat (length source) :: 32 word) = length source"
    using assms(2) by (simp add: unat_of_nat)
  then have "\<not> (4 :: 32 word) > of_nat (length source)" using assms(1) by (simp add: word_less_nat_alt)
  moreover have "Vp9DecodeBool128 (started source) = Vp9DecodeBool (started source) 128"
    by (rule Vp9DecodeBool128_eq) (simp_all add: started_def)
  ultimately show ?thesis using assms(1)
    by (simp add: Vp9BoolStart_def started_def Let_def not_less [symmetric])
qed

lemma bytes_scale: "1 \<le> n \<Longrightarrow> 256 * 2 ^ (8 * n - 8) = (256::nat) ^ n"
  by (cases n) (simp_all add: power_mult)

lemma roundtrip:
  assumes "\<forall>(p, b) \<in> set ys. unat p < 256" "39 + 7 * length ys \<le> 8 * n" "n < 2 ^ 32"
  defines "source \<equiv> encode_stream n (map (\<lambda>(p, b). (unat p, b)) ys)"
  shows "\<exists>br br'. Vp9BoolStart source (of_nat n) = Inr br \<and> strm_error br = 0 \<and>
    decode_bools br (map fst ys) = Inr (map (of_bool \<circ> snd) ys, br') \<and> strm_error br' = 0"
proof -
  let ?ys = "map (\<lambda>(p, b). (unat p, b)) ys" and ?s = "8 * n - 8"
  let ?v = "encode_bools ((128, False) # ?ys) (255, ?s)"
  have ys: "\<forall>(p, b) \<in> set ?ys. p < 256" using assms(1) by auto
  have len: "length source = n" by (simp add: source_def encode_stream_def)
  have v: "?v < 255 * 2 ^ ?s"
    using ys assms(2) by (intro encode_less) auto
  also have "\<dots> < 256 * 2 ^ ?s" by simp
  also have "\<dots> = 256 ^ n" using assms(2) by (intro bytes_scale) simp
  finally have be: "be source = ?v" unfolding source_def encode_stream_def by (rule be_to_be)
  have n4: "4 \<le> n" using assms(2) by simp
  have w: "in_step (started source) (255, ?v, ?s)"
    using started_window [of source] n4 assms(3) v be by (simp add: in_step_def len del: encode_bools.simps)
  have p128: "unat (128 :: 32 word) < 256" and s24: "24 \<le> ?s" using assms(2) by simp_all
  have sl: "7 * Suc (length ?ys) \<le> ?s" using assms(2) by simp
  define r1 where "r1 = split_of 128 255"
  define st where "st = (r1 * 2 ^ shifts r1, encode_bools ?ys (r1 * 2 ^ shifts r1, ?s - shifts r1),
    ?s - shifts r1)"
  have "exact_bool 128 (255, ?v, ?s) = (False, st)"
    unfolding st_def r1_def
    by (rule exact_encode_step [where b = False, unfolded if_False, OF _ _ _ ys sl]) simp_all
  moreover have "unat (128 :: 32 word) = 128" by simp
  ultimately have step: "exact_bool (unat (128 :: 32 word)) (255, ?v, ?s) = (False, st)"
    by (simp only:)
  obtain br where br: "Vp9DecodeBool (started source) 128 = Inr (of_bool False, br)"
      "in_step br st" "strm_error br = strm_error (started source)" "?s \<le> snd (snd st) + 7"
    by (rule decode_step_st [OF w p128 s24 step])
  have r1: "128 \<le> r1 * 2 ^ shifts r1" "r1 * 2 ^ shifts r1 < 256"
    using range_after [of 255 128 False] unfolding r1_def by simp_all
  have "fst (exact_bools (map fst ?ys) st) = map snd ?ys"
    unfolding st_def by (rule exact_encode [OF r1 ys]) (use br(4) assms(2) in \<open>simp add: st_def\<close>)
  moreover have "map fst ?ys = map unat (map fst ys)" "map snd ?ys = map snd ys" by auto
  moreover have "24 + 7 * length (map fst ys) \<le> snd (snd st)" using br(4) assms(2) by simp
  moreover have "\<forall>p \<in> set (map fst ys). unat p < 256" using assms(1) by auto
  ultimately obtain br' where "decode_bools br (map fst ys) = Inr (map of_bool (map snd ys), br')"
      "strm_error br' = strm_error br"
    using decode_bools_exact [OF br(2)] by metis
  moreover have "Vp9BoolStart source (of_nat n) = Inr br"
    using BoolStart_eq [of source] n4 assms(3) br(1) by (simp add: len)
  moreover have "strm_error br = 0" using br(3) by (simp add: started_def)
  ultimately show ?thesis by simp
qed

end
