(* ===== verification/Vp9Codes.thy ===== *)
theory Vp9Codes
  imports Vp9Codec
begin

text \<open>
  Safety and bounds of the reads of \<^verbatim>\<open>vp9hwd_bool.c\<close> on any stream, a truncated one included: no
  read leaves the buffer, the range stays a byte, and what the uniform and the sub-exponential
  code give is a legal symbol.
\<close>

section \<open>Every read is safe\<close>

definition reader_ok :: "VpBoolCoder \<Rightarrow> bool" where
  "reader_ok br \<longleftrightarrow> unat (stream_end_pos br) \<le> length (buffer br) \<and>
     2 \<le> unat (rng br) \<and> unat (rng br) < 256"

text \<open>What a read leaves alone.\<close>

definition same_stream :: "VpBoolCoder \<Rightarrow> VpBoolCoder \<Rightarrow> bool" where
  "same_stream br br' \<longleftrightarrow> buffer br' = buffer br \<and> stream_end_pos br' = stream_end_pos br"

lemma same_stream_trans: "same_stream a b \<Longrightarrow> same_stream b c \<Longrightarrow> same_stream a c"
  by (simp add: same_stream_def)

lemma reader_okI:
  assumes "reader_ok br" "same_stream br br'" "2 \<le> unat (rng br')" "unat (rng br') < 256"
  shows "reader_ok br'"
  using assms by (simp add: reader_ok_def same_stream_def)

lemma renorm_safe:
  assumes "unat (stream_end_pos br) \<le> length (buffer br)"
    and "1 \<le> unat (rng br)" "unat (rng br) < 128"
  shows "\<exists>br'. renorm br = Inr br' \<and> same_stream br br' \<and> 2 \<le> unat (rng br') \<and> unat (rng br') < 256"
  using assms
proof (induction br rule: renorm.induct)
  case (1 br)
  let ?d = "double_window br"
  have d: "unat (rng ?d) = 2 * unat (rng br)"
    using 1(4,5) by (simp add: double_window_def unat_word_ariths)
  have lt: "rng ?d < 0x80 \<longleftrightarrow> 2 * unat (rng br) < 128"
    using d by (simp add: word_less_nat_alt)
  have same: "same_stream br ?d" by (simp add: same_stream_def double_window_def)
  show ?case
  proof (cases "cnt ?d = 0")
    case False
    show ?thesis
    proof (cases "rng ?d < 0x80")
      case True
      have "\<exists>br'. renorm ?d = Inr br' \<and> same_stream ?d br' \<and> 2 \<le> unat (rng br') \<and> unat (rng br') < 256"
        using 1(2) [OF refl] False True d lt 1(3,4)
        by (simp add: double_window_def)
      moreover have "renorm br = renorm ?d" using False True
        by (subst renorm.simps) (simp add: double_window_def Let_def)
      ultimately show ?thesis using same same_stream_trans by metis
    next
      case F: False
      then have "renorm br = Inr ?d" using False
        by (subst renorm.simps) (simp add: double_window_def Let_def)
      then show ?thesis using same d 1(4,5) by simp
    qed
  next
    case True
    show ?thesis
    proof (cases "pos br \<ge> stream_end_pos br")
      case eos: True
      then have "renorm br = Inr (?d\<lparr>strm_error := 1\<rparr>)" using True
        by (subst renorm.simps) (simp add: double_window_def Let_def)
      then show ?thesis using d 1(4,5) by (simp add: same_stream_def double_window_def)
    next
      case False
      then have p: "unat (pos br) < length (buffer br)" using 1(3) by (simp add: word_le_nat_alt)
      then have b: "read_byte br = Inr (ucast (buffer br ! unat (pos br)))"
        by (simp add: read_byte_def)
      let ?r = "refill ?d"
      have r: "rng ?r = rng ?d" "same_stream br ?r"
        by (simp_all add: refill_def same_stream_def double_window_def)
      have go: "renorm br = (if rng ?r < 0x80 then renorm ?r else Inr ?r)" using False True b
        by (subst renorm.simps) (simp add: double_window_def Let_def refill_def)
      show ?thesis
      proof (cases "rng ?d < 0x80")
        case small: True
        have "\<exists>br'. renorm ?r = Inr br' \<and> same_stream ?r br' \<and> 2 \<le> unat (rng br') \<and> unat (rng br') < 256"
          using 1(1) [OF refl _ _ _ refl] True False small d lt 1(3,4) b
          by (simp add: double_window_def refill_def)
        then show ?thesis using go small r same_stream_trans by (metis (no_types))
      next
        case F: False
        then show ?thesis using go r d 1(4,5) by simp
      qed
    qed
  qed
qed

lemma split_range:
  assumes "2 \<le> unat rg" "unat rg < 256" "unat p < 256"
  shows "1 \<le> unat (1 + drop_bit 8 ((rg - 1) * p :: 32 word))"
    "unat (1 + drop_bit 8 ((rg - 1) * p)) < unat rg"
proof -
  have "1 \<le> rg" using assms by (simp add: word_le_nat_alt)
  then have r1: "unat (rg - 1) = unat rg - 1" by (simp add: unat_sub)
  have "(unat rg - 1) * unat p \<le> 254 * 255" using assms by (intro mult_le_mono) auto
  then have "unat ((rg - 1) * p) = (unat rg - 1) * unat p"
    by (simp only: unat_word_ariths r1) simp
  then have "unat (drop_bit 8 ((rg - 1) * p)) = (unat rg - 1) * unat p div 256"
    by (metis unat_drop_bit_eq drop_bit_eq_div power2_eq_256)
  moreover have "1 \<le> split_of (unat p) (unat rg) \<and> split_of (unat p) (unat rg) < unat rg"
    using assms by (intro split_of_bounds) auto
  ultimately show "1 \<le> unat (1 + drop_bit 8 ((rg - 1) * p))"
    "unat (1 + drop_bit 8 ((rg - 1) * p)) < unat rg"
    using assms(2) by (simp_all add: split_of_def unat_word_ariths)
qed

lemma DecodeBool_safe:
  assumes "reader_ok br" "unat p < 256"
  shows "\<exists>b br'. Vp9DecodeBool br p = Inr (b, br') \<and> (b = 0 \<or> b = 1) \<and> reader_ok br' \<and>
    same_stream br br'"
proof -
  let ?split = "1 + drop_bit 8 ((rng br - 1) * p)"
  have r: "2 \<le> unat (rng br)" "unat (rng br) < 256" using assms(1) by (auto simp: reader_ok_def)
  note S = split_range [OF r assms(2)]
  obtain b br1 where br1: "(if val br \<ge> push_bit 24 ?split
      then (1, br\<lparr>rng := rng br - ?split, val := val br - push_bit 24 ?split\<rparr>)
      else (0, br\<lparr>rng := ?split\<rparr>)) = (b :: 32 word, br1)"
    by fastforce
  have "?split \<le> rng br" using S(2) by (simp add: word_le_nat_alt)
  then have "unat (rng br - ?split) = unat (rng br) - unat ?split" by (rule unat_sub)
  then have r1: "1 \<le> unat (rng br1)" "unat (rng br1) < 256" "same_stream br br1" "b = 0 \<or> b = 1"
    using br1 S r(2) by (auto simp: same_stream_def split: if_splits)
  have e: "unat (stream_end_pos br1) \<le> length (buffer br1)"
    using assms(1) r1(3) by (simp add: reader_ok_def same_stream_def)
  have any: "Vp9DecodeBool br p = (if rng br1 \<ge> 0x80 then Inr (b, br1)
      else and_then (renorm br1) (\<lambda>br2. Inr (b, br2)))"
    unfolding Vp9DecodeBool_def Let_def br1 prod.case ..
  show ?thesis
  proof (cases "rng br1 \<ge> 0x80")
    case True
    then have "reader_ok br1"
      using r1 by (intro reader_okI [OF assms(1) r1(3)]) (auto simp: word_le_nat_alt)
    then show ?thesis using True any r1 by simp
  next
    case False
    then have "unat (rng br1) < 128" by (simp add: word_le_nat_alt)
    from renorm_safe [OF e r1(1) this] obtain br2 where br2: "renorm br1 = Inr br2"
      "same_stream br1 br2" "2 \<le> unat (rng br2)" "unat (rng br2) < 256" by blast
    have same: "same_stream br br2" by (rule same_stream_trans [OF r1(3) br2(2)])
    then have "reader_ok br2" using reader_okI [OF assms(1)] br2(3,4) by blast
    then show ?thesis using any False br2(1) r1(4) same by simp
  qed
qed

lemma DecodeBool128_safe:
  assumes "reader_ok br"
  shows "\<exists>b br'. Vp9DecodeBool128 br = Inr (b, br') \<and> (b = 0 \<or> b = 1) \<and> reader_ok br' \<and>
    same_stream br br'"
proof -
  let ?split = "drop_bit 1 (rng br + 1)"
  have r: "2 \<le> unat (rng br)" "unat (rng br) < 256" using assms(1) by (auto simp: reader_ok_def)
  then have "unat (rng br + 1) = unat (rng br) + 1" by (simp add: unat_word_ariths)
  then have S: "unat ?split = (unat (rng br) + 1) div 2"
    by (metis unat_drop_bit_eq drop_bit_eq_div power_one_right)
  obtain b br1 where br1: "(if val br \<ge> push_bit 24 ?split
      then (1, br\<lparr>rng := rng br - ?split, val := val br - push_bit 24 ?split\<rparr>)
      else (0, br\<lparr>rng := ?split\<rparr>)) = (b :: 32 word, br1)"
    by fastforce
  have "?split \<le> rng br" using S r by (simp add: word_le_nat_alt)
  then have "unat (rng br - ?split) = unat (rng br) - unat ?split" by (rule unat_sub)
  then have r1: "1 \<le> unat (rng br1)" "unat (rng br1) < 256" "same_stream br br1" "b = 0 \<or> b = 1"
    using br1 S r by (auto simp: same_stream_def split: if_splits)
  let ?d = "double_window br1"
  have same: "same_stream br ?d" using r1(3) by (simp add: same_stream_def double_window_def)
  have run: "Vp9DecodeBool128 br = (if rng br1 \<ge> 0x80 then Inr (b, br1)
         else if cnt ?d = 0 then
                if pos ?d \<ge> stream_end_pos ?d then Inr (0, br\<lparr>strm_error := 1\<rparr>)
                else and_then (read_byte ?d) (\<lambda>b'.
                  Inr (b, ?d\<lparr>cnt := 8, val := val ?d OR b', pos := pos ?d + 1\<rparr>))
              else Inr (b, ?d))"
    unfolding Vp9DecodeBool128_def Let_def br1 prod.case push_bit_1 double_window_def ..
  show ?thesis
  proof (cases "rng br1 \<ge> 0x80")
    case True
    then have "reader_ok br1"
      using r1 by (intro reader_okI [OF assms(1) r1(3)]) (auto simp: word_le_nat_alt)
    then show ?thesis using True run r1 by simp
  next
    case False
    then have "unat (rng br1) < 128" by (simp add: word_le_nat_alt)
    then have "unat (rng ?d) = 2 * unat (rng br1)" "unat (rng br1) < 128"
      by (simp_all add: double_window_def unat_word_ariths)
    then have ok: "reader_ok ?d" using r1(1) by (intro reader_okI [OF assms same]) auto
    show ?thesis
    proof (cases "cnt ?d = 0 \<and> pos ?d \<ge> stream_end_pos ?d")
      case True
      then show ?thesis using run False assms by (auto simp: reader_ok_def same_stream_def)
    next
      case F: False
      then show ?thesis
        using run False ok same r1(4)
        by (auto simp: read_byte_def reader_ok_def same_stream_def word_le_nat_alt)
    qed
  qed
qed

section \<open>Literals\<close>

lemma below_bits: "(\<forall>i. bit (w :: 32 word) i \<longrightarrow> i < n) \<Longrightarrow> unat w < 2 ^ n"
proof -
  assume "\<forall>i. bit w i \<longrightarrow> i < n"
  then have "take_bit n w = w" by (auto simp: bit_eq_iff bit_simps)
  then have "unat w = take_bit n (unat w)" by (metis unsigned_take_bit_eq)
  then show ?thesis by (metis take_bit_nat_less_exp)
qed

lemma read_bits_from_safe:
  assumes "reader_ok br" "\<forall>i. bit z i \<longrightarrow> i < m" "n \<le> m"
  shows "\<exists>z' br'. read_bits_from n z br = Inr (z', br') \<and> (\<forall>i. bit z' i \<longrightarrow> i < m) \<and>
    reader_ok br' \<and> same_stream br br'"
  using assms
proof (induction n arbitrary: z br)
  case 0
  then show ?case by (simp add: same_stream_def)
next
  case (Suc n)
  obtain b br1 where b: "Vp9DecodeBool128 br = Inr (b, br1)" "b = 0 \<or> b = 1" "reader_ok br1"
      "same_stream br br1"
    using DecodeBool128_safe [OF Suc.prems(1)] by blast
  have "\<forall>i. bit (z OR push_bit n b) i \<longrightarrow> i < m"
    using b(2) Suc.prems(2,3) by (auto simp: bit_simps)
  from Suc.IH [OF b(3) this] Suc.prems(3) obtain z' br' where
    "read_bits_from n (z OR push_bit n b) br1 = Inr (z', br')" "\<forall>i. bit z' i \<longrightarrow> i < m"
    "reader_ok br'" "same_stream br1 br'"
    by auto
  with b(1,4) show ?case using same_stream_trans by auto
qed

lemma ReadBits_safe:
  assumes "reader_ok br"
  obtains z br' where "Vp9ReadBits br n = Inr (z, br')" "unat z < 2 ^ nat n" "reader_ok br'"
    "same_stream br br'"
  using read_bits_from_safe [OF assms, of 0 "nat n" "nat n"] below_bits
  unfolding Vp9ReadBits_def by auto

section \<open>The uniform and the sub-exponential code\<close>

lemma bit_length_bounds: "1 \<le> n \<Longrightarrow> 2 ^ (bit_length n - 1) \<le> n \<and> n < 2 ^ bit_length n \<and> 1 \<le> bit_length n"
proof (induction n rule: bit_length.induct)
  case (1 n)
  have bl: "bit_length n = Suc (bit_length (n div 2))" using 1(2) by (subst bit_length.simps) simp
  show ?case
  proof (cases "n = 1")
    case True
    then show ?thesis unfolding bl by (simp add: bit_length.simps [of 0])
  next
    case False
    then have "2 ^ (bit_length (n div 2) - 1) \<le> n div 2" "n div 2 < 2 ^ bit_length (n div 2)"
      "1 \<le> bit_length (n div 2)"
      using 1 by auto
    then show ?thesis unfolding bl by (cases "bit_length (n div 2)") auto
  qed
qed

lemma GetUnsignedBits_bounds:
  assumes "2 \<le> unat n" "unat n \<le> 2 ^ 30"
  defines "l \<equiv> GetUnsignedBits n"
  shows "1 \<le> l" "l \<le> 30" "2 ^ (l - 1) < unat n" "unat n \<le> 2 ^ l"
proof -
  have "1 \<le> n" "\<not> n \<le> 1" using assms(1) by (simp_all add: word_le_nat_alt)
  then have u: "unat (n - 1) = unat n - 1" and l: "l = bit_length (unat n - 1)"
    by (simp_all add: unat_sub l_def GetUnsignedBits_def)
  have b: "2 ^ (l - 1) \<le> unat n - 1" "unat n - 1 < 2 ^ l" "1 \<le> l"
    using bit_length_bounds [of "unat n - 1"] assms(1) l by auto
  then show "1 \<le> l" "2 ^ (l - 1) < unat n" "unat n \<le> 2 ^ l" using assms(1) by auto
  show "l \<le> 30"
  proof (rule ccontr)
    assume "\<not> l \<le> 30"
    then have "(2::nat) ^ 30 \<le> 2 ^ (l - 1)" by (intro power_increasing) auto
    with b(1) assms(1,2) show False by linarith
  qed
qed

lemma BoolDecodeUniform_bound:
  assumes "reader_ok bc" "1 \<le> unat n" "unat n \<le> 2 ^ 30"
  obtains v bc' where "BoolDecodeUniform bc n = Inr (v, bc')" "unat v < unat n" "reader_ok bc'"
    "same_stream bc bc'"
proof (cases "unat n = 1")
  case True
  then have "n \<le> 1" by (simp add: word_le_nat_alt)
  then have "BoolDecodeUniform bc n = Inr (0, bc)"
    by (simp add: BoolDecodeUniform_def GetUnsignedBits_def)
  with True assms show ?thesis by (intro that) (auto simp: same_stream_def)
next
  case False
  define l where "l = GetUnsignedBits n"
  have n: "2 \<le> unat n" using False assms(2) by linarith
  note L = GetUnsignedBits_bounds [OF n assms(3), folded l_def]
  define m where "m = push_bit l 1 - n"
  have pl: "(2::nat) ^ l = 2 * 2 ^ (l - 1)" using L(1) by (simp flip: power_Suc)
  have l31: "(2::nat) ^ l \<le> 2 ^ 30" using L(2) by (intro power_increasing) auto
  have p1: "unat (push_bit l 1 :: 32 word) = 2 ^ l"
  proof -
    have "push_bit l 1 = (of_nat (2 ^ l) :: 32 word)" by (simp add: push_bit_eq_mult)
    moreover have "(2::nat) ^ l < 2 ^ LENGTH(32)" using L(2) by (intro power_strict_increasing) auto
    ultimately show ?thesis by (simp only: unat_of_nat mod_less)
  qed
  then have um: "unat m = 2 ^ l - unat n"
    using L(4) by (simp add: m_def unat_sub word_le_nat_alt)
  have sm: "sint m = int (2 ^ l - unat n)" using um l31 by (subst sint_small) simp_all
  obtain v bc1 where v: "Vp9ReadBits bc (int l - 1) = Inr (v, bc1)" "unat v < 2 ^ nat (int l - 1)"
      "reader_ok bc1" "same_stream bc bc1"
    by (rule ReadBits_safe [OF assms(1)])
  obtain w bc2 where w: "Vp9ReadBits bc1 1 = Inr (w, bc2)" "unat w < 2 ^ nat 1"
      "reader_ok bc2" "same_stream bc1 bc2"
    by (rule ReadBits_safe [OF v(3)])
  have "nat (int l - 1) = l - 1" by simp
  with v(2) have vl: "unat v < 2 ^ (l - 1)" by simp
  then have sv: "sint v = int (unat v)" using l31 pl by (intro sint_small) simp
  have go: "BoolDecodeUniform bc n = (if sint v \<ge> sint m then Inr (push_bit 1 v - m + w, bc2)
      else Inr (v, bc1))"
    using L(1,2) v(1) w(1) unfolding BoolDecodeUniform_def Let_def l_def [symmetric] m_def
    by simp
  show ?thesis
  proof (cases "sint v \<ge> sint m")
    case True
    then have mv: "2 ^ l - unat n \<le> unat v" by (simp only: sv sm of_nat_le_iff)
    have "unat (push_bit 1 v) = 2 * unat v"
      unfolding push_bit_1 using vl l31 pl by (simp add: unat_word_ariths)
    moreover from this have "unat (push_bit 1 v - m) = 2 * unat v - (2 ^ l - unat n)"
      using mv um by (subst unat_sub) (simp_all add: word_le_nat_alt)
    ultimately have "unat (push_bit 1 v - m + w) = 2 * unat v - (2 ^ l - unat n) + unat w"
      using vl l31 pl w(2) by (simp add: unat_word_ariths)
    moreover have "2 * unat v - (2 ^ l - unat n) + unat w < unat n"
      using vl pl w(2) L(4) mv by simp
    ultimately have lt: "unat (push_bit 1 v - m + w) < unat n" by (simp only:)
    have "BoolDecodeUniform bc n = Inr (push_bit 1 v - m + w, bc2)" using go True by (simp only: if_True)
    then show ?thesis by (rule that [OF _ lt w(3) same_stream_trans [OF v(4) w(4)]])
  next
    case False
    then have "unat v < unat n" using vl L(3) by linarith
    then show ?thesis using go False v(3,4) by (intro that) simp_all
  qed
qed

text \<open>
  In turn \<open>i\<close> of the sub-exponential loop \<open>mk\<close> is 0 or \<open>2 ^ (k + i - 1)\<close>, so for the alphabets VP9
  uses the C integers of the code do not overflow.
\<close>

definition sub_exp_inv :: "int \<Rightarrow> int \<Rightarrow> int \<Rightarrow> int \<Rightarrow> bool" where
  "sub_exp_inv k num_syms i mk \<longleftrightarrow> 0 \<le> k \<and> k \<le> 16 \<and> 0 \<le> i \<and> mk < num_syms \<and> num_syms \<le> 2 ^ 16 \<and>
     mk = (if i = 0 then 0 else 2 ^ nat (k + i - 1))"

lemma sub_exp_step_bounds:
  assumes "sub_exp_inv k num_syms i mk"
  defines "b \<equiv> (if i \<noteq> 0 then k + i - 1 else k)"
  shows "0 \<le> b" "b \<le> 16" "0 \<le> mk" "mk + 2 ^ nat b = 2 ^ nat (k + i)"
proof -
  note I = assms(1)[unfolded sub_exp_inv_def]
  show b0: "0 \<le> b" "0 \<le> mk" using I by (auto simp: b_def)
  show "b \<le> 16"
  proof (cases "i = 0")
    case False
    show ?thesis
    proof (rule ccontr)
      assume "\<not> b \<le> 16"
      then have "(2::int) ^ 16 \<le> 2 ^ nat b" by (intro power_increasing) auto
      with I False show False by (simp add: b_def)
    qed
  qed (use I in \<open>simp add: b_def\<close>)
  show "mk + 2 ^ nat b = 2 ^ nat (k + i)"
  proof (cases "i = 0")
    case False
    then have "nat (k + i) = Suc (nat (k + i - 1))" using I False by linarith
    then show ?thesis using I False by (simp add: b_def)
  qed (use I in \<open>simp add: b_def\<close>)
qed

lemma sub_exp_loop_bound:
  assumes "sub_exp_inv k num_syms i mk" "reader_ok bc"
  shows "\<exists>x bc'. sub_exp_loop bc k num_syms i mk = Inr (x, bc') \<and> 0 \<le> x \<and> x < num_syms \<and>
    reader_ok bc' \<and> same_stream bc bc'"
  using assms
proof (induction bc k num_syms i mk rule: sub_exp_loop.induct)
  case (1 bc k num_syms i mk)
  note I = 1(2)[unfolded sub_exp_inv_def]
  define b where "b = (if i \<noteq> 0 then k + i - 1 else k)"
  define a :: int where "a = 2 ^ nat b"
  note B = sub_exp_step_bounds [OF 1(2), folded b_def]
  have a: "1 \<le> a" "a \<le> 2 ^ 16" using B(2) power_increasing [of "nat b" 16 "2::int"] by (auto simp: a_def)
  have go: "sub_exp_loop bc k num_syms i mk =
      (if num_syms \<le> mk + 3 * a then
         and_then (BoolDecodeUniform bc (word_of_int (num_syms - mk))) (\<lambda>(v, bc1).
           Inr (sint v + mk, bc1))
       else and_then (Vp9ReadBits bc 1) (\<lambda>(v, bc1).
         if v \<noteq> 0 then sub_exp_loop bc1 k num_syms (i + 1) (mk + a)
         else and_then (Vp9ReadBits bc1 b) (\<lambda>(u, bc2). Inr (sint u + mk, bc2))))"
    using B(1,2) I a
    by (subst sub_exp_loop.simps)
      (cases "Vp9ReadBits bc 1"; simp add: Let_def b_def [symmetric] a_def [symmetric])
  show ?case
  proof (cases "num_syms \<le> mk + 3 * a")
    case True
    have w: "unat (word_of_int (num_syms - mk) :: 32 word) = nat (num_syms - mk)"
      unfolding unat_eq_nat_uint uint_word_of_int using I B(3) by simp
    have "1 \<le> num_syms - mk" "num_syms - mk \<le> 2 ^ 16" using I B(3) by linarith+
    then have nw: "1 \<le> nat (num_syms - mk)" "nat (num_syms - mk) \<le> 2 ^ 30" by simp_all
    obtain v bc1 where v: "BoolDecodeUniform bc (word_of_int (num_syms - mk)) = Inr (v, bc1)"
        "unat v < nat (num_syms - mk)" "reader_ok bc1" "same_stream bc bc1"
      by (rule BoolDecodeUniform_bound [OF 1(3), of "word_of_int (num_syms - mk)", unfolded w, OF nw])
    have "sint v = int (unat v)" using v(2) nw(2) by (intro sint_small) simp
    moreover have "int (unat v) < num_syms - mk" using v(2) by linarith
    ultimately show ?thesis using go True v(1,3,4) B(3) by simp
  next
    case False
    obtain v bc1 where v: "Vp9ReadBits bc 1 = Inr (v, bc1)" "reader_ok bc1" "same_stream bc bc1"
      by (rule ReadBits_safe [OF 1(3), of 1])
    show ?thesis
    proof (cases "v = 0")
      case True
      obtain u bc2 where u: "Vp9ReadBits bc1 b = Inr (u, bc2)" "unat u < 2 ^ nat b" "reader_ok bc2"
          "same_stream bc1 bc2"
        by (rule ReadBits_safe [OF v(2), of b])
      have "int (unat u) < int (2 ^ nat b)" using u(2) by (simp only: of_nat_less_iff)
      then have "int (unat u) < a" by (simp add: a_def)
      moreover have "(2::nat) ^ nat b \<le> 2 ^ 16" using B(2) by (intro power_increasing) auto
      with u(2) have "unat u < 2 ^ 16" by linarith
      then have "sint u = int (unat u)" by (intro sint_small) simp
      ultimately show ?thesis using go False True v u(1,3,4) B(3) a same_stream_trans [OF v(3) u(4)]
        by simp
    next
      case F: False
      have inv: "sub_exp_inv k num_syms (i + 1) (mk + a)"
      proof -
        have "mk + a < num_syms" using False a(1) by linarith
        moreover have "mk + a = 2 ^ nat (k + (i + 1) - 1)" using B(4) by (simp add: a_def)
        ultimately show ?thesis using I unfolding sub_exp_inv_def by simp
      qed
      have "\<exists>x bc'. sub_exp_loop bc1 k num_syms (i + 1) (mk + a) = Inr (x, bc') \<and> 0 \<le> x \<and>
          x < num_syms \<and> reader_ok bc' \<and> same_stream bc1 bc'"
        by (rule 1(1) [OF b_def _ a_def _ _ v(1) refl])
          (use F False B I a inv v(2) in auto)
      then show ?thesis using go False F v same_stream_trans [OF v(3)] by auto
    qed
  qed
qed

end
