(* ===== verification/Vp9Entropy.thy ===== *)
theory Vp9Entropy
  imports Vp9Codes
begin

text \<open>
  The theorems on the boolean decoder of \<^verbatim>\<open>vp9hwd_bool.c\<close>, each with an instance on a concrete
  stream.
\<close>

text \<open>C22. Round trip: a stream made from a list of bits with their probabilities, long enough that the
  last refill finds a byte, is opened without an error and \<^verbatim>\<open>Vp9DecodeBool\<close> with the same
  probabilities gives exactly those bits.\<close>

theorem bool_coder_roundtrip:
  assumes "\<forall>(p, b) \<in> set ys. unat p < 256" "39 + 7 * length ys \<le> 8 * n" "n < 2 ^ 32"
  shows "\<exists>br br'. Vp9BoolStart (encode_stream n (map (\<lambda>(p, b). (unat p, b)) ys)) (of_nat n) = Inr br \<and>
    strm_error br = 0 \<and>
    decode_bools br (map fst ys) = Inr (map (of_bool \<circ> snd) ys, br') \<and> strm_error br' = 0"
  using assms by (rule roundtrip)

theorem bool_coder_roundtrip_witness:
  "\<exists>br br'. Vp9BoolStart (encode_stream 8 [(128, True), (3, True), (250, False)]) 8 = Inr br \<and>
    strm_error br = 0 \<and> decode_bools br [128, 3, 250] = Inr ([1, 1, 0], br') \<and> strm_error br' = 0"
  using bool_coder_roundtrip [of "[(128, True), (3, True), (250, False)]" 8] by simp

text \<open>C23. Refinement: the decoder keeps 32 bits of the stream and refills by bytes, yet every bit and
  every new range is what a decoder computes that keeps the whole stream as one number.\<close>

theorem bool_decoder_is_exact:
  assumes "window br r v s" and "128 \<le> r" "r < 256" "unat p < 256" and "24 \<le> s"
  shows "\<exists>br'. Vp9DecodeBool br p =
      Inr (of_bool (fst (exact_bool (unat p) (r, v, s))), br') \<and>
    (case snd (exact_bool (unat p) (r, v, s)) of (r', v', s') \<Rightarrow> window br' r' v' s') \<and>
    strm_error br' = strm_error br"
  using assms by (rule Vp9DecodeBool_exact)

definition short_stream :: "8 word list" where
  "short_stream = [0x80, 0x12, 0x34, 0x56]"

theorem bool_decoder_is_exact_witness:
  "\<exists>br'. Vp9DecodeBool (started short_stream) 77 =
      Inr (of_bool (fst (exact_bool (unat (77 :: 32 word)) (255, 0x80123456, 24))), br') \<and>
    (case snd (exact_bool (unat (77 :: 32 word)) (255, 0x80123456, 24)) of (r', v', s') \<Rightarrow> window br' r' v' s') \<and>
    strm_error br' = strm_error (started short_stream)"
proof (rule bool_decoder_is_exact)
  show "window (started short_stream) 255 0x80123456 24"
    using started_window [of short_stream] by (simp add: short_stream_def)
qed simp_all

text \<open>C20. Equivalence: the routine specialised to probability one half is the general routine at 128,
  on every state in the normal range, as long as the bit does not run past the end of the stream.\<close>

theorem DecodeBool128_equivalent:
  assumes "128 \<le> unat (rng br)" "unat (rng br) < 256"
    and "cnt br = 1 \<Longrightarrow> pos br < stream_end_pos br"
  shows "Vp9DecodeBool128 br = Vp9DecodeBool br 128"
  using assms by (rule Vp9DecodeBool128_eq)

theorem DecodeBool128_equivalent_witness:
  "Vp9DecodeBool128 (started short_stream) = Vp9DecodeBool (started short_stream) 128"
  by (rule DecodeBool128_equivalent) (simp_all add: started_def)

text \<open>C24. Safety: whatever the bytes are, and however many bits are read past their end, no read
  leaves the buffer, the range stays between 2 and 255, every bit is 0 or 1, and every read
  returns.\<close>

theorem bool_reads_are_safe:
  assumes "reader_ok br" "\<forall>p \<in> set ps. unat p < 256"
  shows "\<exists>bs br'. decode_bools br ps = Inr (bs, br') \<and> length bs = length ps \<and>
    set bs \<subseteq> {0, 1} \<and> reader_ok br' \<and> same_stream br br'"
  using assms
proof (induction ps arbitrary: br)
  case Nil
  then show ?case by (simp add: same_stream_def)
next
  case (Cons p ps)
  obtain b br1 where b: "Vp9DecodeBool br p = Inr (b, br1)" "b = 0 \<or> b = 1" "reader_ok br1"
      "same_stream br br1"
    using DecodeBool_safe [OF Cons.prems(1), of p] Cons.prems(2) by auto
  obtain bs br2 where "decode_bools br1 ps = Inr (bs, br2)" "length bs = length ps" "set bs \<subseteq> {0, 1}"
      "reader_ok br2" "same_stream br1 br2"
    using Cons.IH [OF b(3)] Cons.prems(2) by auto
  with b same_stream_trans [OF b(4)] show ?case by auto
qed

theorem bool_reads_are_safe_witness:
  "\<exists>bs br'. decode_bools (started short_stream) (replicate 100 200) = Inr (bs, br') \<and>
    length bs = length (replicate 100 (200 :: 32 word)) \<and>
    set bs \<subseteq> {0, 1} \<and> reader_ok br' \<and> same_stream (started short_stream) br'"
  by (rule bool_reads_are_safe) (simp_all add: reader_ok_def started_def short_stream_def)



text \<open>Bounds: the uniform code gives a value below the size of its alphabet.\<close>

theorem uniform_symbol_in_range:
  assumes "reader_ok bc" "1 \<le> unat n" "unat n \<le> 2 ^ 30"
  shows "\<exists>v bc'. BoolDecodeUniform bc n = Inr (v, bc') \<and> unat v < unat n \<and> reader_ok bc'"
  by (rule BoolDecodeUniform_bound [OF assms]) blast

theorem uniform_symbol_in_range_witness:
  "\<exists>v bc'. BoolDecodeUniform (started short_stream) 190 = Inr (v, bc') \<and>
    unat v < unat (190 :: 32 word) \<and> reader_ok bc'"
  by (rule uniform_symbol_in_range) (simp_all add: reader_ok_def started_def short_stream_def)

text \<open>C23. Bounds and termination: the sub-exponential code returns a symbol of the alphabet, and none
  of its C integers overflows, for alphabets of up to 65536 symbols.\<close>

theorem sub_exp_symbol_in_range:
  assumes "reader_ok bc" "unat k \<le> 16" "1 \<le> unat num_syms" "unat num_syms \<le> 2 ^ 16"
  shows "\<exists>v bc'. Vp9DecodeSubExp bc k num_syms = Inr (v, bc') \<and> unat v < unat num_syms \<and>
    reader_ok bc'"
proof -
  have s: "sint num_syms = int (unat num_syms)" using assms(4) by (intro sint_small) simp
  have "int (unat k) \<le> int 16" "int 1 \<le> int (unat num_syms)" "int (unat num_syms) \<le> int (2 ^ 16)"
    using assms(2-4) by (simp_all only: of_nat_le_iff)
  then have "sub_exp_inv (uint k) (int (unat num_syms)) 0 0" by (simp add: sub_exp_inv_def)
  from sub_exp_loop_bound [OF this assms(1)] obtain x bc' where x:
    "sub_exp_loop bc (uint k) (sint num_syms) 0 0 = Inr (x, bc')" "0 \<le> x" "x < int (unat num_syms)"
    "reader_ok bc'" unfolding s by blast
  have "x < 2 ^ 32" using x(3) \<open>int (unat num_syms) \<le> int (2 ^ 16)\<close> by simp
  then have "uint (word_of_int x :: 32 word) = x" using x(2) by (simp add: uint_word_of_int)
  then have "unat (word_of_int x :: 32 word) = nat x"
    by (metis unat_eq_nat_uint)
  moreover have "nat x < unat num_syms" using x(2,3) by (simp only: nat_less_iff)
  ultimately have "unat (word_of_int x :: 32 word) < unat num_syms" by (simp only:)
  then show ?thesis using x(1,4) by (simp add: Vp9DecodeSubExp_def)
qed

theorem sub_exp_symbol_in_range_witness:
  "\<exists>v bc'. Vp9DecodeSubExp (started short_stream) 4 254 = Inr (v, bc') \<and>
    unat v < unat (254 :: 32 word) \<and> reader_ok bc'"
  by (rule sub_exp_symbol_in_range) (simp_all add: reader_ok_def started_def short_stream_def)

end
