(* ===== verification/Vp9Queue.thy ===== *)
theory Vp9Queue
  imports CedarPrelude
begin

text \<open>
  The ring of \<^verbatim>\<open>vp9hwd_fifo.c\<close> and the queue of reference-counted picture buffers on it,
  \<^verbatim>\<open>vp9hwd_buffer_queue.c\<close>. The ring's counters are 32-bit words, its objects the buffer numbers
  cast to pointers, here as \<open>int\<close>; semaphores and \<^verbatim>\<open>FifoException\<close> are not used by the code. A
  division by zero and an overflow of a counter of type \<^verbatim>\<open>s32\<close> are faults.
\<close>

section \<open>The ring\<close>

datatype FifoRet = FIFO_OK | FIFO_ERROR_MEMALLOC | FIFO_EMPTY | FIFO_FULL | FIFO_NOK

record Fifo =
  num_of_slots :: "32 word"
  num_of_objects :: "32 word"
  tail_index :: "32 word"
  nodes :: "int list"

text \<open>The flags tell whether the two calls of \<^verbatim>\<open>calloc\<close> succeed.\<close>

definition FifoInit :: "bool \<Rightarrow> bool \<Rightarrow> 32 word \<Rightarrow> FifoRet \<times> Fifo option" where
  "FifoInit got_inst got_nodes n =
     (if \<not> got_inst then (FIFO_ERROR_MEMALLOC, None)
      else if \<not> got_nodes then (FIFO_ERROR_MEMALLOC, None)
      else (FIFO_OK, Some \<lparr>num_of_slots = n, num_of_objects = 0, tail_index = 0,
                           nodes = replicate (unat n) 0\<rparr>))"

definition FifoPush :: "Fifo \<Rightarrow> int \<Rightarrow> (FifoRet \<times> Fifo) res" where
  "FifoPush f x =
     (if num_of_slots f = 0 then Inl Aborted
      else let ix = unat ((tail_index f + num_of_objects f) mod num_of_slots f)
           in if ix \<ge> length (nodes f) then Inl OutOfBounds
              else Inr (FIFO_OK, f\<lparr>nodes := (nodes f)[ix := x],
                                   num_of_objects := num_of_objects f + 1\<rparr>))"

definition FifoPopRevert :: "Fifo \<Rightarrow> FifoRet \<times> Fifo" where
  "FifoPopRevert f =
     (FIFO_OK, f\<lparr>tail_index := tail_index f - 1, num_of_objects := num_of_objects f + 1\<rparr>)"

definition FifoPop :: "Fifo \<Rightarrow> (FifoRet \<times> int \<times> Fifo) res" where
  "FifoPop f =
     (if num_of_slots f = 0 then Inl Aborted
      else let ix = unat (tail_index f mod num_of_slots f)
           in if ix \<ge> length (nodes f) then Inl OutOfBounds
              else Inr (FIFO_OK, nodes f ! ix, f\<lparr>tail_index := tail_index f + 1,
                                                num_of_objects := num_of_objects f - 1\<rparr>))"

section \<open>The buffer queue\<close>

definition VP9DEC_MAX_PIC_BUFFERS :: nat where "VP9DEC_MAX_PIC_BUFFERS = 16"
definition VP9_REF_LIST_SIZE :: nat where "VP9_REF_LIST_SIZE = 8"
definition REFERENCE_NOT_SET :: int where "REFERENCE_NOT_SET = - 1"

record BQueue =
  n_buffers :: int
  n_references :: "int list"
  ref_status :: "int list"
  empty_fifo :: "Fifo option"

definition Vp9BufferQueueGetRef :: "BQueue \<Rightarrow> nat \<Rightarrow> int res" where
  "Vp9BufferQueueGetRef q index =
     (if index < length (ref_status q) then Inr (ref_status q ! index) else Inl OutOfBounds)"

definition IncreaseRefCount :: "BQueue \<Rightarrow> int \<Rightarrow> BQueue res" where
  "IncreaseRefCount q i =
     (if i < 0 \<or> int (length (n_references q)) \<le> i then Inl OutOfBounds
      else if n_references q ! nat i + 1 \<ge> 2 ^ 31 then Inl SignedOverflow
      else Inr (q\<lparr>n_references := (n_references q)[nat i := n_references q ! nat i + 1]\<rparr>))"

definition Vp9BufferQueueAddRef :: "BQueue \<Rightarrow> int \<Rightarrow> BQueue res" where
  "Vp9BufferQueueAddRef q buffer = IncreaseRefCount q buffer"

definition push_empty :: "BQueue \<Rightarrow> int \<Rightarrow> BQueue res" where
  "push_empty q i =
     (case empty_fifo q of
        None \<Rightarrow> Inl NullDeref
      | Some f \<Rightarrow> and_then (FifoPush f i) (\<lambda>(ret, f1). Inr (q\<lparr>empty_fifo := Some f1\<rparr>)))"

definition DecreaseRefCount :: "BQueue \<Rightarrow> int \<Rightarrow> BQueue res" where
  "DecreaseRefCount q i =
     (if i < 0 \<or> int (length (n_references q)) \<le> i then Inl OutOfBounds
      else if n_references q ! nat i - 1 < - (2 ^ 31) then Inl SignedOverflow
      else let q1 = q\<lparr>n_references := (n_references q)[nat i := n_references q ! nat i - 1]\<rparr>
           in if n_references q1 ! nat i = 0 then push_empty q1 i else Inr q1)"

text \<open>One turn of the loop over the reference slots; \<open>i\<close> stays below the word's width.\<close>

definition update_slot :: "32 word \<Rightarrow> int \<Rightarrow> BQueue \<Rightarrow> nat \<Rightarrow> BQueue res" where
  "update_slot ref_flags buffer q i =
     (if i \<ge> length (ref_status q) then Inl OutOfBounds
      else if ref_flags AND push_bit i 1 \<noteq> 0 \<and> buffer \<noteq> ref_status q ! i then
        and_then (if ref_status q ! i \<noteq> REFERENCE_NOT_SET
                  then DecreaseRefCount q (ref_status q ! i) else Inr q) (\<lambda>q1.
        let q2 = q1\<lparr>ref_status := (ref_status q1)[i := buffer]\<rparr>
        in if buffer \<noteq> REFERENCE_NOT_SET then IncreaseRefCount q2 buffer else Inr q2)
      else Inr q)"

fun update_slots :: "32 word \<Rightarrow> int \<Rightarrow> BQueue \<Rightarrow> nat list \<Rightarrow> BQueue res" where
  "update_slots ref_flags buffer q [] = Inr q"
| "update_slots ref_flags buffer q (i # is) =
     and_then (update_slot ref_flags buffer q i) (\<lambda>q1. update_slots ref_flags buffer q1 is)"

definition Vp9BufferQueueUpdateRef :: "BQueue \<Rightarrow> 32 word \<Rightarrow> int \<Rightarrow> BQueue res" where
  "Vp9BufferQueueUpdateRef q ref_flags buffer =
     update_slots ref_flags buffer q [0..<VP9_REF_LIST_SIZE]"

definition Vp9BufferQueueRemoveRef :: "BQueue \<Rightarrow> int \<Rightarrow> BQueue res" where
  "Vp9BufferQueueRemoveRef q buffer = DecreaseRefCount q buffer"

text \<open>Releasing empties the ring first; what remains is freed.\<close>

fun pop_times :: "nat \<Rightarrow> Fifo \<Rightarrow> Fifo res" where
  "pop_times 0 f = Inr f"
| "pop_times (Suc n) f = and_then (FifoPop f) (\<lambda>(ret, j, f1). pop_times n f1)"

definition Vp9BufferQueueRelease :: "BQueue \<Rightarrow> unit res" where
  "Vp9BufferQueueRelease q =
     (case empty_fifo q of
        None \<Rightarrow> Inr ()
      | Some f \<Rightarrow> and_then (pop_times (nat (n_buffers q)) f) (\<lambda>f1. Inr ()))"

definition Vp9BufferQueueResetReferences :: "BQueue \<Rightarrow> BQueue" where
  "Vp9BufferQueueResetReferences q =
     q\<lparr>ref_status := replicate (length (ref_status q)) REFERENCE_NOT_SET\<rparr>"

text \<open>The loop that fills the queue, from buffer \<open>i\<close> on.\<close>

fun fill_queue :: "nat list \<Rightarrow> BQueue \<Rightarrow> BQueue option res" where
  "fill_queue [] q = Inr (Some q)"
| "fill_queue (i # is) q =
     (case empty_fifo q of
        None \<Rightarrow> Inl NullDeref
      | Some f \<Rightarrow> and_then (FifoPush f (int i)) (\<lambda>(ret, f1).
          let q1 = q\<lparr>empty_fifo := Some f1\<rparr>
          in if ret \<noteq> FIFO_OK then and_then (Vp9BufferQueueRelease q1) (\<lambda>_. Inr None)
             else fill_queue is (q1\<lparr>n_buffers := n_buffers q1 + 1\<rparr>)))"

definition Vp9BufferQueueInitialize :: "bool \<Rightarrow> bool \<Rightarrow> bool \<Rightarrow> int \<Rightarrow> BQueue option res" where
  "Vp9BufferQueueInitialize got_queue got_inst got_nodes n =
     (if \<not> got_queue then Inr None
      else
        let q = \<lparr>n_buffers = 0, n_references = replicate VP9DEC_MAX_PIC_BUFFERS 0,
                 ref_status = replicate VP9_REF_LIST_SIZE 0, empty_fifo = None\<rparr>;
            (ret, f) = FifoInit got_inst got_nodes (word_of_int n);
            q1 = q\<lparr>empty_fifo := f\<rparr>
        in if ret \<noteq> FIFO_OK then and_then (Vp9BufferQueueRelease q1) (\<lambda>_. Inr None)
           else and_then (fill_queue [0..<nat n] q1) (\<lambda>r.
             Inr (map_option Vp9BufferQueueResetReferences r)))"

definition Vp9BufferQueueAddBuffer :: "BQueue \<Rightarrow> BQueue res" where
  "Vp9BufferQueueAddBuffer q =
     and_then (push_empty q (n_buffers q)) (\<lambda>q1.
       if n_buffers q1 + 1 \<ge> 2 ^ 31 then Inl SignedOverflow
       else Inr (q1\<lparr>n_buffers := n_buffers q1 + 1\<rparr>))"

text \<open>
  \<^verbatim>\<open>FifoPop\<close> never says \<^verbatim>\<open>FIFO_EMPTY\<close>, so the first branch is not taken; an empty ring shows by
  the reference count of the stale number it gives.
\<close>

definition Vp9BufferQueueGetBuffer :: "BQueue \<Rightarrow> 32 word \<Rightarrow> (int \<times> BQueue) res" where
  "Vp9BufferQueueGetBuffer q limit =
     (case empty_fifo q of
        None \<Rightarrow> Inl NullDeref
      | Some f \<Rightarrow> and_then (FifoPop f) (\<lambda>(ret, i, f1).
          let q1 = q\<lparr>empty_fifo := Some f1\<rparr>
          in if ret = FIFO_EMPTY then
               if (word_of_int (n_buffers q1) :: 32 word) < limit then Inr (- 1, q1)
               else and_then (FifoPop f1) (\<lambda>(ret2, i2, f2).
                 and_then (IncreaseRefCount (q1\<lparr>empty_fifo := Some f2\<rparr>) i2) (\<lambda>q2. Inr (i2, q2)))
             else if i < 0 \<or> int (length (n_references q1)) \<le> i then Inl OutOfBounds
             else if n_references q1 ! nat i \<noteq> 0 then
               (case FifoPopRevert f1 of (ret2, f2) \<Rightarrow> Inr (- 1, q1\<lparr>empty_fifo := Some f2\<rparr>))
             else and_then (IncreaseRefCount q1 i) (\<lambda>q2. Inr (i, q2))))"

end
