(* ===== verification/Vp9Pool.thy ===== *)
theory Vp9Pool
  imports Vp9Queue
begin

text \<open>
  The buffer queue of \<^verbatim>\<open>vp9hwd_buffer_queue.c\<close> against its contract: a first-in-first-out list of
  the buffers nobody refers to. The contract holds for the buffers the queue was made with;
  \<open>Vp9Pictures\<close> shows what a buffer added later breaks.
\<close>

section \<open>The contract\<close>

text \<open>
  \<open>holds\<close> counts the references the decoder and the output own, \<open>refs\<close> are the reference slots,
  \<open>taken\<close> counts the buffers ever given out: the ring's 32-bit position bounds it.
\<close>

record bufpool =
  free_bufs :: "nat list"
  holds :: "nat \<Rightarrow> nat"
  refs :: "int list"
  taken :: nat

definition rcount :: "bufpool \<Rightarrow> nat \<Rightarrow> nat" where
  "rcount P b = holds P b + count_list (refs P) (int b)"

lemma rcount_free [simp]: "rcount (P\<lparr>free_bufs := bs\<rparr>) = rcount P"
  by (rule ext) (simp add: rcount_def)

datatype bq_call = GetBuffer "32 word" | AddRef nat | RemoveRef nat | UpdateRef "32 word" int | GetRef nat

definition drop_if_unused :: "nat \<Rightarrow> bufpool \<Rightarrow> bufpool" where
  "drop_if_unused b P = (if rcount P b = 0 then P\<lparr>free_bufs := free_bufs P @ [b]\<rparr> else P)"

definition set_slot :: "int \<Rightarrow> nat \<Rightarrow> bufpool \<Rightarrow> bufpool" where
  "set_slot buffer i P =
     (let old = refs P ! i; P1 = P\<lparr>refs := (refs P)[i := buffer]\<rparr>
      in if old = buffer then P else if old = REFERENCE_NOT_SET then P1
         else drop_if_unused (nat old) P1)"

fun spec_bq :: "bq_call \<Rightarrow> bufpool \<Rightarrow> int \<times> bufpool" where
  "spec_bq (GetBuffer limit) P =
     (case free_bufs P of
        [] \<Rightarrow> (- 1, P)
      | b # bs \<Rightarrow> (int b, P\<lparr>free_bufs := bs, holds := (holds P)(b := 1), taken := taken P + 1\<rparr>))"
| "spec_bq (AddRef b) P = (0, P\<lparr>holds := (holds P)(b := holds P b + 1)\<rparr>)"
| "spec_bq (RemoveRef b) P =
     (0, drop_if_unused b (P\<lparr>holds := (holds P)(b := holds P b - 1)\<rparr>))"
| "spec_bq (UpdateRef flags buffer) P =
     (0, fold (set_slot buffer) (filter (\<lambda>i. flags AND push_bit i 1 \<noteq> 0) [0..<VP9_REF_LIST_SIZE]) P)"
| "spec_bq (GetRef i) P = (refs P ! i, P)"

text \<open>
  What the decoder may do with a queue of \<open>n\<close> buffers: refer only to buffers that are in use, give
  up only references it has.
\<close>

fun allowed_bq :: "nat \<Rightarrow> bq_call \<Rightarrow> bufpool \<Rightarrow> bool" where
  "allowed_bq n (GetBuffer limit) P = (taken P + n + 1 < 2 ^ 32)"
| "allowed_bq n (AddRef b) P = (b < n \<and> 0 < rcount P b \<and> holds P b < 2 ^ 30)"
| "allowed_bq n (RemoveRef b) P = (0 < holds P b)"
| "allowed_bq n (UpdateRef flags buffer) P =
     (buffer = REFERENCE_NOT_SET \<or> 0 \<le> buffer \<and> buffer < int n \<and> 0 < holds P (nat buffer))"
| "allowed_bq n (GetRef i) P = (i < VP9_REF_LIST_SIZE)"

text \<open>The queue on the calls.\<close>

fun exec_bq :: "bq_call \<Rightarrow> BQueue \<Rightarrow> (int \<times> BQueue) res" where
  "exec_bq (GetBuffer limit) q = Vp9BufferQueueGetBuffer q limit"
| "exec_bq (AddRef b) q = and_then (Vp9BufferQueueAddRef q (int b)) (\<lambda>q1. Inr (0, q1))"
| "exec_bq (RemoveRef b) q = and_then (Vp9BufferQueueRemoveRef q (int b)) (\<lambda>q1. Inr (0, q1))"
| "exec_bq (UpdateRef flags buffer) q =
     and_then (Vp9BufferQueueUpdateRef q flags buffer) (\<lambda>q1. Inr (0, q1))"
| "exec_bq (GetRef i) q = and_then (Vp9BufferQueueGetRef q i) (\<lambda>r. Inr (r, q))"

section \<open>The ring represents a list\<close>

definition ring_rep :: "nat \<Rightarrow> Fifo \<Rightarrow> int list \<Rightarrow> nat \<Rightarrow> bool" where
  "ring_rep n f xs t \<longleftrightarrow> 0 < n \<and> unat (num_of_slots f) = n \<and> length (nodes f) = n \<and>
     length xs \<le> n \<and> t + n < 2 ^ 32 \<and> num_of_objects f = of_nat (length xs) \<and> unat (tail_index f) = t \<and>
     (\<forall>j < length xs. nodes f ! ((t + j) mod n) = xs ! j)"

lemma unat_of_nat_small: "x < 2 ^ 32 \<Longrightarrow> unat (of_nat x :: 32 word) = x"
  by (simp add: unat_of_nat)

lemma ring_push:
  assumes "ring_rep n f xs t" "length xs < n"
  shows "\<exists>f'. FifoPush f x = Inr (FIFO_OK, f') \<and> ring_rep n f' (xs @ [x]) t \<and>
    set (nodes f') \<subseteq> insert x (set (nodes f))"
proof -
  note R = assms(1)[unfolded ring_rep_def]
  have "unat (tail_index f + num_of_objects f) = t + length xs"
    using R assms(2) by (simp add: unat_word_ariths unat_of_nat)
  then have ix: "unat ((tail_index f + num_of_objects f) mod num_of_slots f) = (t + length xs) mod n"
    using R by (simp add: unat_mod_distrib)
  have ne: "num_of_slots f \<noteq> 0" using R by auto
  let ?f = "f\<lparr>nodes := (nodes f)[(t + length xs) mod n := x], num_of_objects := num_of_objects f + 1\<rparr>"
  have "FifoPush f x = Inr (FIFO_OK, ?f)"
    using ix ne R by (simp add: FifoPush_def Let_def not_le)
  moreover have "ring_rep n ?f (xs @ [x]) t"
    unfolding ring_rep_def
  proof (intro conjI allI impI)
    fix j assume j: "j < length (xs @ [x])"
    show "nodes ?f ! ((t + j) mod n) = (xs @ [x]) ! j"
    proof (cases "j = length xs")
      case True
      then show ?thesis using R by simp
    next
      case False
      then have jl: "j < length xs" using j by simp
      have "(t + j) mod n \<noteq> (t + length xs) mod n"
      proof
        assume "(t + j) mod n = (t + length xs) mod n"
        then have "n dvd (t + length xs) - (t + j)" using jl
          by (metis mod_eq_dvd_iff_nat add_le_cancel_left less_imp_le)
        then show False using jl assms(2) by (auto dest: dvd_imp_le)
      qed
      then show ?thesis using R jl by (simp add: nth_append)
    qed
  qed (use R assms(2) in \<open>auto simp: algebra_simps\<close>)
  moreover have "set (nodes ?f) \<subseteq> insert x (set (nodes f))" by (simp add: set_update_subset_insert)
  ultimately show ?thesis by blast
qed

lemma ring_pop:
  assumes "ring_rep n f (x # xs) t" "t + n + 1 < 2 ^ 32"
  shows "\<exists>f'. FifoPop f = Inr (FIFO_OK, x, f') \<and> ring_rep n f' xs (t + 1) \<and> nodes f' = nodes f"
proof -
  note R = assms(1)[unfolded ring_rep_def]
  have ix: "unat (tail_index f mod num_of_slots f) = t mod n"
    using R by (simp add: unat_mod_distrib)
  have ne: "num_of_slots f \<noteq> 0" using R by auto
  let ?f = "f\<lparr>tail_index := tail_index f + 1, num_of_objects := num_of_objects f - 1\<rparr>"
  have x: "nodes f ! (t mod n) = x" using R by (metis add.right_neutral length_greater_0_conv list.distinct(1) nth_Cons_0)
  then have "FifoPop f = Inr (FIFO_OK, x, ?f)"
    using ix ne R by (simp add: FifoPop_def Let_def not_le)
  moreover have "ring_rep n ?f xs (t + 1)"
    unfolding ring_rep_def
  proof (intro conjI allI impI)
    fix j assume j: "j < length xs"
    then have "nodes f ! ((t + Suc j) mod n) = (x # xs) ! Suc j" using R by (metis Suc_less_eq length_Cons)
    then show "nodes ?f ! ((t + 1 + j) mod n) = xs ! j" by simp
  next
    show "unat (tail_index ?f) = t + 1" using R assms(2) by (simp add: unat_word_ariths)
  qed (use R assms(2) in auto)
  ultimately show ?thesis by auto
qed

text \<open>Popping an empty ring reads a stale number; putting the positions back restores the ring.\<close>

lemma ring_pop_empty:
  assumes "ring_rep n f [] t"
  shows "\<exists>x f'. FifoPop f = Inr (FIFO_OK, x, f') \<and> x \<in> set (nodes f) \<and> FifoPopRevert f' = (FIFO_OK, f)"
proof -
  note R = assms(1)[unfolded ring_rep_def]
  have ix: "unat (tail_index f mod num_of_slots f) = t mod n"
    using R by (simp add: unat_mod_distrib)
  have ne: "num_of_slots f \<noteq> 0" using R by auto
  have "nodes f ! (t mod n) \<in> set (nodes f)" using R by (intro nth_mem) simp
  then show ?thesis
    using ix ne R by (simp add: FifoPop_def FifoPopRevert_def Let_def not_le)
qed

section \<open>The queue represents the pool\<close>

text \<open>The pool itself: exactly the buffers nobody refers to are free, each once.\<close>

definition pool_ok :: "nat \<Rightarrow> bufpool \<Rightarrow> bool" where
  "pool_ok n P \<longleftrightarrow> distinct (free_bufs P) \<and> set (free_bufs P) = {b. b < n \<and> rcount P b = 0} \<and>
     length (refs P) = VP9_REF_LIST_SIZE \<and> (\<forall>r \<in> set (refs P). r = REFERENCE_NOT_SET \<or> 0 \<le> r \<and> r < int n) \<and>
     (\<forall>b. n \<le> b \<longrightarrow> holds P b = 0) \<and> (\<forall>b. holds P b \<le> 2 ^ 30)"

text \<open>The queue's counters and ring; \<open>c\<close> are the counts.\<close>

definition bq_rep :: "nat \<Rightarrow> BQueue \<Rightarrow> bufpool \<Rightarrow> (nat \<Rightarrow> nat) \<Rightarrow> bool" where
  "bq_rep n q P c \<longleftrightarrow> n \<le> VP9DEC_MAX_PIC_BUFFERS \<and> n_buffers q = int n \<and>
     length (n_references q) = VP9DEC_MAX_PIC_BUFFERS \<and>
     (\<forall>b < n. n_references q ! b = int (c b)) \<and>
     (\<exists>f. empty_fifo q = Some f \<and> ring_rep n f (map int (free_bufs P)) (taken P) \<and>
       (\<forall>x \<in> set (nodes f). 0 \<le> x \<and> x < int n))"

definition bq_inv :: "nat \<Rightarrow> BQueue \<Rightarrow> bufpool \<Rightarrow> bool" where
  "bq_inv n q P \<longleftrightarrow> pool_ok n P \<and> ref_status q = refs P \<and> bq_rep n q P (rcount P)"

lemma rcount_bound: "pool_ok n P \<Longrightarrow> rcount P b \<le> 2 ^ 30 + 8"
proof -
  assume "pool_ok n P"
  then have "holds P b \<le> 2 ^ 30" "count_list (refs P) (int b) \<le> 8"
    using count_le_length [of "refs P" "int b"] by (simp_all add: pool_ok_def VP9_REF_LIST_SIZE_def)
  then show ?thesis unfolding rcount_def by (rule add_mono)
qed

lemma IncreaseRefCount_in:
  assumes "bq_inv n q P" "b < n"
  shows "IncreaseRefCount q (int b) =
    Inr (q\<lparr>n_references := (n_references q)[b := int (rcount P b) + 1]\<rparr>)"
proof -
  have "int (rcount P b) \<le> int (2 ^ 30 + 8)"
    using rcount_bound [of n P b] assms(1) unfolding bq_inv_def by (simp only: of_nat_le_iff)
  then show ?thesis using assms
    by (simp add: IncreaseRefCount_def bq_inv_def bq_rep_def)
qed

text \<open>A free buffer is taken.\<close>

lemma pool_take:
  assumes "pool_ok n P" "free_bufs P = b # bs"
  defines "P' \<equiv> P\<lparr>free_bufs := bs, holds := (holds P)(b := 1), taken := taken P + 1\<rparr>"
  shows "pool_ok n P'" "b < n" "rcount P b = 0" "rcount P' c = (if c = b then 1 else rcount P c)"
proof -
  show b: "b < n" "rcount P b = 0" using assms(1,2) by (auto simp: pool_ok_def)
  then show rc: "rcount P' c = (if c = b then 1 else rcount P c)" for c
    by (simp add: rcount_def P'_def)
  have "set bs = {c. c < n \<and> rcount P' c = 0}"
    using assms(1,2) unfolding rc pool_ok_def by auto
  then show "pool_ok n P'" using assms(1,2) b(1) by (auto simp: pool_ok_def P'_def)
qed

text \<open>Nothing is free: the stale number is in use, the positions are put back.\<close>

lemma GetBuffer_full:
  assumes "bq_inv n q P" "free_bufs P = []"
  shows "Vp9BufferQueueGetBuffer q limit = Inr (- 1, q)"
proof -
  obtain f where f: "empty_fifo q = Some f" "ring_rep n f (map int (free_bufs P)) (taken P)"
      "\<forall>x \<in> set (nodes f). 0 \<le> x \<and> x < int n"
    using assms(1) unfolding bq_inv_def bq_rep_def by blast
  have ok: "pool_ok n P" using assms(1) by (simp add: bq_inv_def)
  obtain x f1 where p: "FifoPop f = Inr (FIFO_OK, x, f1)" "x \<in> set (nodes f)"
      "FifoPopRevert f1 = (FIFO_OK, f)"
    using ring_pop_empty f(2) assms(2) by fastforce
  define b where "b = nat x"
  have b: "x = int b" "b < n" using f(3) p(2) by (auto simp: b_def)
  then have "0 < rcount P b" using ok assms(2) by (auto simp: pool_ok_def)
  then have "n_references q ! b \<noteq> 0" "b < length (n_references q)"
    using assms(1) b(2) by (simp_all add: bq_inv_def bq_rep_def)
  then show ?thesis using f(1) p b by (simp add: Vp9BufferQueueGetBuffer_def Let_def)
qed

lemma GetBuffer_spec:
  assumes "bq_inv n q P" "taken P + n + 1 < 2 ^ 32"
  shows "\<exists>q'. Vp9BufferQueueGetBuffer q limit = Inr (fst (spec_bq (GetBuffer limit) P), q') \<and>
    bq_inv n q' (snd (spec_bq (GetBuffer limit) P))"
proof -
  obtain f where f: "empty_fifo q = Some f" "ring_rep n f (map int (free_bufs P)) (taken P)"
      "\<forall>x \<in> set (nodes f). 0 \<le> x \<and> x < int n"
    using assms(1) unfolding bq_inv_def bq_rep_def by blast
  have ok: "pool_ok n P" using assms(1) by (simp add: bq_inv_def)
  show ?thesis
  proof (cases "free_bufs P")
    case Nil
    then show ?thesis using GetBuffer_full [OF assms(1)] assms(1) by simp
  next
    case (Cons b bs)
    then have "ring_rep n f (int b # map int bs) (taken P)" using f(2) by simp
    then obtain f1 where p: "FifoPop f = Inr (FIFO_OK, int b, f1)"
        "ring_rep n f1 (map int bs) (taken P + 1)" "nodes f1 = nodes f"
      using ring_pop assms(2) by blast
    note T = pool_take [OF ok Cons]
    let ?P = "P\<lparr>free_bufs := bs, holds := (holds P)(b := 1), taken := taken P + 1\<rparr>"
    let ?q = "q\<lparr>empty_fifo := Some f1, n_references := (n_references q)[b := 1]\<rparr>"
    have n0: "n_references q ! b = 0" "b < length (n_references q)"
      using assms(1) T(2,3) by (simp_all add: bq_inv_def bq_rep_def)
    have "Vp9BufferQueueGetBuffer q limit = Inr (int b, ?q)"
      using f(1) p(1) n0 by (simp add: Vp9BufferQueueGetBuffer_def IncreaseRefCount_def Let_def)
    moreover have "bq_inv n ?q ?P"
      using assms(1) T(1,4) p(2,3) f(1,3) n0(2) unfolding bq_inv_def bq_rep_def
      by (auto simp: nth_list_update)
    ultimately show ?thesis using Cons by simp
  qed
qed

text \<open>A reference is added to a buffer in use.\<close>

lemma pool_more:
  assumes "pool_ok n P" "0 < rcount P b" "b < n" "refs P' = refs P \<or>
      (\<exists>i < VP9_REF_LIST_SIZE. refs P ! i = REFERENCE_NOT_SET \<and> refs P' = (refs P)[i := int b])"
    and "holds P' = holds P \<or> holds P' = (holds P)(b := holds P b + 1) \<and> holds P b < 2 ^ 30"
    and "free_bufs P' = free_bufs P" "\<And>c. c \<noteq> b \<Longrightarrow> rcount P' c = rcount P c" "0 < rcount P' b"
  shows "pool_ok n P'"
proof -
  have "{c. c < n \<and> rcount P' c = 0} = {c. c < n \<and> rcount P c = 0}"
    using assms(2,7,8) by (metis less_numeral_extra(3))
  moreover have "\<forall>r \<in> set (refs P'). r = REFERENCE_NOT_SET \<or> 0 \<le> r \<and> r < int n"
    using assms(1,3,4) set_update_subset_insert [of "refs P" _ "int b"] unfolding pool_ok_def by fastforce
  ultimately show ?thesis using assms(1,3-6) unfolding pool_ok_def by auto
qed

lemma AddRef_spec:
  assumes "bq_inv n q P" "allowed_bq n (AddRef b) P"
  shows "\<exists>q'. exec_bq (AddRef b) q = Inr (fst (spec_bq (AddRef b) P), q') \<and>
    bq_inv n q' (snd (spec_bq (AddRef b) P))"
proof -
  let ?P = "P\<lparr>holds := (holds P)(b := holds P b + 1)\<rparr>"
  let ?q = "q\<lparr>n_references := (n_references q)[b := int (rcount P b) + 1]\<rparr>"
  have b: "b < n" "0 < rcount P b" "holds P b < 2 ^ 30" using assms(2) by auto
  have rc: "rcount ?P c = (if c = b then rcount P b + 1 else rcount P c)" for c
    by (simp add: rcount_def)
  have "pool_ok n ?P"
    by (rule pool_more [of n P b]) (use assms(1) b rc in \<open>simp_all add: bq_inv_def\<close>)
  then have "bq_inv n ?q ?P" using assms(1) rc unfolding bq_inv_def bq_rep_def
    by (auto simp: nth_list_update)
  then show ?thesis using IncreaseRefCount_in [OF assms(1) b(1)]
    by (simp add: Vp9BufferQueueAddRef_def)
qed

text \<open>A reference is dropped: the pool \<open>P\<close> has it no more, the queue still counts it.\<close>

definition pool_but :: "nat \<Rightarrow> nat \<Rightarrow> bufpool \<Rightarrow> bool" where
  "pool_but n b P \<longleftrightarrow> distinct (free_bufs P) \<and>
     set (free_bufs P) = {c. c < n \<and> c \<noteq> b \<and> rcount P c = 0} \<and>
     length (refs P) = VP9_REF_LIST_SIZE \<and> (\<forall>r \<in> set (refs P). r = REFERENCE_NOT_SET \<or> 0 \<le> r \<and> r < int n) \<and>
     (\<forall>c. n \<le> c \<longrightarrow> holds P c = 0) \<and> (\<forall>c. holds P c \<le> 2 ^ 30)"

lemma rcount_drop [simp]: "rcount (drop_if_unused b P) c = rcount P c"
  by (simp add: rcount_def drop_if_unused_def)

lemma drop_fields [simp]: "refs (drop_if_unused b P) = refs P" "holds (drop_if_unused b P) = holds P"
  "taken (drop_if_unused b P) = taken P"
  by (simp_all add: drop_if_unused_def)

lemma pool_drop: "pool_but n b P \<Longrightarrow> b < n \<Longrightarrow> pool_ok n (drop_if_unused b P)"
  unfolding pool_ok_def pool_but_def by (auto simp: drop_if_unused_def)

lemma room_for:
  assumes "distinct xs" "set xs \<subseteq> {..<n} - {b}" "b < n"
  shows "length xs < n"
proof -
  have "card (set xs) \<le> card ({..<n} - {b})" using assms(2) by (intro card_mono) auto
  also have "\<dots> = n - 1" using assms(3) by simp
  finally show ?thesis using assms(1,3) by (simp add: distinct_card)
qed

lemma DecreaseRefCount_spec:
  assumes "bq_rep n q P ((rcount P)(b := rcount P b + 1))" "pool_but n b P" "b < n"
  shows "\<exists>q'. DecreaseRefCount q (int b) = Inr q' \<and> ref_status q' = ref_status q \<and>
    bq_rep n q' (drop_if_unused b P) (rcount P)"
proof -
  note R = assms(1)[unfolded bq_rep_def]
  let ?q = "q\<lparr>n_references := (n_references q)[b := int (rcount P b)]\<rparr>"
  have nb: "n_references q ! b = int (rcount P b) + 1" "b < length (n_references q)"
    using R assms(3) by auto
  have go: "DecreaseRefCount q (int b) =
      (if rcount P b = 0 then push_empty ?q (int b) else Inr ?q)"
    using nb by (simp add: DecreaseRefCount_def Let_def)
  have refs: "\<forall>c < n. n_references ?q ! c = int (rcount P c)"
    using R nb(2) by (auto simp: nth_list_update)
  show ?thesis
  proof (cases "rcount P b = 0")
    case False
    then have "drop_if_unused b P = P" by (simp add: drop_if_unused_def)
    then show ?thesis using go False R refs by (simp add: bq_rep_def)
  next
    case True
    obtain f where f: "empty_fifo q = Some f" "ring_rep n f (map int (free_bufs P)) (taken P)"
        "\<forall>x \<in> set (nodes f). 0 \<le> x \<and> x < int n"
      using R by blast
    have "length (free_bufs P) < n"
      using assms(2,3) unfolding pool_but_def by (intro room_for [of _ n b]) auto
    then obtain f1 where f1: "FifoPush f (int b) = Inr (FIFO_OK, f1)"
        "ring_rep n f1 (map int (free_bufs P) @ [int b]) (taken P)"
        "set (nodes f1) \<subseteq> insert (int b) (set (nodes f))"
      using ring_push [OF f(2), of "int b"] by auto
    have "push_empty ?q (int b) = Inr (?q\<lparr>empty_fifo := Some f1\<rparr>)"
      using f(1) f1(1) by (simp add: push_empty_def)
    moreover have "bq_rep n (?q\<lparr>empty_fifo := Some f1\<rparr>) (drop_if_unused b P) (rcount P)"
      using R refs f1(2,3) f(3) True assms(3) by (auto simp: bq_rep_def drop_if_unused_def)
    ultimately show ?thesis using go True by simp
  qed
qed

lemma RemoveRef_spec:
  assumes "bq_inv n q P" "allowed_bq n (RemoveRef b) P"
  shows "\<exists>q'. exec_bq (RemoveRef b) q = Inr (fst (spec_bq (RemoveRef b) P), q') \<and>
    bq_inv n q' (snd (spec_bq (RemoveRef b) P))"
proof -
  let ?P = "P\<lparr>holds := (holds P)(b := holds P b - 1)\<rparr>"
  have ok: "pool_ok n P" using assms(1) by (simp add: bq_inv_def)
  have h: "0 < holds P b" using assms(2) by simp
  with ok have b: "b < n" by (metis pool_ok_def not_le less_numeral_extra(3))
  have rc: "rcount ?P c = (if c = b then rcount P b - 1 else rcount P c)" for c
    using h by (simp add: rcount_def)
  have pos: "0 < rcount P b" using h by (simp add: rcount_def)
  have "pool_but n b ?P"
    using ok pos unfolding pool_ok_def pool_but_def rc
    by (auto intro: le_trans [OF diff_le_self])
  moreover have "(rcount ?P)(b := rcount ?P b + 1) = rcount P" using rc pos by auto
  then have "bq_rep n q ?P ((rcount ?P)(b := rcount ?P b + 1))"
    using assms(1) by (simp add: bq_inv_def bq_rep_def)
  ultimately show ?thesis
    using DecreaseRefCount_spec [of n q ?P b] pool_drop [of n b ?P] b assms(1)
    by (auto simp: Vp9BufferQueueRemoveRef_def bq_inv_def bq_rep_def)
qed

section \<open>Updating the reference slots\<close>

lemma count_list_update:
  "i < length xs \<Longrightarrow> count_list (xs[i := y]) x + (if xs ! i = x then 1 else 0) =
     count_list xs x + (if y = x then 1 else 0)"
proof (induction xs arbitrary: i)
  case Nil
  then show ?case by simp
next
  case (Cons a xs)
  show ?case
  proof (cases i)
    case (Suc j)
    then show ?thesis using Cons.IH [of j] Cons.prems by auto
  qed simp
qed

lemma rcount_slot:
  assumes "i < length (refs P)"
  shows "rcount (P\<lparr>refs := (refs P)[i := y]\<rparr>) c + (if refs P ! i = int c then 1 else 0) =
    rcount P c + (if y = int c then 1 else 0)"
  using count_list_update [OF assms, of y "int c"] by (simp add: rcount_def)

text \<open>Clearing a slot that is set drops one reference.\<close>

lemma clear_slot:
  assumes "pool_ok n P" "i < VP9_REF_LIST_SIZE" "refs P ! i = int b"
  defines "P' \<equiv> P\<lparr>refs := (refs P)[i := REFERENCE_NOT_SET]\<rparr>"
  shows "pool_but n b P'" "b < n" "(rcount P')(b := rcount P' b + 1) = rcount P"
proof -
  have i: "i < length (refs P)" using assms(1,2) by (simp add: pool_ok_def)
  have "int b \<in> set (refs P)" using i assms(3) by (metis nth_mem)
  then show b: "b < n" using assms(1) by (auto simp: pool_ok_def REFERENCE_NOT_SET_def)
  have rc: "rcount P' c + (if b = c then 1 else 0) = rcount P c" for c
    using rcount_slot [OF i, of REFERENCE_NOT_SET c] assms(3)
    by (simp add: P'_def REFERENCE_NOT_SET_def)
  show "(rcount P')(b := rcount P' b + 1) = rcount P"
  proof (rule ext)
    show "((rcount P')(b := rcount P' b + 1)) c = rcount P c" for c
      using rc [of b] rc [of c] by auto
  qed
  have pos: "0 < rcount P b" using rc [of b] by simp
  have eq: "{c. c < n \<and> rcount P c = 0} = {c. c < n \<and> c \<noteq> b \<and> rcount P' c = 0}"
    using rc pos by (auto simp flip: rc)
  have "\<forall>r \<in> set (refs P'). r = REFERENCE_NOT_SET \<or> 0 \<le> r \<and> r < int n"
    using assms(1) set_update_subset_insert [of "refs P" i REFERENCE_NOT_SET]
    unfolding pool_ok_def P'_def by auto
  then show "pool_but n b P'" using assms(1) unfolding pool_but_def eq [symmetric] pool_ok_def
    by (simp add: P'_def)
qed

lemma set_slot_split:
  assumes "refs P ! i = int b" "buffer \<noteq> int b" "i < length (refs P)"
  shows "set_slot buffer i P =
    (drop_if_unused b (P\<lparr>refs := (refs P)[i := REFERENCE_NOT_SET]\<rparr>))\<lparr>refs := (refs P)[i := buffer]\<rparr>"
proof -
  have "rcount (P\<lparr>refs := (refs P)[i := buffer]\<rparr>) b =
      rcount (P\<lparr>refs := (refs P)[i := REFERENCE_NOT_SET]\<rparr>) b"
    using rcount_slot [OF assms(3), of buffer b] rcount_slot [OF assms(3), of REFERENCE_NOT_SET b] assms(1,2)
    by (simp add: REFERENCE_NOT_SET_def)
  then show ?thesis using assms(1,2)
    by (auto simp: set_slot_def drop_if_unused_def Let_def REFERENCE_NOT_SET_def)
qed

text \<open>Filling an empty slot adds one reference.\<close>

lemma fill_slot:
  assumes "bq_inv n q P" "i < VP9_REF_LIST_SIZE" "refs P ! i = REFERENCE_NOT_SET"
    and "b < n" "0 < holds P b"
  shows "\<exists>q'. IncreaseRefCount (q\<lparr>ref_status := (ref_status q)[i := int b]\<rparr>) (int b) = Inr q' \<and>
    bq_inv n q' (P\<lparr>refs := (refs P)[i := int b]\<rparr>)"
proof -
  let ?P = "P\<lparr>refs := (refs P)[i := int b]\<rparr>"
  let ?q = "q\<lparr>ref_status := (ref_status q)[i := int b]\<rparr>"
  let ?r = "?q\<lparr>n_references := (n_references q)[b := int (rcount P b) + 1]\<rparr>"
  have i: "i < length (refs P)" using assms(1,2) by (simp add: bq_inv_def pool_ok_def)
  have rc: "rcount ?P c = (if c = b then rcount P b + 1 else rcount P c)" for c
    using rcount_slot [OF i, of "int b" c] assms(3) by (simp add: REFERENCE_NOT_SET_def split: if_splits)
  have pos: "0 < rcount P b" using assms(5) by (simp add: rcount_def)
  have "pool_ok n ?P"
    by (rule pool_more [of n P b]) (use assms pos rc in \<open>auto simp: bq_inv_def\<close>)
  then have inv: "bq_inv n ?r ?P" using assms(1) rc unfolding bq_inv_def bq_rep_def
    by (auto simp: nth_list_update)
  have "IncreaseRefCount ?q (int b) = Inr ?r"
    using IncreaseRefCount_in [OF assms(1,4)] assms(1,4) unfolding IncreaseRefCount_def bq_inv_def bq_rep_def
    by (auto split: if_splits)
  with inv show ?thesis by blast
qed

lemma update_slot_spec:
  assumes "bq_inv n q P" "i < VP9_REF_LIST_SIZE"
    and "buffer = REFERENCE_NOT_SET \<or> (\<exists>b < n. buffer = int b \<and> 0 < holds P b)"
  shows "\<exists>q'. update_slot flags buffer q i = Inr q' \<and>
    bq_inv n q' (if flags AND push_bit i 1 \<noteq> 0 then set_slot buffer i P else P)"
proof (cases "flags AND push_bit i 1 \<noteq> 0 \<and> buffer \<noteq> refs P ! i")
  case False
  then show ?thesis using assms(1,2)
    by (auto simp: update_slot_def bq_inv_def pool_ok_def set_slot_def)
next
  case True
  have ok: "pool_ok n P" and q: "ref_status q = refs P" "bq_rep n q P (rcount P)"
    and i: "i < length (refs P)"
    using assms(1,2) by (auto simp: bq_inv_def pool_ok_def)
  let ?P = "P\<lparr>refs := (refs P)[i := REFERENCE_NOT_SET]\<rparr>"
  obtain q1 P1 where q1: "(if refs P ! i \<noteq> REFERENCE_NOT_SET then DecreaseRefCount q (refs P ! i)
        else Inr q) = Inr q1" "ref_status q1 = refs P"
      and P1: "bq_inv n (q1\<lparr>ref_status := (refs P)[i := REFERENCE_NOT_SET]\<rparr>) P1"
        "refs P1 = (refs P)[i := REFERENCE_NOT_SET]" "holds P1 = holds P"
        "set_slot buffer i P = P1\<lparr>refs := (refs P)[i := buffer]\<rparr>"
  proof (cases "refs P ! i = REFERENCE_NOT_SET")
    case unset: True
    then have "(refs P)[i := REFERENCE_NOT_SET] = refs P" by (metis list_update_id)
    then show ?thesis using that [of q P] unset True assms(1) q by (simp add: set_slot_def bq_inv_def bq_rep_def)
  next
    case False
    then obtain b where b: "refs P ! i = int b"
      using ok i unfolding pool_ok_def by (metis nth_mem nonneg_int_cases)
    note C = clear_slot [OF ok assms(2) b]
    have "bq_rep n q ?P ((rcount ?P)(b := rcount ?P b + 1))"
      using q(2) unfolding C(3) by (simp add: bq_rep_def)
    from DecreaseRefCount_spec [OF this C(1,2)] obtain q1 where q1:
      "DecreaseRefCount q (int b) = Inr q1" "ref_status q1 = ref_status q"
      "bq_rep n q1 (drop_if_unused b ?P) (rcount ?P)" by blast
    have "rcount (drop_if_unused b ?P) = rcount ?P" by (rule ext) simp
    then have "bq_inv n (q1\<lparr>ref_status := (refs P)[i := REFERENCE_NOT_SET]\<rparr>) (drop_if_unused b ?P)"
      using pool_drop [OF C(1,2)] q1(3) by (simp add: bq_inv_def bq_rep_def)
    then show ?thesis
      using that [of q1 "drop_if_unused b ?P"] q1 False b q set_slot_split [OF b _ i] True by simp
  qed
  have go: "update_slot flags buffer q i =
      (let q2 = q1\<lparr>ref_status := (refs P)[i := buffer]\<rparr>
       in if buffer \<noteq> REFERENCE_NOT_SET then IncreaseRefCount q2 buffer else Inr q2)"
    using True i q1(2) unfolding update_slot_def q(1) q1(1) by simp
  show ?thesis
  proof (cases "buffer = REFERENCE_NOT_SET")
    case unset: True
    then have "set_slot buffer i P = P1" using P1(2,4) by simp
    then show ?thesis using go unset P1(1) True by simp
  next
    case False
    then obtain b where b: "b < n" "buffer = int b" "0 < holds P1 b" using assms(3) P1(3) by auto
    have "refs P1 ! i = REFERENCE_NOT_SET" using P1(2) i by simp
    from fill_slot [OF P1(1) assms(2) this b(1,3)] show ?thesis
      using go False True P1(2,4) b(2) by (simp add: Let_def)
  qed
qed

lemma holds_set_slot [simp]: "holds (set_slot buffer i P) = holds P"
  by (simp add: set_slot_def Let_def)

lemma update_slots_spec:
  assumes "bq_inv n q P" "\<forall>i \<in> set xs. i < VP9_REF_LIST_SIZE"
    and "buffer = REFERENCE_NOT_SET \<or> (\<exists>b < n. buffer = int b \<and> 0 < holds P b)"
  shows "\<exists>q'. update_slots flags buffer q xs = Inr q' \<and>
    bq_inv n q' (fold (set_slot buffer) (filter (\<lambda>i. flags AND push_bit i 1 \<noteq> 0) xs) P)"
  using assms
proof (induction xs arbitrary: q P)
  case Nil
  then show ?case by simp
next
  case (Cons i xs)
  let ?P = "if flags AND push_bit i 1 \<noteq> 0 then set_slot buffer i P else P"
  obtain q1 where q1: "update_slot flags buffer q i = Inr q1" "bq_inv n q1 ?P"
    using update_slot_spec [OF Cons.prems(1) _ Cons.prems(3), of i flags] Cons.prems(2)
    by (metis list.set_intros(1))
  have "holds ?P = holds P" by simp
  with Cons.IH [OF q1(2)] Cons.prems(2,3) q1(1) show ?case by (auto split: if_splits)
qed

section \<open>The contract holds\<close>

interpretation bq: follows_spec "bq_inv n" exec_bq "allowed_bq n" spec_bq for n
proof
  fix q P c
  assume inv: "bq_inv n q P" and ok: "allowed_bq n c P"
  show "\<exists>q'. exec_bq c q = Inr (fst (spec_bq c P), q') \<and> bq_inv n q' (snd (spec_bq c P))"
  proof (cases c)
    case (GetBuffer limit)
    then show ?thesis using GetBuffer_spec [OF inv] ok by simp
  next
    case (AddRef b)
    then show ?thesis using AddRef_spec [OF inv] ok by blast
  next
    case (RemoveRef b)
    then show ?thesis using RemoveRef_spec [OF inv] ok by blast
  next
    case (UpdateRef flags buffer)
    have "buffer = REFERENCE_NOT_SET \<or> (\<exists>b < n. buffer = int b \<and> 0 < holds P b)"
      using ok unfolding UpdateRef by (auto intro!: exI [of _ "nat buffer"])
    then show ?thesis
      using update_slots_spec [OF inv, of "[0..<VP9_REF_LIST_SIZE]" buffer flags] UpdateRef
      by (auto simp: Vp9BufferQueueUpdateRef_def)
  next
    case (GetRef i)
    then show ?thesis using inv ok
      by (simp add: Vp9BufferQueueGetRef_def bq_inv_def pool_ok_def)
  qed
qed

text \<open>A new queue.\<close>

definition new_pool :: "nat \<Rightarrow> bufpool" where
  "new_pool n = \<lparr>free_bufs = [0..<n], holds = \<lambda>_. 0, refs = replicate VP9_REF_LIST_SIZE REFERENCE_NOT_SET,
     taken = 0\<rparr>"

lemma fill_queue_spec:
  assumes "empty_fifo q = Some f" "ring_rep n f (map int [0..<k]) 0" "k + m = n"
    and "n_buffers q = int k" "\<forall>x \<in> set (nodes f). 0 \<le> x \<and> x < int n"
  shows "\<exists>f'. fill_queue [k..<n] q = Inr (Some (q\<lparr>empty_fifo := Some f', n_buffers := int n\<rparr>)) \<and>
    ring_rep n f' (map int [0..<n]) 0 \<and> (\<forall>x \<in> set (nodes f'). 0 \<le> x \<and> x < int n)"
  using assms
proof (induction m arbitrary: q f k)
  case 0
  show ?case by (rule exI [of _ f]) (use 0 in simp)
next
  case (Suc m)
  have up: "[k..<n] = k # [Suc k..<n]" using Suc.prems(3) by (simp add: upt_conv_Cons)
  have len: "length (map int [0..<k]) < n" using Suc.prems(3) by simp
  obtain f1 where f1: "FifoPush f (int k) = Inr (FIFO_OK, f1)"
      "ring_rep n f1 (map int [0..<k] @ [int k]) 0" "set (nodes f1) \<subseteq> insert (int k) (set (nodes f))"
    using ring_push [OF Suc.prems(2) len, of "int k"] by blast
  let ?q = "q\<lparr>empty_fifo := Some f1, n_buffers := int (Suc k)\<rparr>"
  have "\<exists>f'. fill_queue [Suc k..<n] ?q = Inr (Some (?q\<lparr>empty_fifo := Some f', n_buffers := int n\<rparr>)) \<and>
    ring_rep n f' (map int [0..<n]) 0 \<and> (\<forall>x \<in> set (nodes f'). 0 \<le> x \<and> x < int n)"
    by (rule Suc.IH [where f = f1]) (use f1 Suc.prems in \<open>auto\<close>)
  then show ?case using f1(1) Suc.prems(1,4) unfolding up by (simp add: Let_def ac_simps)
qed

lemma Initialize_inv:
  assumes "0 < n" "n \<le> VP9DEC_MAX_PIC_BUFFERS"
  shows "\<exists>q. Vp9BufferQueueInitialize True True True (int n) = Inr (Some q) \<and> bq_inv n q (new_pool n)"
proof -
  let ?f = "\<lparr>num_of_slots = of_nat n, num_of_objects = 0, tail_index = 0, nodes = replicate n 0\<rparr>"
  let ?q = "\<lparr>n_buffers = 0, n_references = replicate VP9DEC_MAX_PIC_BUFFERS 0,
      ref_status = replicate VP9_REF_LIST_SIZE 0, empty_fifo = Some ?f\<rparr>"
  have n: "unat (of_nat n :: 32 word) = n"
    using assms(2) by (intro unat_of_nat_small) (simp add: VP9DEC_MAX_PIC_BUFFERS_def)
  have "ring_rep n ?f (map int [0..<0]) 0"
    using assms n by (simp add: ring_rep_def VP9DEC_MAX_PIC_BUFFERS_def)
  then obtain f' where f': "fill_queue [0..<n] ?q =
      Inr (Some (?q\<lparr>empty_fifo := Some f', n_buffers := int n\<rparr>))"
      "ring_rep n f' (map int [0..<n]) 0" "\<forall>x \<in> set (nodes f'). 0 \<le> x \<and> x < int n"
    using fill_queue_spec [of ?q ?f n 0 n] assms(1) by auto
  let ?r = "Vp9BufferQueueResetReferences (?q\<lparr>empty_fifo := Some f', n_buffers := int n\<rparr>)"
  have "Vp9BufferQueueInitialize True True True (int n) = Inr (Some ?r)"
    using f'(1) n by (simp add: Vp9BufferQueueInitialize_def FifoInit_def)
  moreover have "bq_inv n ?r (new_pool n)"
    using f'(2,3) assms(2)
    by (auto simp: bq_inv_def bq_rep_def pool_ok_def new_pool_def rcount_def REFERENCE_NOT_SET_def
        Vp9BufferQueueResetReferences_def VP9DEC_MAX_PIC_BUFFERS_def count_list_0_iff)
  ultimately show ?thesis by blast
qed

end
