(* ===== verification/Vp9Pictures.thy ===== *)
theory Vp9Pictures
  imports Vp9Pool
begin

text \<open>
  The theorems on the picture buffer queue of VP9, \<^verbatim>\<open>vp9hwd_buffer_queue.c\<close> and \<^verbatim>\<open>vp9hwd_fifo.c\<close>.
\<close>

lemma queue_runs:
  assumes "0 < n" "n \<le> VP9DEC_MAX_PIC_BUFFERS" "allowed_calls (allowed_bq n) spec_bq cs (new_pool n)"
  shows "\<exists>q q'. Vp9BufferQueueInitialize True True True (int n) = Inr (Some q) \<and>
    run_calls exec_bq cs q = Inr (fst (spec_calls spec_bq cs (new_pool n)), q') \<and>
    bq_inv n q' (snd (spec_calls spec_bq cs (new_pool n)))"
  using Initialize_inv [OF assms(1,2)] bq.run_calls_spec [OF _ assms(3)] by blast

lemma allowed_calls_append:
  "allowed_calls ok spec (cs @ ds) a \<longleftrightarrow>
     allowed_calls ok spec cs a \<and> allowed_calls ok spec ds (snd (spec_calls spec cs a))"
  by (induction cs arbitrary: a) (auto simp: case_prod_beta Let_def)

text \<open>What a request gives, in terms of the queue.\<close>

lemma GetBuffer_unused:
  assumes "bq_inv n q P" "taken P + n + 1 < 2 ^ 32"
  shows "\<exists>b q'. Vp9BufferQueueGetBuffer q limit = Inr (b, q') \<and>
    (if \<forall>c < n. n_references q ! c \<noteq> 0 then b = - 1 \<and> q' = q
     else 0 \<le> b \<and> b < int n \<and> n_references q ! nat b = 0 \<and> n_references q' ! nat b = 1 \<and>
       b \<notin> set (ref_status q))"
proof -
  have ok: "pool_ok n P" and rs: "ref_status q = refs P"
    and nr: "\<And>c. c < n \<Longrightarrow> n_references q ! c = int (rcount P c)"
    using assms(1) by (auto simp: bq_inv_def bq_rep_def)
  show ?thesis
  proof (cases "free_bufs P")
    case Nil
    then have "\<forall>c < n. n_references q ! c \<noteq> 0" using ok nr by (auto simp: pool_ok_def)
    then show ?thesis using GetBuffer_full [OF assms(1) Nil] by simp
  next
    case (Cons b bs)
    note T = pool_take [OF ok Cons]
    obtain q' where q': "Vp9BufferQueueGetBuffer q limit = Inr (int b, q')"
        "bq_inv n q' (snd (spec_bq (GetBuffer limit) P))"
      using GetBuffer_spec [OF assms, of limit] Cons by auto
    have "n_references q' ! b = 1" using q'(2) T(2,4) Cons by (simp add: bq_inv_def bq_rep_def)
    moreover have "int b \<notin> set (refs P)" using T(3) by (simp add: rcount_def count_list_0_iff)
    moreover have "n_references q ! b = 0" using nr T(2,3) by simp
    ultimately show ?thesis using q'(1) T(2) rs by (intro exI [of _ "int b"] exI [of _ q']) auto
  qed
qed




lemma slots_gt [simp]: "7 < VP9_REF_LIST_SIZE"
  by (simp add: VP9_REF_LIST_SIZE_def)







text \<open>C25. Safety: a buffer that is given out is one nobody refers to, neither the decoder nor the
  output nor a reference slot, and it is given out with one reference; the call fails exactly when all
  buffers are in use, and then leaves the queue as it was.\<close>

theorem given_buffer_is_unused:
  assumes "0 < n" "n \<le> VP9DEC_MAX_PIC_BUFFERS"
    and "allowed_calls (allowed_bq n) spec_bq (cs @ [GetBuffer limit]) (new_pool n)"
    and "Vp9BufferQueueInitialize True True True (int n) = Inr (Some q0)"
    and "run_calls exec_bq cs q0 = Inr (rs, q)"
  shows "\<exists>b q'. Vp9BufferQueueGetBuffer q limit = Inr (b, q') \<and>
    (if \<forall>c < n. n_references q ! c \<noteq> 0 then b = - 1 \<and> q' = q
     else 0 \<le> b \<and> b < int n \<and> n_references q ! nat b = 0 \<and> n_references q' ! nat b = 1 \<and>
       b \<notin> set (ref_status q))"
proof -
  let ?P = "snd (spec_calls spec_bq cs (new_pool n))"
  have ok: "allowed_calls (allowed_bq n) spec_bq cs (new_pool n)" "allowed_bq n (GetBuffer limit) ?P"
    using assms(3) unfolding allowed_calls_append by auto
  have inv: "bq_inv n q ?P" using queue_runs [OF assms(1,2) ok(1)] assms(4,5) by auto
  show ?thesis using GetBuffer_unused [OF inv] ok(2) by simp
qed

definition one_buffer :: "int \<Rightarrow> int \<Rightarrow> 32 word \<Rightarrow> 32 word \<Rightarrow> BQueue" where
  "one_buffer n c objects tail =
     \<lparr>n_buffers = n, n_references = c # replicate 15 0,
      ref_status = replicate VP9_REF_LIST_SIZE REFERENCE_NOT_SET,
      empty_fifo = Some \<lparr>num_of_slots = 1, num_of_objects = objects, tail_index = tail, nodes = [0]\<rparr>\<rparr>"

lemma one_buffer_runs:
  "Vp9BufferQueueInitialize True True True 1 = Inr (Some (one_buffer 1 0 1 0))"
  "run_calls exec_bq [GetBuffer 1] (one_buffer 1 0 1 0) = Inr ([0], one_buffer 1 1 0 1)"
  by (simp_all add: Vp9BufferQueueInitialize_def FifoInit_def FifoPush_def Let_def
      Vp9BufferQueueResetReferences_def one_buffer_def VP9DEC_MAX_PIC_BUFFERS_def numeral_eq_Suc
      Vp9BufferQueueGetBuffer_def FifoPop_def IncreaseRefCount_def)

theorem given_buffer_is_unused_witness:
  "\<exists>b q'. Vp9BufferQueueGetBuffer (one_buffer 1 1 0 1) 1 = Inr (b, q') \<and>
    (if \<forall>c < 1. n_references (one_buffer 1 1 0 1) ! c \<noteq> 0 then b = - 1 \<and> q' = one_buffer 1 1 0 1
     else 0 \<le> b \<and> b < int 1 \<and> n_references (one_buffer 1 1 0 1) ! nat b = 0 \<and>
       n_references q' ! nat b = 1 \<and> b \<notin> set (ref_status (one_buffer 1 1 0 1)))"
proof (rule given_buffer_is_unused)
  show "Vp9BufferQueueInitialize True True True (int 1) = Inr (Some (one_buffer 1 0 1 0))"
    using one_buffer_runs(1) by simp
  show "run_calls exec_bq [GetBuffer 1] (one_buffer 1 0 1 0) = Inr ([0], one_buffer 1 1 0 1)"
    by (rule one_buffer_runs(2))
  show "allowed_calls (allowed_bq 1) spec_bq ([GetBuffer 1] @ [GetBuffer 1]) (new_pool 1)"
    by (simp add: new_pool_def)
qed (simp_all add: VP9DEC_MAX_PIC_BUFFERS_def)

section \<open>Buffers added later\<close>



end
