(* ===== verification/Ion.thy ===== *)
theory Ion
  imports CedarPrelude "HOL-Library.Multiset"
begin

text \<open>
  The ION memory allocator, \<^verbatim>\<open>memory/ionMemory/ionAlloc.c\<close>: physically contiguous buffers from the
  kernel, mapped into the process, with a list to translate addresses. An \<^verbatim>\<open>unsigned long\<close> is a 64-bit
  word. The kernel is outside the code: what its calls return is an argument of every operation, and
  the record \<open>kernel\<close> counts what the process holds, so that leaks show.
\<close>

section \<open>State\<close>

record buffer_node =
  phy :: "64 word"
  vir :: "64 word"
  node_size :: "32 word"
  tee :: "32 word"
  user_virt :: "64 word"
  node_handle :: nat
  node_fd :: int

record ion_alloc_context =
  ion_fd :: int
  bufs :: "buffer_node list"
  ref_cnt :: int
  phyOffset :: "32 word"

record kernel =
  handles :: "nat list"
  dma_fds :: "int list"
  maps :: "64 word list"

text \<open>\<open>g_alloc_context\<close> and the kernel.\<close>

record ion_world =
  ctx :: "ion_alloc_context option"
  krn :: kernel

text \<open>
  The answers: \<open>None\<close> where the call fails. \<open>phys_answer\<close> is the IOMMU's address or the one of
  \<^verbatim>\<open>ION_IOC_SUNXI_PHYS_ADDR\<close>, \<open>drm_phys\<close> and \<open>tee_answer\<close> are those of the secure allocation.
\<close>

record answers =
  alloc_answer :: "nat option"
  map_answer :: "int option"
  mmap_answer :: "64 word option"
  malloc_answer :: bool
  phys_answer :: "64 word option"
  drm_phys :: "64 word option"
  tee_answer :: "64 word option"

section \<open>Opening and closing\<close>

record open_answers =
  ctx_malloc :: bool
  ve_ops :: bool
  ve_init :: bool
  ve_offset :: "32 word"
  dev_fd :: int

definition ion_alloc_open :: "open_answers \<Rightarrow> ion_world \<Rightarrow> int \<times> ion_world" where
  "ion_alloc_open a w =
     (case ctx w of
        Some c \<Rightarrow> (0, w\<lparr>ctx := Some (c\<lparr>ref_cnt := ref_cnt c + 1\<rparr>)\<rparr>)
      | None \<Rightarrow>
          if \<not> ctx_malloc a then (- 1, w)
          else if \<not> ve_ops a then (- 1, w\<lparr>ctx := None\<rparr>)
          else if \<not> ve_init a then (- 1, w\<lparr>ctx := None\<rparr>)
          else if dev_fd a \<le> 0 then (- 1, w\<lparr>ctx := None\<rparr>)
          else (0, w\<lparr>ctx := Some \<lparr>ion_fd = dev_fd a, bufs = [], ref_cnt = 1, phyOffset = ve_offset a\<rparr>\<rparr>))"

text \<open>The last close frees the nodes of the list; nothing is unmapped or given back to the kernel.\<close>

definition ion_alloc_close :: "ion_world \<Rightarrow> ion_world res" where
  "ion_alloc_close w =
     (case ctx w of
        None \<Rightarrow> Inl NullDeref
      | Some c \<Rightarrow>
          let c1 = c\<lparr>ref_cnt := ref_cnt c - 1\<rparr>
          in if ref_cnt c1 \<le> 0 then Inr (w\<lparr>ctx := None\<rparr>) else Inr (w\<lparr>ctx := Some c1\<rparr>))"

section \<open>Allocation\<close>

definition k_alloc :: "nat \<Rightarrow> ion_world \<Rightarrow> ion_world" where
  "k_alloc h w = w\<lparr>krn := (krn w)\<lparr>handles := h # handles (krn w)\<rparr>\<rparr>"
definition k_map :: "int \<Rightarrow> ion_world \<Rightarrow> ion_world" where
  "k_map f w = w\<lparr>krn := (krn w)\<lparr>dma_fds := f # dma_fds (krn w)\<rparr>\<rparr>"
definition k_mmap :: "64 word \<Rightarrow> ion_world \<Rightarrow> ion_world" where
  "k_mmap v w = w\<lparr>krn := (krn w)\<lparr>maps := v # maps (krn w)\<rparr>\<rparr>"

text \<open>\<^verbatim>\<open>munmap\<close>, \<^verbatim>\<open>close\<close> and \<^verbatim>\<open>ION_IOC_FREE\<close>.\<close>

definition k_release :: "64 word \<Rightarrow> int \<Rightarrow> nat \<Rightarrow> ion_world \<Rightarrow> ion_world" where
  "k_release v f h w = w\<lparr>krn := \<lparr>handles = remove1 h (handles (krn w)), dma_fds = remove1 f (dma_fds (krn w)),
                               maps = remove1 v (maps (krn w))\<rparr>\<rparr>"

definition add_node :: "buffer_node \<Rightarrow> ion_alloc_context \<Rightarrow> ion_world \<Rightarrow> ion_world" where
  "add_node n c w = w\<lparr>ctx := Some (c\<lparr>bufs := bufs c @ [n]\<rparr>)\<rparr>"

definition ion_alloc_palloc :: "answers \<Rightarrow> int \<Rightarrow> ion_world \<Rightarrow> 64 word \<times> ion_world" where
  "ion_alloc_palloc a size0 w =
     (case ctx w of
        None \<Rightarrow> (0, w)
      | Some c \<Rightarrow>
          if size0 \<le> 0 then (0, w)
          else case alloc_answer a of
            None \<Rightarrow> (0, w)
          | Some h \<Rightarrow>
              let w1 = k_alloc h w
              in case map_answer a of
                None \<Rightarrow> (0, w1)
              | Some f \<Rightarrow>
                  let w2 = k_map f w1
                  in case mmap_answer a of
                    None \<Rightarrow> (0, w2)
                  | Some v \<Rightarrow>
                      let w3 = k_mmap v w2
                      in if \<not> malloc_answer a then (0, k_release v f h w3)
                         else case phys_answer a of
                           None \<Rightarrow> (v, w3)
                         | Some p \<Rightarrow>
                             (v, add_node \<lparr>phy = p, vir = v, node_size = word_of_int size0, tee = 0,
                                           user_virt = v, node_handle = h, node_fd = f\<rparr> c w3))"

text \<open>The first node with the address is taken out of the list.\<close>

definition ion_alloc_pfree :: "64 word \<Rightarrow> ion_world \<Rightarrow> ion_world" where
  "ion_alloc_pfree pbuf w =
     (if pbuf = 0 then w
      else case ctx w of
        None \<Rightarrow> w
      | Some c \<Rightarrow>
          (case find (\<lambda>n. vir n = pbuf) (bufs c) of
             None \<Rightarrow> w
           | Some n \<Rightarrow>
               (k_release (user_virt n) (node_fd n) (node_handle n) w)
                 \<lparr>ctx := Some (c\<lparr>bufs := remove1 n (bufs c)\<rparr>)\<rparr>))"

text \<open>The secure allocation. \<open>optee\<close> is \<^verbatim>\<open>ADJUST_ADDRESS_FOR_SECURE_OS_OPTEE\<close>, \<open>iommu\<close> the test that the
  memory type is \<^verbatim>\<open>MEMORY_IOMMU\<close> and the VE is given.\<close>

definition ion_alloc_alloc_drm :: "bool \<Rightarrow> bool \<Rightarrow> answers \<Rightarrow> int \<Rightarrow> ion_world \<Rightarrow> 64 word \<times> ion_world" where
  "ion_alloc_alloc_drm optee iommu a size0 w =
     (case ctx w of
        None \<Rightarrow> (0, w)
      | Some c \<Rightarrow>
          if size0 \<le> 0 then (0, w)
          else case alloc_answer a of
            None \<Rightarrow> (0, w)
          | Some h \<Rightarrow>
              let w1 = k_alloc h w
              in case map_answer a of
                None \<Rightarrow> (0, w1)
              | Some f \<Rightarrow>
                  let w2 = k_map f w1
                  in case mmap_answer a of
                    None \<Rightarrow> (0, w2)
                  | Some v \<Rightarrow>
                      let w3 = k_mmap v w2
                      in case drm_phys a of
                        None \<Rightarrow> (0, w3)
                      | Some p \<Rightarrow>
                          (case (if optee then tee_answer a else Some v) of
                             None \<Rightarrow> (0, w3)
                           | Some t \<Rightarrow>
                               if \<not> malloc_answer a then (t, k_release v f h w3)
                               else
                                 (case (if iommu then phys_answer a else Some p) of
                                    None \<Rightarrow> (t, w3)
                                  | Some q \<Rightarrow>
                                      (t, add_node \<lparr>phy = q, vir = t, node_size = word_of_int size0,
                                                    tee = ucast t, user_virt = v, node_handle = h,
                                                    node_fd = f\<rparr> c w3))))"

section \<open>Address translation\<close>

text \<open>\<^verbatim>\<open>addr >= base && addr < base + size\<close>\<close>

definition in_buffer :: "64 word \<Rightarrow> 64 word \<Rightarrow> 32 word \<Rightarrow> bool" where
  "in_buffer a base n \<longleftrightarrow> a \<ge> base \<and> a < base + ucast n"

definition ion_alloc_vir2phy_cpu :: "64 word \<Rightarrow> ion_world \<Rightarrow> 64 word res" where
  "ion_alloc_vir2phy_cpu pbuf w =
     (if pbuf = 0 then Inr 0
      else case ctx w of
        None \<Rightarrow> Inl NullDeref
      | Some c \<Rightarrow> Inr (case find (\<lambda>n. in_buffer pbuf (vir n) (node_size n)) (bufs c) of
                      None \<Rightarrow> 0 | Some n \<Rightarrow> phy n + pbuf - vir n))"

definition ion_alloc_phy2vir_cpu :: "64 word \<Rightarrow> ion_world \<Rightarrow> 64 word res" where
  "ion_alloc_phy2vir_cpu pbuf w =
     (if pbuf = 0 then Inr 0
      else case ctx w of
        None \<Rightarrow> Inl NullDeref
      | Some c \<Rightarrow> Inr (case find (\<lambda>n. in_buffer pbuf (phy n) (node_size n)) (bufs c) of
                      None \<Rightarrow> 0 | Some n \<Rightarrow> vir n + pbuf - phy n))"

definition ion_alloc_get_ve_addr_offset :: "ion_world \<Rightarrow> 32 word" where
  "ion_alloc_get_ve_addr_offset w = (case ctx w of Some c \<Rightarrow> phyOffset c | None \<Rightarrow> 0)"

definition ion_alloc_vir2phy_ve :: "64 word \<Rightarrow> ion_world \<Rightarrow> 64 word res" where
  "ion_alloc_vir2phy_ve pbuf w =
     (case ctx w of
        None \<Rightarrow> Inl NullDeref
      | Some c \<Rightarrow> and_then (ion_alloc_vir2phy_cpu pbuf w) (\<lambda>p. Inr (p - ucast (phyOffset c))))"

definition ion_alloc_phy2vir_ve :: "64 word \<Rightarrow> ion_world \<Rightarrow> 64 word res" where
  "ion_alloc_phy2vir_ve pbuf w =
     (case ctx w of
        None \<Rightarrow> Inl NullDeref
      | Some c \<Rightarrow> and_then (ion_alloc_phy2vir_cpu pbuf w) (\<lambda>v. Inr (v - ucast (phyOffset c))))"

section \<open>Address translation is a bijection of the buffers\<close>

text \<open>What the kernel guarantees: the ranges it hands out do not wrap, and do not overlap.\<close>

definition no_wrap :: "64 word \<Rightarrow> 32 word \<Rightarrow> bool" where
  "no_wrap b n \<longleftrightarrow> 0 < unat b \<and> 0 < unat n \<and> unat b + unat n < 2 ^ 64"

definition apart :: "64 word \<Rightarrow> 32 word \<Rightarrow> 64 word \<Rightarrow> 32 word \<Rightarrow> bool" where
  "apart b n b' n' \<longleftrightarrow> unat b + unat n \<le> unat b' \<or> unat b' + unat n' \<le> unat b"

definition good_node :: "buffer_node \<Rightarrow> bool" where
  "good_node n \<longleftrightarrow> no_wrap (phy n) (node_size n) \<and> no_wrap (vir n) (node_size n)"

definition apart_nodes :: "buffer_node \<Rightarrow> buffer_node \<Rightarrow> bool" where
  "apart_nodes m n \<longleftrightarrow> apart (phy m) (node_size m) (phy n) (node_size n) \<and>
     apart (vir m) (node_size m) (vir n) (node_size n)"

fun good_bufs :: "buffer_node list \<Rightarrow> bool" where
  "good_bufs [] = True"
| "good_bufs (n # ns) \<longleftrightarrow> good_node n \<and> (\<forall>m \<in> set ns. apart_nodes n m) \<and> good_bufs ns"

lemma unat_lt_32: "unat (n :: 32 word) < 18446744073709551616"
  by (rule less_trans [OF unsigned_less]) simp

lemma in_buffer_unat:
  "no_wrap b n \<Longrightarrow> in_buffer a b n \<longleftrightarrow> unat b \<le> unat a \<and> unat a < unat b + unat n"
proof -
  assume b: "no_wrap b n"
  have "unat (ucast n :: 64 word) = unat n"
    by (simp add: unsigned_ucast_eq take_bit_nat_eq_self unat_lt_32)
  then have "unat (b + ucast n) = unat b + unat n" using b by (simp add: no_wrap_def unat_word_ariths)
  then show ?thesis by (simp add: in_buffer_def word_le_nat_alt word_less_nat_alt)
qed

lemma apart_sym: "apart b n b' n' \<Longrightarrow> apart b' n' b n"
  by (auto simp: apart_def)

lemma apart_nodes_sym: "apart_nodes m n \<Longrightarrow> apart_nodes n m"
  by (auto simp: apart_nodes_def apart_def)

lemma good_bufs_append:
  "good_bufs (ns @ [n]) \<longleftrightarrow> good_bufs ns \<and> good_node n \<and> (\<forall>m \<in> set ns. apart_nodes m n)"
  by (induction ns) auto

lemma good_bufs_remove: "good_bufs ns \<Longrightarrow> good_bufs (remove1 n ns)"
  by (induction ns) (auto dest: notin_set_remove1)

text \<open>An address of a buffer is found in that buffer, by either coordinate.\<close>

definition holds_vir :: "64 word \<Rightarrow> buffer_node \<Rightarrow> bool" where
  "holds_vir a n = in_buffer a (vir n) (node_size n)"

definition holds_phy :: "64 word \<Rightarrow> buffer_node \<Rightarrow> bool" where
  "holds_phy a n = in_buffer a (phy n) (node_size n)"

lemma apart_buffer:
  "apart b n b' n' \<Longrightarrow> no_wrap b n \<Longrightarrow> no_wrap b' n' \<Longrightarrow> in_buffer a b n \<Longrightarrow> \<not> in_buffer a b' n'"
  by (auto simp: in_buffer_unat apart_def)

lemma good_bufs_node: "good_bufs ns \<Longrightarrow> n \<in> set ns \<Longrightarrow> good_node n"
  by (induction ns) auto

lemma other_buffer:
  assumes "good_bufs (m # ns)" "n \<in> set ns"
  shows "holds_vir a n \<Longrightarrow> \<not> holds_vir a m" "holds_phy a n \<Longrightarrow> \<not> holds_phy a m"
proof -
  have g: "good_node m" "good_node n" "apart_nodes n m"
    using assms good_bufs_node apart_nodes_sym by auto
  then show "holds_vir a n \<Longrightarrow> \<not> holds_vir a m" "holds_phy a n \<Longrightarrow> \<not> holds_phy a m"
    using apart_buffer unfolding holds_vir_def holds_phy_def apart_nodes_def good_node_def by blast+
qed

lemma find_vir: "good_bufs ns \<Longrightarrow> n \<in> set ns \<Longrightarrow> holds_vir a n \<Longrightarrow> find (holds_vir a) ns = Some n"
proof (induction ns)
  case (Cons m ns)
  then show ?case using other_buffer(1) [OF Cons.prems(1), of n a] by (cases "n \<in> set ns") auto
qed simp

lemma find_phy: "good_bufs ns \<Longrightarrow> n \<in> set ns \<Longrightarrow> holds_phy a n \<Longrightarrow> find (holds_phy a) ns = Some n"
proof (induction ns)
  case (Cons m ns)
  then show ?case using other_buffer(2) [OF Cons.prems(1), of n a] by (cases "n \<in> set ns") auto
qed simp

text \<open>The offset within a buffer is the same in both coordinates.\<close>

lemma move_address:
  assumes "in_buffer a b n" "no_wrap b n" "no_wrap b' n"
  shows "in_buffer (b' + a - b) b' n" "b' + a - b \<noteq> 0" "b + (b' + a - b) - b' = a"
proof -
  have a: "unat b \<le> unat a" "unat a < unat b + unat n"
    using assms(1) in_buffer_unat [OF assms(2)] by auto
  have d: "unat (a - b) = unat a - unat b" using a by (simp add: unat_sub word_le_nat_alt)
  have "unat (b' + (a - b)) = unat b' + (unat a - unat b)"
  proof -
    have "unat b' + unat n < 2 ^ LENGTH(64)" using assms(3) by (simp add: no_wrap_def)
    with a have "unat b' + (unat a - unat b) < 2 ^ LENGTH(64)" by linarith
    then show ?thesis unfolding unat_word_ariths(1) d by (rule mod_less)
  qed
  then have u: "unat (b' + a - b) = unat b' + (unat a - unat b)" by (simp only: add_diff_eq)
  show "in_buffer (b' + a - b) b' n"
    unfolding in_buffer_unat [OF assms(3)] u using a by (intro conjI) linarith+
  show "b' + a - b \<noteq> 0" using u assms(3) by (auto simp: no_wrap_def)
  show "b + (b' + a - b) - b' = a" by simp
qed

lemma translate_node:
  assumes "ctx w = Some c" "good_bufs (bufs c)" "n \<in> set (bufs c)" "holds_vir a n"
  shows "ion_alloc_vir2phy_cpu a w = Inr (phy n + a - vir n)"
    and "ion_alloc_phy2vir_cpu (phy n + a - vir n) w = Inr a"
    and "holds_phy (phy n + a - vir n) n"
proof -
  have g: "no_wrap (phy n) (node_size n)" "no_wrap (vir n) (node_size n)"
    using good_bufs_node [OF assms(2,3)] by (auto simp: good_node_def)
  have i: "in_buffer a (vir n) (node_size n)" using assms(4) by (simp add: holds_vir_def)
  note M = move_address [OF i g(2,1)]
  have "a \<noteq> 0" using i in_buffer_unat [OF g(2)] g(2) by (auto simp: no_wrap_def)
  then show "ion_alloc_vir2phy_cpu a w = Inr (phy n + a - vir n)"
    using find_vir [OF assms(2-4)] assms(1)
    by (simp add: ion_alloc_vir2phy_cpu_def holds_vir_def [abs_def])
  show h: "holds_phy (phy n + a - vir n) n" using M(1) by (simp add: holds_phy_def)
  show "ion_alloc_phy2vir_cpu (phy n + a - vir n) w = Inr a"
    using find_phy [OF assms(2,3) h] assms(1) M(2,3)
    by (simp add: ion_alloc_phy2vir_cpu_def holds_phy_def [abs_def])
qed

section \<open>Nothing is lost as long as the kernel answers\<close>

datatype ion_call = Palloc answers int | Pfree "64 word"

fun exec_ion :: "ion_call \<Rightarrow> ion_world \<Rightarrow> (64 word \<times> ion_world) res" where
  "exec_ion (Palloc a size0) w = Inr (ion_alloc_palloc a size0 w)"
| "exec_ion (Pfree p) w = Inr (0, ion_alloc_pfree p w)"

text \<open>
  The specification: a list of blocks (address, physical address, size), and the kernel holds
  exactly one handle, descriptor and mapping for each, beside those it had at first.
\<close>

type_synonym block = "64 word \<times> 64 word \<times> 32 word"

text \<open>An allocation that got its memory also gets its addresses, from ranges that are free.\<close>

definition complete :: "answers \<Rightarrow> bool" where
  "complete a \<longleftrightarrow> alloc_answer a = None \<or> (map_answer a \<noteq> None \<and> mmap_answer a \<noteq> None \<and>
     (malloc_answer a \<longrightarrow> phys_answer a \<noteq> None))"

definition block_ok :: "block list \<Rightarrow> 64 word \<Rightarrow> 64 word \<Rightarrow> 32 word \<Rightarrow> bool" where
  "block_ok bs v p n \<longleftrightarrow> no_wrap v n \<and> no_wrap p n \<and>
     (\<forall>(v', p', n') \<in> set bs. apart v' n' v n \<and> apart p' n' p n)"

fun allowed_ion :: "ion_call \<Rightarrow> block list \<Rightarrow> bool" where
  "allowed_ion (Palloc a size0) bs \<longleftrightarrow> complete a \<and> size0 < 2 ^ 31 \<and>
     (0 < size0 \<longrightarrow> alloc_answer a \<noteq> None \<longrightarrow> malloc_answer a \<longrightarrow>
       block_ok bs (the (mmap_answer a)) (the (phys_answer a)) (word_of_int size0))"
| "allowed_ion (Pfree p) bs \<longleftrightarrow> True"

fun spec_ion :: "ion_call \<Rightarrow> block list \<Rightarrow> 64 word \<times> block list" where
  "spec_ion (Palloc a size0) bs =
     (if 0 < size0 \<and> alloc_answer a \<noteq> None \<and> malloc_answer a
      then (the (mmap_answer a), bs @ [(the (mmap_answer a), the (phys_answer a), word_of_int size0)])
      else (0, bs))"
| "spec_ion (Pfree p) bs = (0, filter (\<lambda>(v, _). v \<noteq> p) bs)"

definition ion_rep :: "nat multiset \<Rightarrow> int multiset \<Rightarrow> 64 word multiset \<Rightarrow> ion_world \<Rightarrow> block list \<Rightarrow> bool" where
  "ion_rep H F M w bs \<longleftrightarrow> (\<exists>c. ctx w = Some c \<and> good_bufs (bufs c) \<and>
     map (\<lambda>n. (vir n, phy n, node_size n)) (bufs c) = bs \<and> (\<forall>n \<in> set (bufs c). user_virt n = vir n) \<and>
     mset (handles (krn w)) = H + mset (map node_handle (bufs c)) \<and>
     mset (dma_fds (krn w)) = F + mset (map node_fd (bufs c)) \<and>
     mset (maps (krn w)) = M + mset (map user_virt (bufs c)))"

lemma good_vir_distinct:
  "good_bufs ns \<Longrightarrow> find (\<lambda>n. vir n = p) ns = Some n \<Longrightarrow>
     map (\<lambda>n. (vir n, phy n, node_size n)) (remove1 n ns) =
     filter (\<lambda>(v, _). v \<noteq> p) (map (\<lambda>n. (vir n, phy n, node_size n)) ns)"
proof (induction ns)
  case Nil
  then show ?case by simp
next
  case (Cons m ns)
  show ?case
  proof (cases "vir m = p")
    case True
    have "vir k \<noteq> p" if k: "k \<in> set ns" for k
    proof
      assume "vir k = p"
      moreover have "apart_nodes m k" "good_node m" "good_node k"
        using Cons.prems(1) k good_bufs_node by auto
      ultimately show False using True
        by (auto simp: apart_nodes_def apart_def good_node_def no_wrap_def)
    qed
    then have "filter (\<lambda>(v, _). v \<noteq> p) (map (\<lambda>n. (vir n, phy n, node_size n)) ns) =
        map (\<lambda>n. (vir n, phy n, node_size n)) ns"
      by (auto simp: filter_id_conv)
    then show ?thesis using True Cons.prems(2) by auto
  next
    case False
    then have "n \<noteq> m" using Cons.prems(2) by (auto simp: find_Some_iff)
    then show ?thesis using False Cons by auto
  qed
qed

lemma size_word: "0 < size0 \<Longrightarrow> size0 < 2 ^ 31 \<Longrightarrow> 0 < unat (word_of_int size0 :: 32 word)"
  by (simp add: unat_eq_nat_uint uint_word_of_int)

lemma find_remove_mset: "find P xs = Some x \<Longrightarrow> mset (map f xs) = {#f x#} + mset (map f (remove1 x xs))"
proof -
  assume "find P xs = Some x"
  then have "x \<in> set xs" by (auto simp: find_Some_iff)
  then show ?thesis by (induction xs) auto
qed

lemma palloc_spec:
  assumes "ion_rep H F M w bs" "allowed_ion (Palloc a size0) bs"
  shows "\<exists>w'. ion_alloc_palloc a size0 w = (fst (spec_ion (Palloc a size0) bs), w') \<and>
    ion_rep H F M w' (snd (spec_ion (Palloc a size0) bs))"
proof -
  obtain c where c: "ctx w = Some c" "good_bufs (bufs c)"
      "map (\<lambda>n. (vir n, phy n, node_size n)) (bufs c) = bs" "\<forall>n \<in> set (bufs c). user_virt n = vir n"
      "mset (handles (krn w)) = H + mset (map node_handle (bufs c))"
      "mset (dma_fds (krn w)) = F + mset (map node_fd (bufs c))"
      "mset (maps (krn w)) = M + mset (map user_virt (bufs c))"
    using assms(1) unfolding ion_rep_def by blast
  show ?thesis
  proof (cases "0 < size0 \<and> alloc_answer a \<noteq> None")
    case False
    then show ?thesis using assms(1) c(1) by (auto simp: ion_alloc_palloc_def)
  next
    case True
    then obtain h f v where a: "alloc_answer a = Some h" "map_answer a = Some f" "mmap_answer a = Some v"
      using assms(2) by (auto simp: complete_def)
    show ?thesis
    proof (cases "malloc_answer a")
      case False
      then show ?thesis using True a c assms(1)
        by (auto simp: ion_alloc_palloc_def Let_def k_alloc_def k_map_def k_mmap_def k_release_def ion_rep_def)
    next
      case m: True
      then obtain p where p: "phys_answer a = Some p" using assms(2) a True by (auto simp: complete_def)
      let ?n = "\<lparr>phy = p, vir = v, node_size = word_of_int size0, tee = 0, user_virt = v,
        node_handle = h, node_fd = f\<rparr>"
      have ok: "block_ok bs v p (word_of_int size0)" using assms(2) True m a p by simp
      then have "\<forall>k \<in> set (bufs c). apart_nodes k ?n" "good_node ?n"
        using c(3) by (auto simp: block_ok_def apart_nodes_def good_node_def)
      then have "good_bufs (bufs c @ [?n])" using c(2) good_bufs_append by blast
      then show ?thesis using True m a p c
        by (simp add: ion_alloc_palloc_def Let_def k_alloc_def k_map_def k_mmap_def add_node_def ion_rep_def)
    qed
  qed
qed

lemma pfree_spec:
  assumes "ion_rep H F M w bs"
  shows "ion_rep H F M (ion_alloc_pfree p w) (snd (spec_ion (Pfree p) bs))"
proof -
  obtain c where c: "ctx w = Some c" "good_bufs (bufs c)"
      "map (\<lambda>n. (vir n, phy n, node_size n)) (bufs c) = bs" "\<forall>n \<in> set (bufs c). user_virt n = vir n"
      "mset (handles (krn w)) = H + mset (map node_handle (bufs c))"
      "mset (dma_fds (krn w)) = F + mset (map node_fd (bufs c))"
      "mset (maps (krn w)) = M + mset (map user_virt (bufs c))"
    using assms(1) unfolding ion_rep_def by blast
  show ?thesis
  proof (cases "find (\<lambda>n. vir n = p) (bufs c)")
    case None
    then have "filter (\<lambda>(v, _). v \<noteq> p) bs = bs"
      using c(3) by (auto simp: filter_id_conv find_None_iff)
    moreover have "ion_alloc_pfree p w = w" using None c(1) by (simp add: ion_alloc_pfree_def)
    ultimately show ?thesis using assms by simp
  next
    case (Some n)
    then have n: "n \<in> set (bufs c)" "vir n = p" by (auto simp: find_Some_iff)
    then have p0: "p \<noteq> 0" using good_bufs_node [OF c(2) n(1)] n(2) by (auto simp: good_node_def no_wrap_def)
    let ?w = "(k_release (user_virt n) (node_fd n) (node_handle n) w)\<lparr>ctx := Some (c\<lparr>bufs := remove1 n (bufs c)\<rparr>)\<rparr>"
    have "ion_alloc_pfree p w = ?w" using p0 Some c(1) by (simp add: ion_alloc_pfree_def)
    moreover have "ion_rep H F M ?w (filter (\<lambda>(v, _). v \<noteq> p) bs)"
    proof -
      have "mset (remove1 (f n) xs) = X + mset (map f (remove1 n (bufs c)))"
        if "mset xs = X + mset (map f (bufs c))" for f :: "buffer_node \<Rightarrow> 'z" and xs X
        using that unfolding find_remove_mset [OF Some, of f] by simp
      note this [OF c(5)] this [OF c(6)] this [OF c(7)]
      then show ?thesis
        using c(3,4) good_vir_distinct [OF c(2) Some] good_bufs_remove [OF c(2)]
        by (auto simp: ion_rep_def k_release_def dest: notin_set_remove1)
    qed
    ultimately show ?thesis by simp
  qed
qed

interpretation ion: follows_spec "ion_rep H F M" exec_ion allowed_ion spec_ion for H F M
proof
  fix w bs c
  assume rep: "ion_rep H F M w bs" and ok: "allowed_ion c bs"
  show "\<exists>w'. exec_ion c w = Inr (fst (spec_ion c bs), w') \<and> ion_rep H F M w' (snd (spec_ion c bs))"
  proof (cases c)
    case (Palloc a size0)
    then show ?thesis using palloc_spec [OF rep] ok by auto
  next
    case (Pfree p)
    then show ?thesis using pfree_spec [OF rep, of p] by simp
  qed
qed

end
