(* ===== verification/IonTheorems.thy ===== *)
theory IonTheorems
  imports Ion
begin

text \<open>
  The theorems on the ION allocator of \<^verbatim>\<open>memory/ionMemory/ionAlloc.c\<close>.
\<close>

lemma ion_run:
  assumes "ctx w = Some c" "bufs c = []" "allowed_calls allowed_ion spec_ion cs []"
  shows "\<exists>w'. run_calls exec_ion cs w = Inr (fst (spec_calls spec_ion cs []), w') \<and>
    ion_rep (mset (handles (krn w))) (mset (dma_fds (krn w))) (mset (maps (krn w))) w'
      (snd (spec_calls spec_ion cs []))"
  by (rule ion.run_calls_spec) (use assms in \<open>simp_all add: ion_rep_def\<close>)

text \<open>C28. Round trip: after any sequence of allocations and frees, an address anywhere in a live buffer
  translates to the physical address at the same distance from the buffer's start, and that one
  translates back.\<close>

theorem ion_translation_roundtrip:
  assumes "ctx w = Some c" "bufs c = []" "allowed_calls allowed_ion spec_ion cs []"
    and "run_calls exec_ion cs w = Inr (rs, w')"
    and "(v, p, n) \<in> set (snd (spec_calls spec_ion cs []))" "in_buffer a v n"
  shows "ion_alloc_vir2phy_cpu a w' = Inr (p + a - v) \<and> ion_alloc_phy2vir_cpu (p + a - v) w' = Inr a"
proof -
  obtain c' where c': "ctx w' = Some c'" "good_bufs (bufs c')"
      "map (\<lambda>n. (vir n, phy n, node_size n)) (bufs c') = snd (spec_calls spec_ion cs [])"
    using ion_run [OF assms(1-3)] assms(4) by (auto simp: ion_rep_def)
  then obtain k where k: "k \<in> set (bufs c')" "vir k = v" "phy k = p" "node_size k = n"
    using assms(5) by (auto simp flip: c'(3))
  then have "holds_vir a k" using assms(6) by (simp add: holds_vir_def)
  from translate_node [OF c'(1,2) k(1) this] k(2,3) show ?thesis by simp
qed

definition two_pallocs :: "ion_call list" where
  "two_pallocs =
     [Palloc \<lparr>alloc_answer = Some 7, map_answer = Some 11, mmap_answer = Some 0x7f00000000,
              malloc_answer = True, phys_answer = Some 0x40000000, drm_phys = None, tee_answer = None\<rparr> 0x2000,
      Palloc \<lparr>alloc_answer = Some 8, map_answer = Some 12, mmap_answer = Some 0x7f00002000,
              malloc_answer = True, phys_answer = Some 0x50000000, drm_phys = None, tee_answer = None\<rparr> 0x1000]"

definition open_context :: "32 word \<Rightarrow> ion_alloc_context" where
  "open_context off = \<lparr>ion_fd = 3, bufs = [], ref_cnt = 1, phyOffset = off\<rparr>"

definition open_world :: "32 word \<Rightarrow> ion_world" where
  "open_world off = \<lparr>ctx = Some (open_context off),
     krn = \<lparr>handles = [], dma_fds = [], maps = []\<rparr>\<rparr>"

definition two_blocks :: "block list" where
  "two_blocks = [(0x7f00000000, 0x40000000, 0x2000), (0x7f00002000, 0x50000000, 0x1000)]"

definition two_world :: "32 word \<Rightarrow> ion_world" where
  "two_world off =
     \<lparr>ctx = Some \<lparr>ion_fd = 3, bufs =
        [\<lparr>phy = 0x40000000, vir = 0x7f00000000, node_size = 0x2000, tee = 0, user_virt = 0x7f00000000,
          node_handle = 7, node_fd = 11\<rparr>,
         \<lparr>phy = 0x50000000, vir = 0x7f00002000, node_size = 0x1000, tee = 0, user_virt = 0x7f00002000,
          node_handle = 8, node_fd = 12\<rparr>], ref_cnt = 1, phyOffset = off\<rparr>,
      krn = \<lparr>handles = [8, 7], dma_fds = [12, 11], maps = [0x7f00002000, 0x7f00000000]\<rparr>\<rparr>"

lemma two_pallocs_ok:
  "allowed_calls allowed_ion spec_ion two_pallocs []"
  "spec_calls spec_ion two_pallocs [] = ([0x7f00000000, 0x7f00002000], two_blocks)"
  "run_calls exec_ion two_pallocs (open_world off) = Inr ([0x7f00000000, 0x7f00002000], two_world off)"
  by (simp_all add: two_pallocs_def two_blocks_def complete_def block_ok_def no_wrap_def apart_def
      two_world_def open_world_def open_context_def ion_alloc_palloc_def Let_def k_alloc_def k_map_def k_mmap_def
      add_node_def)

theorem ion_translation_roundtrip_witness:
  "ion_alloc_vir2phy_cpu 0x7f00002abc (two_world 0) = Inr 0x50000abc \<and>
   ion_alloc_phy2vir_cpu 0x50000abc (two_world 0) = Inr 0x7f00002abc"
  using ion_translation_roundtrip [where w = "open_world 0" and c = "open_context 0" and cs = two_pallocs
      and w' = "two_world 0" and v = "0x7f00002000" and p = "0x50000000" and n = "0x1000" and a = "0x7f00002abc"]
    two_pallocs_ok(1,2) two_pallocs_ok(3) [of 0]
  by (simp add: open_world_def open_context_def two_blocks_def in_buffer_def)

text \<open>C29. Invariant: as long as the kernel completes what it begins, the process holds exactly one
  handle, one descriptor and one mapping for every live buffer beside those it held before: after all
  buffers are freed it holds what it held at the start.\<close>

theorem ion_calls_balance:
  assumes "ctx w = Some c" "bufs c = []" "allowed_calls allowed_ion spec_ion cs []"
  shows "\<exists>w'. run_calls exec_ion cs w = Inr (fst (spec_calls spec_ion cs []), w') \<and>
    length (handles (krn w')) = length (handles (krn w)) + length (snd (spec_calls spec_ion cs [])) \<and>
    length (dma_fds (krn w')) = length (dma_fds (krn w)) + length (snd (spec_calls spec_ion cs [])) \<and>
    mset (maps (krn w')) = mset (maps (krn w)) + mset (map fst (snd (spec_calls spec_ion cs []))) \<and>
    (snd (spec_calls spec_ion cs []) = [] \<longrightarrow> mset (handles (krn w')) = mset (handles (krn w)) \<and>
       mset (dma_fds (krn w')) = mset (dma_fds (krn w)))"
proof -
  obtain w' where w1: "run_calls exec_ion cs w = Inr (fst (spec_calls spec_ion cs []), w')"
      "ion_rep (mset (handles (krn w))) (mset (dma_fds (krn w))) (mset (maps (krn w))) w'
        (snd (spec_calls spec_ion cs []))"
    using ion_run [OF assms] by blast
  obtain c' where w': "ctx w' = Some c'" "map (\<lambda>n. (vir n, phy n, node_size n)) (bufs c') = snd (spec_calls spec_ion cs [])"
      "\<forall>n \<in> set (bufs c'). user_virt n = vir n"
      "mset (handles (krn w')) = mset (handles (krn w)) + mset (map node_handle (bufs c'))"
      "mset (dma_fds (krn w')) = mset (dma_fds (krn w)) + mset (map node_fd (bufs c'))"
      "mset (maps (krn w')) = mset (maps (krn w)) + mset (map user_virt (bufs c'))"
    using w1(2) unfolding ion_rep_def by blast
  have len: "length (snd (spec_calls spec_ion cs [])) = length (bufs c')" by (simp flip: w'(2))
  have fs: "map fst (snd (spec_calls spec_ion cs [])) = map user_virt (bufs c')"
    using w'(3) by (simp flip: w'(2))
  have "length (handles (krn w')) = length (handles (krn w)) + length (bufs c')"
    "length (dma_fds (krn w')) = length (dma_fds (krn w)) + length (bufs c')"
    using arg_cong [OF w'(4), of size] arg_cong [OF w'(5), of size] by simp_all
  then show ?thesis using w1(1) w' len fs by (intro exI [of _ w']) auto
qed

theorem ion_calls_balance_witness:
  "\<exists>w'. run_calls exec_ion (two_pallocs @ [Pfree 0x7f00000000, Pfree 0x7f00002000]) (open_world 0) =
      Inr ([0x7f00000000, 0x7f00002000, 0, 0], w') \<and> mset (handles (krn w')) = {#} \<and> mset (dma_fds (krn w')) = {#}"
proof -
  have "allowed_calls allowed_ion spec_ion (two_pallocs @ [Pfree 0x7f00000000, Pfree 0x7f00002000]) []"
    "spec_calls spec_ion (two_pallocs @ [Pfree 0x7f00000000, Pfree 0x7f00002000]) [] =
      ([0x7f00000000, 0x7f00002000, 0, 0], [])"
    by (simp_all add: two_pallocs_def complete_def block_ok_def no_wrap_def apart_def)
  then show ?thesis
    using ion_calls_balance [of "open_world 0" "open_context 0" "two_pallocs @ [Pfree 0x7f00000000, Pfree 0x7f00002000]"]
    by (auto simp: open_world_def open_context_def)
qed

text \<open>C30. Error: when the physical address of a new buffer cannot be read, the address is returned all
  the same but the buffer is not listed: the caller takes it for a success, it has no physical address,
  and freeing it does nothing.\<close>

theorem unlisted_buffer_leaks:
  assumes "ctx w = Some c" "bufs c = []" "0 < size0" "v \<noteq> 0"
    and "alloc_answer a = Some h" "map_answer a = Some f" "mmap_answer a = Some v" "malloc_answer a"
    and "phys_answer a = None"
  shows "\<exists>w'. ion_alloc_palloc a size0 w = (v, w') \<and> ion_alloc_vir2phy_cpu v w' = Inr 0 \<and>
    ion_alloc_pfree v w' = w' \<and> h \<in> set (handles (krn w')) \<and> v \<in> set (maps (krn w'))"
  using assms
  by (simp add: ion_alloc_palloc_def Let_def k_alloc_def k_map_def k_mmap_def ion_alloc_vir2phy_cpu_def
      ion_alloc_pfree_def)

theorem unlisted_buffer_leaks_witness:
  "\<exists>w'. ion_alloc_palloc \<lparr>alloc_answer = Some 7, map_answer = Some 11, mmap_answer = Some 0x7f00000000,
        malloc_answer = True, phys_answer = None, drm_phys = None, tee_answer = None\<rparr> 4096 (open_world 0) =
      (0x7f00000000, w') \<and> ion_alloc_vir2phy_cpu 0x7f00000000 w' = Inr 0 \<and>
    ion_alloc_pfree 0x7f00000000 w' = w' \<and> 7 \<in> set (handles (krn w')) \<and> 0x7f00000000 \<in> set (maps (krn w'))"
  by (rule unlisted_buffer_leaks [where c = "open_context 0"])
    (simp_all add: open_world_def open_context_def)

text \<open>C30. Error: the addresses the video engine uses are shifted by the offset of its address space. The
  translation back subtracts the offset once more instead of adding it: it is off by twice the
  offset, so it inverts the translation only where the offset is 0.\<close>

theorem ve_translation_is_shifted_twice:
  assumes "ctx w = Some c" "good_bufs (bufs c)" "n \<in> set (bufs c)" "holds_vir a n"
    and "holds_vir (a - ucast (phyOffset c)) n"
  shows "\<exists>x. ion_alloc_vir2phy_ve a w = Inr x \<and>
    ion_alloc_phy2vir_ve x w = Inr (a - ucast (phyOffset c) - ucast (phyOffset c))"
proof -
  note T = translate_node(1) [OF assms(1-4)] translate_node(2) [OF assms(1-3,5)]
  have "phy n + a - vir n - ucast (phyOffset c) = phy n + (a - ucast (phyOffset c)) - vir n" by simp
  with T(2) have "ion_alloc_phy2vir_cpu (phy n + a - vir n - ucast (phyOffset c)) w =
      Inr (a - ucast (phyOffset c))" by (simp only:)
  then show ?thesis using T(1) assms(1)
    by (simp add: ion_alloc_vir2phy_ve_def ion_alloc_phy2vir_ve_def)
qed

theorem ve_translation_is_shifted_twice_witness:
  "\<exists>x. ion_alloc_vir2phy_ve 0x7f00000800 (two_world 0x400) = Inr x \<and>
    ion_alloc_phy2vir_ve x (two_world 0x400) = Inr 0x7f00000000"
  using ve_translation_is_shifted_twice [where w = "two_world 0x400" and a = "0x7f00000800" and n = "\<lparr>phy = 0x40000000, vir = 0x7f00000000,
      node_size = 0x2000, tee = 0, user_virt = 0x7f00000000, node_handle = 7, node_fd = 11\<rparr>", OF two_world_def [THEN arg_cong, of ctx, simplified]]
  by (simp add: two_world_def good_node_def apart_nodes_def no_wrap_def apart_def holds_vir_def in_buffer_def)

end
