(* ===== verification/H264.thy ===== *)
theory H264
  imports CedarPrelude
begin

text \<open>
  Reference picture marking of H.264, \<^verbatim>\<open>videoengine/h264/h264_mmco.c\<close>. A pointer to a picture is its
  index in the table \<open>pics\<close>; the arrays of pointers have \<^verbatim>\<open>MAX_PICTURE_COUNT\<close> entries. Pictures
  returned to the frame buffer manager (\<^verbatim>\<open>FbmReturnBuffer\<close>) are logged. The motion vector buffers are
  left out: \<^verbatim>\<open>ENABLE_MV_BUF_OPTIMIZATION_PROGRAM\<close> is 0.
\<close>

section \<open>Pictures and context\<close>

definition PICT_TOP_FIELD :: int where "PICT_TOP_FIELD = 1"
definition PICT_BOTTOM_FIELD :: int where "PICT_BOTTOM_FIELD = 2"
definition PICT_FRAME :: int where "PICT_FRAME = 3"
definition DELAYED_PIC_REF :: int where "DELAYED_PIC_REF = 4"
definition MAX_PICTURE_COUNT :: nat where "MAX_PICTURE_COUNT = 32"
definition MAX_MMCO_COUNT :: nat where "MAX_MMCO_COUNT = 66"

datatype h264_mmco_opcode = MMCO_END | MMCO_SHORT_TO_UNUSED | MMCO_LONG_TO_UNUSED
  | MMCO_SHORT_TO_LONG | MMCO_SET_MAX_LONG | MMCO_RESET | MMCO_LONG | MMCO_UNKNOWN

record H264MmcoInfo =
  opCode :: h264_mmco_opcode
  nShortPicNum :: int
  bLongArg :: int

record H264PicInfo =
  nFieldPoc :: "int \<times> int"
  nPoc :: int
  nFrmNum :: int
  nPicId :: int
  bLongRef :: int
  nReference :: int
  nPicStructure :: int
  nDispBufIndex :: nat
  pVPicture :: "nat option"
  pScaleDownVPicture :: "nat option"
  bCodedFrame :: int
  bHasDispedFlag :: int

record H264Context =
  pics :: "nat \<Rightarrow> H264PicInfo"
  pLongRef :: "nat option list"
  pShortRef :: "nat option list"
  pDelayedPic :: "nat option list"
  pDelayedOutPutPic :: "nat option"
  pCurPicturePtr :: nat
  ctxPicStructure :: int
  bFstField :: bool
  nLongRefCount :: int
  nShortRefCount :: int
  nRefFrmCount :: int
  returned :: "nat list"

definition upd_pic :: "nat \<Rightarrow> (H264PicInfo \<Rightarrow> H264PicInfo) \<Rightarrow> H264Context \<Rightarrow> H264Context" where
  "upd_pic p f c = c\<lparr>pics := (pics c)(p := f (pics c p))\<rparr>"

definition at :: "'a list \<Rightarrow> int \<Rightarrow> 'a res" where
  "at xs i = (if 0 \<le> i \<and> nat i < length xs then Inr (xs ! nat i) else Inl OutOfBounds)"

section \<open>Picture numbers\<close>

text \<open>Frame number and structure of a picture number.\<close>

definition H264PicNumExtract :: "int \<Rightarrow> int \<Rightarrow> int \<times> int" where
  "H264PicNumExtract structure picNum =
     (if structure \<noteq> PICT_FRAME
      then (drop_bit 1 picNum, if picNum AND 1 = 0 then structure XOR PICT_FRAME else structure)
      else (picNum, structure))"

section \<open>Dropping references\<close>

text \<open>Is the picture in the list of delayed pictures, which a null pointer ends?\<close>

fun find_delayed :: "nat option list \<Rightarrow> nat \<Rightarrow> bool res" where
  "find_delayed [] p = Inl OutOfBounds"
| "find_delayed (None # xs) p = Inr False"
| "find_delayed (Some q # xs) p = (if q = p then Inr True else find_delayed xs p)"

text \<open>The picture goes back to the frame buffer manager.\<close>

definition give_back :: "nat \<Rightarrow> nat \<Rightarrow> H264Context \<Rightarrow> H264Context" where
  "give_back p v c =
     (let c1 = c\<lparr>returned := returned c @ [v]\<rparr>;
          k = nDispBufIndex (pics c p);
          c2 = (if k < MAX_PICTURE_COUNT then upd_pic k (\<lambda>x. x\<lparr>pVPicture := None\<rparr>) c1 else c1)
      in upd_pic p (\<lambda>x. x\<lparr>pVPicture := None, bHasDispedFlag := 0, nReference := 0\<rparr>) c2)"

definition finished :: "H264PicInfo \<Rightarrow> nat option" where
  "finished x =
     (if (nReference x = 0 \<or> nReference x = 4) \<and> (bHasDispedFlag x = 1 \<or> pScaleDownVPicture x \<noteq> None)
      then pVPicture x else None)"

definition H264UnnReferencePic :: "H264Context \<Rightarrow> nat \<Rightarrow> int \<Rightarrow> (int \<times> H264Context) res" where
  "H264UnnReferencePic c p refmask =
     (let c1 = upd_pic p (\<lambda>x. x\<lparr>nReference := nReference x AND refmask\<rparr>) c
      in if nReference (pics c1 p) \<noteq> 0 then
           (case finished (pics c1 p) of
              None \<Rightarrow> Inr (0, c1)
            | Some v \<Rightarrow> Inr (0, upd_pic p (\<lambda>x. x\<lparr>bCodedFrame := 0\<rparr>) (give_back p v c1)))
         else
           and_then (if pDelayedOutPutPic c1 = Some p then Inr True
                     else find_delayed (pDelayedPic c1) p) (\<lambda>delayed.
             let c2 = (if delayed then upd_pic p (\<lambda>x. x\<lparr>nReference := DELAYED_PIC_REF\<rparr>) c1 else c1)
             in (case finished (pics c2 p) of
                   None \<Rightarrow> Inr (1, c2)
                 | Some v \<Rightarrow> Inr (1, give_back p v c2))))"

section \<open>The two lists\<close>

text \<open>The first \<open>n\<close> short-term references are searched; \<open>k\<close> is the index of the list's head.\<close>

fun find_short :: "(nat \<Rightarrow> H264PicInfo) \<Rightarrow> nat option list \<Rightarrow> int \<Rightarrow> nat \<Rightarrow> (nat \<times> nat) option res" where
  "find_short ps [] frameNum k = Inr None"
| "find_short ps (None # xs) frameNum k = Inl NullDeref"
| "find_short ps (Some p # xs) frameNum k =
     (if nFrmNum (ps p) = frameNum then Inr (Some (p, k)) else find_short ps xs frameNum (Suc k))"

definition H264FindShort :: "H264Context \<Rightarrow> int \<Rightarrow> (nat \<times> nat) option res" where
  "H264FindShort c frameNum = find_short (pics c) (take (nat (nShortRefCount c)) (pShortRef c)) frameNum 0"

definition H264RemoveShort_at_index :: "H264Context \<Rightarrow> int \<Rightarrow> H264Context res" where
  "H264RemoveShort_at_index c i =
     (if i \<ge> int MAX_PICTURE_COUNT then Inl Aborted
      else if i < 0 \<or> nat i \<ge> length (pShortRef c) then Inl OutOfBounds
      else
        let xs = (pShortRef c)[nat i := None]; n = nShortRefCount c - 1;
            c1 = c\<lparr>pShortRef := xs, nShortRefCount := n\<rparr>
        in if n = 0 then Inr c1
           else if i + 1 \<ge> int MAX_PICTURE_COUNT then Inl Aborted
           else if n < i \<or> n + 1 > int (length xs) then Inl OutOfBounds
           else Inr (c1\<lparr>pShortRef := take (nat i) xs @ take (nat (n - i)) (drop (Suc (nat i)) xs) @
                                     drop (nat n) xs\<rparr>))"

definition H264RemoveShort :: "H264Context \<Rightarrow> int \<Rightarrow> (nat option \<times> H264Context) res" where
  "H264RemoveShort c frameNum =
     and_then (H264FindShort c frameNum) (\<lambda>r. case r of
        None \<Rightarrow> Inr (None, c)
      | Some (p, i) \<Rightarrow> and_then (H264RemoveShort_at_index c (int i)) (\<lambda>c1. Inr (Some p, c1)))"

definition H264RemoveLong_at_index :: "H264Context \<Rightarrow> int \<Rightarrow> H264Context res" where
  "H264RemoveLong_at_index c i =
     (if i \<ge> int MAX_PICTURE_COUNT then Inl Aborted
      else if i < 0 \<or> nat i \<ge> length (pLongRef c) then Inl OutOfBounds
      else Inr (c\<lparr>pLongRef := (pLongRef c)[nat i := None], nLongRefCount := nLongRefCount c - 1\<rparr>))"

definition H264RemoveLong :: "H264Context \<Rightarrow> int \<Rightarrow> (nat option \<times> H264Context) res" where
  "H264RemoveLong c i =
     (if i \<ge> int MAX_PICTURE_COUNT then Inl Aborted
      else and_then (at (pLongRef c) i) (\<lambda>r. case r of
          None \<Rightarrow> Inr (None, c)
        | Some p \<Rightarrow> and_then (H264RemoveLong_at_index c i) (\<lambda>c1. Inr (Some p, c1))))"

text \<open>\<^verbatim>\<open>if(pic) H264UnnReferencePic(hCtx, pic, 0)\<close>\<close>

definition unref_opt :: "nat option \<times> H264Context \<Rightarrow> H264Context res" where
  "unref_opt r = (case r of (None, c) \<Rightarrow> Inr c
     | (Some p, c) \<Rightarrow> and_then (H264UnnReferencePic c p 0) (\<lambda>(k, c1). Inr c1))"

definition drop_long :: "H264Context \<Rightarrow> int \<Rightarrow> H264Context res" where
  "drop_long c i = and_then (H264RemoveLong c i) unref_opt"

fun drop_longs :: "int list \<Rightarrow> H264Context \<Rightarrow> H264Context res" where
  "drop_longs [] c = Inr c"
| "drop_longs (j # js) c = and_then (drop_long c j) (drop_longs js)"

text \<open>\<^verbatim>\<open>while(hCtx->nShortRefCount)\<close>: the first picture is looked up by its frame number and removed.\<close>

definition drop_first_short :: "H264Context \<Rightarrow> H264Context res" where
  "drop_first_short c =
     and_then (at (pShortRef c) 0) (\<lambda>r. case r of
        None \<Rightarrow> Inl NullDeref
      | Some p \<Rightarrow> and_then (H264RemoveShort c (nFrmNum (pics c p))) unref_opt)"

partial_function (option) drop_shorts_opt :: "H264Context \<Rightarrow> H264Context res option" where
  "drop_shorts_opt c =
     (if nShortRefCount c = 0 then Some (Inr c)
      else case drop_first_short c of
             Inl e \<Rightarrow> Some (Inl e)
           | Inr c1 \<Rightarrow> drop_shorts_opt c1)"

definition drop_shorts :: "H264Context \<Rightarrow> H264Context res" where
  "drop_shorts c = (case drop_shorts_opt c of None \<Rightarrow> Inl Diverges | Some r \<Rightarrow> r)"

section \<open>Memory management control operations\<close>

definition set_ref :: "nat \<Rightarrow> int \<Rightarrow> H264Context \<Rightarrow> H264Context" where
  "set_ref p s = upd_pic p (\<lambda>x. x\<lparr>nReference := nReference x OR s\<rparr>)"

definition short_to_unused :: "H264Context \<Rightarrow> int \<Rightarrow> H264Context res" where
  "short_to_unused c picNum =
     (case H264PicNumExtract (ctxPicStructure c) picNum of (frameNum, structure) \<Rightarrow>
        and_then (H264FindShort c frameNum) (\<lambda>r. case r of
            None \<Rightarrow> Inr c
          | Some (p, j) \<Rightarrow>
              and_then (H264UnnReferencePic c p (structure XOR PICT_FRAME)) (\<lambda>(gone, c1).
                if gone \<noteq> 0 then H264RemoveShort_at_index c1 (int j) else Inr c1)))"

definition long_to_unused :: "H264Context \<Rightarrow> int \<Rightarrow> H264Context res" where
  "long_to_unused c arg =
     (case H264PicNumExtract (ctxPicStructure c) arg of (j, structure) \<Rightarrow>
        if j \<ge> int MAX_PICTURE_COUNT then Inl Aborted
        else and_then (at (pLongRef c) j) (\<lambda>r. case r of
            None \<Rightarrow> Inr c
          | Some p \<Rightarrow>
              and_then (H264UnnReferencePic c p (structure XOR PICT_FRAME)) (\<lambda>(gone, c1).
                if gone \<noteq> 0 then H264RemoveLong_at_index c1 j else Inr c1)))"

text \<open>\<open>set_long\<close> stores a picture at a long-term index.\<close>

definition set_long :: "int \<Rightarrow> nat \<Rightarrow> H264Context \<Rightarrow> H264Context" where
  "set_long i p c =
     (upd_pic p (\<lambda>x. x\<lparr>bLongRef := 1\<rparr>) c)
       \<lparr>pLongRef := (pLongRef c)[nat i := Some p], nLongRefCount := nLongRefCount c + 1\<rparr>"

definition short_to_long :: "H264Context \<Rightarrow> int \<Rightarrow> int \<Rightarrow> H264Context res" where
  "short_to_long c picNum arg =
     (if arg \<ge> int MAX_PICTURE_COUNT then Inl Aborted
      else and_then (at (pLongRef c) arg) (\<lambda>r.
        if (case r of None \<Rightarrow> False
            | Some q \<Rightarrow> ctxPicStructure c \<noteq> PICT_FRAME \<and> arg < nLongRefCount c \<and>
                nFrmNum (pics c q) = drop_bit 1 picNum)
        then Inr c
        else
          let frameNum = (if ctxPicStructure c \<noteq> PICT_FRAME then drop_bit 1 picNum else picNum)
          in and_then (drop_long c arg) (\<lambda>c1.
             and_then (H264RemoveShort c1 frameNum) (\<lambda>(q, c2). case q of
                 None \<Rightarrow> Inr (c2\<lparr>pLongRef := (pLongRef c2)[nat arg := None]\<rparr>)
               | Some p \<Rightarrow> Inr (set_long arg p c2)))))"

definition mark_long :: "H264Context \<Rightarrow> int \<Rightarrow> H264Context res" where
  "mark_long c arg =
     (if arg \<ge> int MAX_PICTURE_COUNT then Inl Aborted
      else
        and_then (at (pLongRef c) arg) (\<lambda>r.
          let cur = pCurPicturePtr c;
              unRefPic = \<not> (ctxPicStructure c \<noteq> PICT_FRAME \<and> \<not> bFstField c \<and>
                           (r = Some cur \<or> nReference (pics c cur) \<noteq> 0))
          in and_then (if unRefPic
                       then and_then (drop_long c arg) (\<lambda>c1. Inr (set_long arg cur c1))
                       else Inr c) (\<lambda>c2.
             Inr (set_ref cur (ctxPicStructure c2) c2))))"

text \<open>One operation; the flag is \<^verbatim>\<open>currentRefAssigned\<close>.\<close>

fun mmco_step :: "H264MmcoInfo \<Rightarrow> bool \<times> H264Context \<Rightarrow> (bool \<times> H264Context) res" where
  "mmco_step m (assigned, c) =
     (case opCode m of
        MMCO_SHORT_TO_UNUSED \<Rightarrow>
          and_then (short_to_unused c (nShortPicNum m)) (\<lambda>c1. Inr (assigned, c1))
      | MMCO_SHORT_TO_LONG \<Rightarrow>
          and_then (short_to_long c (nShortPicNum m) (bLongArg m)) (\<lambda>c1. Inr (assigned, c1))
      | MMCO_LONG_TO_UNUSED \<Rightarrow>
          and_then (long_to_unused c (bLongArg m)) (\<lambda>c1. Inr (assigned, c1))
      | MMCO_LONG \<Rightarrow> and_then (mark_long c (bLongArg m)) (\<lambda>c1. Inr (True, c1))
      | MMCO_SET_MAX_LONG \<Rightarrow>
          and_then (drop_longs [bLongArg m..15] c) (\<lambda>c1. Inr (assigned, c1))
      | MMCO_RESET \<Rightarrow>
          and_then (drop_shorts c) (\<lambda>c1.
          and_then (drop_longs [0..15] c1) (\<lambda>c2. Inr (assigned, c2)))
      | _ \<Rightarrow> Inr (assigned, c))"

fun mmco_steps :: "H264MmcoInfo list \<Rightarrow> bool \<times> H264Context \<Rightarrow> (bool \<times> H264Context) res" where
  "mmco_steps [] st = Inr st"
| "mmco_steps (m # ms) st = and_then (mmco_step m st) (mmco_steps ms)"

section \<open>Marking the current picture\<close>

text \<open>The second field of a picture that is already referenced.\<close>

definition second_field :: "bool \<times> H264Context \<Rightarrow> (bool \<times> H264Context) res" where
  "second_field st =
     (case st of (assigned, c) \<Rightarrow>
        if \<not> assigned \<and> ctxPicStructure c \<noteq> PICT_FRAME \<and> \<not> bFstField c \<and>
           nReference (pics c (pCurPicturePtr c)) \<noteq> 0
        then and_then (if nShortRefCount c \<noteq> 0 then at (pShortRef c) 0 else Inr None) (\<lambda>r.
               Inr (True, if nShortRefCount c \<noteq> 0 \<and> r = Some (pCurPicturePtr c)
                          then upd_pic (pCurPicturePtr c) (\<lambda>x. x\<lparr>nReference := PICT_FRAME\<rparr>) c else c))
        else Inr (assigned, c))"

text \<open>The current picture becomes the first short-term reference.\<close>

definition push_short :: "H264Context \<Rightarrow> H264Context res" where
  "push_short c =
     (let n = nShortRefCount c; xs = pShortRef c; cur = pCurPicturePtr c
      in if n \<noteq> 0 \<and> (n < 0 \<or> n + 1 > int (length xs)) \<or> xs = [] then Inl OutOfBounds
         else
           let ys = (if n \<noteq> 0 then hd xs # take (nat n) xs @ drop (Suc (nat n)) xs else xs)
           in Inr (set_ref cur (ctxPicStructure c)
                (upd_pic cur (\<lambda>x. x\<lparr>bLongRef := 0\<rparr>)
                  (c\<lparr>pShortRef := ys[0 := Some cur], nShortRefCount := n + 1\<rparr>))))"

definition add_current :: "bool \<times> H264Context \<Rightarrow> H264Context res" where
  "add_current st =
     (case st of (assigned, c) \<Rightarrow>
        if assigned then Inr c
        else and_then (H264RemoveShort c (nFrmNum (pics c (pCurPicturePtr c)))) (\<lambda>r.
             and_then (unref_opt r) push_short))"

text \<open>One reference too many: a long-term one if there is no other, else the oldest short-term one.\<close>

fun first_long :: "nat option list \<Rightarrow> nat \<Rightarrow> nat" where
  "first_long [] i = i"
| "first_long (x # xs) i = (if x \<noteq> None then i else first_long xs (Suc i))"

definition discard_one :: "H264Context \<Rightarrow> H264Context res" where
  "discard_one c =
     (if nLongRefCount c + nShortRefCount c > nRefFrmCount c then
        and_then
          (if nLongRefCount c \<noteq> 0 \<and> nShortRefCount c = 0 then
             let i = int (first_long (take 16 (pLongRef c)) 0)
             in and_then (at (pLongRef c) i) (\<lambda>p.
                and_then (H264RemoveLong_at_index c i) (\<lambda>c1. Inr (p, c1)))
           else
             and_then (at (pShortRef c) (nShortRefCount c - 1)) (\<lambda>p.
             and_then (H264RemoveShort_at_index c (nShortRefCount c - 1)) (\<lambda>c1. Inr (p, c1))))
          unref_opt
      else Inr c)"

definition H264ExecuteRefPicMarking :: "H264Context \<Rightarrow> H264MmcoInfo list \<Rightarrow> int \<Rightarrow> H264Context res" where
  "H264ExecuteRefPicMarking c mmco mmcoCount =
     and_then (mmco_steps (take (min (nat mmcoCount) MAX_MMCO_COUNT) mmco) (False, c)) (\<lambda>st.
     and_then (second_field st) (\<lambda>st1.
     and_then (add_current st1) discard_one))"

section \<open>Dropping everything\<close>

text \<open>The first \<^verbatim>\<open>nLongRefCount\<close> entries of the long-term array, then the short-term list.\<close>

fun refresh_longs :: "nat list \<Rightarrow> H264Context \<Rightarrow> H264Context res" where
  "refresh_longs [] c = Inr c"
| "refresh_longs (i # is) c =
     (if i < MAX_PICTURE_COUNT then
        and_then (at (pLongRef c) (int i)) (\<lambda>r. case r of
            None \<Rightarrow> refresh_longs is c
          | Some p \<Rightarrow> and_then (H264UnnReferencePic c p 0) (\<lambda>(k, c1).
                refresh_longs is (c1\<lparr>pLongRef := (pLongRef c1)[i := None]\<rparr>)))
      else refresh_longs is c)"

fun refresh_shorts :: "nat list \<Rightarrow> H264Context \<Rightarrow> H264Context res" where
  "refresh_shorts [] c = Inr c"
| "refresh_shorts (i # is) c =
     (if i < MAX_PICTURE_COUNT then
        and_then (at (pShortRef c) (int i)) (\<lambda>r. case r of
            None \<Rightarrow> Inl NullDeref
          | Some p \<Rightarrow> and_then (H264UnnReferencePic c p 0) (\<lambda>(k, c1).
                refresh_shorts is (c1\<lparr>pShortRef := (pShortRef c1)[i := None]\<rparr>)))
      else refresh_shorts is c)"

definition H264ReferenceRefresh :: "H264Context \<Rightarrow> H264Context res" where
  "H264ReferenceRefresh c =
     and_then (refresh_longs [0..<nat (nLongRefCount c)] c) (\<lambda>c1.
     let c2 = c1\<lparr>nLongRefCount := 0\<rparr>
     in and_then (refresh_shorts [0..<nat (nShortRefCount c2)] c2) (\<lambda>c3.
        Inr (c3\<lparr>nShortRefCount := 0\<rparr>)))"

end
