(* ===== verification/H264Refs.thy ===== *)
theory H264Refs
  imports H264
begin

text \<open>
  The reference lists of H.264 represent a list of short-term and an array of long-term
  references; every operation of \<^verbatim>\<open>h264_mmco.c\<close> keeps that.
\<close>

section \<open>What is listed\<close>

definition somes :: "'a option list \<Rightarrow> 'a list" where
  "somes ys = map the (filter (\<lambda>y. y \<noteq> None) ys)"

lemma somes_simps [simp]: "somes [] = []" "somes (None # ys) = somes ys" "somes (Some p # ys) = p # somes ys"
  by (simp_all add: somes_def)

lemma somes_append [simp]: "somes (xs @ ys) = somes xs @ somes ys"
  by (simp add: somes_def)

lemma set_somes: "set (somes ys) = {p. Some p \<in> set ys}"
  by (force simp: somes_def)

lemma mset_somes_clear:
  "i < length ys \<Longrightarrow> ys ! i = Some p \<Longrightarrow> mset (somes ys) = add_mset p (mset (somes (ys[i := None])))"
proof (induction ys arbitrary: i)
  case (Cons y ys)
  show ?case
  proof (cases i)
    case (Suc j)
    then have "mset (somes ys) = add_mset p (mset (somes (ys[j := None])))"
      using Cons.IH [of j] Cons.prems by simp
    then show ?thesis using Suc by (cases y) simp_all
  qed (use Cons.prems in simp)
qed simp

lemma mset_somes_set:
  "i < length ys \<Longrightarrow> ys ! i = None \<Longrightarrow> mset (somes (ys[i := Some p])) = add_mset p (mset (somes ys))"
proof (induction ys arbitrary: i)
  case (Cons y ys)
  show ?case
  proof (cases i)
    case (Suc j)
    then have "mset (somes (ys[j := Some p])) = add_mset p (mset (somes ys))"
      using Cons.IH [of j] Cons.prems by simp
    then show ?thesis using Suc by (cases y) simp_all
  qed (use Cons.prems in simp)
qed simp

definition marked :: "H264Context \<Rightarrow> nat \<Rightarrow> bool" where
  "marked c p \<longleftrightarrow> nReference (pics c p) AND 3 \<noteq> 0"

text \<open>
  The first \<open>nShortRefCount\<close> entries of the short-term array are the pictures \<open>xs\<close>, newest first,
  with different frame numbers; long-term indices go up to 15; no picture is listed twice and every
  listed one has a field marked as reference.
\<close>

definition lists_rep :: "H264Context \<Rightarrow> nat list \<Rightarrow> nat option list \<Rightarrow> bool" where
  "lists_rep c xs ys \<longleftrightarrow>
     length (pShortRef c) = MAX_PICTURE_COUNT \<and> take (length xs) (pShortRef c) = map Some xs \<and>
     nShortRefCount c = int (length xs) \<and> int (length xs) \<le> nRefFrmCount c + 1 \<and> nRefFrmCount c \<le> 16 \<and>
     pLongRef c = ys \<and> length ys = MAX_PICTURE_COUNT \<and> (\<forall>i < MAX_PICTURE_COUNT. 16 \<le> i \<longrightarrow> ys ! i = None) \<and>
     nLongRefCount c = int (length (somes ys)) \<and> None \<in> set (pDelayedPic c) \<and>
     distinct (xs @ somes ys) \<and> distinct (map (\<lambda>p. nFrmNum (pics c p)) xs)"

definition refs_rep :: "H264Context \<Rightarrow> nat list \<Rightarrow> nat option list \<Rightarrow> bool" where
  "refs_rep c xs ys \<longleftrightarrow> lists_rep c xs ys \<and> (\<forall>p \<in> set (xs @ somes ys). marked c p)"

text \<open>What an operation that only drops references changes.\<close>

definition same_context :: "H264Context \<Rightarrow> H264Context \<Rightarrow> bool" where
  "same_context c c' \<longleftrightarrow> pCurPicturePtr c' = pCurPicturePtr c \<and> ctxPicStructure c' = ctxPicStructure c \<and>
     bFstField c' = bFstField c \<and> nRefFrmCount c' = nRefFrmCount c \<and> pDelayedPic c' = pDelayedPic c \<and>
     (\<forall>p. nFrmNum (pics c' p) = nFrmNum (pics c p)) \<and>
     (\<forall>p v. pVPicture (pics c' p) = Some v \<longrightarrow> pVPicture (pics c p) = Some v)"

lemma same_context_refl [simp]: "same_context c c"
  by (simp add: same_context_def)

lemma same_context_trans: "same_context a b \<Longrightarrow> same_context b c \<Longrightarrow> same_context a c"
  by (simp add: same_context_def)

definition same_lists :: "H264Context \<Rightarrow> H264Context \<Rightarrow> bool" where
  "same_lists c c' \<longleftrightarrow> pShortRef c' = pShortRef c \<and> nShortRefCount c' = nShortRefCount c \<and>
     pLongRef c' = pLongRef c \<and> nLongRefCount c' = nLongRefCount c"

section \<open>Dropping a reference\<close>

lemma find_delayed_ok: "None \<in> set ds \<Longrightarrow> \<exists>b. find_delayed ds p = Inr b"
  by (induction ds p rule: find_delayed.induct) auto

lemma give_back_fields:
  "same_context c (give_back p v c)" "same_lists c (give_back p v c)"
  "returned (give_back p v c) = returned c @ [v]"
  "q \<noteq> p \<Longrightarrow> nReference (pics (give_back p v c) q) = nReference (pics c q)"
  "nReference (pics (give_back p v c) p) = 0"
  by (simp_all add: give_back_def upd_pic_def Let_def same_context_def same_lists_def)

lemma Unref_spec:
  assumes "None \<in> set (pDelayedPic c)" "m \<in> {0, 1, 2}"
  shows "\<exists>k c'. H264UnnReferencePic c p m = Inr (k, c') \<and> same_context c c' \<and> same_lists c c' \<and>
    (\<forall>q. q \<noteq> p \<longrightarrow> nReference (pics c' q) = nReference (pics c q)) \<and>
    (k = 0 \<and> marked c' p \<and> returned c' = returned c \<or>
     k = 1 \<and> (returned c' = returned c \<or> (\<exists>v. pVPicture (pics c p) = Some v \<and> returned c' = returned c @ [v])))"
proof -
  let ?x = "pics c p"
  let ?c1 = "upd_pic p (\<lambda>x. x\<lparr>nReference := nReference x AND m\<rparr>) c"
  show ?thesis
  proof (cases "nReference ?x AND m = 0")
    case False
    let ?r = "nReference ?x AND m"
    have r3: "?r AND 3 = ?r" using assms(2) by (auto simp: and.assoc)
    have "?r \<noteq> 4"
    proof
      assume "?r = 4"
      with r3 show False by simp
    qed
    then have "finished (pics ?c1 p) = None" using False by (simp add: upd_pic_def finished_def)
    then have "H264UnnReferencePic c p m = Inr (0, ?c1)"
      using False by (simp add: H264UnnReferencePic_def upd_pic_def Let_def)
    moreover have "marked ?c1 p" unfolding marked_def upd_pic_def using False r3 by simp
    moreover have "same_context c ?c1" "same_lists c ?c1" "returned ?c1 = returned c"
      by (simp_all add: upd_pic_def same_context_def same_lists_def)
    moreover have "\<forall>q. q \<noteq> p \<longrightarrow> nReference (pics ?c1 q) = nReference (pics c q)"
      by (simp add: upd_pic_def)
    ultimately show ?thesis by (intro exI [of _ 0] exI [of _ ?c1]) blast
  next
    case True
    obtain d where d: "(if pDelayedOutPutPic c = Some p then Inr True else find_delayed (pDelayedPic c) p) = Inr d"
      by (cases "pDelayedOutPutPic c = Some p") (use find_delayed_ok [OF assms(1), of p] in auto)
    let ?c2 = "if d then upd_pic p (\<lambda>x. x\<lparr>nReference := DELAYED_PIC_REF\<rparr>) ?c1 else ?c1"
    have fields: "same_context c ?c2" "same_lists c ?c2" "returned ?c2 = returned c"
      "\<forall>q. q \<noteq> p \<longrightarrow> nReference (pics ?c2 q) = nReference (pics c q)"
      "pVPicture (pics ?c2 p) = pVPicture ?x"
      by (simp_all add: upd_pic_def same_context_def same_lists_def)
    have go: "H264UnnReferencePic c p m = (case finished (pics ?c2 p) of
        None \<Rightarrow> Inr (1, ?c2) | Some v \<Rightarrow> Inr (1, give_back p v ?c2))"
    proof -
      have c1: "pDelayedOutPutPic ?c1 = pDelayedOutPutPic c" "pDelayedPic ?c1 = pDelayedPic c"
        "nReference (pics ?c1 p) = 0"
        using True by (simp_all add: upd_pic_def)
      show ?thesis unfolding H264UnnReferencePic_def Let_def c1 d
        by (simp only: and_then.simps simp_thms if_False)
    qed
    show ?thesis
    proof (cases "finished (pics ?c2 p)")
      case None
      then show ?thesis using go fields by (intro exI [of _ 1] exI [of _ ?c2]) simp
    next
      case (Some v)
      then have "pVPicture ?x = Some v" using fields(5) by (auto simp: finished_def split: if_splits)
      moreover have "same_context c (give_back p v ?c2)" "same_lists c (give_back p v ?c2)"
        using fields(1,2) give_back_fields(1,2) [of ?c2 p v] by (simp_all add: same_context_def same_lists_def)
      ultimately show ?thesis using go fields Some give_back_fields(3,4)
        by (intro exI [of _ 1] exI [of _ "give_back p v ?c2"]) simp
    qed
  qed
qed

text \<open>
  A change of the lists, from the pictures \<open>L\<close> to \<open>L'\<close>: what is returned to the frame buffer manager
  belongs to pictures that were listed and are no longer; only the current picture may be new.
\<close>

definition moves :: "H264Context \<Rightarrow> nat set \<Rightarrow> H264Context \<Rightarrow> nat set \<Rightarrow> bool" where
  "moves c L c' L' \<longleftrightarrow> same_context c c' \<and> L' \<subseteq> insert (pCurPicturePtr c) L \<and>
     (\<exists>vs. returned c' = returned c @ vs \<and>
       (\<forall>v \<in> set vs. \<exists>p \<in> insert (pCurPicturePtr c) L. pVPicture (pics c p) = Some v \<and> (p \<notin> L' \<or> p = pCurPicturePtr c)))"

lemma moves_refl [simp]: "moves c L c L"
  by (auto simp: moves_def intro!: exI [of _ "[]"])

lemma moves_same: "same_context c c' \<Longrightarrow> returned c' = returned c \<Longrightarrow> L' \<subseteq> insert (pCurPicturePtr c) L \<Longrightarrow>
    moves c L c' L'"
  by (auto simp: moves_def intro!: exI [of _ "[]"])

lemma moves_trans:
  assumes "moves a L b M" "moves b M c N"
  shows "moves a L c N"
proof -
  obtain vs ws where vs: "returned b = returned a @ vs"
      "\<forall>v \<in> set vs. \<exists>p \<in> insert (pCurPicturePtr a) L. pVPicture (pics a p) = Some v \<and> (p \<notin> M \<or> p = pCurPicturePtr a)"
    and ws: "returned c = returned b @ ws"
      "\<forall>v \<in> set ws. \<exists>p \<in> insert (pCurPicturePtr b) M. pVPicture (pics b p) = Some v \<and> (p \<notin> N \<or> p = pCurPicturePtr b)"
    using assms unfolding moves_def by blast
  have cur: "pCurPicturePtr b = pCurPicturePtr a" and same: "same_context a b" "same_context b c"
    and sub: "M \<subseteq> insert (pCurPicturePtr a) L" "N \<subseteq> insert (pCurPicturePtr a) M"
    using assms by (auto simp: moves_def same_context_def)
  have "\<exists>p \<in> insert (pCurPicturePtr a) L. pVPicture (pics a p) = Some v \<and> (p \<notin> N \<or> p = pCurPicturePtr a)"
    if "v \<in> set (vs @ ws)" for v
    using that vs(2) ws(2) sub same(1) unfolding cur same_context_def by (auto; blast)
  moreover have "same_context a c" "N \<subseteq> insert (pCurPicturePtr a) L"
    using same_context_trans [OF same] sub by blast+
  ultimately show ?thesis unfolding moves_def using vs(1) ws(1)
    by (intro conjI exI [of _ "vs @ ws"]) auto
qed

text \<open>The abstract lists after a removal.\<close>

definition cut :: "nat \<Rightarrow> 'a list \<Rightarrow> 'a list" where
  "cut i xs = take i xs @ drop (Suc i) xs"

lemma cut_simps [simp]: "cut 0 (x # xs) = xs" "cut (Suc i) (x # xs) = x # cut i xs"
  by (simp_all add: cut_def)

lemma length_cut: "i < length xs \<Longrightarrow> length (cut i xs) = length xs - 1"
  by (simp add: cut_def)

lemma mset_cut: "i < length xs \<Longrightarrow> mset xs = add_mset (xs ! i) (mset (cut i xs))"
  unfolding cut_def by (subst id_take_nth_drop [of i xs]) simp_all

lemma map_cut: "map f (cut i xs) = cut i (map f xs)"
  by (simp add: cut_def take_map drop_map)

lemma distinct_mset_eq: "mset xs = mset ys \<Longrightarrow> distinct xs \<longleftrightarrow> distinct ys"
  by (metis mset_eq_imp_distinct_iff)

lemma distinct_cut:
  assumes "i < length xs"
  shows "distinct xs \<longleftrightarrow> distinct (cut i xs) \<and> xs ! i \<notin> set (cut i xs)"
proof -
  have "distinct xs \<longleftrightarrow> distinct (xs ! i # cut i xs)"
    using mset_cut [OF assms] by (intro distinct_mset_eq) simp
  then show ?thesis by auto
qed

lemma take_shift:
  assumes "take (Suc n) zs = map Some xs" "i \<le> n" "n < length zs"
  shows "take n (take i zs @ take (n - i) (drop (Suc i) zs) @ rest) = map Some (cut i xs)"
proof -
  have "length (take i zs @ take (n - i) (drop (Suc i) zs)) = n" using assms(2,3) by simp
  then have "take n (take i zs @ take (n - i) (drop (Suc i) zs) @ rest) =
      take i zs @ take (n - i) (drop (Suc i) zs)"
    by (metis append.assoc append_eq_conv_conj)
  also have "\<dots> = cut i (take (Suc n) zs)"
    using assms(2,3) by (simp add: cut_def drop_take min_def)
  finally show ?thesis using assms(1) by (simp add: map_cut)
qed

lemma RemoveShort_at_spec:
  assumes "lists_rep c xs ys" "i < length xs"
  shows "\<exists>c'. H264RemoveShort_at_index c (int i) = Inr c' \<and> lists_rep c' (cut i xs) ys \<and> pics c' = pics c \<and>
    same_context c c' \<and> returned c' = returned c"
proof -
  note R = assms(1)[unfolded lists_rep_def]
  have n: "length xs \<le> 17" "i < 17" using R assms(2) by linarith+
  define n' where "n' = length xs - 1"
  have len: "length xs = Suc n'" "i \<le> n'" using assms(2) by (simp_all add: n'_def)
  let ?zs = "(pShortRef c)[i := None]"
  let ?c = "c\<lparr>pShortRef := ?zs, nShortRefCount := int n'\<rparr>"
  let ?ws = "take i ?zs @ take (n' - i) (drop (Suc i) ?zs) @ drop n' ?zs"
  have mset: "mset xs = add_mset (xs ! i) (mset (cut i xs))" by (rule mset_cut [OF assms(2)])
  have "mset (xs @ somes ys) = mset (xs ! i # cut i xs @ somes ys)" using mset by simp
  then have "distinct (xs ! i # cut i xs @ somes ys)" using R distinct_mset_eq by blast
  moreover have "distinct (map (\<lambda>p. nFrmNum (pics c p)) xs)" using R by blast
  then have "distinct (cut i (map (\<lambda>p. nFrmNum (pics c p)) xs))"
    using distinct_cut [of i "map (\<lambda>p. nFrmNum (pics c p)) xs"] assms(2) by simp
  ultimately have dist: "distinct (cut i xs @ somes ys)" "distinct (map (\<lambda>p. nFrmNum (pics c p)) (cut i xs))"
    unfolding map_cut by simp_all
  have ws: "?ws = take i (pShortRef c) @ take (n' - i) (drop (Suc i) (pShortRef c)) @ drop n' ?zs"
    by simp
  have take_ws: "take n' ?ws = map Some (cut i xs)"
    unfolding ws using R len n by (intro take_shift) (simp_all add: MAX_PICTURE_COUNT_def)
  let ?d = "if n' = 0 then ?c else ?c\<lparr>pShortRef := ?ws\<rparr>"
  have "nat (int n' - int i) = n' - i" by simp
  then have "H264RemoveShort_at_index c (int i) = Inr ?d"
    using R len n by (simp add: H264RemoveShort_at_index_def Let_def MAX_PICTURE_COUNT_def)
  moreover have "lists_rep ?d (cut i xs) ys"
    using R dist take_ws len n length_cut [OF assms(2)]
    by (auto simp: lists_rep_def MAX_PICTURE_COUNT_def)
  ultimately show ?thesis by (intro exI [of _ ?d]) (simp add: same_context_def)
qed

lemma RemoveLong_at_spec:
  assumes "lists_rep c xs ys" "i < MAX_PICTURE_COUNT" "ys ! i = Some p"
  shows "\<exists>c'. H264RemoveLong_at_index c (int i) = Inr c' \<and> lists_rep c' xs (ys[i := None]) \<and>
    pics c' = pics c \<and> same_context c c' \<and> returned c' = returned c"
proof -
  note R = assms(1)[unfolded lists_rep_def]
  have i: "i < length ys" using R assms(2) by simp
  have ms: "mset (somes ys) = add_mset p (mset (somes (ys[i := None])))"
    by (rule mset_somes_clear [OF i assms(3)])
  then have "length (somes ys) = Suc (length (somes (ys[i := None])))"
    by (metis size_add_mset size_mset)
  moreover have "distinct (xs @ somes (ys[i := None]))"
  proof -
    have "mset (xs @ somes ys) = mset (p # xs @ somes (ys[i := None]))" using ms by simp
    then show ?thesis using R distinct_mset_eq by (metis distinct.simps(2))
  qed
  ultimately show ?thesis using R assms(2) i
    by (auto simp: H264RemoveLong_at_index_def lists_rep_def same_context_def nth_list_update)
qed

lemma lists_rep_same:
  assumes "lists_rep c xs ys" "same_context c c'" "same_lists c c'"
  shows "lists_rep c' xs ys"
proof -
  have "(\<lambda>p. nFrmNum (pics c' p)) = (\<lambda>p. nFrmNum (pics c p))"
    using assms(2) by (simp add: same_context_def)
  then show ?thesis using assms by (simp add: lists_rep_def same_context_def same_lists_def)
qed

definition listed :: "nat list \<Rightarrow> nat option list \<Rightarrow> nat set" where
  "listed xs ys = set (xs @ somes ys)"

text \<open>A picture that is in no list any more loses all its references.\<close>

lemma unref_removed:
  assumes "refs_rep c xs ys" "p \<notin> listed xs ys"
  shows "\<exists>c'. unref_opt (Some p, c) = Inr c' \<and> refs_rep c' xs ys \<and>
    moves c (insert p (listed xs ys)) c' (listed xs ys)"
proof -
  have rep: "lists_rep c xs ys" and d: "None \<in> set (pDelayedPic c)"
    using assms(1) by (auto simp: refs_rep_def lists_rep_def)
  obtain k c' where u: "H264UnnReferencePic c p 0 = Inr (k, c')" "same_context c c'" "same_lists c c'"
      "\<forall>q. q \<noteq> p \<longrightarrow> nReference (pics c' q) = nReference (pics c q)"
      "returned c' = returned c \<or> (\<exists>v. pVPicture (pics c p) = Some v \<and> returned c' = returned c @ [v])"
    using Unref_spec [OF d, of 0 p] by auto
  have "\<forall>q \<in> set (xs @ somes ys). marked c' q"
    using assms u(4) by (auto simp: refs_rep_def marked_def listed_def)
  then have "refs_rep c' xs ys" using lists_rep_same [OF rep u(2,3)] by (simp add: refs_rep_def)
  moreover have "moves c (insert p (listed xs ys)) c' (listed xs ys)"
  proof -
    from u(5) obtain vs where "returned c' = returned c @ vs" "\<forall>v \<in> set vs. pVPicture (pics c p) = Some v"
      by (metis append_Nil2 empty_iff empty_set set_ConsD)
    then show ?thesis using u(2) assms(2) unfolding moves_def by blast
  qed
  ultimately show ?thesis using u(1) by (simp add: unref_opt_def)
qed

lemma refs_rep_lists: "refs_rep c xs ys \<Longrightarrow> lists_rep c xs ys"
  by (simp add: refs_rep_def)

lemma listed_clear:
  assumes "distinct (xs @ somes ys)" "i < length ys" "ys ! i = Some p"
  shows "listed xs ys = insert p (listed xs (ys[i := None]))" "p \<notin> listed xs (ys[i := None])"
proof -
  have "mset (xs @ somes ys) = mset (p # xs @ somes (ys[i := None]))"
    using mset_somes_clear [OF assms(2,3)] by simp
  then have "set (xs @ somes ys) = set (p # xs @ somes (ys[i := None]))"
    "distinct (p # xs @ somes (ys[i := None]))"
    using assms(1) distinct_mset_eq by (blast dest: mset_eq_setD)+
  then show "listed xs ys = insert p (listed xs (ys[i := None]))" "p \<notin> listed xs (ys[i := None])"
    by (simp_all add: listed_def)
qed

lemma refs_rep_sub:
  assumes "refs_rep c xs ys" "lists_rep c' xs' ys'" "pics c' = pics c" "listed xs' ys' \<subseteq> listed xs ys"
  shows "refs_rep c' xs' ys'"
  using assms by (auto simp: refs_rep_def marked_def listed_def)

lemma drop_long_spec:
  assumes "refs_rep c xs ys" "i < MAX_PICTURE_COUNT"
  shows "\<exists>c'. drop_long c (int i) = Inr c' \<and> refs_rep c' xs (ys[i := None]) \<and>
    moves c (listed xs ys) c' (listed xs (ys[i := None]))"
proof -
  note rep = refs_rep_lists [OF assms(1)]
  have len: "length ys = MAX_PICTURE_COUNT" "pLongRef c = ys" "distinct (xs @ somes ys)"
    using rep by (auto simp: lists_rep_def)
  show ?thesis
  proof (cases "ys ! i")
    case None
    then have "ys[i := None] = ys" by (metis list_update_id)
    moreover have "drop_long c (int i) = Inr c"
      using None len assms(2) by (simp add: drop_long_def H264RemoveLong_def at_def unref_opt_def)
    ultimately show ?thesis using assms(1) by simp
  next
    case (Some p)
    obtain c1 where c1: "H264RemoveLong_at_index c (int i) = Inr c1" "lists_rep c1 xs (ys[i := None])"
        "pics c1 = pics c" "same_context c c1" "returned c1 = returned c"
      using RemoveLong_at_spec [OF rep assms(2) Some] by blast
    have i: "i < length ys" using len(1) assms(2) by simp
    note L = listed_clear [OF len(3) i Some]
    have r1: "refs_rep c1 xs (ys[i := None])"
      using refs_rep_sub [OF assms(1) c1(2,3)] L(1) by blast
    obtain c2 where c2: "unref_opt (Some p, c1) = Inr c2" "refs_rep c2 xs (ys[i := None])"
        "moves c1 (insert p (listed xs (ys[i := None]))) c2 (listed xs (ys[i := None]))"
      using unref_removed [OF r1 L(2)] by blast
    have "moves c (listed xs ys) c1 (listed xs ys)" by (rule moves_same [OF c1(4,5)]) auto
    then have "moves c (listed xs ys) c2 (listed xs (ys[i := None]))"
      using c2(3) moves_trans unfolding L(1) by blast
    moreover have "drop_long c (int i) = Inr c2"
      using Some len assms(2) c1(1) c2(1) by (simp add: drop_long_def H264RemoveLong_def at_def)
    ultimately show ?thesis using c2(2) by blast
  qed
qed

fun clear_all :: "nat list \<Rightarrow> 'a option list \<Rightarrow> 'a option list" where
  "clear_all [] ys = ys"
| "clear_all (i # is) ys = clear_all is (ys[i := None])"

lemma length_clear_all [simp]: "length (clear_all is ys) = length ys"
  by (induction "is" ys rule: clear_all.induct) auto

lemma nth_clear_all: "j < length ys \<Longrightarrow> clear_all is ys ! j = (if j \<in> set is then None else ys ! j)"
  by (induction "is" ys rule: clear_all.induct) (auto simp: nth_list_update)

lemma somes_clear: "length (somes (ys[i := None])) \<le> length (somes ys) \<and> set (somes (ys[i := None])) \<subseteq> set (somes ys)"
proof (cases "i < length ys \<and> ys ! i \<noteq> None")
  case True
  then obtain p where "ys ! i = Some p" by auto
  then have "mset (somes ys) = add_mset p (mset (somes (ys[i := None])))"
    by (rule mset_somes_clear [OF conjunct1 [OF True]])
  from arg_cong [OF this, of size] arg_cong [OF this, of set_mset]
  show ?thesis by auto
next
  case False
  have "ys[i := None] = ys"
  proof (cases "i < length ys")
    case True
    with False have "ys ! i = None" by simp
    then show ?thesis using list_update_id [of ys i] by simp
  qed (simp add: list_update_beyond)
  then show ?thesis by simp
qed

lemma somes_clear_all: "length (somes (clear_all is ys)) \<le> length (somes ys) \<and>
    set (somes (clear_all is ys)) \<subseteq> set (somes ys)"
proof (induction "is" ys rule: clear_all.induct)
  case (2 i "is" ys)
  then show ?case using somes_clear [of ys i] by fastforce
qed simp

lemma drop_longs_spec:
  assumes "refs_rep c xs ys" "\<forall>i \<in> set is. i < MAX_PICTURE_COUNT"
  shows "\<exists>c'. drop_longs (map int is) c = Inr c' \<and> refs_rep c' xs (clear_all is ys) \<and>
    moves c (listed xs ys) c' (listed xs (clear_all is ys))"
  using assms
proof (induction "is" ys arbitrary: c rule: clear_all.induct)
  case (1 ys)
  then show ?case by simp
next
  case (2 i "is" ys)
  obtain c1 where c1: "drop_long c (int i) = Inr c1" "refs_rep c1 xs (ys[i := None])"
      "moves c (listed xs ys) c1 (listed xs (ys[i := None]))"
    using drop_long_spec [OF 2(2), of i] 2(3) by auto
  obtain c2 where "drop_longs (map int is) c1 = Inr c2" "refs_rep c2 xs (clear_all is (ys[i := None]))"
      "moves c1 (listed xs (ys[i := None])) c2 (listed xs (clear_all is (ys[i := None])))"
    using 2(1) [OF c1(2)] 2(3) by auto
  with c1 moves_trans [OF c1(3)] show ?case by auto
qed

section \<open>The short-term list\<close>

lemma find_short_spec:
  "\<exists>r. find_short ps (map Some xs) f k = Inr r \<and>
     (case r of None \<Rightarrow> \<forall>p \<in> set xs. nFrmNum (ps p) \<noteq> f
      | Some (p, j) \<Rightarrow> \<exists>i < length xs. p = xs ! i \<and> j = k + i \<and> nFrmNum (ps p) = f \<and>
          (\<forall>h < i. nFrmNum (ps (xs ! h)) \<noteq> f))"
proof (induction xs arbitrary: k)
  case Nil
  then show ?case by simp
next
  case (Cons x xs)
  show ?case
  proof (cases "nFrmNum (ps x) = f")
    case True
    then show ?thesis by (auto intro!: exI [of _ "0::nat"])
  next
    case False
    obtain r where r: "find_short ps (map Some xs) f (Suc k) = Inr r"
      "case r of None \<Rightarrow> \<forall>p \<in> set xs. nFrmNum (ps p) \<noteq> f
      | Some (p, j) \<Rightarrow> \<exists>i < length xs. p = xs ! i \<and> j = Suc k + i \<and> nFrmNum (ps p) = f \<and>
          (\<forall>h < i. nFrmNum (ps (xs ! h)) \<noteq> f)"
      using Cons.IH [of "Suc k"] by blast
    show ?thesis
    proof (cases r)
      case None
      then show ?thesis using r False by auto
    next
      case (Some pj)
      obtain p i where "pj = (p, Suc k + i)" "i < length xs" "p = xs ! i" "nFrmNum (ps p) = f"
          "\<forall>h < i. nFrmNum (ps (xs ! h)) \<noteq> f"
        using r(2) Some by auto
      then show ?thesis using r(1) Some False
        by (auto intro!: exI [of _ "Suc i"] simp: nth_Cons split: nat.splits)
    qed
  qed
qed

lemma FindShort_spec:
  assumes "lists_rep c xs ys"
  obtains (none) "H264FindShort c f = Inr None" "\<forall>p \<in> set xs. nFrmNum (pics c p) \<noteq> f"
  | (some) i where "H264FindShort c f = Inr (Some (xs ! i, i))" "i < length xs" "nFrmNum (pics c (xs ! i)) = f"
proof -
  have "H264FindShort c f = find_short (pics c) (map Some xs) f 0"
    using assms by (simp add: H264FindShort_def lists_rep_def)
  moreover obtain r where r: "find_short (pics c) (map Some xs) f 0 = Inr r"
      "case r of None \<Rightarrow> \<forall>p \<in> set xs. nFrmNum (pics c p) \<noteq> f
      | Some (p, j) \<Rightarrow> \<exists>i < length xs. p = xs ! i \<and> j = 0 + i \<and> nFrmNum (pics c p) = f \<and>
          (\<forall>h < i. nFrmNum (pics c (xs ! h)) \<noteq> f)"
    using find_short_spec [of "pics c" xs f 0] by (elim exE conjE) (rule that)
  ultimately show ?thesis
  proof (cases r)
    case None
    then show ?thesis using none r \<open>H264FindShort c f = _\<close> by simp
  next
    case (Some pj)
    then obtain i where "pj = (xs ! i, i)" "i < length xs" "nFrmNum (pics c (xs ! i)) = f"
      using r(2) by (cases pj) auto
    then show ?thesis using some [of i] r(1) Some \<open>H264FindShort c f = _\<close> by simp
  qed
qed

lemma cut_set: "i < length xs \<Longrightarrow> set xs = insert (xs ! i) (set (cut i xs))"
  using arg_cong [OF mset_cut, of i xs set_mset] by simp

lemma listed_cut:
  assumes "lists_rep c xs ys" "i < length xs"
  shows "listed xs ys = insert (xs ! i) (listed (cut i xs) ys)" "xs ! i \<notin> listed (cut i xs) ys"
proof -
  have d: "distinct (xs @ somes ys)" using assms(1) by (simp add: lists_rep_def)
  show "listed xs ys = insert (xs ! i) (listed (cut i xs) ys)"
    using cut_set [OF assms(2)] by (simp add: listed_def)
  show "xs ! i \<notin> listed (cut i xs) ys"
    using d distinct_cut [OF assms(2)] nth_mem [OF assms(2)] by (auto simp: listed_def)
qed

text \<open>Removing a frame number leaves no picture with it.\<close>

lemma RemoveShort_spec:
  assumes "lists_rep c xs ys"
  obtains (none) "H264RemoveShort c f = Inr (None, c)" "\<forall>p \<in> set xs. nFrmNum (pics c p) \<noteq> f"
  | (some) i c' where "H264RemoveShort c f = Inr (Some (xs ! i), c')" "i < length xs"
      "nFrmNum (pics c (xs ! i)) = f" "lists_rep c' (cut i xs) ys" "pics c' = pics c" "same_context c c'"
      "returned c' = returned c" "\<forall>p \<in> set (cut i xs). nFrmNum (pics c p) \<noteq> f"
proof (cases rule: FindShort_spec [OF assms, of f])
  case 1
  then show ?thesis using none by (simp add: H264RemoveShort_def)
next
  case (2 i)
  obtain c' where c': "H264RemoveShort_at_index c (int i) = Inr c'" "lists_rep c' (cut i xs) ys"
      "pics c' = pics c" "same_context c c'" "returned c' = returned c"
    using RemoveShort_at_spec [OF assms 2(2)] by blast
  have "distinct (map (\<lambda>p. nFrmNum (pics c p)) xs)" using assms by (simp add: lists_rep_def)
  then have "f \<notin> set (cut i (map (\<lambda>p. nFrmNum (pics c p)) xs))"
    using distinct_cut [of i "map (\<lambda>p. nFrmNum (pics c p)) xs"] 2(2,3) by simp
  then have "\<forall>p \<in> set (cut i xs). nFrmNum (pics c p) \<noteq> f"
    by (auto simp: map_cut [symmetric])
  then show ?thesis using some [of i c'] 2 c' by (simp add: H264RemoveShort_def)
qed

lemma drop_short_spec:
  assumes "refs_rep c xs ys"
  shows "\<exists>c' xs'. and_then (H264RemoveShort c f) unref_opt = Inr c' \<and> refs_rep c' xs' ys \<and>
    moves c (listed xs ys) c' (listed xs' ys) \<and> set xs' \<subseteq> set xs \<and>
    (\<forall>p \<in> set xs'. nFrmNum (pics c p) \<noteq> f) \<and>
    (if \<exists>p \<in> set xs. nFrmNum (pics c p) = f then Suc (length xs') = length xs else xs' = xs)"
proof (cases rule: RemoveShort_spec [OF refs_rep_lists [OF assms], of f])
  case 1
  then show ?thesis using assms by (auto simp: unref_opt_def)
next
  case (2 i c1)
  note L = listed_cut [OF refs_rep_lists [OF assms] 2(2)]
  have "refs_rep c1 (cut i xs) ys" using refs_rep_sub [OF assms 2(4,5)] L(1) by blast
  from unref_removed [OF this L(2)] obtain c2 where c2: "unref_opt (Some (xs ! i), c1) = Inr c2"
    "refs_rep c2 (cut i xs) ys" "moves c1 (insert (xs ! i) (listed (cut i xs) ys)) c2 (listed (cut i xs) ys)"
    by blast
  have "moves c (listed xs ys) c1 (listed xs ys)" by (rule moves_same [OF 2(6,7)]) auto
  then have "moves c (listed xs ys) c2 (listed (cut i xs) ys)"
    using c2(3) moves_trans unfolding L(1) by blast
  moreover have "set (cut i xs) \<subseteq> set xs" using cut_set [OF 2(2)] by auto
  moreover have "Suc (length (cut i xs)) = length xs" using length_cut [OF 2(2)] 2(2) by simp
  ultimately show ?thesis using 2(1-3,8) c2(1,2)
    by (intro exI [of _ c2] exI [of _ "cut i xs"]) (auto intro: nth_mem)
qed

lemma drop_shorts_spec:
  "refs_rep c xs ys \<Longrightarrow> \<exists>c'. drop_shorts c = Inr c' \<and> refs_rep c' [] ys \<and>
     moves c (listed xs ys) c' (listed [] ys)"
proof (induction "length xs" arbitrary: c xs)
  case 0
  then have "nShortRefCount c = 0" by (simp add: refs_rep_def lists_rep_def)
  then have "drop_shorts c = Inr c" unfolding drop_shorts_def by (subst drop_shorts_opt.simps) simp
  then show ?case using 0 by simp
next
  case (Suc n)
  then obtain p ps where xs: "xs = p # ps" by (cases xs) auto
  have R: "length (pShortRef c) = MAX_PICTURE_COUNT" "take (length xs) (pShortRef c) = map Some xs"
    "nShortRefCount c = int (length xs)"
    using Suc.prems by (auto simp: refs_rep_def lists_rep_def)
  then have first: "pShortRef c ! 0 = Some p"
    using xs by (cases "pShortRef c") auto
  obtain c1 xs1 where c1: "and_then (H264RemoveShort c (nFrmNum (pics c p))) unref_opt = Inr c1"
      "refs_rep c1 xs1 ys" "moves c (listed xs ys) c1 (listed xs1 ys)" "Suc (length xs1) = length xs"
    using drop_short_spec [OF Suc.prems, of "nFrmNum (pics c p)"] xs by auto
  have "drop_first_short c = Inr c1"
    using first R(1) c1(1) by (simp add: drop_first_short_def at_def MAX_PICTURE_COUNT_def)
  then have "drop_shorts_opt c = drop_shorts_opt c1"
    using R(3) xs by (subst drop_shorts_opt.simps) simp
  then have "drop_shorts c = drop_shorts c1" by (simp add: drop_shorts_def)
  moreover have "n = length xs1" using Suc.hyps(2) c1(4) by simp
  ultimately show ?case using Suc.hyps(1) [OF _ c1(2)] moves_trans [OF c1(3)] by auto
qed

end
