(* ===== verification/H264Marking.thy ===== *)
theory H264Marking
  imports H264Refs
begin

text \<open>
  Reference picture marking as a whole, \<^verbatim>\<open>H264ExecuteRefPicMarking\<close>: every operation keeps the
  lists well-formed, returns only pictures that leave the lists and adds at most the current one.
\<close>

section \<open>Arguments\<close>

definition second_of_pair :: "H264Context \<Rightarrow> bool" where
  "second_of_pair c \<longleftrightarrow> ctxPicStructure c \<noteq> PICT_FRAME \<and> \<not> bFstField c"

fun valid_mmco :: "int \<Rightarrow> H264MmcoInfo \<Rightarrow> bool" where
  "valid_mmco s m =
     (case opCode m of
        MMCO_SHORT_TO_LONG \<Rightarrow> 0 \<le> bLongArg m \<and> bLongArg m < 16
      | MMCO_LONG \<Rightarrow> 0 \<le> bLongArg m \<and> bLongArg m < 16
      | MMCO_LONG_TO_UNUSED \<Rightarrow>
          (case H264PicNumExtract s (bLongArg m) of (j, t) \<Rightarrow> 0 \<le> j \<and> j < int MAX_PICTURE_COUNT)
      | MMCO_SET_MAX_LONG \<Rightarrow> 0 \<le> bLongArg m
      | _ \<Rightarrow> True)"

definition total :: "nat list \<Rightarrow> nat option list \<Rightarrow> nat" where
  "total xs ys = length xs + length (somes ys)"

lemma extract_mask:
  assumes "s \<in> {1, 2, 3}"
  shows "snd (H264PicNumExtract s n) XOR PICT_FRAME \<in> {0, 1, 2}"
  using assms by (auto simp: H264PicNumExtract_def PICT_FRAME_def)

section \<open>One operation\<close>

text \<open>Dropping fields of a listed picture: it stays, or it must leave its list.\<close>

lemma unref_listed:
  assumes "refs_rep c xs ys" "m \<in> {0, 1, 2}"
  shows "\<exists>k c1. H264UnnReferencePic c p m = Inr (k, c1) \<and> same_context c c1 \<and> lists_rep c1 xs ys \<and>
    (\<forall>q \<in> listed xs ys. q \<noteq> p \<longrightarrow> marked c1 q) \<and>
    (k = 0 \<and> marked c1 p \<and> returned c1 = returned c \<or>
     k = 1 \<and> (\<exists>vs. returned c1 = returned c @ vs \<and> (\<forall>v \<in> set vs. pVPicture (pics c p) = Some v)))"
proof -
  have rep: "lists_rep c xs ys" and d: "None \<in> set (pDelayedPic c)"
    using assms(1) by (auto simp: refs_rep_def lists_rep_def)
  obtain k c1 where u: "H264UnnReferencePic c p m = Inr (k, c1)" "same_context c c1" "same_lists c c1"
      "\<forall>q. q \<noteq> p \<longrightarrow> nReference (pics c1 q) = nReference (pics c q)"
      "k = 0 \<and> marked c1 p \<and> returned c1 = returned c \<or>
       k = 1 \<and> (returned c1 = returned c \<or> (\<exists>v. pVPicture (pics c p) = Some v \<and> returned c1 = returned c @ [v]))"
    using Unref_spec [OF d assms(2), of p] by blast
  have "\<forall>q \<in> listed xs ys. q \<noteq> p \<longrightarrow> marked c1 q"
    using assms(1) u(4) by (auto simp: refs_rep_def marked_def listed_def)
  moreover have "k = 1 \<Longrightarrow> \<exists>vs. returned c1 = returned c @ vs \<and> (\<forall>v \<in> set vs. pVPicture (pics c p) = Some v)"
    using u(5) by (metis append_Nil2 empty_iff empty_set set_ConsD zero_neq_one)
  ultimately show ?thesis using u lists_rep_same [OF rep u(2,3)] by blast
qed

lemma refs_rep_marks:
  assumes "lists_rep c xs ys" "\<forall>q \<in> listed xs ys. q \<noteq> p \<longrightarrow> marked c q" "marked c p"
  shows "refs_rep c xs ys"
  using assms unfolding refs_rep_def listed_def by metis

lemma refs_rep_dropped:
  assumes "lists_rep c' xs' ys'" "pics c' = pics c" "\<forall>q \<in> L. q \<noteq> p \<longrightarrow> marked c q"
    and "L = insert p (listed xs' ys')" "p \<notin> listed xs' ys'"
  shows "refs_rep c' xs' ys'"
proof -
  have "\<forall>q \<in> listed xs' ys'. marked c q" using assms(3-5) by (metis insert_iff)
  then show ?thesis using assms(1,2) by (simp add: refs_rep_def listed_def marked_def)
qed

lemma moves_drop:
  assumes "same_context c c'" "returned c' = returned c @ vs" "\<forall>v \<in> set vs. pVPicture (pics c p) = Some v"
    and "L = insert p L'" "p \<notin> L'"
  shows "moves c L c' L'"
  using assms unfolding moves_def by blast

text \<open>What the operations other than \<open>MMCO_LONG\<close> do to the lists.\<close>

definition shrinks :: "H264Context \<Rightarrow> nat list \<Rightarrow> nat option list \<Rightarrow> H264Context \<Rightarrow> nat list \<Rightarrow> nat option list \<Rightarrow> bool" where
  "shrinks c xs ys c' xs' ys' \<longleftrightarrow> refs_rep c' xs' ys' \<and> moves c (listed xs ys) c' (listed xs' ys') \<and>
     listed xs' ys' \<subseteq> listed xs ys \<and> total xs' ys' \<le> total xs ys \<and> length xs' \<le> length xs"

lemma shrinks_refl: "refs_rep c xs ys \<Longrightarrow> shrinks c xs ys c xs ys"
  by (simp add: shrinks_def)

lemma shrinks_trans:
  "shrinks c xs ys c1 xs1 ys1 \<Longrightarrow> shrinks c1 xs1 ys1 c2 xs2 ys2 \<Longrightarrow> shrinks c xs ys c2 xs2 ys2"
  unfolding shrinks_def using moves_trans by (meson order_trans)

lemma cut_filter:
  "distinct (map f xs) \<Longrightarrow> i < length xs \<Longrightarrow> filter (\<lambda>x. f x \<noteq> f (xs ! i)) xs = cut i xs"
proof (induction xs arbitrary: i)
  case (Cons x xs)
  show ?case
  proof (cases i)
    case 0
    have "\<forall>y \<in> set xs. f y \<noteq> f x" using Cons.prems(1) by (metis distinct.simps(2) imageI list.set_map list.simps(9))
    then show ?thesis using 0 by (simp add: filter_id_conv)
  next
    case (Suc j)
    have "f (xs ! j) \<in> f ` set xs" using Cons.prems(2) Suc by simp
    then have "f x \<noteq> f (xs ! j)" using Cons.prems(1) by auto
    then show ?thesis using Cons Suc by simp
  qed
qed simp

lemma Unref_all: "H264UnnReferencePic c p 0 = Inr (k, c') \<Longrightarrow> k = 1"
  by (auto simp: H264UnnReferencePic_def Let_def upd_pic_def and_then_Inr_iff split: option.splits)

lemma short_to_unused_spec:
  assumes "refs_rep c xs ys" "ctxPicStructure c \<in> {1, 2, 3}"
  shows "\<exists>c' xs'. short_to_unused c n = Inr c' \<and> shrinks c xs ys c' xs' ys \<and>
    (ctxPicStructure c = PICT_FRAME \<longrightarrow> xs' = filter (\<lambda>p. nFrmNum (pics c p) \<noteq> n) xs)"
proof -
  obtain f s where fs: "H264PicNumExtract (ctxPicStructure c) n = (f, s)" by fastforce
  have m: "s XOR PICT_FRAME \<in> {0, 1, 2}" using extract_mask [OF assms(2), of n] fs by simp
  show ?thesis
  proof (cases rule: FindShort_spec [OF refs_rep_lists [OF assms(1)], of f])
    case 1
    then have "short_to_unused c n = Inr c" using fs by (simp add: short_to_unused_def)
    moreover have "ctxPicStructure c = PICT_FRAME \<longrightarrow> xs = filter (\<lambda>p. nFrmNum (pics c p) \<noteq> n) xs"
      using 1 fs by (auto simp: H264PicNumExtract_def filter_id_conv)
    ultimately show ?thesis using shrinks_refl [OF assms(1)] by blast
  next
    case (2 i)
    have num: "distinct (map (\<lambda>p. nFrmNum (pics c p)) xs)"
      using refs_rep_lists [OF assms(1)] by (simp add: lists_rep_def)
    have frame: "ctxPicStructure c = PICT_FRAME \<Longrightarrow> s XOR PICT_FRAME = 0 \<and> f = n"
      using fs by (simp add: H264PicNumExtract_def)
    note L = listed_cut [OF refs_rep_lists [OF assms(1)] 2(2)]
    obtain k c1 where u: "H264UnnReferencePic c (xs ! i) (s XOR PICT_FRAME) = Inr (k, c1)"
        "same_context c c1" "lists_rep c1 xs ys" "\<forall>q \<in> listed xs ys. q \<noteq> xs ! i \<longrightarrow> marked c1 q"
        "k = 0 \<and> marked c1 (xs ! i) \<and> returned c1 = returned c \<or>
         k = 1 \<and> (\<exists>vs. returned c1 = returned c @ vs \<and> (\<forall>v \<in> set vs. pVPicture (pics c (xs ! i)) = Some v))"
      using unref_listed [OF assms(1) m, of "xs ! i"] by blast
    have go: "short_to_unused c n = (if k \<noteq> 0 then H264RemoveShort_at_index c1 (int i) else Inr c1)"
      using fs 2(1) u(1) by (simp add: short_to_unused_def)
    show ?thesis
    proof (cases "k = 0")
      case True
      then have "refs_rep c1 xs ys" using u(5) by (intro refs_rep_marks [OF u(3,4)]) auto
      moreover have "moves c (listed xs ys) c1 (listed xs ys)"
        using u(5) True by (intro moves_same [OF u(2)]) auto
      moreover have "ctxPicStructure c \<noteq> PICT_FRAME" using frame u(1) True Unref_all by fastforce
      ultimately show ?thesis using go True by (auto simp: shrinks_def)
    next
      case False
      then obtain vs where vs: "returned c1 = returned c @ vs" "\<forall>v \<in> set vs. pVPicture (pics c (xs ! i)) = Some v"
        using u(5) by blast
      obtain c2 where c2: "H264RemoveShort_at_index c1 (int i) = Inr c2" "lists_rep c2 (cut i xs) ys"
          "pics c2 = pics c1" "same_context c1 c2" "returned c2 = returned c1"
        using RemoveShort_at_spec [OF u(3) 2(2)] by blast
      have "refs_rep c2 (cut i xs) ys"
        by (rule refs_rep_dropped [OF c2(2,3) u(4) L])
      moreover have "moves c (listed xs ys) c2 (listed (cut i xs) ys)"
        using vs c2(5) by (intro moves_drop [OF same_context_trans [OF u(2) c2(4)] _ vs(2) L]) simp
      ultimately have "shrinks c xs ys c2 (cut i xs) ys"
        using L(1) length_cut [OF 2(2)] by (auto simp: shrinks_def total_def)
      moreover have "ctxPicStructure c = PICT_FRAME \<longrightarrow> cut i xs = filter (\<lambda>p. nFrmNum (pics c p) \<noteq> n) xs"
        using cut_filter [OF num 2(2)] 2(3) frame by (intro impI) simp
      ultimately show ?thesis using go False c2(1) by auto
    qed
  qed
qed

lemma long_to_unused_spec:
  assumes "refs_rep c xs ys" "ctxPicStructure c \<in> {1, 2, 3}"
    and "H264PicNumExtract (ctxPicStructure c) n = (j, s)" "0 \<le> j" "j < int MAX_PICTURE_COUNT"
  shows "\<exists>c' ys'. long_to_unused c n = Inr c' \<and> shrinks c xs ys c' xs ys'"
proof -
  define i where "i = nat j"
  have j: "j = int i" "i < MAX_PICTURE_COUNT" using assms(4,5) by (auto simp: i_def)
  have m: "s XOR PICT_FRAME \<in> {0, 1, 2}" using extract_mask [OF assms(2), of n] assms(3) by simp
  have R: "length ys = MAX_PICTURE_COUNT" "pLongRef c = ys" "distinct (xs @ somes ys)"
    using refs_rep_lists [OF assms(1)] by (auto simp: lists_rep_def)
  show ?thesis
  proof (cases "ys ! i")
    case None
    then have "long_to_unused c n = Inr c"
      using R j assms(3) by (simp add: long_to_unused_def at_def)
    then show ?thesis using shrinks_refl [OF assms(1)] by blast
  next
    case (Some p)
    have iy: "i < length ys" using R j(2) by simp
    note L = listed_clear [OF R(3) iy Some]
    obtain k c1 where u: "H264UnnReferencePic c p (s XOR PICT_FRAME) = Inr (k, c1)"
        "same_context c c1" "lists_rep c1 xs ys" "\<forall>q \<in> listed xs ys. q \<noteq> p \<longrightarrow> marked c1 q"
        "k = 0 \<and> marked c1 p \<and> returned c1 = returned c \<or>
         k = 1 \<and> (\<exists>vs. returned c1 = returned c @ vs \<and> (\<forall>v \<in> set vs. pVPicture (pics c p) = Some v))"
      using unref_listed [OF assms(1) m, of p] by blast
    have go: "long_to_unused c n = (if k \<noteq> 0 then H264RemoveLong_at_index c1 (int i) else Inr c1)"
      using assms(3) Some R j u(1) by (simp add: long_to_unused_def at_def)
    show ?thesis
    proof (cases "k = 0")
      case True
      then have "refs_rep c1 xs ys" using u(5) by (intro refs_rep_marks [OF u(3,4)]) auto
      moreover have "moves c (listed xs ys) c1 (listed xs ys)"
        using u(5) True by (intro moves_same [OF u(2)]) auto
      ultimately show ?thesis using go True by (auto simp: shrinks_def)
    next
      case False
      then obtain vs where vs: "returned c1 = returned c @ vs" "\<forall>v \<in> set vs. pVPicture (pics c p) = Some v"
        using u(5) by blast
      obtain c2 where c2: "H264RemoveLong_at_index c1 (int i) = Inr c2" "lists_rep c2 xs (ys[i := None])"
          "pics c2 = pics c1" "same_context c1 c2" "returned c2 = returned c1"
        using RemoveLong_at_spec [OF u(3) j(2) Some] by blast
      have "refs_rep c2 xs (ys[i := None])"
        by (rule refs_rep_dropped [OF c2(2,3) u(4) L])
      moreover have "moves c (listed xs ys) c2 (listed xs (ys[i := None]))"
        using vs c2(5) by (intro moves_drop [OF same_context_trans [OF u(2) c2(4)] _ vs(2) L]) simp
      ultimately have "shrinks c xs ys c2 xs (ys[i := None])"
        using L(1) somes_clear [of ys i] by (auto simp: shrinks_def total_def)
      then show ?thesis using go False c2(1) by auto
    qed
  qed
qed

section \<open>A picture becomes a long-term reference\<close>

lemma set_long_spec:
  assumes "lists_rep c xs ys" "i < 16" "ys ! i = None" "p \<notin> listed xs ys"
  shows "lists_rep (set_long (int i) p c) xs (ys[i := Some p])"
    "listed xs (ys[i := Some p]) = insert p (listed xs ys)"
    "total xs (ys[i := Some p]) = Suc (total xs ys)"
proof -
  note R = assms(1)[unfolded lists_rep_def]
  have i: "i < length ys" using R assms(2) by (simp add: MAX_PICTURE_COUNT_def)
  have ms: "mset (somes (ys[i := Some p])) = add_mset p (mset (somes ys))"
    by (rule mset_somes_set [OF i assms(3)])
  have len: "length (somes (ys[i := Some p])) = Suc (length (somes ys))"
    using arg_cong [OF ms, of size] by simp
  have "mset (xs @ somes (ys[i := Some p])) = mset (p # xs @ somes ys)" using ms by simp
  moreover have "distinct (p # xs @ somes ys)" using R assms(4) by (simp add: listed_def)
  ultimately have dist: "distinct (xs @ somes (ys[i := Some p]))"
    and sets: "set (xs @ somes (ys[i := Some p])) = set (p # xs @ somes ys)"
    using distinct_mset_eq by (blast, blast dest: mset_eq_setD)
  have high: "\<forall>j < MAX_PICTURE_COUNT. 16 \<le> j \<longrightarrow> ys[i := Some p] ! j = None"
    using R assms(2) i by (auto simp: nth_list_update)
  have frm: "(\<lambda>q. nFrmNum (pics (set_long (int i) p c) q)) = (\<lambda>q. nFrmNum (pics c q))"
    by (rule ext) (simp add: set_long_def upd_pic_def)
  show "lists_rep (set_long (int i) p c) xs (ys[i := Some p])"
    unfolding lists_rep_def frm using R dist high len by (simp add: set_long_def upd_pic_def)
  show "listed xs (ys[i := Some p]) = insert p (listed xs ys)" using sets by (simp add: listed_def)
  show "total xs (ys[i := Some p]) = Suc (total xs ys)" using len by (simp add: total_def)
qed

lemma set_long_fields:
  "same_context c (set_long i p c)" "returned (set_long i p c) = returned c"
  "marked (set_long i p c) q \<longleftrightarrow> marked c q"
  by (simp_all add: set_long_def upd_pic_def same_context_def marked_def)

lemma short_to_long_spec:
  assumes "refs_rep c xs ys" "0 \<le> arg" "arg < 16"
  shows "\<exists>c' xs' ys'. short_to_long c n arg = Inr c' \<and> shrinks c xs ys c' xs' ys'"
proof -
  define i where "i = nat arg"
  have i: "arg = int i" "i < 16" "i < MAX_PICTURE_COUNT"
    using assms(2,3) by (auto simp: i_def MAX_PICTURE_COUNT_def)
  have R: "length ys = MAX_PICTURE_COUNT" "pLongRef c = ys"
    using refs_rep_lists [OF assms(1)] by (auto simp: lists_rep_def)
  have iy: "i < length ys" using R(1) i(3) by simp
  define stop where "stop = (case ys ! i of None \<Rightarrow> False
      | Some q \<Rightarrow> ctxPicStructure c \<noteq> PICT_FRAME \<and> arg < nLongRefCount c \<and> nFrmNum (pics c q) = drop_bit 1 n)"
  define f where "f = (if ctxPicStructure c \<noteq> PICT_FRAME then drop_bit 1 n else n)"
  have at: "at (pLongRef c) arg = Inr (ys ! i)" and ni: "nat arg = i" using R i by (simp_all add: at_def)
  have go: "short_to_long c n arg = (if stop then Inr c else
      and_then (drop_long c arg) (\<lambda>c1. and_then (H264RemoveShort c1 f) (\<lambda>(q, c2). case q of
          None \<Rightarrow> Inr (c2\<lparr>pLongRef := (pLongRef c2)[i := None]\<rparr>)
        | Some p \<Rightarrow> Inr (set_long arg p c2))))"
    unfolding short_to_long_def at stop_def f_def Let_def ni using i by simp
  show ?thesis
  proof (cases stop)
    case True
    then show ?thesis using go shrinks_refl [OF assms(1)] by auto
  next
    case False
    obtain c1 where c1: "drop_long c arg = Inr c1" "refs_rep c1 xs (ys[i := None])"
        "moves c (listed xs ys) c1 (listed xs (ys[i := None]))"
      using drop_long_spec [OF assms(1) i(3)] i(1) by blast
    have sub: "listed xs (ys[i := None]) \<subseteq> listed xs ys" "total xs (ys[i := None]) \<le> total xs ys"
      using somes_clear [of ys i] by (auto simp: listed_def total_def)
    have first: "shrinks c xs ys c1 xs (ys[i := None])" using c1(2,3) sub by (simp add: shrinks_def)
    show ?thesis
    proof (cases rule: RemoveShort_spec [OF refs_rep_lists [OF c1(2)], of f])
      case 1
      have "pLongRef c1 = ys[i := None]" using c1(2) by (simp add: refs_rep_def lists_rep_def)
      then have "c1\<lparr>pLongRef := (pLongRef c1)[i := None]\<rparr> = c1" by simp
      then show ?thesis using go False c1(1) 1 first by auto
    next
      case (2 k c2)
      note L = listed_cut [OF refs_rep_lists [OF c1(2)] 2(2)]
      have none: "ys[i := None] ! i = None" using iy by simp
      note S = set_long_spec [OF 2(4) i(2) none L(2)]
      let ?c = "set_long arg (xs ! k) c2"
      have set: "listed (cut k xs) (ys[i := None, i := Some (xs ! k)]) = listed xs (ys[i := None])"
        unfolding S(2) L(1) ..
      have mk: "\<forall>q \<in> listed xs (ys[i := None]). marked ?c q"
        unfolding set_long_fields(3) using c1(2) 2(5) by (simp add: refs_rep_def listed_def marked_def)
      have rep: "refs_rep ?c (cut k xs) (ys[i := None, i := Some (xs ! k)])"
        using S(1) mk[folded set] i(1) by (simp add: refs_rep_def listed_def)
      have "moves c1 (listed xs (ys[i := None])) ?c (listed xs (ys[i := None]))"
        using 2(6,7) by (intro moves_same [OF same_context_trans [OF 2(6) set_long_fields(1)]])
          (auto simp: set_long_fields)
      then have "shrinks c1 xs (ys[i := None]) ?c (cut k xs) (ys[i := None, i := Some (xs ! k)])"
        using rep set S(3) length_cut [OF 2(2)] 2(2) by (auto simp: shrinks_def total_def)
      then have "shrinks c xs ys ?c (cut k xs) (ys[i := None, i := Some (xs ! k)])"
        by (rule shrinks_trans [OF first])
      then show ?thesis using go False c1(1) 2(1) by auto
    qed
  qed
qed

text \<open>The marks of the current picture.\<close>

lemma or_and_3: "s \<in> {1, 2, 3} \<Longrightarrow> (r OR s) AND (3::int) \<noteq> 0"
proof
  assume s: "s \<in> {1, 2, 3}" and 0: "(r OR s) AND 3 = 0"
  have "(r AND 3) OR (s AND 3) = 0" using 0 by (simp add: bit.conj_disj_distrib2)
  then have "s AND 3 = 0" by (simp add: or_eq_0_iff)
  then show False using s by auto
qed

lemma set_ref_spec:
  assumes "lists_rep c xs ys" "\<forall>q \<in> listed xs ys. q \<noteq> pCurPicturePtr c \<longrightarrow> marked c q" "s \<in> {1, 2, 3}"
    and "p = pCurPicturePtr c"
  shows "refs_rep (set_ref p s c) xs ys" "same_context c (set_ref p s c)" "returned (set_ref p s c) = returned c"
proof -
  show same: "same_context c (set_ref p s c)" and "returned (set_ref p s c) = returned c"
    by (simp_all add: set_ref_def upd_pic_def same_context_def)
  have "lists_rep (set_ref p s c) xs ys"
    by (rule lists_rep_same [OF assms(1) same]) (simp add: set_ref_def upd_pic_def same_lists_def)
  moreover have "\<forall>q \<in> listed xs ys. marked (set_ref p s c) q"
    using assms(2,4) or_and_3 [OF assms(3)] by (simp add: set_ref_def upd_pic_def marked_def)
  ultimately show "refs_rep (set_ref p s c) xs ys" by (simp add: refs_rep_def listed_def)
qed

section \<open>The current picture as a long-term reference\<close>

definition cur_free :: "H264Context \<Rightarrow> nat list \<Rightarrow> nat option list \<Rightarrow> bool" where
  "cur_free c xs ys \<longleftrightarrow> pCurPicturePtr c \<notin> listed xs ys \<or> second_of_pair c"

lemma mark_long_spec:
  assumes "refs_rep c xs ys" "0 \<le> arg" "arg < 16" "ctxPicStructure c \<in> {1, 2, 3}" "cur_free c xs ys"
  shows "\<exists>c' ys'. mark_long c arg = Inr c' \<and> refs_rep c' xs ys' \<and>
    moves c (listed xs ys) c' (listed xs ys') \<and> total xs ys' \<le> Suc (total xs ys)"
proof -
  define i where "i = nat arg"
  define cur where "cur = pCurPicturePtr c"
  have i: "arg = int i" "i < 16" "i < MAX_PICTURE_COUNT" "nat arg = i"
    using assms(2,3) by (auto simp: i_def MAX_PICTURE_COUNT_def)
  have R: "length ys = MAX_PICTURE_COUNT" "pLongRef c = ys"
    using refs_rep_lists [OF assms(1)] by (auto simp: lists_rep_def)
  define keep where "keep = (second_of_pair c \<and> (ys ! i = Some cur \<or> nReference (pics c cur) \<noteq> 0))"
  have at: "at (pLongRef c) arg = Inr (ys ! i)" using R i by (simp add: at_def)
  have go: "mark_long c arg = and_then (if \<not> keep then and_then (drop_long c arg) (\<lambda>c1. Inr (set_long arg cur c1))
      else Inr c) (\<lambda>c2. Inr (set_ref cur (ctxPicStructure c2) c2))"
    unfolding mark_long_def at Let_def keep_def second_of_pair_def cur_def using i by simp
  show ?thesis
  proof (cases keep)
    case True
    have "\<forall>q \<in> listed xs ys. q \<noteq> pCurPicturePtr c \<longrightarrow> marked c q"
      using assms(1) by (auto simp: refs_rep_def listed_def)
    note S = set_ref_spec [OF refs_rep_lists [OF assms(1)] this assms(4) cur_def]
    show ?thesis using go True S(1) moves_same [OF S(2,3)]
      by (intro exI [of _ "set_ref cur (ctxPicStructure c) c"] exI [of _ ys]) auto
  next
    case False
    obtain c1 where c1: "drop_long c arg = Inr c1" "refs_rep c1 xs (ys[i := None])"
        "moves c (listed xs ys) c1 (listed xs (ys[i := None]))"
      using drop_long_spec [OF assms(1) i(3)] i(1) by blast
    have sub: "listed xs (ys[i := None]) \<subseteq> listed xs ys" "total xs (ys[i := None]) \<le> total xs ys"
      using somes_clear [of ys i] by (auto simp: listed_def total_def)
    have "cur \<notin> listed xs ys"
    proof
      assume "cur \<in> listed xs ys"
      then have "second_of_pair c" "marked c cur"
        using assms(1,5) by (auto simp: cur_free_def cur_def refs_rep_def listed_def)
      then show False using False by (auto simp: keep_def marked_def)
    qed
    then have free: "cur \<notin> listed xs (ys[i := None])" using sub by blast
    have same: "same_context c c1" using c1(3) by (simp add: moves_def)
    then have eqs: "cur = pCurPicturePtr c1" "ctxPicStructure c1 = ctxPicStructure c"
      by (simp_all add: same_context_def cur_def)
    have none: "ys[i := None] ! i = None" using R(1) i(3) by simp
    note S = set_long_spec [OF refs_rep_lists [OF c1(2)] i(2) none free]
    let ?c2 = "set_long arg cur c1" and ?ys = "ys[i := None, i := Some cur]"
    have eqs2: "cur = pCurPicturePtr ?c2" "ctxPicStructure ?c2 = ctxPicStructure c"
      using eqs set_long_fields(1) [of c1 arg cur] by (simp_all add: same_context_def)
    have mk: "\<forall>q \<in> listed xs ?ys. q \<noteq> pCurPicturePtr ?c2 \<longrightarrow> marked ?c2 q"
      unfolding S(2) set_long_fields(3) eqs2(1) [symmetric] using c1(2) by (auto simp: refs_rep_def listed_def)
    note T = set_ref_spec [OF S(1)[folded i(1)] mk assms(4) eqs2(1)]
    let ?c = "set_ref cur (ctxPicStructure c) ?c2"
    have "moves c1 (listed xs (ys[i := None])) ?c (listed xs ?ys)"
      using T(3) S(2) eqs(1)
      by (intro moves_same [OF same_context_trans [OF set_long_fields(1) T(2)]]) (auto simp: set_long_fields)
    then have "moves c (listed xs ys) ?c (listed xs ?ys)" by (rule moves_trans [OF c1(3)])
    moreover have "mark_long c arg = Inr ?c" using go False c1(1) eqs2(2) by simp
    ultimately show ?thesis using T(1) S(3) sub(2) by (intro exI [of _ ?c] exI [of _ ?ys]) simp
  qed
qed

section \<open>Sequences of operations\<close>

lemma drop_longs_shrinks:
  assumes "refs_rep c xs ys" "0 \<le> a"
  shows "\<exists>c'. drop_longs [a..15] c = Inr c' \<and> shrinks c xs ys c' xs (clear_all [nat a..<16] ys)"
proof -
  have "[a..15] = map int [nat a..<16]"
    using assms(2) by (intro nth_equalityI) (auto simp: nth_append)
  moreover have "\<forall>i \<in> set [nat a..<16]. i < MAX_PICTURE_COUNT" by (simp add: MAX_PICTURE_COUNT_def)
  moreover have "listed xs (clear_all [nat a..<16] ys) \<subseteq> listed xs ys"
    "total xs (clear_all [nat a..<16] ys) \<le> total xs ys"
    using somes_clear_all [of "[nat a..<16]" ys] by (auto simp: listed_def total_def)
  ultimately show ?thesis using drop_longs_spec [OF assms(1), of "[nat a..<16]"] by (auto simp: shrinks_def)
qed

lemma drop_shorts_shrinks:
  assumes "refs_rep c xs ys"
  shows "\<exists>c'. drop_shorts c = Inr c' \<and> shrinks c xs ys c' [] ys"
  using drop_shorts_spec [OF assms] by (auto simp: shrinks_def listed_def total_def)

lemma reset_spec:
  assumes "refs_rep c xs ys"
  shows "\<exists>c1 c'. drop_shorts c = Inr c1 \<and> drop_longs [0..15] c1 = Inr c' \<and>
    shrinks c xs ys c' [] (clear_all [0..<16] ys)"
proof -
  obtain c1 where c1: "drop_shorts c = Inr c1" "shrinks c xs ys c1 [] ys"
    using drop_shorts_shrinks [OF assms] by blast
  then have "refs_rep c1 [] ys" by (simp add: shrinks_def)
  from drop_longs_shrinks [OF this, of 0] obtain c' where c': "drop_longs [0..15] c1 = Inr c'"
    "shrinks c1 [] ys c' [] (clear_all [0..<16] ys)" by auto
  show ?thesis using c1(1) c'(1) shrinks_trans [OF c1(2) c'(2)] by blast
qed

lemma mmco_step_spec:
  assumes "refs_rep c xs ys" "ctxPicStructure c \<in> {1, 2, 3}" "valid_mmco (ctxPicStructure c) m"
    and "opCode m \<noteq> MMCO_LONG"
  shows "\<exists>c' xs' ys'. mmco_step m (a, c) = Inr (a, c') \<and> shrinks c xs ys c' xs' ys'"
proof (cases "opCode m")
  case MMCO_SHORT_TO_UNUSED
  then show ?thesis using short_to_unused_spec [OF assms(1,2), of "nShortPicNum m"] by fastforce
next
  case MMCO_LONG_TO_UNUSED
  obtain j s where "H264PicNumExtract (ctxPicStructure c) (bLongArg m) = (j, s)" by fastforce
  with MMCO_LONG_TO_UNUSED show ?thesis
    using long_to_unused_spec [OF assms(1,2)] assms(3) by fastforce
next
  case MMCO_SHORT_TO_LONG
  then show ?thesis using short_to_long_spec [OF assms(1), of "bLongArg m" "nShortPicNum m"] assms(3) by fastforce
next
  case MMCO_SET_MAX_LONG
  then show ?thesis using drop_longs_shrinks [OF assms(1), of "bLongArg m"] assms(3) by fastforce
next
  case MMCO_RESET
  then show ?thesis using reset_spec [OF assms(1)] by fastforce
qed (use assms(4) shrinks_refl [OF assms(1)] in auto)

definition longs :: "H264MmcoInfo list \<Rightarrow> nat" where
  "longs ms = length (filter (\<lambda>m. opCode m = MMCO_LONG) ms)"

lemma longs_simps [simp]: "longs [] = 0" "longs (m # ms) = (if opCode m = MMCO_LONG then Suc (longs ms) else longs ms)"
  by (simp_all add: longs_def)

lemma mmco_steps_spec:
  assumes "refs_rep c xs ys" "ctxPicStructure c \<in> {1, 2, 3}"
    and "\<forall>m \<in> set ms. valid_mmco (ctxPicStructure c) m" "longs ms \<le> 1" "longs ms = 0 \<or> cur_free c xs ys"
  shows "\<exists>c' xs' ys'. mmco_steps ms (a, c) = Inr (a \<or> longs ms > 0, c') \<and> refs_rep c' xs' ys' \<and>
    moves c (listed xs ys) c' (listed xs' ys') \<and> total xs' ys' \<le> total xs ys + longs ms \<and>
    length xs' \<le> length xs \<and> (longs ms = 0 \<longrightarrow> listed xs' ys' \<subseteq> listed xs ys)"
  using assms
proof (induction ms arbitrary: a c xs ys)
  case Nil
  then show ?case by (intro exI [of _ c] exI [of _ xs] exI [of _ ys]) simp
next
  case (Cons m ms)
  have valid: "valid_mmco (ctxPicStructure c) m" using Cons.prems(3) by simp
  show ?case
  proof (cases "opCode m = MMCO_LONG")
    case True
    then have arg: "0 \<le> bLongArg m" "bLongArg m < 16" and none: "longs ms = 0" and free: "cur_free c xs ys"
      using valid Cons.prems(4,5) by auto
    obtain c1 ys1 where c1: "mark_long c (bLongArg m) = Inr c1" "refs_rep c1 xs ys1"
        "moves c (listed xs ys) c1 (listed xs ys1)" "total xs ys1 \<le> Suc (total xs ys)"
      using mark_long_spec [OF Cons.prems(1) arg Cons.prems(2) free] by blast
    have st: "ctxPicStructure c1 = ctxPicStructure c" using c1(3) by (simp add: moves_def same_context_def)
    obtain c2 xs2 ys2 where "mmco_steps ms (True, c1) = Inr (True \<or> longs ms > 0, c2)" "refs_rep c2 xs2 ys2"
        "moves c1 (listed xs ys1) c2 (listed xs2 ys2)" "total xs2 ys2 \<le> total xs ys1 + longs ms"
        "length xs2 \<le> length xs"
      using Cons.IH [OF c1(2), of True] st Cons.prems(2,3) none by auto
    with True c1(1,4) none moves_trans [OF c1(3)] show ?thesis
      by (intro exI [of _ c2] exI [of _ xs2] exI [of _ ys2]) auto
  next
    case False
    obtain c1 xs1 ys1 where c1: "mmco_step m (a, c) = Inr (a, c1)" "shrinks c xs ys c1 xs1 ys1"
      using mmco_step_spec [OF Cons.prems(1,2) valid False, of a] by blast
    have S: "refs_rep c1 xs1 ys1" "moves c (listed xs ys) c1 (listed xs1 ys1)" "listed xs1 ys1 \<subseteq> listed xs ys"
        "total xs1 ys1 \<le> total xs ys" "length xs1 \<le> length xs"
      using c1(2) by (simp_all add: shrinks_def)
    have st: "ctxPicStructure c1 = ctxPicStructure c" "longs ms = 0 \<or> cur_free c1 xs1 ys1"
      using S(2,3) Cons.prems(5) False by (auto simp: moves_def same_context_def cur_free_def second_of_pair_def)
    obtain c2 xs2 ys2 where "mmco_steps ms (a, c1) = Inr (a \<or> longs ms > 0, c2)" "refs_rep c2 xs2 ys2"
        "moves c1 (listed xs1 ys1) c2 (listed xs2 ys2)" "total xs2 ys2 \<le> total xs1 ys1 + longs ms"
        "length xs2 \<le> length xs1" "longs ms = 0 \<longrightarrow> listed xs2 ys2 \<subseteq> listed xs1 ys1"
      using Cons.IH [OF S(1), of a] st Cons.prems(2-4) False by auto
    with False c1(1) S(3-5) moves_trans [OF S(2)] show ?thesis
      by (intro exI [of _ c2] exI [of _ xs2] exI [of _ ys2]) (auto simp del: mmco_step.simps)
  qed
qed

section \<open>The current picture\<close>

text \<open>The second field of a picture already listed as reference: nothing is added.\<close>

lemma second_field_spec:
  assumes "refs_rep c xs ys"
  shows "\<exists>c'. second_field (a, c) =
      Inr (a \<or> second_of_pair c \<and> nReference (pics c (pCurPicturePtr c)) \<noteq> 0, c') \<and>
    refs_rep c' xs ys \<and> moves c (listed xs ys) c' (listed xs ys)"
proof (cases "\<not> a \<and> second_of_pair c \<and> nReference (pics c (pCurPicturePtr c)) \<noteq> 0")
  case False
  then have "second_field (a, c) = Inr (a \<or> second_of_pair c \<and> nReference (pics c (pCurPicturePtr c)) \<noteq> 0, c)"
    by (auto simp: second_field_def second_of_pair_def)
  then show ?thesis using assms moves_refl by blast
next
  case True
  let ?cur = "pCurPicturePtr c"
  let ?c1 = "upd_pic ?cur (\<lambda>x. x\<lparr>nReference := PICT_FRAME\<rparr>) c"
  have "length (pShortRef c) = MAX_PICTURE_COUNT" using assms by (simp add: refs_rep_def lists_rep_def)
  then have "at (pShortRef c) 0 = Inr (pShortRef c ! 0)" by (simp add: at_def MAX_PICTURE_COUNT_def)
  then have go: "second_field (a, c) = Inr (True, if nShortRefCount c \<noteq> 0 \<and> pShortRef c ! 0 = Some ?cur
      then ?c1 else c)"
    using True by (auto simp: second_field_def second_of_pair_def)
  have same: "same_context c ?c1" "same_lists c ?c1" "returned ?c1 = returned c"
    by (simp_all add: upd_pic_def same_context_def same_lists_def)
  have "\<forall>q \<in> listed xs ys. marked ?c1 q"
    using assms by (auto simp: refs_rep_def listed_def marked_def upd_pic_def PICT_FRAME_def)
  then have "refs_rep ?c1 xs ys"
    using lists_rep_same [OF refs_rep_lists [OF assms] same(1,2)] by (simp add: refs_rep_def listed_def)
  moreover have "moves c (listed xs ys) ?c1 (listed xs ys)" by (rule moves_same [OF same(1,3)]) blast
  ultimately show ?thesis using go True assms moves_refl
    by (cases "nShortRefCount c \<noteq> 0 \<and> pShortRef c ! 0 = Some ?cur") auto
qed

lemma take_insert:
  assumes "take (length xs) zs = map Some xs" "length xs < length zs" "zs \<noteq> []"
  shows "take (Suc (length xs)) ((if xs \<noteq> [] then hd zs # take (length xs) zs @ drop (Suc (length xs)) zs else zs)[0 := Some p])
    = map Some (p # xs)"
proof (cases "xs = []")
  case True
  then show ?thesis using assms(3) by (cases zs) auto
next
  case False
  then show ?thesis using assms(1) by simp
qed

text \<open>The current picture becomes the newest short-term reference.\<close>

lemma push_short_spec:
  assumes "refs_rep c xs ys" "ctxPicStructure c \<in> {1, 2, 3}" "pCurPicturePtr c \<notin> listed xs ys"
    and "\<forall>p \<in> set xs. nFrmNum (pics c p) \<noteq> nFrmNum (pics c (pCurPicturePtr c))"
    and "int (length xs) \<le> nRefFrmCount c"
  shows "\<exists>c'. push_short c = Inr c' \<and> refs_rep c' (pCurPicturePtr c # xs) ys \<and>
    moves c (listed xs ys) c' (listed (pCurPicturePtr c # xs) ys)"
proof -
  let ?cur = "pCurPicturePtr c"
  note R = refs_rep_lists [OF assms(1), unfolded lists_rep_def]
  have n: "length xs \<le> 16" using R assms(5) by linarith
  then have len: "length xs < length (pShortRef c)" "pShortRef c \<noteq> []"
    using R by (auto simp: MAX_PICTURE_COUNT_def)
  define ws where "ws = (if xs \<noteq> [] then hd (pShortRef c) # take (length xs) (pShortRef c) @
      drop (Suc (length xs)) (pShortRef c) else pShortRef c)"
  let ?c1 = "c\<lparr>pShortRef := ws[0 := Some ?cur], nShortRefCount := int (length xs) + 1\<rparr>"
  let ?c2 = "upd_pic ?cur (\<lambda>x. x\<lparr>bLongRef := 0\<rparr>) ?c1"
  have go: "push_short c = Inr (set_ref ?cur (ctxPicStructure c) ?c2)"
    unfolding push_short_def Let_def ws_def using R len by simp
  have ws: "length ws = MAX_PICTURE_COUNT" using R len by (simp add: ws_def)
  have "take (Suc (length xs)) (ws[0 := Some ?cur]) = map Some (?cur # xs)"
    unfolding ws_def by (rule take_insert) (use R len in auto)
  moreover have frm: "(\<lambda>q. nFrmNum (pics ?c2 q)) = (\<lambda>q. nFrmNum (pics c q))"
    by (rule ext) (simp add: upd_pic_def)
  moreover have "distinct (map (\<lambda>q. nFrmNum (pics c q)) (?cur # xs))" "distinct ((?cur # xs) @ somes ys)"
    using R assms(3,4) by (auto simp: listed_def)
  ultimately have rep: "lists_rep ?c2 (?cur # xs) ys"
    using R ws assms(5) unfolding lists_rep_def frm by (simp add: upd_pic_def)
  have mk: "\<forall>q \<in> listed (?cur # xs) ys. q \<noteq> pCurPicturePtr ?c2 \<longrightarrow> marked ?c2 q"
    using assms(1) by (auto simp: refs_rep_def listed_def marked_def upd_pic_def)
  have "?cur = pCurPicturePtr ?c2" by (simp add: upd_pic_def)
  note S = set_ref_spec [OF rep mk assms(2) this]
  have "same_context c ?c2" "returned ?c2 = returned c" by (simp_all add: upd_pic_def same_context_def)
  then have "moves c (listed xs ys) (set_ref ?cur (ctxPicStructure c) ?c2) (listed (?cur # xs) ys)"
    using S(3) by (intro moves_same [OF same_context_trans [OF _ S(2)]]) (auto simp: listed_def)
  then show ?thesis using go S(1) by blast
qed

lemma and_then_assoc: "and_then x (\<lambda>r. and_then (f r) g) = and_then (and_then x f) g"
  by (cases x) simp_all

lemma add_current_spec:
  assumes "refs_rep c xs ys" "ctxPicStructure c \<in> {1, 2, 3}" "\<not> a \<Longrightarrow> pCurPicturePtr c \<notin> listed xs ys"
    and "\<not> a \<Longrightarrow> int (length xs) \<le> nRefFrmCount c"
  shows "\<exists>c' xs'. add_current (a, c) = Inr c' \<and> refs_rep c' xs' ys \<and> moves c (listed xs ys) c' (listed xs' ys) \<and>
    total xs' ys \<le> total xs ys + (if a then 0 else 1) \<and>
    (\<not> a \<longrightarrow> (\<exists>xs1. xs' = pCurPicturePtr c # xs1 \<and> length xs1 \<le> length xs \<and>
      ((\<forall>p \<in> set xs. nFrmNum (pics c p) \<noteq> nFrmNum (pics c (pCurPicturePtr c))) \<longrightarrow> xs1 = xs)))"
proof (cases a)
  case True
  then show ?thesis using assms(1) by (intro exI [of _ c] exI [of _ xs]) (simp add: add_current_def)
next
  case False
  define f where "f = nFrmNum (pics c (pCurPicturePtr c))"
  obtain c1 xs1 where c1: "and_then (H264RemoveShort c f) unref_opt = Inr c1" "refs_rep c1 xs1 ys"
      "moves c (listed xs ys) c1 (listed xs1 ys)" "set xs1 \<subseteq> set xs" "\<forall>p \<in> set xs1. nFrmNum (pics c p) \<noteq> f"
      "if \<exists>p \<in> set xs. nFrmNum (pics c p) = f then Suc (length xs1) = length xs else xs1 = xs"
    using drop_short_spec [OF assms(1), of f] by blast
  have len: "length xs1 \<le> length xs" using c1(6) by (auto split: if_splits)
  have eqs: "pCurPicturePtr c1 = pCurPicturePtr c" "ctxPicStructure c1 = ctxPicStructure c"
      "nRefFrmCount c1 = nRefFrmCount c" "\<forall>p. nFrmNum (pics c1 p) = nFrmNum (pics c p)"
    using c1(3) by (simp_all add: moves_def same_context_def)
  have free: "pCurPicturePtr c1 \<notin> listed xs1 ys" using assms(3) False c1(4) eqs(1) by (auto simp: listed_def)
  have st: "ctxPicStructure c1 \<in> {1, 2, 3}" "int (length xs1) \<le> nRefFrmCount c1"
    "\<forall>p \<in> set xs1. nFrmNum (pics c1 p) \<noteq> nFrmNum (pics c1 (pCurPicturePtr c1))"
    using assms(2,4) False len c1(5) eqs by (simp_all add: f_def)
  obtain c2 where c2: "push_short c1 = Inr c2" "refs_rep c2 (pCurPicturePtr c1 # xs1) ys"
      "moves c1 (listed xs1 ys) c2 (listed (pCurPicturePtr c1 # xs1) ys)"
    using push_short_spec [OF c1(2) st(1) free st(3,2)] by blast
  have "add_current (a, c) = Inr c2"
    using False c1(1) c2(1) by (simp add: add_current_def and_then_assoc f_def)
  moreover have "(\<forall>p \<in> set xs. nFrmNum (pics c p) \<noteq> f) \<longrightarrow> xs1 = xs" using c1(6) by (auto split: if_splits)
  ultimately show ?thesis using c2(2) moves_trans [OF c1(3) c2(3)] len False eqs(1) unfolding f_def
    by (intro exI [of _ c2] exI [of _ "pCurPicturePtr c1 # xs1"]) (simp add: total_def)
qed

section \<open>One reference too many\<close>

lemma first_long_spec:
  "\<exists>x \<in> set xs. x \<noteq> None \<Longrightarrow> k \<le> first_long xs k \<and> first_long xs k < k + length xs \<and> xs ! (first_long xs k - k) \<noteq> None"
proof (induction xs k rule: first_long.induct)
  case (2 x xs i)
  show ?case
  proof (cases "x = None")
    case True
    then have "Suc i \<le> first_long xs (Suc i)" "first_long xs (Suc i) < Suc i + length xs"
      "xs ! (first_long xs (Suc i) - Suc i) \<noteq> None"
      using 2 by auto
    then show ?thesis using True by (simp add: nth_Cons' Suc_diff_Suc Suc_le_eq)
  qed simp
qed simp

lemma long_exists:
  assumes "lists_rep c xs ys" "nLongRefCount c \<noteq> 0"
  obtains i p where "first_long (take 16 (pLongRef c)) 0 = i" "i < MAX_PICTURE_COUNT" "ys ! i = Some p"
proof -
  note R = assms(1)[unfolded lists_rep_def]
  have "somes ys \<noteq> []" using R assms(2) by auto
  then obtain q where "Some q \<in> set ys" using set_somes [of ys] by (metis hd_in_set mem_Collect_eq)
  then obtain j where j: "j < length ys" "ys ! j = Some q" by (auto simp: in_set_conv_nth)
  then have "j < 16" using R by (metis linorder_not_le option.distinct(1))
  then have "Some q \<in> set (take 16 ys)" using j by (auto simp: in_set_conv_nth)
  then have F: "first_long (take 16 ys) 0 < length (take 16 ys)" "take 16 ys ! first_long (take 16 ys) 0 \<noteq> None"
    using first_long_spec [of "take 16 ys" 0] by auto
  then obtain p where "ys ! first_long (take 16 ys) 0 = Some p" by auto
  moreover have "first_long (take 16 ys) 0 < MAX_PICTURE_COUNT" using F(1) by (simp add: MAX_PICTURE_COUNT_def)
  ultimately show ?thesis using that R by simp
qed

lemma discard_one_spec:
  assumes "refs_rep c xs ys" "0 \<le> nRefFrmCount c" "int (total xs ys) \<le> nRefFrmCount c + 1"
  shows "\<exists>c' xs' ys'. discard_one c = Inr c' \<and> refs_rep c' xs' ys' \<and> moves c (listed xs ys) c' (listed xs' ys') \<and>
    int (total xs' ys') \<le> nRefFrmCount c \<and>
    (xs', ys') = (if int (total xs ys) \<le> nRefFrmCount c then (xs, ys)
      else if xs = [] then ([], ys[first_long (take 16 ys) 0 := None]) else (butlast xs, ys))"
proof -
  note rep = refs_rep_lists [OF assms(1)]
  note R = rep[unfolded lists_rep_def]
  have tot: "nLongRefCount c + nShortRefCount c = int (total xs ys)" using R by (simp add: total_def)
  show ?thesis
  proof (cases "int (total xs ys) \<le> nRefFrmCount c")
    case True
    then show ?thesis using assms(1) tot by (intro exI [of _ c] exI [of _ xs] exI [of _ ys]) (simp add: discard_one_def)
  next
    case many: False
    show ?thesis
    proof (cases "xs = []")
      case True
      then have "nLongRefCount c \<noteq> 0" "nShortRefCount c = 0" using R many tot assms(2) by auto
      from long_exists [OF rep this(1)] obtain i p
        where i: "first_long (take 16 (pLongRef c)) 0 = i" "i < MAX_PICTURE_COUNT" "ys ! i = Some p" by blast
      have iy: "i < length ys" "pLongRef c = ys" "distinct (xs @ somes ys)" using R i(2) by auto
      obtain c1 where c1: "H264RemoveLong_at_index c (int i) = Inr c1" "lists_rep c1 xs (ys[i := None])"
          "pics c1 = pics c" "same_context c c1" "returned c1 = returned c"
        using RemoveLong_at_spec [OF rep i(2,3)] by blast
      note L = listed_clear [OF iy(3,1) i(3)]
      have "refs_rep c1 xs (ys[i := None])" using refs_rep_sub [OF assms(1) c1(2,3)] L(1) by blast
      from unref_removed [OF this L(2)] obtain c2 where c2: "unref_opt (Some p, c1) = Inr c2"
        "refs_rep c2 xs (ys[i := None])" "moves c1 (insert p (listed xs (ys[i := None]))) c2 (listed xs (ys[i := None]))"
        by blast
      have "moves c (listed xs ys) c1 (listed xs ys)" by (rule moves_same [OF c1(4,5)]) auto
      then have "moves c (listed xs ys) c2 (listed xs (ys[i := None]))"
        using c2(3) moves_trans unfolding L(1) by blast
      moreover have "discard_one c = Inr c2"
        unfolding discard_one_def Let_def i(1) using many tot \<open>nLongRefCount c \<noteq> 0\<close> \<open>nShortRefCount c = 0\<close> iy i(3) c1(1) c2(1)
        by (simp add: at_def)
      moreover have "total xs ys = Suc (total xs (ys[i := None]))"
        using arg_cong [OF mset_somes_clear [OF iy(1) i(3)], of size] by (simp add: total_def)
      ultimately show ?thesis using many True c2(2) assms(3) i(1) iy(2)
        by (intro exI [of _ c2] exI [of _ xs] exI [of _ "ys[i := None]"]) simp
    next
      case False
      define i where "i = length xs - 1"
      have i: "i < length xs" "nShortRefCount c - 1 = int i" "cut i xs = butlast xs"
        using False R by (cases xs; simp add: i_def cut_def butlast_conv_take)+
      have at_i: "i < length (pShortRef c)" "pShortRef c ! i = Some (xs ! i)"
      proof -
        have "length (take (length xs) (pShortRef c)) = length xs" using R by (metis length_map)
        then show "i < length (pShortRef c)" using i(1) by simp
        have "pShortRef c ! i = take (length xs) (pShortRef c) ! i" using i(1) by simp
        then show "pShortRef c ! i = Some (xs ! i)" using R i(1) by simp
      qed
      obtain c1 where c1: "H264RemoveShort_at_index c (int i) = Inr c1" "lists_rep c1 (cut i xs) ys"
          "pics c1 = pics c" "same_context c c1" "returned c1 = returned c"
        using RemoveShort_at_spec [OF rep i(1)] by blast
      note L = listed_cut [OF rep i(1)]
      have "refs_rep c1 (cut i xs) ys" using refs_rep_sub [OF assms(1) c1(2,3)] L(1) by blast
      from unref_removed [OF this L(2)] obtain c2 where c2: "unref_opt (Some (xs ! i), c1) = Inr c2"
        "refs_rep c2 (cut i xs) ys" "moves c1 (insert (xs ! i) (listed (cut i xs) ys)) c2 (listed (cut i xs) ys)"
        by blast
      have "moves c (listed xs ys) c1 (listed xs ys)" by (rule moves_same [OF c1(4,5)]) auto
      then have "moves c (listed xs ys) c2 (listed (cut i xs) ys)"
        using c2(3) moves_trans unfolding L(1) by blast
      moreover have "discard_one c = Inr c2"
        unfolding discard_one_def Let_def i(2) using many tot False R at_i c1(1) c2(1) by (simp add: at_def)
      moreover have "length xs = Suc (length (butlast xs))" using False by (cases xs) simp_all
      ultimately show ?thesis using many False c2(2) assms(3) unfolding i(3)
        by (intro exI [of _ c2] exI [of _ "butlast xs"] exI [of _ ys]) (simp add: total_def del: length_butlast)
    qed
  qed
qed

section \<open>The whole of it\<close>

definition mmco_list :: "H264MmcoInfo list \<Rightarrow> int \<Rightarrow> H264MmcoInfo list" where
  "mmco_list ms n = take (min (nat n) MAX_MMCO_COUNT) ms"

text \<open>
  What the decoder of the bit stream and the allocation of pictures promise: arguments in range, at
  most one operation that makes the current picture a long-term reference, and a current picture that
  is no reference yet unless it is the second field of its frame.
\<close>

definition marking_ready :: "H264Context \<Rightarrow> nat list \<Rightarrow> nat option list \<Rightarrow> H264MmcoInfo list \<Rightarrow> bool" where
  "marking_ready c xs ys ms \<longleftrightarrow> refs_rep c xs ys \<and> int (total xs ys) \<le> nRefFrmCount c \<and>
     ctxPicStructure c \<in> {1, 2, 3} \<and> (\<forall>m \<in> set ms. valid_mmco (ctxPicStructure c) m) \<and> longs ms \<le> 1 \<and>
     cur_free c xs ys"

lemma marking_spec:
  assumes "marking_ready c xs ys (mmco_list ms n)"
  shows "\<exists>c' xs' ys'. H264ExecuteRefPicMarking c ms n = Inr c' \<and> refs_rep c' xs' ys' \<and>
    int (total xs' ys') \<le> nRefFrmCount c' \<and> moves c (listed xs ys) c' (listed xs' ys')"
proof -
  note A = assms[unfolded marking_ready_def]
  let ?ms = "mmco_list ms n"
  obtain c1 xs1 ys1 where c1: "mmco_steps ?ms (False, c) = Inr (longs ?ms > 0, c1)" "refs_rep c1 xs1 ys1"
      "moves c (listed xs ys) c1 (listed xs1 ys1)" "total xs1 ys1 \<le> total xs ys + longs ?ms"
      "length xs1 \<le> length xs" "longs ?ms = 0 \<longrightarrow> listed xs1 ys1 \<subseteq> listed xs ys"
    using mmco_steps_spec [of c xs ys ?ms False] A by auto
  have eqs: "pCurPicturePtr c1 = pCurPicturePtr c" "ctxPicStructure c1 = ctxPicStructure c"
      "second_of_pair c1 = second_of_pair c" "nRefFrmCount c1 = nRefFrmCount c"
    using c1(3) by (simp_all add: moves_def same_context_def second_of_pair_def)
  define a where "a = (longs ?ms > 0 \<or> second_of_pair c1 \<and> nReference (pics c1 (pCurPicturePtr c1)) \<noteq> 0)"
  obtain c2 where c2: "second_field (longs ?ms > 0, c1) = Inr (a, c2)" "refs_rep c2 xs1 ys1"
      "moves c1 (listed xs1 ys1) c2 (listed xs1 ys1)"
    using second_field_spec [OF c1(2), of "longs ?ms > 0"] unfolding a_def by blast
  have eqs2: "pCurPicturePtr c2 = pCurPicturePtr c" "ctxPicStructure c2 = ctxPicStructure c"
      "nRefFrmCount c2 = nRefFrmCount c"
    using c2(3) eqs by (simp_all add: moves_def same_context_def)
  have free: "pCurPicturePtr c2 \<notin> listed xs1 ys1" if "\<not> a"
  proof
    assume "pCurPicturePtr c2 \<in> listed xs1 ys1"
    then have cur: "pCurPicturePtr c1 \<in> listed xs1 ys1" using eqs eqs2 by simp
    then have "marked c1 (pCurPicturePtr c1)" using c1(2) by (simp add: refs_rep_def listed_def)
    then have "nReference (pics c1 (pCurPicturePtr c1)) \<noteq> 0" by (auto simp: marked_def)
    then have "\<not> second_of_pair c" "longs ?ms = 0" using that eqs by (auto simp: a_def)
    then have "pCurPicturePtr c \<notin> listed xs1 ys1" using c1(6) A by (auto simp: cur_free_def)
    then show False using cur eqs by simp
  qed
  have "int (length xs1) \<le> nRefFrmCount c2" using c1(5) A eqs2 by (simp add: total_def)
  then obtain c3 xs3 where c3: "add_current (a, c2) = Inr c3" "refs_rep c3 xs3 ys1"
      "moves c2 (listed xs1 ys1) c3 (listed xs3 ys1)" "total xs3 ys1 \<le> total xs1 ys1 + (if a then 0 else 1)"
    using add_current_spec [OF c2(2) _ free, of a] A eqs2 by auto
  have "total xs3 ys1 \<le> total xs ys + 1"
    using c1(4) c3(4) A by (auto simp: a_def split: if_splits)
  moreover have n3: "nRefFrmCount c3 = nRefFrmCount c" using c3(3) eqs2 by (simp add: moves_def same_context_def)
  ultimately have "0 \<le> nRefFrmCount c3" "int (total xs3 ys1) \<le> nRefFrmCount c3 + 1" using A by auto
  from discard_one_spec [OF c3(2) this] obtain c4 xs4 ys4 where c4: "discard_one c3 = Inr c4" "refs_rep c4 xs4 ys4"
      "moves c3 (listed xs3 ys1) c4 (listed xs4 ys4)" "int (total xs4 ys4) \<le> nRefFrmCount c3" by blast
  have "H264ExecuteRefPicMarking c ms n = Inr c4"
    using c1(1) c2(1) c3(1) c4(1) by (simp add: H264ExecuteRefPicMarking_def mmco_list_def)
  moreover have "moves c (listed xs ys) c4 (listed xs4 ys4)"
    by (rule moves_trans [OF moves_trans [OF moves_trans [OF c1(3) c2(3)] c3(3)] c4(3)])
  moreover have "nRefFrmCount c4 = nRefFrmCount c3" using c4(3) by (simp add: moves_def same_context_def)
  ultimately show ?thesis using c4(2,4) by auto
qed

end
