(* ===== verification/H264Decode.thy ===== *)
theory H264Decode
  imports H264Marking
begin

text \<open>
  Decoding of the reference marking syntax, \<^verbatim>\<open>H264DecodeRefPicMarking\<close>. The bit reader is reached through
  function pointers of the decoder context: it is a parameter here, \<open>gb\<close> for \<^verbatim>\<open>GetBits\<close> and \<open>ue\<close> for
  \<^verbatim>\<open>GetUeGolomb\<close>, on a reader state of any type.
\<close>

type_synonym 'r get_bits = "nat \<Rightarrow> 'r \<Rightarrow> 32 word \<times> 'r"
type_synonym 'r get_ue = "'r \<Rightarrow> 32 word \<times> 'r"

record H264Slice =
  bIdrFrmFlag :: bool
  nCurPicNum :: "32 word"
  nMaxPicNum :: "32 word"
  mmco :: "H264MmcoInfo list"
  nMmcoIndex :: int

definition opcode_of :: "32 word \<Rightarrow> h264_mmco_opcode" where
  "opcode_of w =
     (if w = 0 then MMCO_END else if w = 1 then MMCO_SHORT_TO_UNUSED else if w = 2 then MMCO_LONG_TO_UNUSED
      else if w = 3 then MMCO_SHORT_TO_LONG else if w = 4 then MMCO_SET_MAX_LONG else if w = 5 then MMCO_RESET
      else if w = 6 then MMCO_LONG else MMCO_UNKNOWN)"

definition short_arg :: "32 word \<Rightarrow> 32 word \<Rightarrow> 32 word \<Rightarrow> int" where
  "short_arg cur lim v = sint ((cur - v - 1) AND (lim - 1))"

definition bad_long_arg :: "h264_mmco_opcode \<Rightarrow> int \<Rightarrow> 32 word \<Rightarrow> bool" where
  "bad_long_arg opc structure v \<longleftrightarrow>
     v > 32 \<or> (v \<ge> 16 \<and> \<not> (opc = MMCO_LONG_TO_UNUSED \<and> structure \<noteq> PICT_FRAME))"

text \<open>
  The operations from index \<open>i\<close> on, \<open>k\<close> of which still fit in the array. The result is a status, the
  array, the index at which the loop stopped, and the reader.
\<close>

fun read_mmcos :: "'r get_ue \<Rightarrow> 32 word \<Rightarrow> 32 word \<Rightarrow> int \<Rightarrow> nat \<Rightarrow> nat \<Rightarrow> H264MmcoInfo list \<Rightarrow> 'r \<Rightarrow>
    int \<times> H264MmcoInfo list \<times> nat \<times> 'r" where
  "read_mmcos ue cur lim structure 0 i ms r = (0, ms, i, r)"
| "read_mmcos ue cur lim structure (Suc k) i ms r =
     (case ue r of (w, r1) \<Rightarrow>
        let opc = opcode_of w; ms1 = ms[i := (ms ! i)\<lparr>opCode := opc\<rparr>];
            (ms2, r2) = (if opc \<in> {MMCO_SHORT_TO_UNUSED, MMCO_SHORT_TO_LONG}
              then (case ue r1 of (v, r2) \<Rightarrow> (ms1[i := (ms1 ! i)\<lparr>nShortPicNum := short_arg cur lim v\<rparr>], r2))
              else (ms1, r1));
            (bad, ms3, r3) = (if opc \<in> {MMCO_SHORT_TO_LONG, MMCO_LONG_TO_UNUSED, MMCO_LONG, MMCO_SET_MAX_LONG}
              then (case ue r2 of (v, r3) \<Rightarrow>
                if bad_long_arg opc structure v then (True, ms2, r3)
                else (False, ms2[i := (ms2 ! i)\<lparr>bLongArg := uint v\<rparr>], r3))
              else (False, ms2, r2))
        in if bad then (VRESULT_ERR_FAIL, ms3, i, r3)
           else if opc = MMCO_END then (0, ms3, i, r3)
           else read_mmcos ue cur lim structure k (Suc i) ms3 r3)"

text \<open>Without operations in the stream the oldest short-term picture leaves a full list.\<close>

definition sliding_window :: "H264Context \<Rightarrow> H264Slice \<Rightarrow> H264Slice res" where
  "sliding_window c s =
     (let s0 = s\<lparr>nMmcoIndex := 0\<rparr>; n = nShortRefCount c
      in if n \<noteq> 0 \<and> nLongRefCount c + n = nRefFrmCount c \<and>
            \<not> (ctxPicStructure c \<noteq> PICT_FRAME \<and> \<not> bFstField c \<and> nReference (pics c (pCurPicturePtr c)) \<noteq> 0)
         then if n - 1 \<ge> int MAX_PICTURE_COUNT then Inl Aborted
           else and_then (at (pShortRef c) (n - 1)) (\<lambda>r. case r of
               None \<Rightarrow> Inl NullDeref
             | Some p \<Rightarrow>
                 let f = nFrmNum (pics c p);
                     field = (ctxPicStructure c \<noteq> PICT_FRAME);
                     num = (if field then f * 2 else f);
                     ms1 = (mmco s)[0 := ((mmco s) ! 0)\<lparr>opCode := MMCO_SHORT_TO_UNUSED, nShortPicNum := num\<rparr>];
                     ms2 = (if field then ms1[1 := (ms1 ! 1)\<lparr>opCode := MMCO_SHORT_TO_UNUSED, nShortPicNum := num + 1\<rparr>]
                            else ms1)
                 in Inr (s0\<lparr>mmco := ms2, nMmcoIndex := (if field then 2 else 1)\<rparr>))
         else Inr s0)"

definition H264DecodeRefPicMarking ::
    "'r get_bits \<Rightarrow> 'r get_ue \<Rightarrow> H264Context \<Rightarrow> H264Slice \<Rightarrow> 'r \<Rightarrow> (int \<times> H264Slice \<times> 'r) res" where
  "H264DecodeRefPicMarking gb ue c s r =
     (let s0 = s\<lparr>nMmcoIndex := 0\<rparr>
      in if bIdrFrmFlag s then
           (case gb 1 r of (_, r1) \<Rightarrow> case gb 1 r1 of (v, r2) \<Rightarrow>
              let arg = sint (v - 1); m = (mmco s) ! 0
              in Inr (0, if arg = -1 then s0\<lparr>mmco := (mmco s)[0 := m\<lparr>bLongArg := 0\<rparr>]\<rparr>
                      else s0\<lparr>mmco := (mmco s)[0 := m\<lparr>bLongArg := arg, opCode := MMCO_LONG\<rparr>], nMmcoIndex := 1\<rparr>, r2))
         else (case gb 1 r of (flag, r1) \<Rightarrow>
           if flag \<noteq> 0 then
             (case read_mmcos ue (nCurPicNum s) (nMaxPicNum s) (ctxPicStructure c) MAX_MMCO_COUNT 0 (mmco s) r1 of
                (st, ms, n, r2) \<Rightarrow>
                  Inr (st, if st = 0 then s0\<lparr>mmco := ms, nMmcoIndex := int n\<rparr> else s0\<lparr>mmco := ms\<rparr>, r2))
           else and_then (sliding_window c s) (\<lambda>s1. Inr (0, s1, r1))))"

section \<open>Decoded operations are in range\<close>

text \<open>\<open>GetBits\<close> with one bit returns a bit.\<close>

definition bit_reader :: "'r get_bits \<Rightarrow> bool" where
  "bit_reader gb \<longleftrightarrow> (\<forall>r. fst (gb 1 r) \<in> {0, 1})"

lemma long_arg_valid:
  assumes "\<not> bad_long_arg opc s v" "opc \<in> {MMCO_SHORT_TO_LONG, MMCO_LONG_TO_UNUSED, MMCO_LONG, MMCO_SET_MAX_LONG}"
    and "opCode m = opc" "bLongArg m = uint v"
  shows "valid_mmco s m"
proof -
  have le: "uint v \<le> 32" "opc = MMCO_LONG_TO_UNUSED \<and> s \<noteq> PICT_FRAME \<or> uint v < 16"
    using assms(1) by (auto simp: bad_long_arg_def word_le_def word_less_def not_less)
  have half: "0 \<le> drop_bit 1 (uint v)" "drop_bit 1 (uint v) \<le> 16"
    using le(1) by (simp_all add: drop_bit_eq_div)
  show ?thesis using assms(2-4) le half
    by (auto simp: H264PicNumExtract_def MAX_PICTURE_COUNT_def split: if_splits)
qed

lemma plain_valid: "opCode m \<in> {MMCO_END, MMCO_SHORT_TO_UNUSED, MMCO_RESET, MMCO_UNKNOWN} \<Longrightarrow> valid_mmco s m"
  by auto

lemma read_mmcos_valid:
  assumes "read_mmcos ue cur lim structure k i ms r = (0, ms', n, r')"
    and "i + k = length ms" "\<forall>m \<in> set (take i ms). valid_mmco structure m"
  shows "length ms' = length ms \<and> n \<le> length ms \<and> (\<forall>m \<in> set (take n ms'). valid_mmco structure m)"
  using assms
proof (induction k arbitrary: i ms r)
  case 0
  then show ?case by auto
next
  case (Suc k)
  obtain w r1 where w: "ue r = (w, r1)" by fastforce
  define opc where "opc = opcode_of w"
  define ms1 where "ms1 = ms[i := (ms ! i)\<lparr>opCode := opc\<rparr>]"
  define st2 where "st2 = (if opc \<in> {MMCO_SHORT_TO_UNUSED, MMCO_SHORT_TO_LONG}
      then (case ue r1 of (v, r2) \<Rightarrow> (ms1[i := (ms1 ! i)\<lparr>nShortPicNum := short_arg cur lim v\<rparr>], r2))
      else (ms1, r1))"
  obtain ms2 r2 where st2: "st2 = (ms2, r2)" by fastforce
  define st3 where "st3 = (if opc \<in> {MMCO_SHORT_TO_LONG, MMCO_LONG_TO_UNUSED, MMCO_LONG, MMCO_SET_MAX_LONG}
      then (case ue r2 of (v, r3) \<Rightarrow>
        if bad_long_arg opc structure v then (True, ms2, r3)
        else (False, ms2[i := (ms2 ! i)\<lparr>bLongArg := uint v\<rparr>], r3))
      else (False, ms2, r2))"
  obtain bad ms3 r3 where st3: "st3 = (bad, ms3, r3)" by (cases st3)
  have go: "read_mmcos ue cur lim structure (Suc k) i ms r =
      (if bad then (VRESULT_ERR_FAIL, ms3, i, r3) else if opc = MMCO_END then (0, ms3, i, r3)
       else read_mmcos ue cur lim structure k (Suc i) ms3 r3)"
    using w st2 st3 unfolding opc_def ms1_def st2_def st3_def by (simp add: Let_def)
  have len: "i < length ms" using Suc.prems(2) by simp
  have ms2: "length ms2 = length ms" "take i ms2 = take i ms" "opCode (ms2 ! i) = opc"
    using st2 len unfolding st2_def ms1_def by (auto split: if_splits prod.splits)
  then have ms3: "length ms3 = length ms" "take i ms3 = take i ms" "opCode (ms3 ! i) = opc"
    using st3 len unfolding st3_def by (auto split: if_splits prod.splits)
  show ?case
  proof (cases "bad \<or> opc = MMCO_END")
    case True
    then show ?thesis using Suc.prems(1,3) go ms3 len by (auto simp: VRESULT_ERR_FAIL_def split: if_splits)
  next
    case False
    have "valid_mmco structure (ms3 ! i)"
    proof (cases "opc \<in> {MMCO_SHORT_TO_LONG, MMCO_LONG_TO_UNUSED, MMCO_LONG, MMCO_SET_MAX_LONG}")
      case True
      obtain v r4 where v: "ue r2 = (v, r4)" by fastforce
      then have "\<not> bad_long_arg opc structure v" "ms3 = ms2[i := (ms2 ! i)\<lparr>bLongArg := uint v\<rparr>]"
        using st3 True False unfolding st3_def by (auto split: if_splits)
      then show ?thesis using True ms2 ms3 len by (intro long_arg_valid [of opc]) simp_all
    next
      case False
      then show ?thesis using ms3(3) plain_valid [of "ms3 ! i" "structure"] by (cases opc) auto
    qed
    then have "\<forall>m \<in> set (take (Suc i) ms3). valid_mmco structure m"
      using Suc.prems(3) ms3 len by (auto simp: take_Suc_conv_app_nth)
    moreover have "read_mmcos ue cur lim structure k (Suc i) ms3 r3 = (0, ms', n, r')"
      using go Suc.prems(1) False by simp
    ultimately show ?thesis using Suc.IH [of "Suc i" ms3 r3] Suc.prems(2) ms3(1) by simp
  qed
qed

lemma sliding_window_valid:
  assumes "sliding_window c s = Inr s'" "length (mmco s) = MAX_MMCO_COUNT"
  shows "\<forall>m \<in> set (mmco_list (mmco s') (nMmcoIndex s')). opCode m = MMCO_SHORT_TO_UNUSED"
proof -
  obtain m0 m1 ms where ms: "mmco s = m0 # m1 # ms"
    using assms(2) by (cases "mmco s"; cases "tl (mmco s)") (auto simp: MAX_MMCO_COUNT_def)
  show ?thesis
    using assms(1) ms
    by (auto simp: sliding_window_def Let_def mmco_list_def MAX_MMCO_COUNT_def and_then_Inr_iff
        split: if_splits option.splits)
qed

lemma decode_valid:
  assumes "H264DecodeRefPicMarking gb ue c s r = Inr (0, s', r')" "length (mmco s) = MAX_MMCO_COUNT"
    and "bit_reader gb"
  shows "\<forall>m \<in> set (mmco_list (mmco s') (nMmcoIndex s')). valid_mmco (ctxPicStructure c) m"
proof (cases "bIdrFrmFlag s")
  case True
  obtain v0 r1 v r2 where r: "gb 1 r = (v0, r1)" "gb 1 r1 = (v, r2)" by fastforce
  then have "v \<in> {0, 1}" using assms(3) unfolding bit_reader_def by (metis fst_conv)
  moreover obtain m0 ms where ms: "mmco s = m0 # ms"
    using assms(2) by (cases "mmco s") (auto simp: MAX_MMCO_COUNT_def)
  ultimately show ?thesis
    using assms(1) r True by (auto simp: H264DecodeRefPicMarking_def Let_def mmco_list_def MAX_MMCO_COUNT_def)
next
  case False
  obtain flag r1 where r1: "gb 1 r = (flag, r1)" by fastforce
  show ?thesis
  proof (cases "flag = 0")
    case True
    then show ?thesis
      using assms(1) r1 False sliding_window_valid [OF _ assms(2)] plain_valid
      by (auto simp: H264DecodeRefPicMarking_def Let_def and_then_Inr_iff)
  next
    case nz: False
    obtain st ms n r2 where m: "read_mmcos ue (nCurPicNum s) (nMaxPicNum s) (ctxPicStructure c) MAX_MMCO_COUNT 0 (mmco s) r1
        = (st, ms, n, r2)" by (metis prod_cases4)
    then have st: "st = 0" "s' = s\<lparr>nMmcoIndex := int n, mmco := ms\<rparr>"
      using assms(1) r1 nz False by (auto simp: H264DecodeRefPicMarking_def Let_def split: if_splits)
    then have "length ms = MAX_MMCO_COUNT \<and> n \<le> MAX_MMCO_COUNT \<and>
        (\<forall>m \<in> set (take n ms). valid_mmco (ctxPicStructure c) m)"
      using read_mmcos_valid [of ue "nCurPicNum s" "nMaxPicNum s" "ctxPicStructure c" MAX_MMCO_COUNT 0 "mmco s" r1 ms n r2]
        m assms(2) by simp
    then show ?thesis using st by (auto simp: mmco_list_def min_def)
  qed
qed

end
