(* ===== verification/H264Theorems.thy ===== *)
theory H264Theorems
  imports H264Decode
begin

text \<open>
  What reference marking guarantees: the lists stay well-formed, a buffer is given back only when its
  picture has left them, the sliding window and the reset do what they say, and the refresh does not.
\<close>

section \<open>A small example\<close>

definition demo_pic :: "nat \<Rightarrow> H264PicInfo" where
  "demo_pic p = \<lparr>nFieldPoc = (0, 0), nPoc = int p, nFrmNum = int p, nPicId = 0, bLongRef = 0,
     nReference = (if p \<in> {1, 2, 3} then 3 else 0), nPicStructure = 3, nDispBufIndex = p,
     pVPicture = Some (100 + p), pScaleDownVPicture = None, bCodedFrame = 0, bHasDispedFlag = 1\<rparr>"

definition demo_shorts :: "nat option list" where
  "demo_shorts = [Some 3, Some 2] @ replicate 30 None"

definition demo_longs :: "nat option list" where
  "demo_longs = (replicate 32 None)[5 := Some 1]"

definition demo_marking :: H264Context where
  "demo_marking = \<lparr>pics = demo_pic, pLongRef = demo_longs, pShortRef = demo_shorts,
     pDelayedPic = [None], pDelayedOutPutPic = None, pCurPicturePtr = 9, ctxPicStructure = PICT_FRAME,
     bFstField = True, nLongRefCount = 1, nShortRefCount = 2, nRefFrmCount = 3, returned = []\<rparr>"

definition demo_op :: H264MmcoInfo where
  "demo_op = \<lparr>opCode = MMCO_END, nShortPicNum = 0, bLongArg = 0\<rparr>"

definition demo_slice :: H264Slice where
  "demo_slice = \<lparr>bIdrFrmFlag = False, nCurPicNum = 9, nMaxPicNum = 16,
     mmco = replicate MAX_MMCO_COUNT demo_op, nMmcoIndex = 0\<rparr>"

text \<open>A reader of a list of values, which returns zeros at its end.\<close>

fun list_bits :: "32 word list get_bits" where
  "list_bits n [] = (0, [])"
| "list_bits n (w # ws) = (if n = 1 then w AND 1 else w, ws)"

fun list_ue :: "32 word list get_ue" where
  "list_ue [] = (0, [])"
| "list_ue (w # ws) = (w, ws)"

lemma somes_demo: "somes demo_longs = [1]"
  by (simp add: demo_longs_def somes_def numeral_eq_Suc)

lemma demo_marking_rep: "refs_rep demo_marking [3, 2] demo_longs"
proof -
  have "\<forall>i < 32. 16 \<le> i \<longrightarrow> demo_longs ! i = None" by (auto simp: demo_longs_def nth_list_update)
  moreover have "take 2 demo_shorts = map Some [3, 2]" "length demo_shorts = 32" "length demo_longs = 32"
    by (simp_all add: demo_shorts_def demo_longs_def)
  ultimately have "lists_rep demo_marking [3, 2] demo_longs"
    using somes_demo by (simp add: lists_rep_def demo_marking_def MAX_PICTURE_COUNT_def demo_pic_def numeral_2_eq_2)
  then show ?thesis
    by (simp add: refs_rep_def somes_demo marked_def demo_marking_def demo_pic_def)
qed



lemma demo_free: "cur_free demo_marking [3, 2] demo_longs"
  by (simp add: cur_free_def listed_def somes_demo demo_marking_def)

lemma demo_total: "int (total [3, 2] demo_longs) \<le> nRefFrmCount demo_marking"
    "ctxPicStructure demo_marking \<in> {1, 2, 3}"
  by (simp_all add: total_def somes_demo demo_marking_def PICT_FRAME_def)

section \<open>The lists stay well-formed\<close>



section \<open>What is given back\<close>

text \<open>C32 Every buffer that reference marking gives back to the frame buffer manager belongs to a picture
  that was listed as a reference and no longer is, or to the current picture; and only the current picture
  can enter the lists.\<close>

theorem marking_gives_back_unlisted_pictures:
  assumes "marking_ready c xs ys (mmco_list ms n)" "H264ExecuteRefPicMarking c ms n = Inr c'"
  shows "\<exists>xs' ys' vs. refs_rep c' xs' ys' \<and> returned c' = returned c @ vs \<and>
    listed xs' ys' \<subseteq> insert (pCurPicturePtr c) (listed xs ys) \<and>
    (\<forall>v \<in> set vs. \<exists>p. pVPicture (pics c p) = Some v \<and>
       (p = pCurPicturePtr c \<or> p \<in> listed xs ys - listed xs' ys'))"
proof -
  obtain xs' ys' where "refs_rep c' xs' ys'" "moves c (listed xs ys) c' (listed xs' ys')"
    using marking_spec [OF assms(1)] assms(2) by auto
  then show ?thesis unfolding moves_def by fastforce
qed

theorem marking_gives_back_unlisted_pictures_witness:
  "\<exists>c' xs' ys' vs. H264ExecuteRefPicMarking demo_marking [demo_op] 1 = Inr c' \<and> refs_rep c' xs' ys' \<and>
    returned c' = vs \<and> (\<forall>v \<in> set vs. \<exists>p. pVPicture (demo_pic p) = Some v \<and>
      (p = 9 \<or> p \<in> listed [3, 2] demo_longs - listed xs' ys'))"
proof -
  have ready: "marking_ready demo_marking [3, 2] demo_longs (mmco_list [demo_op] 1)"
    using demo_marking_rep demo_total demo_free
    by (simp add: marking_ready_def mmco_list_def demo_op_def MAX_MMCO_COUNT_def)
  then obtain c' where c': "H264ExecuteRefPicMarking demo_marking [demo_op] 1 = Inr c'"
    using marking_spec by blast
  have d: "pics demo_marking = demo_pic" "returned demo_marking = []" "pCurPicturePtr demo_marking = 9"
    by (simp_all add: demo_marking_def)
  from marking_gives_back_unlisted_pictures [OF ready c', unfolded d] c' show ?thesis by fastforce
qed

section \<open>Sliding window\<close>

lemma frame_add_current:
  assumes "refs_rep c xs ys" "ctxPicStructure c = PICT_FRAME" "pCurPicturePtr c \<notin> listed xs ys"
    and "int (length xs) \<le> nRefFrmCount c"
    and "\<forall>p \<in> set xs. nFrmNum (pics c p) \<noteq> nFrmNum (pics c (pCurPicturePtr c))"
  shows "\<exists>c'. second_field (False, c) = Inr (False, c) \<and> add_current (False, c) = Inr c' \<and>
    refs_rep c' (pCurPicturePtr c # xs) ys \<and> nRefFrmCount c' = nRefFrmCount c"
proof -
  have s: "second_field (False, c) = Inr (False, c)" using assms(2) by (simp add: second_field_def)
  have "ctxPicStructure c \<in> {1, 2, 3}" using assms(2) by (simp add: PICT_FRAME_def)
  from add_current_spec [OF assms(1) this, of False] assms(3-5) obtain c' where
    "add_current (False, c) = Inr c'" "refs_rep c' (pCurPicturePtr c # xs) ys"
    "moves c (listed xs ys) c' (listed (pCurPicturePtr c # xs) ys)" by auto
  with s show ?thesis by (auto simp: moves_def same_context_def)
qed

lemma frame_rest:
  assumes "refs_rep c xs ys" "ctxPicStructure c = PICT_FRAME" "pCurPicturePtr c \<notin> listed xs ys"
    and "int (total xs ys) < nRefFrmCount c"
    and "\<forall>p \<in> set xs. nFrmNum (pics c p) \<noteq> nFrmNum (pics c (pCurPicturePtr c))"
  shows "\<exists>c'. and_then (second_field (False, c)) (\<lambda>st. and_then (add_current st) discard_one) = Inr c' \<and>
    refs_rep c' (pCurPicturePtr c # xs) ys"
proof -
  have "int (length xs) \<le> nRefFrmCount c" using assms(4) by (simp add: total_def)
  then obtain c' where c': "second_field (False, c) = Inr (False, c)" "add_current (False, c) = Inr c'"
      "refs_rep c' (pCurPicturePtr c # xs) ys" "nRefFrmCount c' = nRefFrmCount c"
    using frame_add_current [OF assms(1-3) _ assms(5)] by blast
  have "int (total (pCurPicturePtr c # xs) ys) \<le> nRefFrmCount c'" "0 \<le> nRefFrmCount c'"
    using assms(4) c'(4) by (simp_all add: total_def)
  then show ?thesis using discard_one_spec [OF c'(3)] c'(1,2) by auto
qed

lemma sliding_full:
  assumes "refs_rep c xs ys" "xs \<noteq> []" "ctxPicStructure c = PICT_FRAME" "int (total xs ys) = nRefFrmCount c"
    and "length (mmco s) = MAX_MMCO_COUNT"
  shows "\<exists>s' m. sliding_window c s = Inr s' \<and> mmco_list (mmco s') (nMmcoIndex s') = [m] \<and>
    opCode m = MMCO_SHORT_TO_UNUSED \<and> nShortPicNum m = nFrmNum (pics c (last xs))"
proof -
  note R = refs_rep_lists [OF assms(1), unfolded lists_rep_def]
  define i where "i = length xs - 1"
  have i: "i < length xs" "nShortRefCount c - 1 = int i" "nShortRefCount c \<noteq> 0"
    using assms(2) R by (cases xs; simp add: i_def)+
  have n: "length xs \<le> 17" using R by linarith
  have i32: "i < MAX_PICTURE_COUNT" using i(1) n by (simp add: MAX_PICTURE_COUNT_def)
  have "pShortRef c ! i = take (length xs) (pShortRef c) ! i" using i(1) by simp
  then have at_i: "at (pShortRef c) (int i) = Inr (Some (last xs))"
    using R i32 assms(2) by (simp add: at_def i_def last_conv_nth)
  have full: "nLongRefCount c + nShortRefCount c = nRefFrmCount c" using R assms(4) by (simp add: total_def)
  have "\<not> int i \<ge> int MAX_PICTURE_COUNT" using i(1) n by (simp add: MAX_PICTURE_COUNT_def)
  then have go: "sliding_window c s = Inr (s\<lparr>nMmcoIndex := 1,
      mmco := (mmco s)[0 := ((mmco s) ! 0)\<lparr>opCode := MMCO_SHORT_TO_UNUSED, nShortPicNum := nFrmNum (pics c (last xs))\<rparr>]\<rparr>)"
    unfolding sliding_window_def Let_def using full assms(3) i(3) at_i unfolding i(2) by simp
  obtain m0 ms where "mmco s = m0 # ms" using assms(5) by (cases "mmco s") (auto simp: MAX_MMCO_COUNT_def)
  then show ?thesis using go by (simp add: mmco_list_def MAX_MMCO_COUNT_def)
qed

lemma filter_last:
  assumes "distinct (map f xs)" "xs \<noteq> []"
  shows "filter (\<lambda>x. f x \<noteq> f (last xs)) xs = butlast xs"
  using cut_filter [OF assms(1), of "length xs - 1"] assms(2)
  by (simp add: last_conv_nth cut_def butlast_conv_take)

text \<open>C33 A non-IDR frame without explicit marking operations: after decoding and marking, the current
  picture is the newest short-term reference, and the oldest short-term reference is dropped exactly when
  the lists held as many pictures as the sequence allows. All other references keep their places.\<close>

theorem sliding_window_marking:
  assumes "refs_rep c xs ys" "ctxPicStructure c = PICT_FRAME" "pCurPicturePtr c \<notin> listed xs ys"
    and "\<forall>p \<in> set xs. nFrmNum (pics c p) \<noteq> nFrmNum (pics c (pCurPicturePtr c))"
    and "int (total xs ys) \<le> nRefFrmCount c" "xs \<noteq> [] \<or> int (total xs ys) < nRefFrmCount c"
    and "\<not> bIdrFrmFlag s" "gb 1 r = (0, r')" "length (mmco s) = MAX_MMCO_COUNT"
  shows "\<exists>s' c'. H264DecodeRefPicMarking gb ue c s r = Inr (0, s', r') \<and>
    H264ExecuteRefPicMarking c (mmco s') (nMmcoIndex s') = Inr c' \<and>
    refs_rep c' (pCurPicturePtr c # (if int (total xs ys) = nRefFrmCount c then butlast xs else xs)) ys"
proof -
  have dec: "H264DecodeRefPicMarking gb ue c s r = and_then (sliding_window c s) (\<lambda>s1. Inr (0, s1, r'))"
    using assms(7,8) by (simp add: H264DecodeRefPicMarking_def)
  note R = refs_rep_lists [OF assms(1), unfolded lists_rep_def]
  show ?thesis
  proof (cases "int (total xs ys) = nRefFrmCount c")
    case False
    then have "sliding_window c s = Inr (s\<lparr>nMmcoIndex := 0\<rparr>)"
      using R by (simp add: sliding_window_def Let_def total_def)
    moreover obtain c' where "and_then (second_field (False, c)) (\<lambda>st. and_then (add_current st) discard_one) = Inr c'"
        "refs_rep c' (pCurPicturePtr c # xs) ys"
      using frame_rest [OF assms(1-3) _ assms(4)] False assms(5) by auto
    ultimately show ?thesis using dec False by (simp add: H264ExecuteRefPicMarking_def)
  next
    case True
    then have "xs \<noteq> []" using assms(6) by simp
    obtain s' m where s': "sliding_window c s = Inr s'" "mmco_list (mmco s') (nMmcoIndex s') = [m]"
        "opCode m = MMCO_SHORT_TO_UNUSED" "nShortPicNum m = nFrmNum (pics c (last xs))"
      using sliding_full [OF assms(1) \<open>xs \<noteq> []\<close> assms(2) True assms(9)] by blast
    have "ctxPicStructure c \<in> {1, 2, 3}" using assms(2) by (simp add: PICT_FRAME_def)
    from short_to_unused_spec [OF assms(1) this, of "nShortPicNum m"] obtain c1 where
      c1: "short_to_unused c (nShortPicNum m) = Inr c1" "shrinks c xs ys c1 (butlast xs) ys"
      using filter_last [of "\<lambda>p. nFrmNum (pics c p)" xs] \<open>xs \<noteq> []\<close> R s'(4) assms(2) by auto
    have same: "refs_rep c1 (butlast xs) ys" "ctxPicStructure c1 = PICT_FRAME" "pCurPicturePtr c1 = pCurPicturePtr c"
        "nRefFrmCount c1 = nRefFrmCount c" "\<forall>p. nFrmNum (pics c1 p) = nFrmNum (pics c p)"
        "listed (butlast xs) ys \<subseteq> listed xs ys"
      using c1(2) assms(2) by (auto simp: shrinks_def moves_def same_context_def)
    have "int (total (butlast xs) ys) < nRefFrmCount c1"
      using True \<open>xs \<noteq> []\<close> same(4) by (cases xs) (simp_all add: total_def)
    then obtain c' where "and_then (second_field (False, c1)) (\<lambda>st. and_then (add_current st) discard_one) = Inr c'"
        "refs_rep c' (pCurPicturePtr c # butlast xs) ys"
      using frame_rest [OF same(1,2)] same(3,5,6) assms(3,4) in_set_butlastD by (metis subsetD)
    then show ?thesis using dec s' c1(1) True
      by (auto simp: H264ExecuteRefPicMarking_def mmco_list_def)
  qed
qed

theorem sliding_window_marking_witness:
  "\<exists>s' c'. H264DecodeRefPicMarking list_bits list_ue demo_marking demo_slice [0] = Inr (0, s', []) \<and>
    H264ExecuteRefPicMarking demo_marking (mmco s') (nMmcoIndex s') = Inr c' \<and> refs_rep c' [9, 3] demo_longs"
proof -
  have d: "pCurPicturePtr demo_marking = 9" "ctxPicStructure demo_marking = PICT_FRAME" "nRefFrmCount demo_marking = 3"
    "pics demo_marking = demo_pic" "\<not> bIdrFrmFlag demo_slice" "length (mmco demo_slice) = MAX_MMCO_COUNT"
    by (simp_all add: demo_marking_def demo_slice_def)
  have t: "total [3, 2] demo_longs = 3" "list_bits 1 [0] = (0, [])" by (simp_all add: total_def somes_demo)
  show ?thesis
    using sliding_window_marking [of demo_marking "[3, 2]" demo_longs demo_slice list_bits "[0]" "[]" list_ue]
      demo_marking_rep d t by (simp add: listed_def somes_demo demo_pic_def)
qed

section \<open>Reset and refresh\<close>

lemma cleared_longs:
  assumes "refs_rep c xs (clear_all [0..<16] ys)" "length ys = MAX_PICTURE_COUNT"
  shows "clear_all [0..<16] ys = replicate MAX_PICTURE_COUNT None"
proof (rule nth_equalityI)
  show "length (clear_all [0..<16] ys) = length (replicate MAX_PICTURE_COUNT None)" using assms(2) by simp
next
  fix i assume "i < length (clear_all [0..<16] ys)"
  then show "clear_all [0..<16] ys ! i = replicate MAX_PICTURE_COUNT None ! i"
    using assms by (cases "i < 16") (auto simp: nth_clear_all refs_rep_def lists_rep_def)
qed

lemma somes_replicate [simp]: "somes (replicate n None) = []"
  by (simp add: somes_def)

text \<open>C34 An \<open>MMCO_RESET\<close> operation on a frame drops every reference: afterwards the current picture is
  the only one, as the newest short-term reference.\<close>

theorem reset_leaves_current_picture:
  assumes "refs_rep c xs ys" "ctxPicStructure c = PICT_FRAME" "0 < nRefFrmCount c" "opCode m = MMCO_RESET"
  shows "\<exists>c'. H264ExecuteRefPicMarking c [m] 1 = Inr c' \<and>
    refs_rep c' [pCurPicturePtr c] (replicate MAX_PICTURE_COUNT None)"
proof -
  obtain c1 c2 where c2: "drop_shorts c = Inr c1" "drop_longs [0..15] c1 = Inr c2"
      "shrinks c xs ys c2 [] (clear_all [0..<16] ys)"
    using reset_spec [OF assms(1)] by blast
  have len: "length ys = MAX_PICTURE_COUNT" using refs_rep_lists [OF assms(1)] by (simp add: lists_rep_def)
  have rep: "refs_rep c2 [] (clear_all [0..<16] ys)" using c2(3) by (simp add: shrinks_def)
  note clear = cleared_longs [OF rep len]
  have same: "ctxPicStructure c2 = PICT_FRAME" "pCurPicturePtr c2 = pCurPicturePtr c" "nRefFrmCount c2 = nRefFrmCount c"
    using c2(3) assms(2) by (simp_all add: shrinks_def moves_def same_context_def)
  have "pCurPicturePtr c2 \<notin> listed [] (replicate MAX_PICTURE_COUNT None)"
    "int (total [] (replicate MAX_PICTURE_COUNT None)) < nRefFrmCount c2"
    using assms(3) same(3) by (simp_all add: listed_def total_def)
  from frame_rest [OF rep[unfolded clear] same(1) this] obtain c' where
    "and_then (second_field (False, c2)) (\<lambda>st. and_then (add_current st) discard_one) = Inr c'"
    "refs_rep c' [pCurPicturePtr c2] (replicate MAX_PICTURE_COUNT None)" by auto
  then show ?thesis using c2(1,2) assms(4) same(2)
    by (simp add: H264ExecuteRefPicMarking_def MAX_MMCO_COUNT_def)
qed

theorem reset_leaves_current_picture_witness:
  "\<exists>c'. H264ExecuteRefPicMarking demo_marking [demo_op\<lparr>opCode := MMCO_RESET\<rparr>] 1 = Inr c' \<and>
     refs_rep c' [9] (replicate MAX_PICTURE_COUNT None)"
proof -
  have "ctxPicStructure demo_marking = PICT_FRAME" "0 < nRefFrmCount demo_marking" "pCurPicturePtr demo_marking = 9"
    by (simp_all add: demo_marking_def)
  then show ?thesis
    using reset_leaves_current_picture [OF demo_marking_rep, of "demo_op\<lparr>opCode := MMCO_RESET\<rparr>"] by simp
qed

lemma refresh_longs_spec:
  assumes "None \<in> set (pDelayedPic c)" "\<forall>i \<in> set is. i < MAX_PICTURE_COUNT" "length (pLongRef c) = MAX_PICTURE_COUNT"
  shows "\<exists>c'. refresh_longs is c = Inr c' \<and> same_context c c' \<and> pLongRef c' = clear_all is (pLongRef c) \<and>
    pShortRef c' = pShortRef c \<and> nShortRefCount c' = nShortRefCount c"
  using assms
proof (induction "is" c rule: refresh_longs.induct)
  case (1 c)
  then show ?case by simp
next
  case (2 i "is" c)
  have i: "i < MAX_PICTURE_COUNT" using "2.prems"(2) by simp
  then have at: "at (pLongRef c) (int i) = Inr (pLongRef c ! i)" using "2.prems"(3) by (simp add: at_def)
  show ?case
  proof (cases "pLongRef c ! i")
    case None
    then have "(pLongRef c)[i := None] = pLongRef c" by (metis list_update_id)
    then show ?thesis using 2(1) [OF i "2.prems"(1)] "2.prems"(2,3) at i None by simp
  next
    case (Some p)
    obtain k c1 where u: "H264UnnReferencePic c p 0 = Inr (k, c1)" "same_context c c1" "same_lists c c1"
      using Unref_spec [OF "2.prems"(1), of 0 p] by auto
    let ?c = "c1\<lparr>pLongRef := (pLongRef c1)[i := None]\<rparr>"
    have c: "same_context c ?c" "pLongRef ?c = (pLongRef c)[i := None]" "None \<in> set (pDelayedPic ?c)"
        "pShortRef ?c = pShortRef c" "nShortRefCount ?c = nShortRefCount c"
      using u(2,3) "2.prems"(1) by (simp_all add: same_context_def same_lists_def)
    obtain c' where "refresh_longs is ?c = Inr c'" "same_context ?c c'" "pLongRef c' = clear_all is (pLongRef ?c)"
        "pShortRef c' = pShortRef ?c" "nShortRefCount c' = nShortRefCount ?c"
      using 2(2) [OF i c(3)] "2.prems"(2,3) c(2) by auto
    then show ?thesis using at i Some u(1) c same_context_trans [OF c(1)]
      by (intro exI [of _ c']) simp
  qed
qed

lemma refresh_shorts_spec:
  assumes "None \<in> set (pDelayedPic c)" "length (pShortRef c) = MAX_PICTURE_COUNT" "distinct is"
    and "\<forall>i \<in> set is. i < MAX_PICTURE_COUNT \<and> pShortRef c ! i \<noteq> None"
  shows "\<exists>c'. refresh_shorts is c = Inr c' \<and> pLongRef c' = pLongRef c \<and> nLongRefCount c' = nLongRefCount c \<and>
    pShortRef c' = clear_all is (pShortRef c)"
  using assms
proof (induction "is" arbitrary: c)
  case Nil
  then show ?case by simp
next
  case (Cons i "is")
  have i: "i < MAX_PICTURE_COUNT" using Cons.prems(4) by simp
  then have at: "at (pShortRef c) (int i) = Inr (pShortRef c ! i)" using Cons.prems(2) by (simp add: at_def)
  obtain p where p: "pShortRef c ! i = Some p" using Cons.prems(4) by auto
  obtain k c1 where u: "H264UnnReferencePic c p 0 = Inr (k, c1)" "same_context c c1" "same_lists c c1"
    using Unref_spec [OF Cons.prems(1), of 0 p] by auto
  let ?c = "c1\<lparr>pShortRef := (pShortRef c1)[i := None]\<rparr>"
  have c: "pShortRef ?c = (pShortRef c)[i := None]" "pLongRef ?c = pLongRef c" "nLongRefCount ?c = nLongRefCount c"
    "None \<in> set (pDelayedPic ?c)"
    using u(2,3) Cons.prems(1) by (simp_all add: same_context_def same_lists_def)
  have "\<forall>j \<in> set is. j < MAX_PICTURE_COUNT \<and> pShortRef ?c ! j \<noteq> None"
  proof
    fix j assume j: "j \<in> set is"
    then have "j \<noteq> i" using Cons.prems(3) by auto
    then show "j < MAX_PICTURE_COUNT \<and> pShortRef ?c ! j \<noteq> None"
      using Cons.prems(4) j unfolding c(1) by simp
  qed
  then obtain c' where "refresh_shorts is ?c = Inr c'" "pLongRef c' = pLongRef ?c"
      "nLongRefCount c' = nLongRefCount ?c" "pShortRef c' = clear_all is (pShortRef ?c)"
    using Cons.IH [OF c(4)] Cons.prems(2,3) c(1) by auto
  then show ?case using at i p u(1) c by simp
qed

lemma clear_prefix: "n \<le> length ys \<Longrightarrow> clear_all [0..<n] ys = replicate n None @ drop n ys"
  by (rule nth_equalityI) (auto simp: nth_clear_all nth_append)

text \<open>C35 The refresh of the references (\<^verbatim>\<open>H264ReferenceRefresh\<close>, run on a seek or an IDR frame) clears only
  the first \<^verbatim>\<open>nLongRefCount\<close> entries of the long-term array, although a long-term picture sits at its
  long-term index: pictures at higher indices stay in the array while the count says there are none.\<close>

theorem refresh_keeps_high_long_references:
  assumes "refs_rep c xs ys" "n = length (somes ys)"
  shows "\<exists>c'. H264ReferenceRefresh c = Inr c' \<and> nLongRefCount c' = 0 \<and> nShortRefCount c' = 0 \<and>
    pLongRef c' = replicate n None @ drop n ys \<and>
    pShortRef c' = replicate (length xs) None @ drop (length xs) (pShortRef c)"
proof -
  note R = refs_rep_lists [OF assms(1), unfolded lists_rep_def]
  have "length (somes ys) \<le> length ys" by (simp add: somes_def)
  then have n: "n \<le> MAX_PICTURE_COUNT" "nLongRefCount c = int n" using R assms(2) by simp_all
  have lx: "length xs \<le> MAX_PICTURE_COUNT" using R by (simp add: MAX_PICTURE_COUNT_def)
  have d: "None \<in> set (pDelayedPic c)" and len: "length (pLongRef c) = MAX_PICTURE_COUNT" using R by simp_all
  have "\<forall>i \<in> set [0..<n]. i < MAX_PICTURE_COUNT" using n(1) by auto
  then obtain c1 where c1: "refresh_longs [0..<n] c = Inr c1" "same_context c c1"
      "pLongRef c1 = clear_all [0..<n] ys" "pShortRef c1 = pShortRef c" "nShortRefCount c1 = int (length xs)"
    using refresh_longs_spec [OF d _ len, of "[0..<n]"] R by auto
  let ?c2 = "c1\<lparr>nLongRefCount := 0\<rparr>"
  have "pShortRef c ! i = Some (xs ! i)" if "i < length xs" for i
    using R that by (metis nth_map nth_take)
  then have shorts: "\<forall>i \<in> set [0..<length xs]. i < MAX_PICTURE_COUNT \<and> pShortRef ?c2 ! i \<noteq> None"
    using lx c1(4) by auto
  have "None \<in> set (pDelayedPic ?c2)" "length (pShortRef ?c2) = MAX_PICTURE_COUNT"
    using d c1(2,4) R by (simp_all add: same_context_def)
  from refresh_shorts_spec [OF this distinct_upt shorts] obtain c3 where
    "refresh_shorts [0..<length xs] ?c2 = Inr c3" "pLongRef c3 = pLongRef ?c2"
    "nLongRefCount c3 = nLongRefCount ?c2" "pShortRef c3 = clear_all [0..<length xs] (pShortRef ?c2)" by blast
  then show ?thesis using c1 n R lx by (simp add: H264ReferenceRefresh_def Let_def clear_prefix)
qed

theorem refresh_keeps_high_long_references_witness:
  "\<exists>c'. H264ReferenceRefresh demo_marking = Inr c' \<and> nLongRefCount c' = 0 \<and> pLongRef c' ! 5 = Some 1"
proof -
  have "(1::nat) = length (somes demo_longs)" by (simp add: somes_demo)
  from refresh_keeps_high_long_references [OF demo_marking_rep this] obtain c' where
    "H264ReferenceRefresh demo_marking = Inr c'" "nLongRefCount c' = 0"
    "pLongRef c' = replicate 1 None @ drop 1 demo_longs" by blast
  then show ?thesis by (simp add: demo_longs_def nth_append)
qed

end
