(* ===== verification/H264Bits.thy ===== *)
theory H264Bits
  imports CedarPrelude
begin

text \<open>
  The software bit reader of the H.264 decoder (end of \<^verbatim>\<open>videoengine/h264/h264_hal.c\<close>): fixed-length
  values and Exp-Golomb codes, from a 32-bit window that starts at a byte. The shift of the first byte of the
  window into the sign bit is taken as its bit pattern.
\<close>

section \<open>The reader\<close>

record GetBitContext =
  buffer :: "8 word list"
  index :: nat
  size_in_bits :: int

definition AV_RB32 :: "8 word list \<Rightarrow> nat \<Rightarrow> 32 word res" where
  "AV_RB32 x i =
     (if i + 3 < length x
      then Inr (push_bit 24 (ucast (x ! i)) OR push_bit 16 (ucast (x ! (i + 1))) OR
                push_bit 8 (ucast (x ! (i + 2))) OR ucast (x ! (i + 3)))
      else Inl OutOfBounds)"

text \<open>\<^verbatim>\<open>OPEN_READER\<close>, \<^verbatim>\<open>UPDATE_CACHE\<close>, \<^verbatim>\<open>GET_CACHE\<close>\<close>

definition get_cache :: "GetBitContext \<Rightarrow> 32 word res" where
  "get_cache s = and_then (AV_RB32 (buffer s) (index s div 8)) (\<lambda>w. Inr (push_bit (index s mod 8) w))"

text \<open>\<^verbatim>\<open>SKIP_COUNTER\<close> and \<^verbatim>\<open>CLOSE_READER\<close>\<close>

definition skip :: "nat \<Rightarrow> GetBitContext \<Rightarrow> GetBitContext" where
  "skip n s = s\<lparr>index := index s + n\<rparr>"

definition H264GetBits1 :: "GetBitContext \<Rightarrow> (32 word \<times> GetBitContext) res" where
  "H264GetBits1 s =
     (if index s div 8 < length (buffer s)
      then Inr (ucast (drop_bit 7 (push_bit (index s mod 8) (buffer s ! (index s div 8)))), skip 1 s)
      else Inl OutOfBounds)"

text \<open>A shift by 32, for a length of 0, is undefined: \<open>SignedOverflow\<close> stands for it.\<close>

definition H264ShowBitsSw :: "nat \<Rightarrow> GetBitContext \<Rightarrow> (32 word \<times> GetBitContext) res" where
  "H264ShowBitsSw n s =
     (if n = 0 \<or> n > 32 then Inl SignedOverflow
      else and_then (get_cache s) (\<lambda>w. Inr (drop_bit (32 - n) w, s)))"

definition H264GetBitsSw :: "nat \<Rightarrow> GetBitContext \<Rightarrow> (32 word \<times> GetBitContext) res" where
  "H264GetBitsSw n s =
     (if n = 1 then H264GetBits1 s
      else if n = 0 \<or> n > 32 then Inl SignedOverflow
      else and_then (get_cache s) (\<lambda>w. Inr (drop_bit (32 - n) w, skip n s)))"

definition H264InitGetBitsSw :: "8 word list \<Rightarrow> int \<Rightarrow> GetBitContext" where
  "H264InitGetBitsSw b n = \<lparr>buffer = b, index = 0, size_in_bits = n\<rparr>"

definition H264GetBitCountSw :: "GetBitContext \<Rightarrow> nat" where
  "H264GetBitCountSw s = index s"

section \<open>Tables\<close>

text \<open>Rows of equal entries are written with \<open>replicate\<close>, rows that count up with \<open>upt\<close>.\<close>

definition repeat :: "nat \<Rightarrow> 'a list \<Rightarrow> 'a list" where
  "repeat m xs = concat (map (replicate m) xs)"

definition h264_golomb_vlc_len :: "nat list" where
  "h264_golomb_vlc_len = replicate 16 0 @ replicate 16 9 @ replicate 32 7 @ replicate 64 5 @
     replicate 128 3 @ replicate 256 1"

definition h264_ue_golomb_vlc_code :: "nat list" where
  "h264_ue_golomb_vlc_code = replicate 16 0 @ [15..<31] @ repeat 4 [7..<15] @ repeat 16 [3..<7] @
     repeat 64 [1..<3] @ replicate 256 0"

definition h264_se_golomb_vlc_code :: "int list" where
  "h264_se_golomb_vlc_code = replicate 16 0 @
     [8, -8, 9, -9, 10, -10, 11, -11, 12, -12, 13, -13, 14, -14, 15, -15] @
     repeat 4 [4, -4, 5, -5, 6, -6, 7, -7] @ repeat 16 [2, -2, 3, -3] @ repeat 64 [1, -1] @
     replicate 256 0"

definition h264_log2_tab :: "nat list" where
  "h264_log2_tab = [0, 0] @ replicate 2 1 @ replicate 4 2 @ replicate 8 3 @ replicate 16 4 @
     replicate 32 5 @ replicate 64 6 @ replicate 128 7"

definition H264av_log2 :: "32 word \<Rightarrow> nat" where
  "H264av_log2 v =
     (let (v1, n1) = (if v AND 0xffff0000 \<noteq> 0 then (drop_bit 16 v, 16) else (v, 0));
          (v2, n2) = (if v1 AND 0xff00 \<noteq> 0 then (drop_bit 8 v1, n1 + 8) else (v1, n1))
      in n2 + h264_log2_tab ! unat v2)"

section \<open>Exp-Golomb codes\<close>

text \<open>
  A negative shift count and one above 31 are undefined. The result of \<^verbatim>\<open>H264GetUeGolombSw\<close> is an
  unsigned, that of \<^verbatim>\<open>H264GetSeGolombSw\<close> a signed integer.
\<close>

definition H264GetUeGolombSw :: "GetBitContext \<Rightarrow> (32 word \<times> GetBitContext) res" where
  "H264GetUeGolombSw s =
     and_then (get_cache s) (\<lambda>buf.
       if buf \<ge> 0x8000000 then
         let b = unat (drop_bit 23 buf)
         in Inr (of_nat (h264_ue_golomb_vlc_code ! b), skip (h264_golomb_vlc_len ! b) s)
       else
         let n = 2 * int (H264av_log2 buf) - 31
         in if n < 0 then Inl SignedOverflow
            else Inr (drop_bit (nat n) buf - 1, skip (nat (32 - n)) s))"

definition H264GetSeGolombSw :: "GetBitContext \<Rightarrow> (int \<times> GetBitContext) res" where
  "H264GetSeGolombSw s =
     and_then (get_cache s) (\<lambda>buf.
       if buf \<ge> 0x8000000 then
         let b = unat (drop_bit 23 buf)
         in Inr (h264_se_golomb_vlc_code ! b, skip (h264_golomb_vlc_len ! b) s)
       else
         let n = H264av_log2 buf; s1 = skip (31 - n) s
         in and_then (get_cache s1) (\<lambda>buf1.
              let buf2 = drop_bit n buf1; sign = - (buf2 AND 1)
              in Inr (sint ((drop_bit 1 buf2 XOR sign) - sign), skip (32 - n) s1)))"

end
