(* ===== verification/H264Golomb.thy ===== *)
theory H264Golomb
  imports H264Bits
begin

text \<open>
  What the software bit reader reads: the bits of the buffer from the index on, and for Exp-Golomb codes
  the number that was encoded.
\<close>

section \<open>Bit strings as numbers\<close>

fun num :: "bool list \<Rightarrow> nat" where
  "num [] = 0"
| "num (b # bs) = of_bool b * 2 ^ length bs + num bs"

lemma num_append: "num (xs @ ys) = num xs * 2 ^ length ys + num ys"
  by (induction xs) (simp_all add: power_add algebra_simps)

lemma num_less: "num xs < 2 ^ length xs"
proof (induction xs)
  case (Cons b bs)
  then show ?case by (cases b) simp_all
qed simp

lemma num_replicate_False [simp]: "num (replicate n False) = 0"
  by (induction n) simp_all

lemma num_take_div: "n \<le> length xs \<Longrightarrow> num (take n xs) = num xs div 2 ^ (length xs - n)"
proof -
  assume n: "n \<le> length xs"
  have "num xs = num (take n xs) * 2 ^ (length xs - n) + num (drop n xs)"
    using num_append [of "take n xs" "drop n xs"] by simp
  moreover have "num (drop n xs) < 2 ^ (length xs - n)" using num_less [of "drop n xs"] by simp
  ultimately show ?thesis by simp
qed

lemma num_drop_mod: "n \<le> length xs \<Longrightarrow> num (drop n xs) = num xs mod 2 ^ (length xs - n)"
proof -
  assume n: "n \<le> length xs"
  have "num xs = num (take n xs) * 2 ^ (length xs - n) + num (drop n xs)"
    using num_append [of "take n xs" "drop n xs"] by simp
  moreover have "num (drop n xs) < 2 ^ (length xs - n)" using num_less [of "drop n xs"] by simp
  ultimately show ?thesis by simp
qed

text \<open>The bits of a byte, most significant first, and of a buffer.\<close>

definition byte_bits :: "8 word \<Rightarrow> bool list" where
  "byte_bits b = map (\<lambda>i. bit b (7 - i)) [0..<8]"

definition bits_of :: "8 word list \<Rightarrow> bool list" where
  "bits_of xs = concat (map byte_bits xs)"

lemma length_byte_bits [simp]: "length (byte_bits b) = 8"
  by (simp add: byte_bits_def)

lemma length_bits_of [simp]: "length (bits_of xs) = 8 * length xs"
  by (induction xs) (simp_all add: bits_of_def)

lemma bits_of_simps [simp]: "bits_of [] = []" "bits_of (b # xs) = byte_bits b @ bits_of xs"
  by (simp_all add: bits_of_def)

lemma num_bits: "num (map (\<lambda>i. bit x (n - Suc i)) [0..<n]) = take_bit n (x :: nat)"
proof (induction n)
  case (Suc n)
  have "[0..<Suc n] = 0 # map Suc [0..<n]" by (simp add: map_Suc_upt upt_conv_Cons del: upt_Suc)
  then have "num (map (\<lambda>i. bit x (Suc n - Suc i)) [0..<Suc n]) =
      of_bool (bit x n) * 2 ^ n + num (map (\<lambda>i. bit x (n - Suc i)) [0..<n])"
    by (simp add: comp_def del: upt_Suc)
  then show ?case using Suc by (simp add: take_bit_Suc_from_most)
qed simp

lemma num_byte_bits: "num (byte_bits b) = unat b"
proof -
  have "bit b (7 - i) = bit (unat b) (8 - Suc i)" for i
    by (simp add: bit_unsigned_iff)
  then have "num (byte_bits b) = take_bit 8 (unat b)" using num_bits [of "unat b" 8] by (simp add: byte_bits_def)
  also have "\<dots> = unat b" by (rule take_bit_nat_eq_self) (use unat_lt8 [of b] in simp)
  finally show ?thesis .
qed

lemma drop_bits_of: "i < length xs \<Longrightarrow> drop (8 * i) (bits_of xs) = byte_bits (xs ! i) @ drop (8 * Suc i) (bits_of xs)"
proof (induction xs arbitrary: i)
  case (Cons x xs)
  then show ?case by (cases i) simp_all
qed simp

section \<open>The window\<close>

lemma window_value: "unat (push_bit 24 (ucast (a :: 8 word)) OR push_bit 16 (ucast (b :: 8 word)) OR
    push_bit 8 (ucast (c :: 8 word)) OR ucast (d :: 8 word) :: 32 word) =
    unat a * 2 ^ 24 + unat b * 2 ^ 16 + unat c * 2 ^ 8 + unat d"
proof -
  let ?x = "push_bit 24 (ucast a) OR push_bit 16 (ucast b) OR push_bit 8 (ucast c) OR ucast d :: 32 word"
  have 1: "\<not> bit x i" if "8 \<le> i" for x :: "8 word" and i
    using that bit_imp_le_length [of x i] by auto
  have "(push_bit 8 (ucast c) :: 32 word) OR ucast d = push_bit 8 (ucast c) + ucast d"
    by (rule disjunctive_add [symmetric]) (auto simp: bit_simps dest: 1 bit_imp_le_length)
  moreover have "(push_bit 16 (ucast b) :: 32 word) OR (push_bit 8 (ucast c) OR ucast d) =
      push_bit 16 (ucast b) + (push_bit 8 (ucast c) OR ucast d)"
    by (rule disjunctive_add [symmetric]) (auto simp: bit_simps dest: bit_imp_le_length)
  moreover have "(push_bit 24 (ucast a) :: 32 word) OR (push_bit 16 (ucast b) OR (push_bit 8 (ucast c) OR ucast d)) =
      push_bit 24 (ucast a) + (push_bit 16 (ucast b) OR (push_bit 8 (ucast c) OR ucast d))"
    by (rule disjunctive_add [symmetric]) (auto simp: bit_simps dest: bit_imp_le_length)
  ultimately have "?x = push_bit 24 (ucast a) + (push_bit 16 (ucast b) + (push_bit 8 (ucast c) + ucast d))"
    by (simp only: or.assoc)
  moreover have "unat a \<le> 255" "unat b \<le> 255" "unat c \<le> 255" "unat d \<le> 255"
    using unat_lt8 [of a] unat_lt8 [of b] unat_lt8 [of c] unat_lt8 [of d] by simp_all
  ultimately show ?thesis by (simp add: push_bit_eq_mult unat_word_ariths)
qed

text \<open>The bits from the index on; \<open>window_ok\<close> says that the four bytes of the window are in the buffer.\<close>

definition rest :: "GetBitContext \<Rightarrow> bool list" where
  "rest s = drop (index s) (bits_of (buffer s))"

definition window_ok :: "GetBitContext \<Rightarrow> bool" where
  "window_ok s \<longleftrightarrow> index s div 8 + 3 < length (buffer s)"

lemma AV_RB32_spec:
  assumes "i + 3 < length x"
  shows "\<exists>w. AV_RB32 x i = Inr w \<and> unat w = num (take 32 (drop (8 * i) (bits_of x)))"
proof -
  have "drop (8 * i) (bits_of x) = byte_bits (x ! i) @ byte_bits (x ! (i + 1)) @ byte_bits (x ! (i + 2)) @
      byte_bits (x ! (i + 3)) @ drop (8 * (i + 4)) (bits_of x)"
    using assms drop_bits_of [of i x] drop_bits_of [of "i + 1" x] drop_bits_of [of "i + 2" x]
      drop_bits_of [of "i + 3" x]
    by (simp add: numeral_eq_Suc)
  then have "num (take 32 (drop (8 * i) (bits_of x))) =
      unat (x ! i) * 2 ^ 24 + unat (x ! (i + 1)) * 2 ^ 16 + unat (x ! (i + 2)) * 2 ^ 8 + unat (x ! (i + 3))"
    by (simp add: num_append num_byte_bits)
  then show ?thesis using assms window_value [of "x ! i" "x ! (i + 1)" "x ! (i + 2)" "x ! (i + 3)"]
    by (simp add: AV_RB32_def)
qed

lemma unat_push: "unat (push_bit k w :: 32 word) = (unat w * 2 ^ k) mod 2 ^ 32"
proof -
  have "unat (push_bit k w) = take_bit 32 (push_bit k (unat w))"
    by (rule bit_eqI) (auto simp: bit_simps bit_imp_le_length)
  then show ?thesis by (simp add: take_bit_eq_mod push_bit_eq_mult)
qed

lemma unat_drop: "unat (drop_bit k w :: 32 word) = unat w div 2 ^ k"
  unfolding unat_drop_bit_eq by (rule drop_bit_eq_div)

lemma get_cache_spec:
  assumes "window_ok s"
  shows "\<exists>w. get_cache s = Inr w \<and>
    (\<forall>n. n \<le> 32 - index s mod 8 \<longrightarrow> unat (drop_bit (32 - n) w) = num (take n (rest s)))"
proof -
  let ?k = "index s mod 8" and ?B = "bits_of (buffer s)" and ?p = "8 * (index s div 8)"
  obtain v where v: "AV_RB32 (buffer s) (index s div 8) = Inr v" "unat v = num (take 32 (drop ?p ?B))"
    using AV_RB32_spec assms unfolding window_ok_def by blast
  define X where "X = take 32 (drop ?p ?B)"
  have len: "length X = 32" using assms by (simp add: X_def window_ok_def)
  have k: "?k < 8" by simp
  have tail: "take (32 - ?k) (rest s) = drop ?k X"
    by (simp add: X_def rest_def drop_take)
  have rest32: "num (drop ?k X) * 2 ^ ?k < 2 ^ 32"
  proof -
    have "num (drop ?k X) < 2 ^ (32 - ?k)" using num_less [of "drop ?k X"] len by simp
    then have "num (drop ?k X) * 2 ^ ?k < 2 ^ (32 - ?k) * 2 ^ ?k" by simp
    then show ?thesis using k by (simp flip: power_add)
  qed
  have "num X * 2 ^ ?k mod 2 ^ 32 = num (drop ?k X) * 2 ^ ?k"
  proof -
    have "num X = num (take ?k X) * 2 ^ (32 - ?k) + num (drop ?k X)"
      using num_append [of "take ?k X" "drop ?k X"] len unfolding append_take_drop_id by simp
    then have "num X * 2 ^ ?k = num (take ?k X) * (2 ^ (32 - ?k) * 2 ^ ?k) + num (drop ?k X) * 2 ^ ?k"
      by (simp add: algebra_simps)
    then show ?thesis using k rest32 by (simp flip: power_add)
  qed
  then have w: "unat (push_bit ?k v) = num (drop ?k X) * 2 ^ ?k" using v(2) by (simp add: unat_push X_def)
  have "unat (drop_bit (32 - n) (push_bit ?k v)) = num (take n (rest s))" if n: "n \<le> 32 - ?k" for n
  proof -
    have d: "length (drop ?k X) = 32 - ?k" using len by simp
    have "32 - n = (32 - ?k - n) + ?k" using n k by simp
    then have "num (drop ?k X) * 2 ^ ?k div 2 ^ (32 - n) = num (drop ?k X) div 2 ^ (32 - ?k - n)"
      by (simp add: power_add)
    also have "\<dots> = num (take n (drop ?k X))" using num_take_div [of n "drop ?k X"] n unfolding d by simp
    also have "take n (drop ?k X) = take n (rest s)"
      using n unfolding tail [symmetric] by (simp add: min_def)
    finally show ?thesis unfolding unat_drop w .
  qed
  then show ?thesis using v(1) by (simp add: get_cache_def)
qed

section \<open>Fixed-length values\<close>

lemma GetBits1_spec:
  assumes "window_ok s"
  shows "\<exists>w. H264GetBits1 s = Inr (w, skip 1 s) \<and> unat w = num (take 1 (rest s))"
proof -
  let ?i = "index s div 8" and ?k = "index s mod 8"
  have i: "?i < length (buffer s)" and k: "?k < 8" using assms by (simp_all add: window_ok_def)
  have "rest s = drop ?k (drop (8 * ?i) (bits_of (buffer s)))"
    by (simp add: rest_def)
  also have "\<dots> = drop ?k (byte_bits (buffer s ! ?i)) @ drop (8 * Suc ?i) (bits_of (buffer s))"
    using drop_bits_of [OF i] k by simp
  finally have "take 1 (rest s) = [byte_bits (buffer s ! ?i) ! ?k]"
    using k by (simp add: take_Suc_conv_app_nth take_Suc Cons_nth_drop_Suc hd_drop_conv_nth)
  moreover have "byte_bits (buffer s ! ?i) ! ?k = bit (buffer s ! ?i) (7 - ?k)"
    using k by (simp add: byte_bits_def)
  moreover have "drop_bit 7 (push_bit ?k b) = of_bool (bit b (7 - ?k))" for b :: "8 word"
    by (rule bit_word_eqI) (use k in \<open>auto simp: bit_simps bit_1_iff\<close>)
  ultimately show ?thesis using i by (simp add: H264GetBits1_def)
qed

lemma GetBitsSw_spec:
  assumes "window_ok s" "0 < n" "n \<le> 25"
  shows "\<exists>w. H264GetBitsSw n s = Inr (w, skip n s) \<and> unat w = num (take n (rest s))"
proof (cases "n = 1")
  case True
  then show ?thesis using GetBits1_spec [OF assms(1)] by (simp add: H264GetBitsSw_def)
next
  case False
  have "index s mod 8 < 8" by simp
  then have "n \<le> 32 - index s mod 8" using assms(3) by linarith
  then show ?thesis using get_cache_spec [OF assms(1)] assms(2,3) False by (auto simp: H264GetBitsSw_def)
qed

section \<open>Exp-Golomb codes\<close>

text \<open>The number of bits of a number.\<close>

fun width :: "nat \<Rightarrow> nat" where
  "width m = (if m = 0 then 0 else Suc (width (m div 2)))"

declare width.simps [simp del]

lemma width_bounds: "0 < m \<Longrightarrow> 0 < width m \<and> 2 ^ (width m - 1) \<le> m \<and> m < 2 ^ width m"
proof (induction m rule: width.induct)
  case (1 m)
  show ?case
  proof (cases "m div 2 = 0")
    case True
    then have "m = 1" using 1(2) by linarith
    then show ?thesis by (simp add: width.simps)
  next
    case False
    then have IH: "0 < width (m div 2)" "2 ^ (width (m div 2) - 1) \<le> m div 2" "m div 2 < 2 ^ width (m div 2)"
      using 1 by auto
    have w: "width m = Suc (width (m div 2))" using 1(2) by (subst width.simps) simp
    have "(2::nat) ^ width (m div 2) = 2 * 2 ^ (width (m div 2) - 1)" using IH(1) by (simp flip: power_Suc)
    moreover have "2 * (m div 2) \<le> m" "m < 2 * (m div 2) + 2" by simp_all
    moreover have "(2::nat) ^ Suc (width (m div 2)) = 2 * 2 ^ width (m div 2)" by simp
    ultimately show ?thesis unfolding w diff_Suc_1 using IH by linarith
  qed
qed

lemma width_unique: "2 ^ k \<le> m \<Longrightarrow> m < 2 ^ Suc k \<Longrightarrow> width m = Suc k"
proof -
  assume a: "2 ^ k \<le> m" "m < 2 ^ Suc k"
  then have "0 < m" by (metis gr0I less_le_trans not_less_zero zero_less_numeral zero_less_power le_zero_eq)
  note b = width_bounds [OF this]
  have "(2::nat) ^ (width m - 1) < 2 ^ Suc k" using a b by linarith
  moreover have "(2::nat) ^ k < 2 ^ width m" using a b by linarith
  ultimately have "width m - 1 < Suc k" "k < width m" by (auto dest: power_less_imp_less_exp simp del: power_Suc)
  then show ?thesis using b by linarith
qed

lemma width_div: "m div 2 ^ k \<noteq> 0 \<Longrightarrow> width m = width (m div 2 ^ k) + k"
proof (induction k arbitrary: m)
  case (Suc k)
  have e: "m div 2 ^ Suc k = m div 2 div 2 ^ k" by (simp add: div_mult2_eq)
  then have "width (m div 2) = width (m div 2 ^ Suc k) + k" using Suc by metis
  moreover have "m \<noteq> 0" using Suc.prems by (metis div_0)
  ultimately show ?case by (subst width.simps) simp
qed simp

definition to_bits :: "nat \<Rightarrow> nat \<Rightarrow> bool list" where
  "to_bits n m = map (\<lambda>i. bit m (n - Suc i)) [0..<n]"

lemma length_to_bits [simp]: "length (to_bits n m) = n"
  by (simp add: to_bits_def)

lemma num_to_bits: "m < 2 ^ n \<Longrightarrow> num (to_bits n m) = m"
  unfolding to_bits_def num_bits by (rule take_bit_nat_eq_self)

text \<open>The codes of the H.264 standard, 9.1: as many zeros as bits follow the leading one.\<close>

definition ue_bits :: "nat \<Rightarrow> bool list" where
  "ue_bits v = replicate (width (Suc v) - 1) False @ to_bits (width (Suc v)) (Suc v)"

definition se_code :: "int \<Rightarrow> nat" where
  "se_code x = (if 0 < x then nat (2 * x - 1) else nat (- 2 * x))"

definition se_bits :: "int \<Rightarrow> bool list" where
  "se_bits x = ue_bits (se_code x)"

definition se_of :: "nat \<Rightarrow> int" where
  "se_of m = (if even m then int (m div 2) else - int (m div 2))"

lemma se_of_code: "se_of (Suc (se_code x)) = x"
  by (auto simp: se_of_def se_code_def nat_mult_distrib even_nat_iff)

lemma num_ue_bits: "num (ue_bits v) = Suc v" "length (ue_bits v) = 2 * width (Suc v) - 1"
  using width_bounds [of "Suc v"] by (simp_all add: ue_bits_def num_append num_to_bits)

section \<open>The tables\<close>

lemma repeat_nth: "i < m * length xs \<Longrightarrow> repeat m xs ! i = xs ! (i div m)"
proof (induction xs arbitrary: i)
  case (Cons x xs)
  have "0 < m" using Cons.prems by (cases m) auto
  then show ?case using Cons
    by (cases "i < m") (auto simp: repeat_def nth_append le_div_geq not_less)
qed (simp add: repeat_def)

lemma length_repeat [simp]: "length (repeat m xs) = m * length xs"
  by (induction xs) (simp_all add: repeat_def)

text \<open>A table with a row for each number of leading zeros.\<close>

definition golomb_table :: "(nat \<Rightarrow> 'a) \<Rightarrow> 'a \<Rightarrow> 'a list" where
  "golomb_table f z = replicate 16 z @ repeat 1 (map f [16..<32]) @ repeat 4 (map f [8..<16]) @
     repeat 16 (map f [4..<8]) @ repeat 64 (map f [2..<4]) @ repeat 256 (map f [1..<2])"

lemma golomb_row:
  assumes "T = X @ repeat d (map f [a..<2 * a]) @ Y" "length X = d * a" "0 < d" "b div d = m" "a \<le> m" "m < 2 * a"
  shows "T ! b = f m"
proof -
  have "d * a \<le> d * m" "d * m \<le> b" using assms(4,5) by auto
  then have lo: "d * a \<le> b" by linarith
  have hi: "b < d * (2 * a)" using assms(6) unfolding assms(4) [symmetric] div_less_iff_less_mult [OF assms(3)]
    by (simp add: mult.commute)
  then have r: "b - d * a < d * length (map f [a..<2 * a])" using lo by (simp add: algebra_simps)
  have q: "(b - d * a) div d = m - a" proof -
    have "m = (d * a + (b - d * a)) div d" using lo assms(4) by simp
    also have "\<dots> = a + (b - d * a) div d" using assms(3) by simp
    finally show ?thesis by simp
  qed
  have "T ! b = repeat d (map f [a..<2 * a]) ! (b - d * a)"
    using assms(1,2) lo r by (simp add: nth_append)
  also have "\<dots> = f m" unfolding repeat_nth [OF r] q using assms(5,6) by simp
  finally show ?thesis .
qed

lemma golomb_lookup:
  assumes "k \<le> 4" "b div 2 ^ (8 - 2 * k) = m" "2 ^ k \<le> m" "m < 2 ^ Suc k"
  shows "golomb_table f z ! b = f m"
proof -
  have "k = 0 \<or> k = 1 \<or> k = 2 \<or> k = 3 \<or> k = 4" using assms(1) by linarith
  then show ?thesis
  proof (elim disjE)
    assume k: "k = 0"
    show ?thesis
      by (rule golomb_row [of _ "replicate 16 z @ repeat 1 (map f [16..<32]) @ repeat 4 (map f [8..<16]) @
        repeat 16 (map f [4..<8]) @ repeat 64 (map f [2..<4])" 256 f 1 "[]" b m])
        (use assms k in \<open>simp_all add: golomb_table_def\<close>)
  next
    assume k: "k = 1"
    show ?thesis
      by (rule golomb_row [of _ "replicate 16 z @ repeat 1 (map f [16..<32]) @ repeat 4 (map f [8..<16]) @
        repeat 16 (map f [4..<8])" 64 f 2 "repeat 256 (map f [1..<2])" b m])
        (use assms k in \<open>simp_all add: golomb_table_def\<close>)
  next
    assume k: "k = 2"
    show ?thesis
      by (rule golomb_row [of _ "replicate 16 z @ repeat 1 (map f [16..<32]) @ repeat 4 (map f [8..<16])" 16 f 4
        "repeat 64 (map f [2..<4]) @ repeat 256 (map f [1..<2])" b m])
        (use assms k in \<open>simp_all add: golomb_table_def\<close>)
  next
    assume k: "k = 3"
    show ?thesis
      by (rule golomb_row [of _ "replicate 16 z @ repeat 1 (map f [16..<32])" 4 f 8
        "repeat 16 (map f [4..<8]) @ repeat 64 (map f [2..<4]) @ repeat 256 (map f [1..<2])" b m])
        (use assms k in \<open>simp_all add: golomb_table_def\<close>)
  next
    assume k: "k = 4"
    show ?thesis
      by (rule golomb_row [of _ "replicate 16 z" 1 f 16 "repeat 4 (map f [8..<16]) @
        repeat 16 (map f [4..<8]) @ repeat 64 (map f [2..<4]) @ repeat 256 (map f [1..<2])" b m])
        (use assms k in \<open>simp_all add: golomb_table_def\<close>)
  qed
qed

lemma repeat_1: "repeat 1 xs = xs"
  by (induction xs) (simp_all add: repeat_def)

lemma repeat_replicate: "repeat d (replicate n x) = replicate (d * n) x"
  by (induction n) (simp_all add: repeat_def replicate_add [symmetric])

lemma width_row: "map (\<lambda>m. 2 * width m - 1) [2 ^ k..<2 ^ Suc k] = replicate (2 ^ k) (2 * k + 1)"
proof (rule nth_equalityI)
  fix i assume "i < length (map (\<lambda>m. 2 * width m - 1) [2 ^ k..<2 ^ Suc k])"
  then have "i < 2 ^ k" by simp
  then show "map (\<lambda>m. 2 * width m - 1) [2 ^ k..<2 ^ Suc k] ! i = replicate (2 ^ k) (2 * k + 1) ! i"
    using width_unique [of k "2 ^ k + i"] by simp
qed simp

lemma len_table: "h264_golomb_vlc_len = golomb_table (\<lambda>m. 2 * width m - 1) 0"
proof -
  let ?f = "\<lambda>m. 2 * width m - 1"
  have e: "(2::nat) ^ 0 = 1" "(2::nat) ^ Suc 0 = 2" "(2::nat) ^ 1 = 2" "(2::nat) ^ Suc 1 = 4" "(2::nat) ^ 2 = 4"
    "(2::nat) ^ Suc 2 = 8" "(2::nat) ^ 3 = 8" "(2::nat) ^ Suc 3 = 16" "(2::nat) ^ 4 = 16" "(2::nat) ^ Suc 4 = 32"
    by simp_all
  have r: "map ?f [1..<2] = replicate 1 (2 * 0 + 1)" "map ?f [2..<4] = replicate 2 (2 * 1 + 1)"
    "map ?f [4..<8] = replicate 4 (2 * 2 + 1)" "map ?f [8..<16] = replicate 8 (2 * 3 + 1)"
    "map ?f [16..<32] = replicate 16 (2 * 4 + 1)"
    using width_row [of 0] width_row [of 1] width_row [of 2] width_row [of 3] width_row [of 4] unfolding e
    by blast+
  show ?thesis unfolding h264_golomb_vlc_len_def golomb_table_def r repeat_replicate by simp
qed

lemma ue_table: "h264_ue_golomb_vlc_code = golomb_table (\<lambda>m. m - 1) 0"
proof -
  have 1: "map (\<lambda>m. m - 1) [16..<32] = [15..<31]" "map (\<lambda>m. m - 1) [8..<16] = [7..<15]"
    "map (\<lambda>m. m - 1) [4..<8] = [3..<7]" "map (\<lambda>m. m - 1) [2..<4] = [1..<3]"
    "map (\<lambda>m. m - 1) [1..<2] = [0]"
    by (simp_all add: upt_rec)
  have "repeat 256 [0] = replicate 256 (0::nat)" by (simp add: repeat_def)
  then show ?thesis unfolding h264_ue_golomb_vlc_code_def golomb_table_def repeat_1 1 by simp
qed

lemma se_table: "h264_se_golomb_vlc_code = golomb_table se_of 0"
proof -
  have 1: "map se_of [16..<32] = [8, -8, 9, -9, 10, -10, 11, -11, 12, -12, 13, -13, 14, -14, 15, -15]"
    "map se_of [8..<16] = [4, -4, 5, -5, 6, -6, 7, -7]" "map se_of [4..<8] = [2, -2, 3, -3]"
    "map se_of [2..<4] = [1, -1]" "map se_of [1..<2] = [0]"
    by (simp_all add: upt_rec se_of_def)
  have "repeat 256 [0] = replicate 256 (0::int)" by (simp add: repeat_def)
  then show ?thesis unfolding h264_se_golomb_vlc_code_def golomb_table_def repeat_1 1 by simp
qed

lemma log_row:
  assumes "T = X @ replicate n k @ Y" "length X = n" "n \<le> v" "v < 2 * n"
  shows "T ! v = k"
proof -
  have "v - n < n" using assms(3,4) by linarith
  then show ?thesis using assms by (simp add: nth_append)
qed

lemma log2_table:
  assumes "0 < v" "v < 256"
  shows "h264_log2_tab ! v = width v - 1"
proof -
  note T = h264_log2_tab_def
  consider "v < 2" | "2 \<le> v" "v < 4" | "4 \<le> v" "v < 8" | "8 \<le> v" "v < 16" | "16 \<le> v" "v < 32"
    | "32 \<le> v" "v < 64" | "64 \<le> v" "v < 128" | "128 \<le> v" using assms by linarith
  then show ?thesis
  proof cases
    case 1
    then have "v = 1" using assms by linarith
    then show ?thesis using width_unique [of 0 1] by (simp add: T)
  next
    case 2
    then show ?thesis using width_unique [of 1 v] log_row [of h264_log2_tab "[0, 0]" 2 1 "replicate 4 2 @ replicate 8 3 @ replicate 16 4 @ replicate 32 5 @ replicate 64 6 @ replicate 128 7" v] assms
      by (simp add: T)
  next
    case 3
    then show ?thesis using width_unique [of 2 v] log_row [of h264_log2_tab "[0, 0] @ replicate 2 1" 4 2 "replicate 8 3 @ replicate 16 4 @ replicate 32 5 @ replicate 64 6 @ replicate 128 7" v] assms
      by (simp add: T)
  next
    case 4
    then show ?thesis using width_unique [of 3 v] log_row [of h264_log2_tab "[0, 0] @ replicate 2 1 @ replicate 4 2" 8 3 "replicate 16 4 @ replicate 32 5 @ replicate 64 6 @ replicate 128 7" v] assms
      by (simp add: T)
  next
    case 5
    then show ?thesis using width_unique [of 4 v] log_row [of h264_log2_tab "[0, 0] @ replicate 2 1 @ replicate 4 2 @ replicate 8 3" 16 4 "replicate 32 5 @ replicate 64 6 @ replicate 128 7" v] assms
      by (simp add: T)
  next
    case 6
    then show ?thesis using width_unique [of 5 v] log_row [of h264_log2_tab "[0, 0] @ replicate 2 1 @ replicate 4 2 @ replicate 8 3 @ replicate 16 4" 32 5 "replicate 64 6 @ replicate 128 7" v] assms
      by (simp add: T)
  next
    case 7
    then show ?thesis using width_unique [of 6 v] log_row [of h264_log2_tab "[0, 0] @ replicate 2 1 @ replicate 4 2 @ replicate 8 3 @ replicate 16 4 @ replicate 32 5" 64 6 "replicate 128 7" v] assms
      by (simp add: T)
  next
    case 8
    then show ?thesis using width_unique [of 7 v] log_row [of h264_log2_tab "[0, 0] @ replicate 2 1 @ replicate 4 2 @ replicate 8 3 @ replicate 16 4 @ replicate 32 5 @ replicate 64 6" 128 7 "[]" v] assms
      by (simp add: T)
  qed
qed

lemma high_mask: "(v :: 32 word) AND 0xffff0000 = push_bit 16 (drop_bit 16 v)"
proof -
  have m: "(0xffff0000 :: 32 word) = push_bit 16 (mask 16)" by (simp add: mask_eq_exp_minus_1 push_bit_eq_mult)
  show ?thesis unfolding m by (rule bit_word_eqI) (auto simp: bit_simps)
qed

lemma byte_mask: "v < 0x10000 \<Longrightarrow> (v :: 32 word) AND 0xff00 = push_bit 8 (drop_bit 8 v)"
proof -
  assume "v < 0x10000"
  then have "unat (take_bit 16 v) = unat v"
    by (simp add: unsigned_take_bit_eq take_bit_nat_eq_self word_less_nat_alt)
  then have "take_bit 16 v = v" by (simp only: word_unat_eq_iff)
  then have z: "\<not> bit v i" if "16 \<le> i" for i using that by (metis bit_take_bit_iff linorder_not_le)
  have m: "(0xff00 :: 32 word) = push_bit 8 (mask 8)" by (simp add: mask_eq_exp_minus_1 push_bit_eq_mult)
  have "n - 8 < 8" if "bit v n" "8 \<le> n" for n using z [of n] that by linarith
  then show ?thesis unfolding m by (intro bit_word_eqI) (auto simp: bit_simps)
qed

lemma push_zero: "k < 32 \<Longrightarrow> push_bit k (drop_bit k w) \<noteq> (0 :: 32 word) \<longleftrightarrow> unat w div 2 ^ k \<noteq> 0"
proof -
  assume k: "k < 32"
  have "unat w div 2 ^ k * 2 ^ k \<le> unat w" by simp
  moreover have "unat w < 2 ^ 32" using unsigned_less [of w] by simp
  ultimately have "unat (drop_bit k w) * 2 ^ k < 2 ^ 32" unfolding unat_drop by (rule le_less_trans)
  then have "unat (push_bit k (drop_bit k w)) = unat w div 2 ^ k * 2 ^ k" by (simp add: unat_push unat_drop)
  then show ?thesis by (simp add: unat_eq_0 [symmetric] del: unat_eq_0)
qed

lemma av_log2_spec:
  assumes "w \<noteq> 0"
  shows "H264av_log2 w = width (unat w) - 1"
proof -
  define v1 where "v1 = (if w AND 0xffff0000 \<noteq> 0 then drop_bit 16 w else w)"
  define n1 where "n1 = (if w AND 0xffff0000 \<noteq> 0 then 16 else 0 :: nat)"
  define v2 where "v2 = (if v1 AND 0xff00 \<noteq> 0 then drop_bit 8 v1 else v1)"
  define n2 where "n2 = (if v1 AND 0xff00 \<noteq> 0 then n1 + 8 else n1)"
  have go: "H264av_log2 w = n2 + h264_log2_tab ! unat v2"
    unfolding H264av_log2_def Let_def v1_def n1_def v2_def n2_def by (simp split: prod.split)
  have hi: "w AND 0xffff0000 \<noteq> 0 \<longleftrightarrow> unat w div 2 ^ 16 \<noteq> 0" unfolding high_mask by (rule push_zero) simp
  have w: "unat w \<noteq> 0" "unat w < 2 ^ 32" using assms unsigned_less [of w] by (simp_all add: unat_eq_0)
  have 1: "unat v1 \<noteq> 0" "unat v1 < 2 ^ 16" "width (unat w) = width (unat v1) + n1"
  proof -
    have d: "unat w div 2 ^ 16 < 2 ^ 16" using w(2) by (simp add: div_less_iff_less_mult)
    show "unat v1 \<noteq> 0" "unat v1 < 2 ^ 16" "width (unat w) = width (unat v1) + n1"
      using w d hi width_div [of "unat w" 16] by (auto simp: v1_def n1_def unat_drop)
  qed
  then have "v1 < 0x10000" by (simp add: word_less_nat_alt)
  have lo: "v1 AND 0xff00 \<noteq> 0 \<longleftrightarrow> unat v1 div 2 ^ 8 \<noteq> 0"
    unfolding byte_mask [OF \<open>v1 < 0x10000\<close>] by (rule push_zero) simp
  have 2: "unat v2 \<noteq> 0" "unat v2 < 256" "width (unat w) = width (unat v2) + n2"
  proof -
    have d: "unat v1 div 2 ^ 8 < 2 ^ 8" using 1(2) by (simp add: div_less_iff_less_mult)
    show "unat v2 \<noteq> 0" "unat v2 < 256" "width (unat w) = width (unat v2) + n2"
      using 1 d lo width_div [of "unat v1" 8] by (auto simp: v2_def n2_def unat_drop)
  qed
  then show ?thesis using go log2_table [of "unat v2"] width_bounds [of "unat v2"] by simp
qed

section \<open>Reading a code\<close>

text \<open>The window begins with the code of the number \<open>m - 1\<close>, which has \<open>k\<close> zeros at its front.\<close>

lemma code_window:
  assumes "window_ok s" "rest s = ue_bits v @ ys" "width (Suc v) = Suc k" "2 * k + 1 \<le> 25"
  obtains w where "get_cache s = Inr w" "unat w div 2 ^ (31 - 2 * k) = Suc v"
    "2 ^ (31 - k) \<le> unat w" "unat w < 2 ^ (32 - k)"
proof -
  obtain w where w: "get_cache s = Inr w"
      "\<forall>n. n \<le> 32 - index s mod 8 \<longrightarrow> unat (drop_bit (32 - n) w) = num (take n (rest s))"
    using get_cache_spec [OF assms(1)] by blast
  have "2 * k + 1 \<le> 32 - index s mod 8" using assms(4) by (simp add: less_Suc_eq_le [symmetric])
  moreover have len: "length (ue_bits v) = 2 * k + 1" using num_ue_bits(2) assms(3) by simp
  ultimately have "unat (drop_bit (32 - (2 * k + 1)) w) = Suc v"
    using w(2) [rule_format, of "2 * k + 1"] assms(2) num_ue_bits(1) by simp
  then have d: "unat w div 2 ^ (31 - 2 * k) = Suc v" by (simp add: unat_drop)
  have b: "2 ^ k \<le> Suc v" "Suc v < 2 ^ Suc k" using width_bounds [of "Suc v"] assms(3) by auto
  have p: "0 < (2::nat) ^ (31 - 2 * k)" by simp
  have e: "31 - k = (31 - 2 * k) + k" "32 - k = (31 - 2 * k) + Suc k" using assms(4) by simp_all
  have "2 ^ (31 - k) \<le> unat w"
    using b(1) unfolding d [symmetric] less_eq_div_iff_mult_less_eq [OF p] e(1) power_add
    by (simp add: mult.commute)
  moreover have "unat w < 2 ^ (32 - k)"
    using b(2) unfolding d [symmetric] div_less_iff_less_mult [OF p] e(2) power_add
    by (simp add: mult.commute)
  ultimately show ?thesis using that w(1) d by blast
qed

lemma big_window: "k \<le> 4 \<Longrightarrow> 2 ^ (31 - k) \<le> unat (w :: 32 word) \<Longrightarrow> 0x8000000 \<le> w"
proof -
  assume "k \<le> 4" "2 ^ (31 - k) \<le> unat w"
  moreover from \<open>k \<le> 4\<close> have "(2::nat) ^ 27 \<le> 2 ^ (31 - k)" by (intro power_increasing) simp_all
  ultimately show ?thesis by (simp add: word_le_nat_alt)
qed

lemma small_window: "5 \<le> k \<Longrightarrow> unat (w :: 32 word) < 2 ^ (32 - k) \<Longrightarrow> \<not> 0x8000000 \<le> w"
proof -
  assume "5 \<le> k" "unat w < 2 ^ (32 - k)"
  moreover from \<open>5 \<le> k\<close> have "(2::nat) ^ (32 - k) \<le> 2 ^ 27" by (intro power_increasing) simp_all
  ultimately show ?thesis by (simp add: word_le_nat_alt)
qed

text \<open>A short code is found in the tables, by the first nine bits of the window.\<close>

lemma short_code:
  assumes "k \<le> 4" "unat w div 2 ^ (31 - 2 * k) = Suc v" "width (Suc v) = Suc k"
  shows "golomb_table f z ! unat (drop_bit 23 (w :: 32 word)) = f (Suc v)"
proof (rule golomb_lookup [OF assms(1)])
  have e: "31 - 2 * k = 23 + (8 - 2 * k)" using assms(1) by simp
  have "unat w div 2 ^ 23 div 2 ^ (8 - 2 * k) = unat w div (2 ^ 23 * 2 ^ (8 - 2 * k))"
    by (rule div_mult2_eq [symmetric])
  also have "\<dots> = Suc v" using assms(2) unfolding e power_add .
  finally show "unat (drop_bit 23 w) div 2 ^ (8 - 2 * k) = Suc v" by (simp only: unat_drop)
  show "2 ^ k \<le> Suc v" "Suc v < 2 ^ Suc k" using width_bounds [of "Suc v"] assms(3) by auto
qed

lemma width_le: "m < 2 ^ n \<Longrightarrow> width m \<le> n"
proof (cases "m = 0")
  case False
  assume "m < 2 ^ n"
  moreover have "2 ^ (width m - 1) \<le> m" "0 < width m" using width_bounds [of m] False by auto
  ultimately have "(2::nat) ^ (width m - 1) < 2 ^ n" by linarith
  then show ?thesis using \<open>0 < width m\<close> by (auto dest: power_less_imp_less_exp)
qed (simp add: width.simps)

lemma GetUeGolombSw_spec:
  assumes "window_ok s" "rest s = ue_bits v @ ys" "Suc v < 2 ^ 13"
  shows "\<exists>w. H264GetUeGolombSw s = Inr (w, skip (length (ue_bits v)) s) \<and> unat w = v"
proof -
  obtain k where k: "width (Suc v) = Suc k" using width_bounds [of "Suc v"] by (cases "width (Suc v)") auto
  then have k12: "k \<le> 12" using width_le [OF assms(3)] by simp
  have len: "length (ue_bits v) = 2 * k + 1" using num_ue_bits(2) k by simp
  obtain w where w: "get_cache s = Inr w" "unat w div 2 ^ (31 - 2 * k) = Suc v"
      "2 ^ (31 - k) \<le> unat w" "unat w < 2 ^ (32 - k)"
    using code_window [OF assms(1,2) k] k12 by auto
  show ?thesis
  proof (cases "k \<le> 4")
    case True
    have "h264_golomb_vlc_len ! unat (drop_bit 23 w) = 2 * k + 1"
      unfolding len_table short_code [OF True w(2) k] using k by simp
    moreover have "h264_ue_golomb_vlc_code ! unat (drop_bit 23 w) = v"
      unfolding ue_table short_code [OF True w(2) k] by simp
    moreover have "v < 2 ^ 32" using assms(3) by simp
    ultimately show ?thesis using w(1) big_window [OF True w(3)] len
      by (simp add: H264GetUeGolombSw_def Let_def unat_of_nat take_bit_nat_eq_self)
  next
    case False
    have e: "32 - k = Suc (31 - k)" using k12 by simp
    have "width (unat w) = 32 - k" using width_unique [OF w(3) w(4) [unfolded e]] e by simp
    moreover have "w \<noteq> 0" using w(3) by auto
    ultimately have lg: "2 * int (H264av_log2 w) - 31 = int (31 - 2 * k)"
      using av_log2_spec [of w] k12 by simp
    have "unat (drop_bit (31 - 2 * k) w) = Suc v" unfolding unat_drop w(2) ..
    then have "unat (drop_bit (31 - 2 * k) w - 1) = v" by (simp add: unat_sub word_le_nat_alt)
    moreover have "\<not> 0x8000000 \<le> w" using small_window [of k w] False w(4) by simp
    moreover have "32 - (31 - 2 * k) = 2 * k + 1" using k12 by simp
    then have "nat (32 - int (31 - 2 * k)) = 2 * k + 1" by linarith
    ultimately show ?thesis using w(1) len unfolding H264GetUeGolombSw_def Let_def
      by (simp only: and_then.simps lg if_False nat_int) simp
  qed
qed

lemma rest_skip [simp]: "rest (skip n s) = drop n (rest s)"
  by (simp add: rest_def skip_def add.commute)

lemma skip_skip [simp]: "skip m (skip n s) = skip (n + m) s"
  by (simp add: skip_def add.assoc)

lemma window_skip: "window_ok (skip n s) \<Longrightarrow> m \<le> n \<Longrightarrow> window_ok (skip m s)"
proof -
  assume "window_ok (skip n s)" "m \<le> n"
  moreover have "(index s + m) div 8 \<le> (index s + n) div 8" using \<open>m \<le> n\<close> by (intro div_le_mono) simp
  ultimately show ?thesis by (simp add: window_ok_def skip_def)
qed

text \<open>A long signed code is read in two steps: its zeros, then the number.\<close>

lemma leading_zeros:
  assumes "window_ok s" "rest s = ue_bits v @ ys" "width (Suc v) = Suc k" "k \<le> 24"
  obtains w where "get_cache s = Inr w" "w \<noteq> 0" "width (unat w) = 32 - k"
    "2 ^ (31 - k) \<le> unat w" "unat w < 2 ^ (32 - k)"
proof -
  obtain w where w: "get_cache s = Inr w"
      "\<forall>n. n \<le> 32 - index s mod 8 \<longrightarrow> unat (drop_bit (32 - n) w) = num (take n (rest s))"
    using get_cache_spec [OF assms(1)] by blast
  have "k + 1 \<le> 32 - index s mod 8" using assms(4) by (simp add: less_Suc_eq_le [symmetric])
  then have n: "unat (drop_bit (31 - k) w) = num (take (k + 1) (rest s))"
    using w(2) [rule_format, of "k + 1"] assms(4) by simp
  obtain bs where "to_bits (Suc k) (Suc v) = bit (Suc v) k # bs"
    unfolding to_bits_def by (simp add: upt_conv_Cons del: upt_Suc)
  then have t: "take (k + 1) (rest s) = replicate k False @ [bit (Suc v) k]"
    using assms(2,3) unfolding ue_bits_def by simp
  have "Suc v div 2 ^ k = 1"
    by (rule div_nat_eqI) (use width_bounds [of "Suc v"] assms(3) in simp_all)
  then have "bit (Suc v) k" by (simp add: bit_iff_odd)
  then have one: "unat w div 2 ^ (31 - k) = 1" using n t by (simp add: unat_drop num_append)
  have p: "0 < (2::nat) ^ (31 - k)" by simp
  have lo: "2 ^ (31 - k) \<le> unat w"
    using one by (metis div_less less_numeral_extra(1) linorder_not_le not_one_le_zero le_refl)
  have e: "32 - k = Suc (31 - k)" using assms(4) by simp
  have "unat w < 2 * 2 ^ (31 - k)"
    using div_less_iff_less_mult [OF p, of "unat w" 2] one by simp
  then have hi: "unat w < 2 ^ (32 - k)" unfolding e by simp
  have "width (unat w) = 32 - k" using width_unique [OF lo hi [unfolded e]] e by simp
  moreover have "w \<noteq> 0" using lo by auto
  ultimately show ?thesis using that w(1) lo hi by blast
qed

lemma half_signed:
  assumes "unat (b :: 32 word) = m" "m < 2 ^ 31"
  shows "sint ((drop_bit 1 b XOR - (b AND 1)) - - (b AND 1)) = se_of m"
proof -
  have h: "unat (drop_bit 1 b) = m div 2" using assms(1) by (simp add: unat_drop)
  then have "unat (drop_bit 1 b) < 2 ^ 31" using assms(2) by simp
  then have s: "sint (drop_bit 1 b) = int (m div 2)"
    using h sint_small [of "drop_bit 1 b"] by simp
  have "bit (unat b) 0 = bit b 0" unfolding bit_unsigned_iff by simp
  then have par: "even b \<longleftrightarrow> even m" using assms(1) by (simp add: bit_0)
  have u: "drop_bit 1 b = word_of_int (int (m div 2))" 
    unfolding h [symmetric] by (simp add: of_int_of_nat_eq)
  show ?thesis
  proof (cases "even m")
    case True
    then have "b AND 1 = 0" using par by (simp add: and_one_eq even_iff_mod_2_eq_zero)
    then show ?thesis using s True by (simp add: se_of_def)
  next
    case False
    then have "odd b" using par by blast
    then have 1: "b AND 1 = 1" by (simp only: and_one_eq odd_iff_mod_2_eq_one)
    have "(drop_bit 1 b XOR - 1) - - 1 = - drop_bit 1 b"
      unfolding minus_eq_not_plus_1 [of "drop_bit 1 b"] diff_minus_eq_add by simp
    moreover have "sint (- drop_bit 1 b) = - int (m div 2)"
    proof -
      have "m div 2 < 2 ^ 31" using assms(2) by simp
      then have "int (m div 2) < int (2 ^ 31)" by (simp only: of_nat_less_iff)
      then have "signed_take_bit 31 (- int (m div 2)) = - int (m div 2)"
        by (intro signed_take_bit_int_eq_self) simp_all
      then show ?thesis unfolding u wi_hom_neg sint_sbintrunc' by simp
    qed
    ultimately show ?thesis using 1 False by (simp add: se_of_def)
  qed
qed

lemma GetSeGolombSw_spec:
  assumes "window_ok s" "window_ok (skip (length (se_bits x)) s)" "rest s = se_bits x @ ys" "Suc (se_code x) < 2 ^ 25"
  shows "H264GetSeGolombSw s = Inr (x, skip (length (se_bits x)) s)"
proof -
  define v where "v = se_code x"
  have bits: "rest s = ue_bits v @ ys" using assms(3) by (simp add: se_bits_def v_def)
  obtain k where k: "width (Suc v) = Suc k" using width_bounds [of "Suc v"] by (cases "width (Suc v)") auto
  then have k24: "k \<le> 24" using width_le [of "Suc v" 25] assms(4) by (simp add: v_def)
  have len: "length (se_bits x) = 2 * k + 1" using num_ue_bits(2) k by (simp add: se_bits_def v_def)
  show ?thesis
  proof (cases "k \<le> 4")
    case True
    obtain w where w: "get_cache s = Inr w" "unat w div 2 ^ (31 - 2 * k) = Suc v" "2 ^ (31 - k) \<le> unat w"
      using code_window [OF assms(1) bits k] True by auto
    have "h264_golomb_vlc_len ! unat (drop_bit 23 w) = 2 * k + 1"
      unfolding len_table short_code [OF True w(2) k] using k by simp
    moreover have "h264_se_golomb_vlc_code ! unat (drop_bit 23 w) = x"
      unfolding se_table short_code [OF True w(2) k] v_def by (rule se_of_code)
    ultimately show ?thesis using w(1) big_window [OF True w(3)] len
      by (simp add: H264GetSeGolombSw_def Let_def)
  next
    case False
    obtain w where w: "get_cache s = Inr w" "w \<noteq> 0" "width (unat w) = 32 - k" "unat w < 2 ^ (32 - k)"
      using leading_zeros [OF assms(1) bits k k24] by blast
    have lg: "H264av_log2 w = 31 - k" using av_log2_spec [OF w(2)] w(3) by simp
    have small: "\<not> 0x8000000 \<le> w" using small_window [of k w] False w(4) by simp
    have z: "31 - (31 - k) = k" "32 - (31 - k) = k + 1" using k24 by simp_all
    have "window_ok (skip k s)" using window_skip [OF assms(2)] len by simp
    then obtain b where b: "get_cache (skip k s) = Inr b"
        "\<forall>n. n \<le> 32 - index (skip k s) mod 8 \<longrightarrow> unat (drop_bit (32 - n) b) = num (take n (rest (skip k s)))"
      using get_cache_spec by blast
    have "k + 1 \<le> 32 - index (skip k s) mod 8" using k24 by (simp add: less_Suc_eq_le [symmetric])
    then have "unat (drop_bit (31 - k) b) = num (take (k + 1) (rest (skip k s)))"
      using b(2) [rule_format, of "k + 1"] by simp
    moreover have "take (k + 1) (rest (skip k s)) = to_bits (Suc k) (Suc v)"
      using bits k by (simp add: ue_bits_def)
    moreover have "Suc v < 2 ^ Suc k" using width_bounds [of "Suc v"] k by simp
    ultimately have val: "unat (drop_bit (31 - k) b) = Suc v" using num_to_bits by metis
    have "Suc v < 2 ^ 31" using assms(4) by (simp add: v_def)
    note half_signed [OF val this]
    then show ?thesis using w(1) small b(1) len z se_of_code [of x] lg
      unfolding H264GetSeGolombSw_def Let_def by (simp add: v_def mult_2)
  qed
qed

end
