(* ===== verification/H264Syntax.thy ===== *)
theory H264Syntax
  imports H264Golomb
begin

text \<open>
  The bit reader behind the function pointers of \<^verbatim>\<open>H264DecCtx\<close>: the interface, its laws, and the software
  reader of \<^verbatim>\<open>h264_hal.c\<close> as one that keeps them. The header parsers are written against the interface and
  proved from the laws.
\<close>

section \<open>The interface\<close>

record 'r H264Reader =
  GetBits :: "nat \<Rightarrow> 'r \<Rightarrow> (32 word \<times> 'r) res"
  GetUeGolomb :: "'r \<Rightarrow> (32 word \<times> 'r) res"
  GetSeGolomb :: "'r \<Rightarrow> (int \<times> 'r) res"

text \<open>The assignment of the pointers in \<^verbatim>\<open>h264.c\<close> when headers are decoded by software\<close>

definition software_reader :: "GetBitContext H264Reader" where
  "software_reader = \<lparr>GetBits = H264GetBitsSw, GetUeGolomb = H264GetUeGolombSw, GetSeGolomb = H264GetSeGolombSw\<rparr>"

text \<open>Parsers: a step that reads and may fault, one after another.\<close>

definition rd :: "('r \<Rightarrow> ('a \<times> 'r) res) \<Rightarrow> ('a \<Rightarrow> 'r \<Rightarrow> ('b \<times> 'r) res) \<Rightarrow> 'r \<Rightarrow> ('b \<times> 'r) res" where
  "rd p k r = and_then (p r) (\<lambda>(x, r'). k x r')"

definition give :: "'a \<Rightarrow> 'r \<Rightarrow> ('a \<times> 'r) res" where
  "give x r = Inr (x, r)"

definition attempt :: "'a res \<Rightarrow> 'r \<Rightarrow> ('a \<times> 'r) res" where
  "attempt x r = and_then x (\<lambda>y. Inr (y, r))"

text \<open>A value that is read and thrown away\<close>

definition drop_bits :: "'r H264Reader \<Rightarrow> nat \<Rightarrow> ('r \<Rightarrow> ('b \<times> 'r) res) \<Rightarrow> 'r \<Rightarrow> ('b \<times> 'r) res" where
  "drop_bits R n p = rd (GetBits R n) (\<lambda>_. p)"

definition drop_ue :: "'r H264Reader \<Rightarrow> ('r \<Rightarrow> ('b \<times> 'r) res) \<Rightarrow> 'r \<Rightarrow> ('b \<times> 'r) res" where
  "drop_ue R p = rd (GetUeGolomb R) (\<lambda>_. p)"

section \<open>The laws\<close>

text \<open>
  \<open>ready r bs\<close>: the bits \<open>bs\<close> lie ahead of the reader. A reader returns the value whose code is ahead and
  moves behind it: fixed-length values up to 25 bits, \<open>ue(v)\<close> codes of at most 25 bits and \<open>se(v)\<close> codes of
  at most 49.
\<close>

locale syntax_reader =
  fixes R :: "'r H264Reader" and ready :: "'r \<Rightarrow> bool list \<Rightarrow> bool"
  assumes bits_ahead: "ready r (to_bits n v @ bs) \<Longrightarrow> 0 < n \<Longrightarrow> n \<le> 25 \<Longrightarrow> v < 2 ^ n \<Longrightarrow>
      \<exists>r'. GetBits R n r = Inr (of_nat v, r') \<and> ready r' bs"
    and ue_ahead: "ready r (ue_bits v @ bs) \<Longrightarrow> Suc v < 2 ^ 13 \<Longrightarrow>
      \<exists>r'. GetUeGolomb R r = Inr (of_nat v, r') \<and> ready r' bs"
    and se_ahead: "ready r (se_bits x @ bs) \<Longrightarrow> Suc (se_code x) < 2 ^ 25 \<Longrightarrow>
      \<exists>r'. GetSeGolomb R r = Inr (x, r') \<and> ready r' bs"
begin

text \<open>A parser turns the bits \<open>bs\<close> into the value \<open>x\<close>, whatever follows them.\<close>

definition parses :: "('r \<Rightarrow> ('a \<times> 'r) res) \<Rightarrow> bool list \<Rightarrow> 'a \<Rightarrow> bool" where
  "parses p bs x \<longleftrightarrow> (\<forall>r ys. ready r (bs @ ys) \<longrightarrow> (\<exists>r'. p r = Inr (x, r') \<and> ready r' ys))"

lemma parsesI: "(\<And>r ys. ready r (bs @ ys) \<Longrightarrow> \<exists>r'. p r = Inr (x, r') \<and> ready r' ys) \<Longrightarrow> parses p bs x"
  by (simp add: parses_def)

lemma parsesD: "parses p bs x \<Longrightarrow> ready r (bs @ ys) \<Longrightarrow> \<exists>r'. p r = Inr (x, r') \<and> ready r' ys"
  by (simp add: parses_def)

lemma parses_rd: "parses p bs x \<Longrightarrow> parses (k x) cs y \<Longrightarrow> parses (rd p k) (bs @ cs) y"
proof (rule parsesI)
  fix r ys assume p: "parses p bs x" and k: "parses (k x) cs y" and r: "ready r ((bs @ cs) @ ys)"
  obtain r1 where r1: "p r = Inr (x, r1)" "ready r1 (cs @ ys)" using parsesD [OF p, of r "cs @ ys"] r by auto
  obtain r2 where "k x r1 = Inr (y, r2)" "ready r2 ys" using parsesD [OF k r1(2)] by blast
  then show "\<exists>r'. rd p k r = Inr (y, r') \<and> ready r' ys" using r1(1) by (simp add: rd_def)
qed

lemma parses_give [simp]: "parses (give x) [] x"
  by (rule parsesI) (simp add: give_def)

lemma parses_attempt [simp]: "parses (attempt (Inr x)) [] x"
  by (rule parsesI) (simp add: attempt_def)

lemma parses_GetBits: "0 < n \<Longrightarrow> n \<le> 25 \<Longrightarrow> v < 2 ^ n \<Longrightarrow> parses (GetBits R n) (to_bits n v) (of_nat v)"
  by (rule parsesI) (rule bits_ahead)

lemma parses_GetUeGolomb: "Suc v < 2 ^ 13 \<Longrightarrow> parses (GetUeGolomb R) (ue_bits v) (of_nat v)"
  by (rule parsesI) (rule ue_ahead)

lemma parses_GetSeGolomb: "Suc (se_code x) < 2 ^ 25 \<Longrightarrow> parses (GetSeGolomb R) (se_bits x) x"
  by (rule parsesI) (rule se_ahead)

text \<open>The steps of a parser, each with the syntax element it reads in front of the bits.\<close>

lemma rd_bits: "0 < n \<Longrightarrow> n \<le> 25 \<Longrightarrow> v < 2 ^ n \<Longrightarrow> parses (k (of_nat v)) cs y \<Longrightarrow>
    parses (rd (GetBits R n) k) (to_bits n v @ cs) y"
  by (rule parses_rd [OF parses_GetBits])

lemma rd_ue: "Suc v < 2 ^ 13 \<Longrightarrow> parses (k (of_nat v)) cs y \<Longrightarrow> parses (rd (GetUeGolomb R) k) (ue_bits v @ cs) y"
  by (rule parses_rd [OF parses_GetUeGolomb])

lemma rd_se: "Suc (se_code x) < 2 ^ 25 \<Longrightarrow> parses (k x) cs y \<Longrightarrow> parses (rd (GetSeGolomb R) k) (se_bits x @ cs) y"
  by (rule parses_rd [OF parses_GetSeGolomb])

lemma drop_bits_step: "0 < n \<Longrightarrow> n \<le> 25 \<Longrightarrow> v < 2 ^ n \<Longrightarrow> parses p cs y \<Longrightarrow>
    parses (drop_bits R n p) (to_bits n v @ cs) y"
  unfolding drop_bits_def by (rule rd_bits)

lemma drop_ue_step: "Suc v < 2 ^ 13 \<Longrightarrow> parses p cs y \<Longrightarrow> parses (drop_ue R p) (ue_bits v @ cs) y"
  unfolding drop_ue_def by (rule rd_ue)

lemma rd_attempt: "x = Inr v \<Longrightarrow> parses (k v) cs y \<Longrightarrow> parses (rd (attempt x) k) cs y"
  using parses_rd [OF parses_attempt, of k v cs y] by simp

lemma rd_give: "parses (k v) cs y \<Longrightarrow> parses (rd (give v) k) cs y"
  using parses_rd [OF parses_give, of k v cs y] by simp

lemma parses_eq: "parses p bs x \<Longrightarrow> x = y \<Longrightarrow> parses p bs y"
  by simp

end

section \<open>A run of syntax elements\<close>

datatype element = U nat nat | Ue nat | Se int

fun element_bits :: "element \<Rightarrow> bool list" where
  "element_bits (U n v) = to_bits n v"
| "element_bits (Ue v) = ue_bits v"
| "element_bits (Se x) = se_bits x"

fun element_ok :: "element \<Rightarrow> bool" where
  "element_ok (U n v) \<longleftrightarrow> 0 < n \<and> n \<le> 25 \<and> v < 2 ^ n"
| "element_ok (Ue v) \<longleftrightarrow> Suc v < 2 ^ 13"
| "element_ok (Se x) \<longleftrightarrow> Suc (se_code x) < 2 ^ 25"

text \<open>Reading an element of the kind and length of a given one\<close>

fun read_element :: "'r H264Reader \<Rightarrow> element \<Rightarrow> 'r \<Rightarrow> (element \<times> 'r) res" where
  "read_element R (U n _) = rd (GetBits R n) (\<lambda>w. give (U n (unat w)))"
| "read_element R (Ue _) = rd (GetUeGolomb R) (\<lambda>w. give (Ue (unat w)))"
| "read_element R (Se _) = rd (GetSeGolomb R) (\<lambda>x. give (Se x))"

fun read_elements :: "'r H264Reader \<Rightarrow> element list \<Rightarrow> 'r \<Rightarrow> (element list \<times> 'r) res" where
  "read_elements R [] = give []"
| "read_elements R (e # es) = rd (read_element R e) (\<lambda>x. rd (read_elements R es) (\<lambda>xs. give (x # xs)))"

lemma unat_u32_small: "v < 2 ^ n \<Longrightarrow> n \<le> 25 \<Longrightarrow> unat (of_nat v :: 32 word) = v"
proof -
  assume v: "v < 2 ^ n" "n \<le> 25"
  then have "(2::nat) ^ n \<le> 2 ^ 25" by (intro power_increasing) simp_all
  then have "v < 2 ^ LENGTH(32)" using v(1) by simp
  then show ?thesis unfolding unat_of_nat by (simp add: take_bit_nat_eq_self)
qed

context syntax_reader begin

lemma parses_element: "element_ok e \<Longrightarrow> parses (read_element R e) (element_bits e) e"
proof (cases e)
  case (U n v)
  assume "element_ok e"
  then show ?thesis using U rd_bits [of n v "\<lambda>w. give (element.U n (unat w))" "[]" e] unat_u32_small [of v n] by simp
next
  case (Ue v)
  assume "element_ok e"
  then show ?thesis using Ue rd_ue [of v "\<lambda>w. give (element.Ue (unat w))" "[]" e] unat_u32_small [of v 13] by simp
next
  case (Se x)
  assume "element_ok e"
  then show ?thesis using Se rd_se [of x "\<lambda>x. give (element.Se x)" "[]" e] by simp
qed

lemma parses_elements: "list_all element_ok es \<Longrightarrow> parses (read_elements R es) (concat (map element_bits es)) es"
proof (induction es)
  case (Cons e es)
  have "parses (rd (read_elements R es) (\<lambda>xs. give (e # xs))) (concat (map element_bits es) @ []) (e # es)"
    by (rule parses_rd [OF Cons.IH]) (use Cons.prems in simp_all)
  then have "parses (rd (read_element R e) (\<lambda>x. rd (read_elements R es) (\<lambda>xs. give (x # xs))))
      (element_bits e @ concat (map element_bits es)) (e # es)"
    using Cons.prems by (intro parses_rd [OF parses_element]) simp_all
  then show ?case by simp
qed simp

end

section \<open>The software reader keeps the laws\<close>

definition sw_ready :: "GetBitContext \<Rightarrow> bool list \<Rightarrow> bool" where
  "sw_ready s bs \<longleftrightarrow> window_ok (skip (length bs) s) \<and> take (length bs) (rest s) = bs"

lemma sw_ready_split:
  assumes "sw_ready s (xs @ bs)"
  shows "window_ok s" "window_ok (skip (length xs) s)" "rest s = xs @ drop (length xs) (rest s)"
    "sw_ready (skip (length xs) s) bs"
proof -
  have w: "window_ok (skip (length xs + length bs) s)" and t: "take (length xs + length bs) (rest s) = xs @ bs"
    using assms by (simp_all add: sw_ready_def)
  show "window_ok (skip (length xs) s)" by (rule window_skip [OF w]) simp
  show "window_ok s" using window_skip [OF w, of 0] by (simp add: skip_def)
  have x: "take (length xs) (rest s) = xs"
    using arg_cong [OF t, of "take (length xs)"] by (simp add: min_def)
  then show "rest s = xs @ drop (length xs) (rest s)" by (metis append_take_drop_id)
  have "take (length bs) (drop (length xs) (rest s)) = bs"
    using arg_cong [OF t, of "drop (length xs)"] by (simp add: drop_take)
  then show "sw_ready (skip (length xs) s) bs" using w by (simp add: sw_ready_def)
qed

lemma of_unat_eq: "unat (w :: 32 word) = v \<Longrightarrow> w = of_nat v"
  by auto

interpretation sw: syntax_reader software_reader sw_ready
proof
  fix r n v bs
  assume a: "sw_ready r (to_bits n v @ bs)" "0 < n" "n \<le> 25" "v < 2 ^ n"
  note s = sw_ready_split [OF a(1)]
  have t: "take n (rest r) = to_bits n v" using a(1) s(3) by (metis append_eq_conv_conj length_to_bits)
  obtain w where w: "H264GetBitsSw n r = Inr (w, skip n r)" "unat w = num (take n (rest r))"
    using GetBitsSw_spec [of r n] s(1) a by auto
  have "w = of_nat v" by (rule of_unat_eq) (simp add: w(2) t num_to_bits [OF a(4)])
  then show "\<exists>r'. GetBits software_reader n r = Inr (of_nat v, r') \<and> sw_ready r' bs"
    using w s(4) by (simp add: software_reader_def)
next
  fix r v bs
  assume a: "sw_ready r (ue_bits v @ bs)" "Suc v < 2 ^ 13"
  note s = sw_ready_split [OF a(1)]
  obtain w where "H264GetUeGolombSw r = Inr (w, skip (length (ue_bits v)) r)" "unat w = v"
    using GetUeGolombSw_spec [OF s(1,3) a(2)] by blast
  then show "\<exists>r'. GetUeGolomb software_reader r = Inr (of_nat v, r') \<and> sw_ready r' bs"
    using s(4) of_unat_eq [of w v] by (simp add: software_reader_def)
next
  fix r x bs
  assume a: "sw_ready r (se_bits x @ bs)" "Suc (se_code x) < 2 ^ 25"
  note s = sw_ready_split [OF a(1)]
  show "\<exists>r'. GetSeGolomb software_reader r = Inr (x, r') \<and> sw_ready r' bs"
    using GetSeGolombSw_spec [OF s(1-3) a(2)] s(4) by (simp add: software_reader_def)
qed

end
