(* ===== verification/H264Sps.thy ===== *)
theory H264Sps
  imports H264Syntax
begin

text \<open>
  Sequence parameter sets of the H.264 decoder (\<^verbatim>\<open>videoengine/h264/h264_nalu.c\<close>): scaling lists, VUI and HRD
  parameters, \<^verbatim>\<open>H264DecodeSps\<close>. Fields of \<^verbatim>\<open>H264Context\<close> whose name the parameter set shares have the prefix
  \<open>ctx\<close>. Returning the stream and flushing delayed pictures, on a change of the size, work on parts of the
  decoder that are not in this state: the calls are recorded in \<open>actions\<close>.
\<close>

section \<open>State\<close>

record H264SpsInfo =
  bMbAff :: "8 word"
  nPocType :: "8 word"
  bDeltaPicOrderAlwaysZeroFlag :: "8 word"
  bFrameMbsOnlyFlag :: "8 word"
  bDirect8x8InferenceFlag :: "8 word"
  nRefFrmCount :: int
  gaps_in_frame_num_value_allowed_flag :: int
  nMbWidth :: "32 word"
  nMbHeight :: "32 word"
  nFrmMbWidth :: "32 word"
  nFrmMbHeight :: "32 word"
  nFrmRealWidth :: "32 word"
  nFrmRealHeight :: "32 word"
  nCropLeft :: "32 word"
  nCropRight :: "32 word"
  nCropTop :: "32 word"
  nCropBottom :: "32 word"
  bCodedFrameRatio :: "8 word"
  nAspectRatio :: "32 word"
  nLog2MaxFrmNum :: int
  bScalingMatrixPresent :: int
  nLog2MaxPocLsb :: "32 word"
  nOffsetForNonRefPic :: int
  nOffsetForTopToBottomField :: int
  nPocCycleLength :: "32 word"
  nProfileIdc :: "32 word"
  nScalingMatrix4 :: "8 word list list"
  nScalingMatrix8 :: "8 word list list"
  nOffsetForRefFrm :: "16 word list"
  bBitstreamRestrictionFlag :: int
  nNumReorderFrames :: int
  bLowDelayFlag :: "8 word"
  bPicStructPresentFlag :: "8 word"
  bNalHrdParametersPresentFlag :: "32 word"
  bVclHrdParametersPresentFlag :: "32 word"
  nCpbRemovalDelayLength :: "32 word"
  nDpbOutputDelayLength :: "32 word"
  bConstraintSetFlags :: "8 word"
  nTimeOffsetLength :: "8 word"

definition zero_sps :: H264SpsInfo where
  "zero_sps = \<lparr>bMbAff = 0, nPocType = 0, bDeltaPicOrderAlwaysZeroFlag = 0, bFrameMbsOnlyFlag = 0,
     bDirect8x8InferenceFlag = 0, nRefFrmCount = 0, gaps_in_frame_num_value_allowed_flag = 0,
     nMbWidth = 0, nMbHeight = 0, nFrmMbWidth = 0, nFrmMbHeight = 0, nFrmRealWidth = 0, nFrmRealHeight = 0,
     nCropLeft = 0, nCropRight = 0, nCropTop = 0, nCropBottom = 0, bCodedFrameRatio = 0, nAspectRatio = 0,
     nLog2MaxFrmNum = 0, bScalingMatrixPresent = 0, nLog2MaxPocLsb = 0, nOffsetForNonRefPic = 0,
     nOffsetForTopToBottomField = 0, nPocCycleLength = 0, nProfileIdc = 0,
     nScalingMatrix4 = replicate 6 (replicate 16 0), nScalingMatrix8 = replicate 2 (replicate 64 0),
     nOffsetForRefFrm = replicate 256 0, bBitstreamRestrictionFlag = 0, nNumReorderFrames = 0,
     bLowDelayFlag = 0, bPicStructPresentFlag = 0, bNalHrdParametersPresentFlag = 0,
     bVclHrdParametersPresentFlag = 0, nCpbRemovalDelayLength = 0, nDpbOutputDelayLength = 0,
     bConstraintSetFlags = 0, nTimeOffsetLength = 0\<rparr>"

datatype action = ReturnStreamData | ReturnStreamFrame | FlushDelayed | FlushDelayedMinor

text \<open>Pointers that are only tested or cleared are kept as whether they are set.\<close>

record H264Header =
  bIsAvc :: bool
  frame_vbv :: bool
  pVbvStreamData :: bool
  pCurStreamFrame :: bool
  pHContext :: bool
  pMinorHContext :: bool
  actions :: "action list"
  ctxMbWidth :: "32 word"
  ctxMbHeight :: "32 word"
  ctxFrmMbWidth :: "32 word"
  ctxFrmMbHeight :: "32 word"
  ctxFrmRealWidth :: "32 word"
  ctxFrmRealHeight :: "32 word"
  ctxCropLeft :: "32 word"
  ctxCropRight :: "32 word"
  ctxCropTop :: "32 word"
  ctxCropBottom :: "32 word"
  ctxFrameMbsOnlyFlag :: "8 word"
  ctxRefFrmCount :: int
  ctxScalingMatrixPresent :: "32 word"
  bProgressice :: "8 word"
  nColorPrimary :: int
  nFrameRate :: "32 word"
  nPicDuration :: int
  nFrameDuration :: int
  nSpsBufferNum :: "8 word"
  nSpsBufferIndex :: "8 word list"
  pSpsBuffers :: "H264SpsInfo option list"
  nNewSpsId :: "32 word"

definition MAX_SPS_COUNT :: nat where "MAX_SPS_COUNT = 32"

section \<open>Scaling lists\<close>

definition default_scaling4 :: "8 word list list" where
  "default_scaling4 =
    [[6, 13, 20, 28, 13, 20, 28, 32, 20, 28, 32, 37, 28, 32, 37, 42],
     [10, 14, 20, 24, 14, 20, 24, 27, 20, 24, 27, 30, 24, 27, 30, 34]]"

definition default_scaling8 :: "8 word list list" where
  "default_scaling8 =
    [[6, 10, 13, 16, 18, 23, 25, 27, 10, 11, 16, 18, 23, 25, 27, 29, 13, 16, 18, 23, 25, 27, 29,
      31, 16, 18, 23, 25, 27, 29, 31, 33, 18, 23, 25, 27, 29, 31, 33, 36, 23, 25, 27, 29, 31, 33,
      36, 38, 25, 27, 29, 31, 33, 36, 38, 40, 27, 29, 31, 33, 36, 38, 40, 42],
     [9, 13, 15, 17, 19, 21, 22, 24, 13, 13, 17, 19, 21, 22, 24, 25, 15, 17, 19, 21, 22, 24, 25,
      27, 17, 19, 21, 22, 24, 25, 27, 28, 19, 21, 22, 24, 25, 27, 28, 30, 21, 22, 24, 25, 27, 28,
      30, 32, 22, 24, 25, 27, 28, 30, 32, 33, 24, 25, 27, 28, 30, 32, 33, 35]]"

definition zigzag_scan :: "nat list" where
  "zigzag_scan = [0, 1, 4, 8, 5, 2, 3, 6, 9, 12, 13, 10, 7, 11, 14, 15]"

definition zigzag_scan8x8 :: "nat list" where
  "zigzag_scan8x8 =
     [0, 1, 8, 16, 9, 2, 3, 10, 17, 24, 32, 25, 18, 11, 4, 5, 12, 19, 26, 33, 40, 48, 41, 34, 27,
      20, 13, 6, 7, 14, 21, 28, 35, 42, 49, 56, 57, 50, 43, 36, 29, 22, 15, 23, 30, 37, 44, 51, 58,
      59, 52, 45, 38, 31, 39, 46, 53, 60, 61, 54, 47, 55, 62, 63]"

text \<open>
  The loop of \<^verbatim>\<open>H264DecodeScalingList\<close> over the scan positions still to fill; \<open>i\<close> tells the first round.
  When the first value is 0 the preset list is copied and the loop ends.
\<close>

fun scaling_loop :: "'r H264Reader \<Rightarrow> 8 word list \<Rightarrow> nat list \<Rightarrow> bool \<Rightarrow> int \<Rightarrow> int \<Rightarrow> 8 word list \<Rightarrow>
    'r \<Rightarrow> (8 word list \<times> 'r) res" where
  "scaling_loop R jvt [] i lst nxt fs = give fs"
| "scaling_loop R jvt (p # ps) i lst nxt fs =
     rd (if nxt \<noteq> 0
         then rd (GetSeGolomb R) (\<lambda>d. rd (attempt (int_result (lst + d))) (\<lambda>x. give (x AND 0xff)))
         else give nxt)
       (\<lambda>n. if i \<and> n = 0 then give jvt
            else let l = (if n \<noteq> 0 then n else lst)
                 in scaling_loop R jvt ps False l n (fs[p := word_of_int l]))"

definition H264DecodeScalingList :: "'r H264Reader \<Rightarrow> 8 word list \<Rightarrow> nat \<Rightarrow> 8 word list \<Rightarrow> 8 word list \<Rightarrow>
    'r \<Rightarrow> (8 word list \<times> 'r) res" where
  "H264DecodeScalingList R factors sz jvt_list fallback_list =
     rd (GetBits R 1) (\<lambda>b.
       if b = 0 then give fallback_list
       else scaling_loop R jvt_list (if sz = 16 then zigzag_scan else zigzag_scan8x8) True 8 8 factors)"

text \<open>
  \<^verbatim>\<open>H264DecodeScalingMatrices\<close>. For a sequence parameter set (\<open>isSps\<close>) the matrices filled are those of
  \<open>s\<close> itself; the caller stores the result there. \<open>t8\<close> is \<^verbatim>\<open>bTransform8x8Mode\<close> of the picture parameter set.
  The result: the new presence flag of the sequence, whether lists were coded, the two matrices.
\<close>

definition H264DecodeScalingMatrices :: "'r H264Reader \<Rightarrow> H264SpsInfo \<Rightarrow> bool \<Rightarrow> bool \<Rightarrow>
    8 word list list \<Rightarrow> 8 word list list \<Rightarrow>
    'r \<Rightarrow> ((int \<times> bool \<times> 8 word list list \<times> 8 word list list) \<times> 'r) res" where
  "H264DecodeScalingMatrices R s isSps t8 m4 m8 =
     (let fallbackSps = \<not> isSps \<and> bScalingMatrixPresent s \<noteq> 0;
          fb0 = (if fallbackSps then nScalingMatrix4 s ! 0 else default_scaling4 ! 0);
          fb1 = (if fallbackSps then nScalingMatrix4 s ! 3 else default_scaling4 ! 1);
          fb2 = (if fallbackSps then nScalingMatrix8 s ! 0 else default_scaling8 ! 0);
          fb3 = (if fallbackSps then nScalingMatrix8 s ! 1 else default_scaling8 ! 1);
          present = bScalingMatrixPresent s OR of_bool isSps
      in rd (GetBits R 1) (\<lambda>b.
        if b \<noteq> 0 then
          rd (H264DecodeScalingList R (m4 ! 0) 16 (default_scaling4 ! 0) fb0) (\<lambda>a0.
          rd (H264DecodeScalingList R (m4 ! 1) 16 (default_scaling4 ! 0) a0) (\<lambda>a1.
          rd (H264DecodeScalingList R (m4 ! 2) 16 (default_scaling4 ! 0) a1) (\<lambda>a2.
          rd (H264DecodeScalingList R (m4 ! 3) 16 (default_scaling4 ! 1) fb1) (\<lambda>a3.
          rd (H264DecodeScalingList R (m4 ! 4) 16 (default_scaling4 ! 1) a3) (\<lambda>a4.
          rd (H264DecodeScalingList R (m4 ! 5) 16 (default_scaling4 ! 1) a4) (\<lambda>a5.
          if isSps \<or> t8 then
            rd (H264DecodeScalingList R (m8 ! 0) 64 (default_scaling8 ! 0) fb2) (\<lambda>b0.
            rd (H264DecodeScalingList R (m8 ! 1) 64 (default_scaling8 ! 1) fb3) (\<lambda>b1.
              give (present, True, [a0, a1, a2, a3, a4, a5], [b0, b1])))
          else give (present, True, [a0, a1, a2, a3, a4, a5], m8)))))))
        else if fallbackSps then give (bScalingMatrixPresent s, False, nScalingMatrix4 s, nScalingMatrix8 s)
        else give (bScalingMatrixPresent s, False, m4, m8)))"

section \<open>HRD and VUI parameters\<close>

fun skip_cpb :: "'r H264Reader \<Rightarrow> nat \<Rightarrow> 'r \<Rightarrow> (unit \<times> 'r) res" where
  "skip_cpb R 0 = give ()"
| "skip_cpb R (Suc n) = drop_ue R (drop_ue R (drop_bits R 1 (skip_cpb R n)))"

definition H264DecodeHrdParameters :: "'r H264Reader \<Rightarrow> H264SpsInfo \<Rightarrow> 'r \<Rightarrow> (H264SpsInfo \<times> 'r) res" where
  "H264DecodeHrdParameters R s =
     rd (GetUeGolomb R) (\<lambda>w. drop_bits R 4 (drop_bits R 4 (
     rd (skip_cpb R (nat (sint (w + 1)))) (\<lambda>_. drop_bits R 5 (
     rd (GetBits R 5) (\<lambda>a. rd (GetBits R 5) (\<lambda>b. rd (GetBits R 5) (\<lambda>c.
       give (s\<lparr>nCpbRemovalDelayLength := a + 1, nDpbOutputDelayLength := b + 1,
               nTimeOffsetLength := ucast c\<rparr>)))))))))"

definition vui_aspect :: "'r H264Reader \<Rightarrow> H264SpsInfo \<Rightarrow> 'r \<Rightarrow> (H264SpsInfo \<times> 'r) res" where
  "vui_aspect R s =
     rd (GetBits R 1) (\<lambda>f.
       if f = 1 then rd (GetBits R 8) (\<lambda>idc.
         if (ucast idc :: 8 word) = 255 then
           rd (GetBits R 16) (\<lambda>w. rd (GetBits R 16) (\<lambda>h.
             give (if h \<noteq> 0 then s\<lparr>nAspectRatio := w * 1000 div h\<rparr> else s)))
         else give s)
       else give s)"

definition vui_overscan :: "'r H264Reader \<Rightarrow> 'r \<Rightarrow> (unit \<times> 'r) res" where
  "vui_overscan R = rd (GetBits R 1) (\<lambda>f. if f \<noteq> 0 then drop_bits R 1 (give ()) else give ())"

definition vui_signal :: "'r H264Reader \<Rightarrow> H264Header \<Rightarrow> 'r \<Rightarrow> (H264Header \<times> 'r) res" where
  "vui_signal R c =
     rd (GetBits R 1) (\<lambda>f.
       if f \<noteq> 0 then drop_bits R 3 (rd (GetBits R 1) (\<lambda>full.
         let c1 = c\<lparr>nColorPrimary := uint (ucast full :: 8 word) * 2 ^ 8\<rparr>
         in rd (GetBits R 1) (\<lambda>d.
           if d \<noteq> 0 then drop_bits R 8 (drop_bits R 8 (rd (GetBits R 8) (\<lambda>m.
             give (c1\<lparr>nColorPrimary := nColorPrimary c1 OR uint (ucast m :: 8 word)\<rparr>))))
           else give c1)))
       else give c)"

definition vui_chroma :: "'r H264Reader \<Rightarrow> 'r \<Rightarrow> (unit \<times> 'r) res" where
  "vui_chroma R = rd (GetBits R 1) (\<lambda>f. if f \<noteq> 0 then drop_ue R (drop_ue R (give ())) else give ())"

definition frame_rate :: "32 word \<Rightarrow> 32 word \<Rightarrow> H264Header \<Rightarrow> H264Header res" where
  "frame_rate ticks scale c =
     (if nFrameRate c \<noteq> 0 then Inr c
      else if ticks * 2 = 0 then Inl DivByZero
      else let r = scale div (ticks * 2); c1 = c\<lparr>nFrameRate := r\<rparr>
           in Inr (if r \<noteq> 0
             then c1\<lparr>nPicDuration := 1000000 div uint r, nFrameDuration := 1000000 div uint r\<rparr> else c1))"

definition vui_timing :: "'r H264Reader \<Rightarrow> H264Header \<Rightarrow> 'r \<Rightarrow> (H264Header \<times> 'r) res" where
  "vui_timing R c =
     rd (GetBits R 1) (\<lambda>f.
       if f \<noteq> 0 then rd (GetBits R 32) (\<lambda>ticks. rd (GetBits R 32) (\<lambda>scale.
         rd (attempt (frame_rate ticks scale c)) (\<lambda>c1. drop_bits R 1 (give c1))))
       else give c)"

definition vui_hrd :: "'r H264Reader \<Rightarrow> H264SpsInfo \<Rightarrow> 'r \<Rightarrow> (H264SpsInfo \<times> 'r) res" where
  "vui_hrd R s =
     rd (GetBits R 1) (\<lambda>n.
     let s1 = s\<lparr>bNalHrdParametersPresentFlag := n\<rparr> in
     rd (if n \<noteq> 0 then H264DecodeHrdParameters R s1 else give s1) (\<lambda>s2.
     rd (GetBits R 1) (\<lambda>v.
     let s3 = s2\<lparr>bVclHrdParametersPresentFlag := v\<rparr> in
     rd (if v \<noteq> 0 then H264DecodeHrdParameters R s3 else give s3) (\<lambda>s4.
     if n \<noteq> 0 \<or> v \<noteq> 0 then rd (GetBits R 1) (\<lambda>l. give (s4\<lparr>bLowDelayFlag := ucast l\<rparr>)) else give s4))))"

definition vui_restriction :: "'r H264Reader \<Rightarrow> H264SpsInfo \<Rightarrow> 'r \<Rightarrow> ((int \<times> H264SpsInfo) \<times> 'r) res" where
  "vui_restriction R s =
     rd (GetBits R 1) (\<lambda>p. rd (GetBits R 1) (\<lambda>b.
       let s1 = s\<lparr>bPicStructPresentFlag := ucast p, bBitstreamRestrictionFlag := sint b\<rparr>
       in if b \<noteq> 0 then
            drop_bits R 1 (drop_ue R (drop_ue R (drop_ue R (drop_ue R (
              rd (GetUeGolomb R) (\<lambda>n. drop_ue R (
                if n > 16 then give (VRESULT_ERR_FAIL, s1)
                else give (0, s1\<lparr>nNumReorderFrames := sint n\<rparr>))))))))
          else give (0, s1)))"

definition H264DecVuiParameters ::
    "'r H264Reader \<Rightarrow> H264Header \<Rightarrow> H264SpsInfo \<Rightarrow> 'r \<Rightarrow> ((int \<times> H264Header \<times> H264SpsInfo) \<times> 'r) res" where
  "H264DecVuiParameters R c s =
     rd (vui_aspect R s) (\<lambda>s1. rd (vui_overscan R) (\<lambda>_. rd (vui_signal R c) (\<lambda>c1. rd (vui_chroma R) (\<lambda>_.
     rd (vui_timing R c1) (\<lambda>c2. rd (vui_hrd R s1) (\<lambda>s2.
     rd (vui_restriction R s2) (\<lambda>(r, s3). give (r, c2, s3))))))))"

section \<open>The sequence parameter set\<close>

fun constraint_flags :: "'r H264Reader \<Rightarrow> nat list \<Rightarrow> 8 word \<Rightarrow> 'r \<Rightarrow> (8 word \<times> 'r) res" where
  "constraint_flags R [] acc = give acc"
| "constraint_flags R (k # ks) acc =
     rd (GetBits R 1) (\<lambda>f. constraint_flags R ks (acc OR ucast (push_bit k f)))"

text \<open>Profile, constraint flags, reserved bits, level and identifier\<close>

definition sps_start :: "'r H264Reader \<Rightarrow> 'r \<Rightarrow> ((8 word \<times> 8 word \<times> 32 word) \<times> 'r) res" where
  "sps_start R =
     rd (GetBits R 8) (\<lambda>p. rd (constraint_flags R [0, 1, 2, 3, 4, 5] 0) (\<lambda>f.
       drop_bits R 2 (drop_bits R 8 (rd (GetUeGolomb R) (\<lambda>i. give (ucast p, f, i))))))"

text \<open>The part of the high profiles\<close>

definition sps_high :: "'r H264Reader \<Rightarrow> H264Header \<Rightarrow> H264SpsInfo \<Rightarrow>
    'r \<Rightarrow> ((int \<times> H264Header \<times> H264SpsInfo) \<times> 'r) res" where
  "sps_high R c s =
     (if nProfileIdc s \<ge> 100 then
        rd (GetUeGolomb R) (\<lambda>t.
          if t \<noteq> 1 then give (VDECODE_RESULT_UNSUPPORTED, c, s)
          else rd (if t = 3 then drop_bits R 1 (give ()) else give ()) (\<lambda>_.
            drop_ue R (drop_ue R (drop_bits R 1 (
            rd (H264DecodeScalingMatrices R s True False (nScalingMatrix4 s) (nScalingMatrix8 s))
              (\<lambda>(present, _, m4, m8).
                give (VDECODE_RESULT_OK, c\<lparr>ctxScalingMatrixPresent := 1\<rparr>,
                  s\<lparr>bScalingMatrixPresent := present, nScalingMatrix4 := m4, nScalingMatrix8 := m8\<rparr>)))))))
      else give (VDECODE_RESULT_OK, c, s))"

fun poc_offsets :: "'r H264Reader \<Rightarrow> nat \<Rightarrow> nat \<Rightarrow> 16 word list \<Rightarrow> 'r \<Rightarrow> (16 word list \<times> 'r) res" where
  "poc_offsets R 0 i fs = give fs"
| "poc_offsets R (Suc n) i fs = rd (GetSeGolomb R) (\<lambda>x. poc_offsets R n (Suc i) (fs[i := word_of_int x]))"

definition sps_poc :: "'r H264Reader \<Rightarrow> H264SpsInfo \<Rightarrow> 'r \<Rightarrow> ((int \<times> H264SpsInfo) \<times> 'r) res" where
  "sps_poc R s =
     rd (GetUeGolomb R) (\<lambda>l. rd (GetUeGolomb R) (\<lambda>t.
     let s1 = s\<lparr>nLog2MaxFrmNum := sint (l + 4), nPocType := ucast t\<rparr>
     in if nPocType s1 = 0 then
          rd (GetUeGolomb R) (\<lambda>m. give (VDECODE_RESULT_OK, s1\<lparr>nLog2MaxPocLsb := m + 4\<rparr>))
        else if nPocType s1 = 1 then
          rd (GetBits R 1) (\<lambda>z. rd (GetSeGolomb R) (\<lambda>a. rd (GetSeGolomb R) (\<lambda>b. rd (GetUeGolomb R) (\<lambda>n.
            let s2 = s1\<lparr>bDeltaPicOrderAlwaysZeroFlag := ucast z, nOffsetForNonRefPic := a,
                        nOffsetForTopToBottomField := b, nPocCycleLength := n\<rparr>
            in if n > 256 then give (VRESULT_ERR_FAIL, s2)
               else rd (poc_offsets R (unat n) 0 (nOffsetForRefFrm s2)) (\<lambda>fs.
                 give (VDECODE_RESULT_OK, s2\<lparr>nOffsetForRefFrm := fs\<rparr>))))))
        else if nPocType s1 \<noteq> 2 then give (VRESULT_ERR_FAIL, s1)
        else give (VDECODE_RESULT_OK, s1)))"

text \<open>A new picture size ends the decoding; small sizes are taken for errors of the stream.\<close>

definition size_changed :: "H264Header \<Rightarrow> 32 word \<Rightarrow> 32 word \<Rightarrow> bool" where
  "size_changed c w h \<longleftrightarrow> w > 5 \<and> h > 4 \<and> ctxMbWidth c \<noteq> 0 \<and> ctxMbHeight c \<noteq> 0 \<and>
     (w \<noteq> ctxMbWidth c \<or> h \<noteq> ctxMbHeight c)"

definition on_size_change :: "H264Header \<Rightarrow> int \<times> H264Header" where
  "on_size_change c =
     (let c1 = (if \<not> frame_vbv c
                then if pVbvStreamData c
                     then c\<lparr>pVbvStreamData := False, actions := actions c @ [ReturnStreamData]\<rparr> else c
                else if pCurStreamFrame c
                     then c\<lparr>pCurStreamFrame := False, actions := actions c @ [ReturnStreamFrame]\<rparr> else c);
          c2 = (if pHContext c1 then c1\<lparr>actions := actions c1 @ [FlushDelayed]\<rparr> else c1);
          c3 = (if pMinorHContext c2 then c2\<lparr>actions := actions c2 @ [FlushDelayedMinor]\<rparr> else c2)
      in (if bIsAvc c then VDECODE_RESULT_UNSUPPORTED else VDECODE_RESULT_RESOLUTION_CHANGE, c3))"

definition sps_crop :: "'r H264Reader \<Rightarrow> 8 word \<Rightarrow> H264SpsInfo \<Rightarrow> 'r \<Rightarrow> (H264SpsInfo \<times> 'r) res" where
  "sps_crop R frmMbsOnly s =
     (let s0 = s\<lparr>nCropLeft := 0, nCropRight := 0, nCropTop := 0, nCropBottom := 0\<rparr>
      in rd (GetBits R 1) (\<lambda>f.
        if (ucast f :: 8 word) = 1 then
          drop_ue R (rd (GetUeGolomb R) (\<lambda>r. drop_ue R (rd (GetUeGolomb R) (\<lambda>b.
            give (s0\<lparr>nCropRight := r * 2, nCropBottom := b * (2 * (2 - ucast frmMbsOnly))\<rparr>)))))
        else give s0))"

definition frame_ratio :: "32 word \<Rightarrow> 32 word \<Rightarrow> 8 word res" where
  "frame_ratio w h =
     (if h = 0 then Inl DivByZero
      else let r = w * 1000 div h
           in Inr (if r \<le> 1460 then 1 else if r \<le> 1660 then 2 else if r \<le> 1900 then 3 else 4))"

text \<open>The rest of the sequence parameter set behind the size\<close>

definition sps_frame :: "'r H264Reader \<Rightarrow> 32 word \<Rightarrow> 32 word \<Rightarrow> H264Header \<Rightarrow> H264SpsInfo \<Rightarrow>
    'r \<Rightarrow> ((H264Header \<times> H264SpsInfo) \<times> 'r) res" where
  "sps_frame R w h c s =
     rd (GetBits R 1) (\<lambda>o1.
     let frm = (ucast o1 :: 8 word);
         s1 = s\<lparr>bFrameMbsOnlyFlag := frm, nMbWidth := w, nMbHeight := h, nFrmMbWidth := w * 16,
                nFrmMbHeight := h * (2 - ucast frm) * 16\<rparr>;
         c1 = c\<lparr>ctxMbWidth := w, ctxMbHeight := h, ctxFrmMbWidth := nFrmMbWidth s1,
                ctxFrmMbHeight := nFrmMbHeight s1, ctxFrameMbsOnlyFlag := frm, ctxRefFrmCount := nRefFrmCount s1\<rparr>
     in rd (if frm = 0 then GetBits R 1 else give 0) (\<lambda>a.
     let s2 = s1\<lparr>bMbAff := ucast a\<rparr>;
         c2 = (if bProgressice c1 = 0xFF then c1\<lparr>bProgressice := if bMbAff s2 = 1 then 0 else 0xFF\<rparr> else c1)
     in rd (GetBits R 1) (\<lambda>d.
     rd (sps_crop R frm (s2\<lparr>bDirect8x8InferenceFlag := ucast d\<rparr>)) (\<lambda>s3.
     let rw = nFrmMbWidth s3 - nCropLeft s3 - nCropRight s3;
         rh = nFrmMbHeight s3 - nCropTop s3 - nCropBottom s3;
         c3 = c2\<lparr>ctxCropLeft := nCropLeft s3, ctxCropRight := nCropRight s3, ctxCropTop := nCropTop s3,
                 ctxCropBottom := nCropBottom s3, ctxFrmRealWidth := rw, ctxFrmRealHeight := rh\<rparr>
     in rd (attempt (frame_ratio rw rh)) (\<lambda>q.
     let s4 = s3\<lparr>nFrmRealWidth := rw, nFrmRealHeight := rh, bCodedFrameRatio := q, nAspectRatio := 1000\<rparr>
     in rd (GetBits R 1) (\<lambda>v.
     if (ucast v :: 8 word) = 1 then rd (H264DecVuiParameters R c3 s4) (\<lambda>(_, c4, s5). give (c4, s5))
     else give (c3, s4)))))))"

text \<open>
  \<^verbatim>\<open>H264AllocParameterSet\<close>: the entry, created and cleared when it is empty. \<open>mem\<close> tells whether \<^verbatim>\<open>malloc\<close>
  succeeds; its result is cleared without a test.
\<close>

definition H264AllocParameterSet :: "bool \<Rightarrow> 'a \<Rightarrow> 'a option list \<Rightarrow> nat \<Rightarrow> nat \<Rightarrow> ('a option list \<times> bool) res" where
  "H264AllocParameterSet mem blank vec i maxCount =
     (if i \<ge> maxCount then Inr (vec, False)
      else if i \<ge> length vec then Inl OutOfBounds
      else case vec ! i of
             None \<Rightarrow> if mem then Inr (vec[i := Some blank], True) else Inl NullDeref
           | Some _ \<Rightarrow> Inr (vec, True))"

definition sps_store :: "bool \<Rightarrow> H264Header \<Rightarrow> 32 word \<Rightarrow> H264SpsInfo \<Rightarrow> (int \<times> H264Header) res" where
  "sps_store mem c spsId s =
     (let i = unat spsId;
          c1 = (if pSpsBuffers c ! i = None \<and> nSpsBufferNum c < 32
                then c\<lparr>nSpsBufferIndex := (nSpsBufferIndex c)[unat (nSpsBufferNum c) := ucast spsId],
                       nSpsBufferNum := nSpsBufferNum c + 1\<rparr>
                else c)
      in and_then (H264AllocParameterSet mem zero_sps (pSpsBuffers c1) i MAX_SPS_COUNT) (\<lambda>(vec, found).
           if \<not> found
           then Inr (VDECODE_RESULT_UNSUPPORTED, c1\<lparr>pSpsBuffers := vec, nSpsBufferNum := nSpsBufferNum c1 - 1\<rparr>)
           else Inr (VDECODE_RESULT_OK, c1\<lparr>pSpsBuffers := vec[i := Some s], nNewSpsId := spsId\<rparr>)))"

definition H264DecodeSps :: "'r H264Reader \<Rightarrow> bool \<Rightarrow> H264Header \<Rightarrow> 'r \<Rightarrow> ((int \<times> H264Header) \<times> 'r) res" where
  "H264DecodeSps R mem c =
     rd (sps_start R) (\<lambda>(p, f, spsId).
     if spsId \<ge> 32 then give (VRESULT_ERR_FAIL, c)
     else rd (sps_high R c (zero_sps\<lparr>nTimeOffsetLength := 24, bConstraintSetFlags := f, nProfileIdc := ucast p,
                                    bScalingMatrixPresent := 0\<rparr>)) (\<lambda>(e1, c1, s1).
     if e1 \<noteq> VDECODE_RESULT_OK then give (e1, c1)
     else rd (sps_poc R s1) (\<lambda>(e2, s2).
     if e2 \<noteq> VDECODE_RESULT_OK then give (e2, c1)
     else rd (GetUeGolomb R) (\<lambda>n. rd (GetBits R 1) (\<lambda>g. rd (GetUeGolomb R) (\<lambda>w1. rd (GetUeGolomb R) (\<lambda>h1.
     let s3 = s2\<lparr>nRefFrmCount := sint n, gaps_in_frame_num_value_allowed_flag := sint g\<rparr>
     in if size_changed c1 (w1 + 1) (h1 + 1) then give (on_size_change c1)
        else rd (sps_frame R (w1 + 1) (h1 + 1) c1 s3) (\<lambda>(c2, s4). attempt (sps_store mem c2 spsId s4)))))))))"

end
