(* ===== verification/H264SpsSyntax.thy ===== *)
theory H264SpsSyntax
  imports H264Sps
begin

text \<open>
  The syntax of a sequence parameter set as the H.264 standard writes it (7.3.2.1, E.1): abstract values,
  their bits, and what the decoder makes of them. Inside the reader interface, each part of the parser is
  shown to turn the bits of a value into its meaning.
\<close>

definition flag :: "bool \<Rightarrow> bool list" where
  "flag b = to_bits 1 (of_bool b)"

context syntax_reader begin

lemma rd_flag: "parses (k (of_bool b)) cs y \<Longrightarrow> parses (rd (GetBits R 1) k) (flag b @ cs) y"
  using rd_bits [of 1 "of_bool b" k cs y] unfolding flag_def by (cases b) simp_all

lemma drop_flag: "parses p cs y \<Longrightarrow> parses (drop_bits R 1 p) (flag b @ cs) y"
  unfolding drop_bits_def by (rule rd_flag)

text \<open>The same at the end of the bits\<close>

lemma rd_flag_end: "parses (k (of_bool b)) [] y \<Longrightarrow> parses (rd (GetBits R 1) k) (flag b) y"
  using rd_flag [of k b "[]" y] by simp

lemma rd_bits_end: "0 < n \<Longrightarrow> n \<le> 25 \<Longrightarrow> v < 2 ^ n \<Longrightarrow> parses (k (of_nat v)) [] y \<Longrightarrow>
    parses (rd (GetBits R n) k) (to_bits n v) y"
  using rd_bits [of n v k "[]" y] by simp

lemma rd_ue_end: "Suc v < 2 ^ 13 \<Longrightarrow> parses (k (of_nat v)) [] y \<Longrightarrow> parses (rd (GetUeGolomb R) k) (ue_bits v) y"
  using rd_ue [of v k "[]" y] by simp

lemma drop_flag_end: "parses p [] y \<Longrightarrow> parses (drop_bits R 1 p) (flag b) y"
  using drop_flag [of p "[]" y b] by simp

lemma drop_ue_end: "Suc v < 2 ^ 13 \<Longrightarrow> parses p [] y \<Longrightarrow> parses (drop_ue R p) (ue_bits v) y"
  using drop_ue_step [of v p "[]" y] by simp

lemmas steps = rd_flag rd_flag [unfolded One_nat_def] drop_flag drop_flag [unfolded One_nat_def] rd_bits rd_ue rd_se drop_bits_step drop_ue_step rd_give
lemmas ends = rd_flag_end rd_flag_end [unfolded One_nat_def] rd_bits_end rd_ue_end drop_flag_end
  drop_flag_end [unfolded One_nat_def] drop_ue_end

end

section \<open>Scaling lists\<close>

text \<open>
  A list is absent, asks for the preset one, or is coded: \<open>Coded F k\<close> codes the first \<open>k\<close> values of \<open>F\<close> in
  scan order as differences; the others repeat the last of them.
\<close>

datatype scaling = Absent | Preset | Coded "8 word list" nat

definition delta :: "int \<Rightarrow> int \<Rightarrow> int" where
  "delta a b = (b - a + 128) mod 256 - 128"

fun deltas :: "int \<Rightarrow> int list \<Rightarrow> bool list" where
  "deltas a [] = []"
| "deltas a (v # vs) = se_bits (delta a v) @ deltas v vs"

definition scan_of :: "nat \<Rightarrow> nat list" where
  "scan_of sz = (if sz = 16 then zigzag_scan else zigzag_scan8x8)"

definition in_scan :: "8 word list \<Rightarrow> int list" where
  "in_scan F = map (\<lambda>p. uint (F ! p)) (scan_of (length F))"

fun scaling_bits :: "scaling \<Rightarrow> bool list" where
  "scaling_bits Absent = flag False"
| "scaling_bits Preset = flag True @ se_bits (-8)"
| "scaling_bits (Coded F k) = flag True @ deltas 8 (take k (in_scan F)) @
     (if k < length F then se_bits (delta (in_scan F ! (k - 1)) 0) else [])"

fun scaling_ok :: "nat \<Rightarrow> scaling \<Rightarrow> bool" where
  "scaling_ok sz (Coded F k) \<longleftrightarrow> length F = sz \<and> 0 \<notin> set F \<and> 0 < k \<and> k \<le> sz \<and>
     (\<forall>j < sz. k \<le> j \<longrightarrow> in_scan F ! j = in_scan F ! (k - 1))"
| "scaling_ok sz _ \<longleftrightarrow> True"

fun scaling_value :: "8 word list \<Rightarrow> 8 word list \<Rightarrow> scaling \<Rightarrow> 8 word list" where
  "scaling_value jvt fallback Absent = fallback"
| "scaling_value jvt fallback Preset = jvt"
| "scaling_value jvt fallback (Coded F k) = F"

lemma delta_range: "- 128 \<le> delta a b" "delta a b < 128"
  by (simp_all add: delta_def)

lemma delta_apply: "0 \<le> b \<Longrightarrow> b < 256 \<Longrightarrow> (a + delta a b) AND 0xff = b"
proof -
  assume b: "0 \<le> b" "b < 256"
  have "(a + delta a b) AND 0xff = (a + delta a b) mod 256"
    using take_bit_eq_mask [of 8 "a + delta a b"] by (simp add: take_bit_eq_mod mask_eq_exp_minus_1)
  also have "\<dots> = ((b - a + 128) mod 256 + (a - 128)) mod 256" by (simp add: delta_def algebra_simps)
  also have "\<dots> = b mod 256" unfolding mod_add_left_eq by simp
  finally show ?thesis using b by simp
qed

lemma delta_code: "Suc (se_code (delta a b)) < 2 ^ 25"
  using delta_range [of a b] by (auto simp: se_code_def)

lemma step_in_range: "0 \<le> a \<Longrightarrow> a < 256 \<Longrightarrow> int_result (a + delta a b) = Inr (a + delta a b)"
  using delta_range [of a b] by simp

text \<open>Filling in the values one by one rebuilds the list.\<close>

fun fill :: "nat list \<Rightarrow> int list \<Rightarrow> 8 word list \<Rightarrow> 8 word list" where
  "fill (p # ps) (v # vs) fs = fill ps vs (fs[p := word_of_int v])"
| "fill ps vs fs = fs"

lemma length_fill [simp]: "length (fill ps vs fs) = length fs"
  by (induction ps vs fs rule: fill.induct) simp_all

lemma fill_nth: "distinct ps \<Longrightarrow> length vs = length ps \<Longrightarrow> i < length fs \<Longrightarrow>
    fill ps vs fs ! i = (if i \<in> set ps then fill ps vs fs ! i else fs ! i)"
proof (induction ps vs fs rule: fill.induct)
  case (1 p ps v vs fs)
  then show ?case by (auto simp: nth_list_update)
qed simp_all

lemma fill_list: "distinct ps \<Longrightarrow> i < length fs \<Longrightarrow>
    fill ps (map (\<lambda>p. uint (F ! p)) ps) fs ! i = (if i \<in> set ps then F ! i else fs ! i)"
proof (induction ps arbitrary: fs)
  case (Cons p ps)
  then show ?case by (cases "i = p") auto
qed simp

lemma scan_perm: "set (scan_of sz) = {..<length (scan_of sz)}" "distinct (scan_of sz)"
proof -
  have "set zigzag_scan = {..<16}" "set zigzag_scan8x8 = {..<64}" "distinct zigzag_scan" "distinct zigzag_scan8x8"
    by code_simp+
  moreover have "length zigzag_scan = 16" "length zigzag_scan8x8 = 64"
    by (simp_all add: zigzag_scan_def zigzag_scan8x8_def)
  ultimately show "set (scan_of sz) = {..<length (scan_of sz)}" "distinct (scan_of sz)"
    by (simp_all add: scan_of_def)
qed

lemma length_scan: "sz = 16 \<or> sz = 64 \<Longrightarrow> length (scan_of sz) = sz"
  by (auto simp: scan_of_def zigzag_scan_def zigzag_scan8x8_def)

lemma fill_scan:
  assumes "length F = sz" "length fs = sz" "sz = 16 \<or> sz = 64"
  shows "fill (scan_of sz) (in_scan F) fs = F"
proof (rule nth_equalityI)
  fix i assume "i < length (fill (scan_of sz) (in_scan F) fs)"
  then have "i < sz" using assms by simp
  moreover from this have "i \<in> set (scan_of sz)" unfolding scan_perm using length_scan [OF assms(3)] by simp
  ultimately show "fill (scan_of sz) (in_scan F) fs ! i = F ! i"
    using fill_list [of "scan_of sz" i fs F] scan_perm(2) assms unfolding in_scan_def by simp
qed (use assms in simp)

lemma fill_append: "length ps = length vs \<Longrightarrow> fill (ps @ qs) (vs @ ws) fs = fill qs ws (fill ps vs fs)"
  by (induction ps vs fs rule: fill.induct) simp_all

context syntax_reader begin

text \<open>The two phases of the loop: coded values, then repetitions that read nothing.\<close>

lemma repeat_loop: "parses (scaling_loop R jvt ps False l 0 fs) [] (fill ps (replicate (length ps) l) fs)"
proof (induction ps arbitrary: fs)
  case (Cons p ps)
  then show ?case by (simp add: rd_give)
qed simp

lemma read_delta: "0 \<le> l \<Longrightarrow> l < 256 \<Longrightarrow> 0 \<le> v \<Longrightarrow> v < 256 \<Longrightarrow>
    parses (rd (GetSeGolomb R) (\<lambda>d. rd (attempt (int_result (l + d))) (\<lambda>x. give (x AND 0xff)))) (se_bits (delta l v)) v"
  using rd_se [OF delta_code [of l v], where k = "\<lambda>d. rd (attempt (int_result (l + d))) (\<lambda>x. give (x AND 0xff))" and
      cs = "[]" and y = v]
    rd_attempt [OF step_in_range [of l v], where k = "\<lambda>x. give (x AND 0xff)" and cs = "[]" and y = v] delta_apply [of v l]
  by simp

lemma coded_loop:
  assumes "length vs \<le> length ps" "\<forall>v\<in>set vs. 0 < v \<and> v < 256" "0 < l" "l < 256" "vs \<noteq> [] \<or> \<not> i" "n \<noteq> 0"
    "parses (scaling_loop R jvt (drop (length vs) ps) False (last (l # vs)) (last (n # vs))
       (fill (take (length vs) ps) vs fs)) cs y"
  shows "parses (scaling_loop R jvt ps i l n fs) (deltas l vs @ cs) y"
  using assms
proof (induction vs arbitrary: ps i l n fs)
  case Nil
  then show ?case by simp
next
  case (Cons v vs)
  then obtain p qs where ps: "ps = p # qs" by (cases ps) auto
  have v: "0 < v" "v < 256" using Cons.prems(2) by auto
  have rest: "parses (scaling_loop R jvt qs False v v (fs[p := word_of_int v])) (deltas v vs @ cs) y"
    by (rule Cons.IH) (use Cons.prems v in \<open>auto simp: ps\<close>)
  note step = read_delta [of l v]
  show ?case using parses_rd [OF step, of _ "deltas v vs @ cs" y] rest v Cons.prems
    by (simp add: ps)
qed

end

lemma in_scan_props:
  assumes "scaling_ok sz (Coded F k)" "sz = 16 \<or> sz = 64"
  shows "length (in_scan F) = sz" "\<forall>v\<in>set (in_scan F). 0 < v \<and> v < 256"
proof -
  have F: "length F = sz" "0 \<notin> set F" using assms(1) by simp_all
  show l: "length (in_scan F) = sz" using F length_scan [OF assms(2)] by (simp add: in_scan_def)
  have "0 < uint (F ! p) \<and> uint (F ! p) < 256" if "p \<in> set (scan_of sz)" for p
  proof -
    have "p < length F" using that F(1) length_scan [OF assms(2)] unfolding scan_perm by simp
    then have "F ! p \<noteq> 0" using F(2) nth_mem by metis
    then have "uint (F ! p) \<noteq> uint (0 :: 8 word)" unfolding word_uint_eq_iff .
    moreover have "0 \<le> uint (F ! p)" "uint (F ! p) < 2 ^ 8" using uint_bounded [of "F ! p"] by simp_all
    ultimately show ?thesis by (simp add: order_le_less)
  qed
  then show "\<forall>v\<in>set (in_scan F). 0 < v \<and> v < 256" unfolding in_scan_def F(1) by simp
qed

context syntax_reader begin

lemma scaling_list:
  assumes "scaling_ok sz sc" "length fs = sz" "sz = 16 \<or> sz = 64"
  shows "parses (H264DecodeScalingList R fs sz jvt fb) (scaling_bits sc) (scaling_value jvt fb sc)"
proof (cases sc)
  case Absent
  then show ?thesis unfolding H264DecodeScalingList_def by (auto intro!: ends)
next
  case Preset
  define ps where "ps = tl (scan_of sz)"
  have scan: "(if sz = 16 then zigzag_scan else zigzag_scan8x8) = 0 # ps"
    using assms(3) by (auto simp: scan_of_def ps_def zigzag_scan_def zigzag_scan8x8_def)
  have "parses (scaling_loop R jvt (0 # ps) True 8 8 fs) (se_bits (- 8)) jvt"
    using parses_rd [OF read_delta [of 8 0], of _ "[]" jvt] by (simp add: delta_def)
  then show ?thesis unfolding H264DecodeScalingList_def scan Preset by (auto intro!: steps)
next
  case (Coded F k)
  note ok = assms(1) [unfolded Coded]
  define V where "V = in_scan F"
  define ps where "ps = scan_of sz"
  define l where "l = V ! (k - 1)"
  have F: "length F = sz" "0 < k" "k \<le> sz" "\<forall>j < sz. k \<le> j \<longrightarrow> V ! j = l" using ok by (simp_all add: V_def l_def)
  note V = in_scan_props [OF ok assms(3), folded V_def]
  have len: "length ps = sz" using length_scan assms(3) by (simp add: ps_def)
  have take: "take k V \<noteq> []" "length (take k V) = k" using F V by auto
  have lst: "last (take k V) = l" using F V take by (simp add: l_def last_conv_nth)
  have l: "0 < l" "l < 256" using V F by (auto simp: l_def)
  have split: "V = take k V @ replicate (sz - k) l"
  proof (rule nth_equalityI)
    fix i assume "i < length V"
    then show "V ! i = (take k V @ replicate (sz - k) l) ! i" using V F by (auto simp: nth_append)
  qed (use V F in simp)
  have "fill ps V fs = fill (take k ps @ drop k ps) (take k V @ replicate (sz - k) l) fs"
    using split by simp
  also have "\<dots> = fill (drop k ps) (replicate (sz - k) l) (fill (take k ps) (take k V) fs)"
    by (rule fill_append) (use take F len in simp)
  finally have fill: "fill (drop k ps) (replicate (sz - k) l) (fill (take k ps) (take k V) fs) = F"
    using fill_scan [OF F(1) assms(2,3)] by (simp add: ps_def V_def)
  have tail: "parses (scaling_loop R jvt (drop k ps) False l l (fill (take k ps) (take k V) fs))
      (if k < sz then se_bits (delta l 0) else []) F"
  proof (cases "k < sz")
    case True
    then obtain q qs where q: "drop k ps = q # qs" using len by (cases "drop k ps") auto
    have r: "replicate (sz - k) l = l # replicate (length qs) l"
      using arg_cong [OF q, of length] len by (simp flip: replicate_Suc)
    have s: "parses (rd (GetSeGolomb R) (\<lambda>d. rd (attempt (int_result (l + d))) (\<lambda>x. give (x AND 0xff))))
        (se_bits (delta l 0)) 0"
      by (rule read_delta) (use l in simp_all)
    have "parses (scaling_loop R jvt qs False l 0 ((fill (take k ps) (take k V) fs)[q := word_of_int l])) [] F"
      using repeat_loop [of jvt qs l "(fill (take k ps) (take k V) fs)[q := word_of_int l]"] fill
      unfolding q r by simp
    then show ?thesis using parses_rd [OF s, where cs = "[]" and y = F] l True unfolding q by simp
  next
    case False
    then show ?thesis using F len fill by simp
  qed
  have "parses (scaling_loop R jvt ps True 8 8 fs) (deltas 8 (take k V) @ (if k < sz then se_bits (delta l 0) else [])) F"
    by (rule coded_loop) (use take V F len l lst tail in \<open>auto dest: in_set_takeD\<close>)
  then show ?thesis unfolding H264DecodeScalingList_def Coded
    using F(1) by (auto intro!: steps simp: ps_def scan_of_def V_def l_def)
qed

end

end
