(* ===== verification/H264SpsParts.thy ===== *)
theory H264SpsParts
  imports H264SpsSyntax
begin

text \<open>
  The parts of a sequence parameter set: scaling matrices, HRD and VUI parameters, picture order count,
  cropping. Each has its abstract syntax, its bits and the fields it leaves in \<^verbatim>\<open>H264SpsInfo\<close>.
\<close>

section \<open>Scaling matrices\<close>

fun lists_ok :: "scaling list \<Rightarrow> bool" where
  "lists_ok [a0, a1, a2, a3, a4, a5, b0, b1] \<longleftrightarrow> list_all (scaling_ok 16) [a0, a1, a2, a3, a4, a5] \<and>
     list_all (scaling_ok 64) [b0, b1]"
| "lists_ok _ \<longleftrightarrow> False"

definition matrices_bits :: "scaling list option \<Rightarrow> bool list" where
  "matrices_bits m = (case m of None \<Rightarrow> flag False | Some ls \<Rightarrow> flag True @ concat (map scaling_bits ls))"

text \<open>An absent list takes the one before it, the first of a kind the default (table 7-2, fall-back rule A).\<close>

fun matrices_value :: "scaling list option \<Rightarrow> 8 word list list \<times> 8 word list list" where
  "matrices_value (Some [a0, a1, a2, a3, a4, a5, b0, b1]) =
     (let d = default_scaling4; e = default_scaling8;
          x0 = scaling_value (d ! 0) (d ! 0) a0; x1 = scaling_value (d ! 0) x0 a1; x2 = scaling_value (d ! 0) x1 a2;
          x3 = scaling_value (d ! 1) (d ! 1) a3; x4 = scaling_value (d ! 1) x3 a4; x5 = scaling_value (d ! 1) x4 a5
      in ([x0, x1, x2, x3, x4, x5], [scaling_value (e ! 0) (e ! 0) b0, scaling_value (e ! 1) (e ! 1) b1]))"
| "matrices_value _ = (replicate 6 (replicate 16 0), replicate 2 (replicate 64 0))"

context syntax_reader begin

lemma list_step: "scaling_ok sz sc \<Longrightarrow> length fs = sz \<Longrightarrow> sz = 16 \<or> sz = 64 \<Longrightarrow>
    parses (k (scaling_value jvt fb sc)) cs y \<Longrightarrow>
    parses (rd (H264DecodeScalingList R fs sz jvt fb) k) (scaling_bits sc @ cs) y"
  by (rule parses_rd [OF scaling_list])

lemma list_end: "scaling_ok sz sc \<Longrightarrow> length fs = sz \<Longrightarrow> sz = 16 \<or> sz = 64 \<Longrightarrow>
    parses (k (scaling_value jvt fb sc)) [] y \<Longrightarrow>
    parses (rd (H264DecodeScalingList R fs sz jvt fb) k) (scaling_bits sc) y"
  using list_step [of sz sc fs k jvt fb "[]" y] by simp

lemma matrices:
  assumes "bScalingMatrixPresent s = 0" "case m of None \<Rightarrow> True | Some ls \<Rightarrow> lists_ok ls"
    "m4 = replicate 6 (replicate 16 0)" "m8 = replicate 2 (replicate 64 0)"
  shows "parses (H264DecodeScalingMatrices R s True t8 m4 m8) (matrices_bits m)
    (of_bool (m \<noteq> None), m \<noteq> None, matrices_value m)"
proof (cases m)
  case None
  then show ?thesis using assms
    by (auto intro!: ends simp: H264DecodeScalingMatrices_def matrices_bits_def)
next
  case (Some ls)
  then obtain a0 a1 a2 a3 a4 a5 b0 b1 where ls: "ls = [a0, a1, a2, a3, a4, a5, b0, b1]"
    using assms(2) by (cases ls rule: lists_ok.cases) auto
  have ok: "scaling_ok 16 a0" "scaling_ok 16 a1" "scaling_ok 16 a2" "scaling_ok 16 a3" "scaling_ok 16 a4"
    "scaling_ok 16 a5" "scaling_ok 64 b0" "scaling_ok 64 b1" using assms(2) Some ls by simp_all
  have l: "length (m4 ! i) = 16" if "i < 6" for i using assms(3) that by simp
  have l8: "length (m8 ! i) = 64" if "i < 2" for i using assms(4) that by simp
  have bits: "matrices_bits m = flag True @ scaling_bits a0 @ scaling_bits a1 @ scaling_bits a2 @ scaling_bits a3 @
      scaling_bits a4 @ scaling_bits a5 @ scaling_bits b0 @ scaling_bits b1"
    by (simp add: matrices_bits_def Some ls)
  have s: "(\<not> True \<and> bScalingMatrixPresent s \<noteq> 0) = False" "bScalingMatrixPresent s OR of_bool True = 1"
    using assms(1) by simp_all
  show ?thesis unfolding H264DecodeScalingMatrices_def bits Let_def s if_False
    by (rule rd_flag, simp add: Some del: One_nat_def)
      (intro list_step list_end; simp add: ok l l8 ls Let_def)
qed

end

section \<open>Conversions\<close>

lemma u8_of_nat [simp]: "ucast (of_nat n :: 32 word) = (of_nat n :: 8 word)"
  by (rule bit_eqI) (auto simp: bit_simps)

lemma u8_of_bool [simp]: "ucast (of_bool b :: 32 word) = (of_bool b :: 8 word)"
  by (cases b) simp_all

lemma s32_of_bool [simp]: "sint (of_bool b :: 32 word) = of_bool b"
  by (cases b) simp_all

lemma s32_of_nat: "n < 2 ^ 31 \<Longrightarrow> sint (of_nat n :: 32 word) = int n"
proof -
  assume n: "n < 2 ^ 31"
  then have "unat (of_nat n :: 32 word) = n" by (simp add: unat_of_nat take_bit_nat_eq_self)
  then show ?thesis using sint_small [of "of_nat n"] n by simp
qed

section \<open>HRD parameters\<close>

text \<open>Scales, the rate, size and mode of each buffer, and four lengths\<close>

datatype hrd = Hrd nat nat "(nat \<times> nat \<times> bool) list" nat nat nat nat

fun cpb_bits :: "nat \<times> nat \<times> bool \<Rightarrow> bool list" where
  "cpb_bits (a, b, c) = ue_bits a @ ue_bits b @ flag c"

fun cpb_ok :: "nat \<times> nat \<times> bool \<Rightarrow> bool" where
  "cpb_ok (a, b, c) \<longleftrightarrow> Suc a < 2 ^ 13 \<and> Suc b < 2 ^ 13"

fun hrd_bits :: "hrd \<Rightarrow> bool list" where
  "hrd_bits (Hrd rate sz xs i c d t) = ue_bits (length xs - 1) @ to_bits 4 rate @ to_bits 4 sz @
     concat (map cpb_bits xs) @ to_bits 5 i @ to_bits 5 c @ to_bits 5 d @ to_bits 5 t"

fun hrd_ok :: "hrd \<Rightarrow> bool" where
  "hrd_ok (Hrd rate sz xs i c d t) \<longleftrightarrow> rate < 16 \<and> sz < 16 \<and> xs \<noteq> [] \<and> length xs \<le> 32 \<and> list_all cpb_ok xs \<and>
     i < 32 \<and> c < 32 \<and> d < 32 \<and> t < 32"

fun hrd_value :: "hrd \<Rightarrow> H264SpsInfo \<Rightarrow> H264SpsInfo" where
  "hrd_value (Hrd rate sz xs i c d t) s =
     s\<lparr>nCpbRemovalDelayLength := of_nat c + 1, nDpbOutputDelayLength := of_nat d + 1, nTimeOffsetLength := of_nat t\<rparr>"

context syntax_reader begin

lemma cpbs: "list_all cpb_ok xs \<Longrightarrow> parses (skip_cpb R (length xs)) (concat (map cpb_bits xs)) ()"
proof (induction xs)
  case (Cons x xs)
  then show ?case by (cases x) (auto intro!: steps)
qed simp

lemma hrd:
  assumes "hrd_ok h"
  shows "parses (H264DecodeHrdParameters R s) (hrd_bits h) (hrd_value h s)"
proof (cases h)
  case (Hrd rate sz xs i c d t)
  note ok = assms [unfolded Hrd hrd_ok.simps]
  have "nat (sint (of_nat (length xs - 1) + 1 :: 32 word)) = length xs"
    using ok s32_of_nat [of "length xs"] by (cases xs) (simp_all add: add.commute)
  then have p: "parses (skip_cpb R (nat (sint (of_nat (length xs - 1) + 1 :: 32 word)))) (concat (map cpb_bits xs)) ()"
    using cpbs ok by simp
  show ?thesis unfolding H264DecodeHrdParameters_def Hrd hrd_bits.simps
    by (intro steps ends parses_rd [OF p]; (use ok in simp)?)
qed

end

section \<open>VUI parameters\<close>

datatype aspect = NoAspect | Idc nat | Sar nat nat

text \<open>
  Aspect ratio, overscan, video signal, chroma location, HRD parameters, low delay, picture structure,
  restrictions (with the number of reordered frames). The timing information is absent: its fields of 32 bits
  are outside the laws of the reader.
\<close>

record vui =
  vAspect :: aspect
  vOverscan :: "bool option"
  vSignal :: "(nat \<times> bool \<times> (nat \<times> nat \<times> nat) option) option"
  vChroma :: "(nat \<times> nat) option"
  vNal :: "hrd option"
  vVcl :: "hrd option"
  vLowDelay :: bool
  vPicStruct :: bool
  vRestriction :: "(bool \<times> nat \<times> nat \<times> nat \<times> nat \<times> nat \<times> nat) option"

fun aspect_bits :: "aspect \<Rightarrow> bool list" where
  "aspect_bits NoAspect = flag False"
| "aspect_bits (Idc i) = flag True @ to_bits 8 i"
| "aspect_bits (Sar w h) = flag True @ to_bits 8 255 @ to_bits 16 w @ to_bits 16 h"

fun aspect_ok :: "aspect \<Rightarrow> bool" where
  "aspect_ok NoAspect \<longleftrightarrow> True"
| "aspect_ok (Idc i) \<longleftrightarrow> i < 255"
| "aspect_ok (Sar w h) \<longleftrightarrow> w < 2 ^ 16 \<and> h < 2 ^ 16"

fun aspect_value :: "aspect \<Rightarrow> H264SpsInfo \<Rightarrow> H264SpsInfo" where
  "aspect_value (Sar w h) s = (if h = 0 then s else s\<lparr>nAspectRatio := of_nat (w * 1000 div h)\<rparr>)"
| "aspect_value _ s = s"

fun overscan_bits :: "bool option \<Rightarrow> bool list" where
  "overscan_bits None = flag False"
| "overscan_bits (Some b) = flag True @ flag b"

fun signal_bits :: "(nat \<times> bool \<times> (nat \<times> nat \<times> nat) option) option \<Rightarrow> bool list" where
  "signal_bits None = flag False"
| "signal_bits (Some (f, r, None)) = flag True @ to_bits 3 f @ flag r @ flag False"
| "signal_bits (Some (f, r, Some (p, t, m))) =
     flag True @ to_bits 3 f @ flag r @ flag True @ to_bits 8 p @ to_bits 8 t @ to_bits 8 m"

fun signal_ok :: "(nat \<times> bool \<times> (nat \<times> nat \<times> nat) option) option \<Rightarrow> bool" where
  "signal_ok None \<longleftrightarrow> True"
| "signal_ok (Some (f, r, None)) \<longleftrightarrow> f < 8"
| "signal_ok (Some (f, r, Some (p, t, m))) \<longleftrightarrow> f < 8 \<and> p < 256 \<and> t < 256 \<and> m < 256"

fun signal_value :: "(nat \<times> bool \<times> (nat \<times> nat \<times> nat) option) option \<Rightarrow> H264Header \<Rightarrow> H264Header" where
  "signal_value None c = c"
| "signal_value (Some (f, r, None)) c = c\<lparr>nColorPrimary := of_bool r * 256\<rparr>"
| "signal_value (Some (f, r, Some (p, t, m))) c = c\<lparr>nColorPrimary := of_bool r * 256 + int m\<rparr>"

fun chroma_bits :: "(nat \<times> nat) option \<Rightarrow> bool list" where
  "chroma_bits None = flag False"
| "chroma_bits (Some (a, b)) = flag True @ ue_bits a @ ue_bits b"

fun chroma_ok :: "(nat \<times> nat) option \<Rightarrow> bool" where
  "chroma_ok None \<longleftrightarrow> True"
| "chroma_ok (Some (a, b)) \<longleftrightarrow> a < 6 \<and> b < 6"

fun opt_hrd_bits :: "hrd option \<Rightarrow> bool list" where
  "opt_hrd_bits None = flag False"
| "opt_hrd_bits (Some h) = flag True @ hrd_bits h"

fun opt_hrd_value :: "hrd option \<Rightarrow> H264SpsInfo \<Rightarrow> H264SpsInfo" where
  "opt_hrd_value None s = s"
| "opt_hrd_value (Some h) s = hrd_value h s"

definition hrds_value :: "vui \<Rightarrow> H264SpsInfo \<Rightarrow> H264SpsInfo" where
  "hrds_value v s =
     (let s1 = opt_hrd_value (vNal v) (s\<lparr>bNalHrdParametersPresentFlag := of_bool (vNal v \<noteq> None)\<rparr>);
          s2 = opt_hrd_value (vVcl v) (s1\<lparr>bVclHrdParametersPresentFlag := of_bool (vVcl v \<noteq> None)\<rparr>)
      in if vNal v = None \<and> vVcl v = None then s2 else s2\<lparr>bLowDelayFlag := of_bool (vLowDelay v)\<rparr>)"

fun restriction_bits :: "(bool \<times> nat \<times> nat \<times> nat \<times> nat \<times> nat \<times> nat) option \<Rightarrow> bool list" where
  "restriction_bits None = flag False"
| "restriction_bits (Some (m, a, b, c, d, n, e)) =
     flag True @ flag m @ ue_bits a @ ue_bits b @ ue_bits c @ ue_bits d @ ue_bits n @ ue_bits e"

fun restriction_ok :: "(bool \<times> nat \<times> nat \<times> nat \<times> nat \<times> nat \<times> nat) option \<Rightarrow> bool" where
  "restriction_ok None \<longleftrightarrow> True"
| "restriction_ok (Some (m, a, b, c, d, n, e)) \<longleftrightarrow>
     a \<le> 16 \<and> b \<le> 16 \<and> c \<le> 16 \<and> d \<le> 16 \<and> n \<le> 16 \<and> e \<le> 16"

fun restriction_value :: "(bool \<times> nat \<times> nat \<times> nat \<times> nat \<times> nat \<times> nat) option \<Rightarrow> H264SpsInfo \<Rightarrow> H264SpsInfo" where
  "restriction_value None s = s\<lparr>bBitstreamRestrictionFlag := 0\<rparr>"
| "restriction_value (Some (m, a, b, c, d, n, e)) s =
     s\<lparr>bBitstreamRestrictionFlag := 1, nNumReorderFrames := int n\<rparr>"

text \<open>The product and the sum of small numbers do not wrap.\<close>

lemma ratio_of_nat: "w < 2 ^ 16 \<Longrightarrow> h < 2 ^ 16 \<Longrightarrow> (of_nat w * 1000 div of_nat h :: 32 word) = of_nat (w * 1000 div h)"
proof -
  assume "w < 2 ^ 16" "h < 2 ^ 16"
  then have "w * 1000 < 2 ^ LENGTH(32)" "h < 2 ^ LENGTH(32)" by simp_all
  then have "(of_nat (w * 1000) :: 32 word) div of_nat h = of_nat (w * 1000 div h)"
    unfolding word_arith_nat_div unat_of_nat by (simp only: mod_less)
  then show ?thesis by simp
qed

lemma u32_of_nat_eq_0: "n < 2 ^ 32 \<Longrightarrow> (of_nat n :: 32 word) = 0 \<longleftrightarrow> n = 0"
proof -
  assume "n < 2 ^ 32"
  then have "unat (of_nat n :: 32 word) = n" by (simp add: unat_of_nat take_bit_nat_eq_self)
  then show ?thesis by (metis unat_eq_0)
qed

lemma u8_of_nat_eq: "n < 256 \<Longrightarrow> (of_nat n :: 8 word) = 255 \<longleftrightarrow> n = 255"
proof -
  assume "n < 256"
  then have "unat (of_nat n :: 8 word) = n" by (simp add: unat_of_nat take_bit_nat_eq_self)
  moreover have "unat (255 :: 8 word) = 255" by simp
  ultimately show ?thesis by (metis unat_eq_nat_uint word_unat_eq_iff)
qed

lemma or_low_byte: "0 \<le> m \<Longrightarrow> m < 256 \<Longrightarrow> of_bool b * 256 OR m = of_bool b * 256 + (m :: int)"
proof -
  assume m: "0 \<le> m" "m < 256"
  then have t: "take_bit 8 m = m" by (simp add: take_bit_int_eq_self)
  have "push_bit 8 (of_bool b) OR take_bit 8 m = push_bit 8 (of_bool b) + take_bit 8 m"
    by (rule disjunctive_add [symmetric]) (auto simp: bit_simps)
  then have "push_bit 8 (of_bool b) OR m = push_bit 8 (of_bool b) + m" unfolding t .
  then show ?thesis by (simp add: push_bit_eq_mult)
qed

lemma uint8_of_nat: "m < 256 \<Longrightarrow> uint (of_nat m :: 8 word) = int m"
proof -
  assume "m < 256"
  then have "unat (of_nat m :: 8 word) = m" by (simp add: unat_of_nat take_bit_nat_eq_self)
  then show ?thesis by (metis uint_nat)
qed

context syntax_reader begin

lemma aspect: "aspect_ok a \<Longrightarrow> parses (vui_aspect R s) (aspect_bits a) (aspect_value a s)"
  unfolding vui_aspect_def
  by (cases a) (auto intro!: steps ends simp: ratio_of_nat u32_of_nat_eq_0 u8_of_nat_eq simp del: of_nat_mult)

lemma overscan: "parses (vui_overscan R) (overscan_bits b) ()"
  unfolding vui_overscan_def by (cases b) (auto intro!: steps ends)

lemma signal: "signal_ok v \<Longrightarrow> parses (vui_signal R c) (signal_bits v) (signal_value v c)"
  unfolding vui_signal_def
  by (cases v rule: signal_bits.cases) (auto intro!: steps ends simp: Let_def uint8_of_nat or_low_byte [where b = True, simplified])

lemma chroma: "chroma_ok v \<Longrightarrow> parses (vui_chroma R) (chroma_bits v) ()"
  unfolding vui_chroma_def by (cases v rule: chroma_bits.cases) (auto intro!: steps ends)

lemma no_timing: "parses (vui_timing R c) (flag False) c"
  unfolding vui_timing_def by (auto intro!: ends)

lemma restriction: "restriction_ok v \<Longrightarrow>
    parses (vui_restriction R s) (flag p @ restriction_bits v)
      (0, restriction_value v (s\<lparr>bPicStructPresentFlag := of_bool p\<rparr>))"
  unfolding vui_restriction_def
  by (cases v rule: restriction_bits.cases)
    (auto intro!: steps ends simp: Let_def s32_of_nat word_less_nat_alt unat_of_nat take_bit_nat_eq_self)

end

end
