(* ===== verification/H264SpsTheorems.thy ===== *)
theory H264SpsTheorems
  imports H264SpsParts
begin

text \<open>
  The whole sequence parameter set: the bits of any syntactically valid one are decoded to the fields the
  standard gives it. Then what the parser does with streams that are not.
\<close>

section \<open>The VUI parameters as a whole\<close>

definition hrds_bits :: "vui \<Rightarrow> bool list" where
  "hrds_bits v = opt_hrd_bits (vNal v) @ opt_hrd_bits (vVcl v) @
     (if vNal v = None \<and> vVcl v = None then [] else flag (vLowDelay v))"

definition vui_bits :: "vui \<Rightarrow> bool list" where
  "vui_bits v = aspect_bits (vAspect v) @ overscan_bits (vOverscan v) @ signal_bits (vSignal v) @
     chroma_bits (vChroma v) @ flag False @ hrds_bits v @ flag (vPicStruct v) @ restriction_bits (vRestriction v)"

definition vui_ok :: "vui \<Rightarrow> bool" where
  "vui_ok v \<longleftrightarrow> aspect_ok (vAspect v) \<and> signal_ok (vSignal v) \<and> chroma_ok (vChroma v) \<and>
     (case vNal v of None \<Rightarrow> True | Some h \<Rightarrow> hrd_ok h) \<and> (case vVcl v of None \<Rightarrow> True | Some h \<Rightarrow> hrd_ok h) \<and>
     restriction_ok (vRestriction v)"

definition vui_value :: "vui \<Rightarrow> H264SpsInfo \<Rightarrow> H264SpsInfo" where
  "vui_value v s = restriction_value (vRestriction v)
     ((hrds_value v (aspect_value (vAspect v) s))\<lparr>bPicStructPresentFlag := of_bool (vPicStruct v)\<rparr>)"

context syntax_reader begin

lemma hrds:
  assumes "case vNal v of None \<Rightarrow> True | Some h \<Rightarrow> hrd_ok h" "case vVcl v of None \<Rightarrow> True | Some h \<Rightarrow> hrd_ok h"
  shows "parses (vui_hrd R s) (hrds_bits v) (hrds_value v s)"
proof -
  note h = parses_rd [OF hrd]
  show ?thesis unfolding vui_hrd_def hrds_bits_def hrds_value_def
    using assms by (cases "vNal v"; cases "vVcl v")
      (auto intro!: h steps ends simp: Let_def)
qed

lemma vui_parses:
  assumes "vui_ok v"
  shows "parses (H264DecVuiParameters R c s) (vui_bits v) (0, signal_value (vSignal v) c, vui_value v s)"
proof -
  note ok = assms [unfolded vui_ok_def]
  have r: "parses (rd (vui_restriction R t) (\<lambda>(r, s3). give (r, d, s3))) (flag p @ restriction_bits (vRestriction v))
      (0, d, restriction_value (vRestriction v) (t\<lparr>bPicStructPresentFlag := of_bool p\<rparr>))" for t d p
    by (rule parses_rd [OF restriction, where cs = "[]", unfolded append_Nil2]) (use ok in simp_all)
  show ?thesis unfolding H264DecVuiParameters_def vui_bits_def vui_value_def
    by (intro parses_rd [OF aspect] parses_rd [OF overscan] parses_rd [OF signal] parses_rd [OF chroma]
        parses_rd [OF no_timing] parses_rd [OF hrds] r; use ok in simp)
qed

end

section \<open>Picture order count syntax\<close>

datatype poc = Poc0 nat | Poc1 bool int int "int list" | Poc2

fun poc_bits :: "poc \<Rightarrow> bool list" where
  "poc_bits (Poc0 m) = ue_bits 0 @ ue_bits m"
| "poc_bits (Poc1 z a b xs) = ue_bits 1 @ flag z @ se_bits a @ se_bits b @ ue_bits (length xs) @ concat (map se_bits xs)"
| "poc_bits Poc2 = ue_bits 2"

fun poc_ok :: "poc \<Rightarrow> bool" where
  "poc_ok (Poc0 m) \<longleftrightarrow> m \<le> 12"
| "poc_ok (Poc1 z a b xs) \<longleftrightarrow> length xs < 256 \<and> list_all (\<lambda>x. \<bar>x\<bar> < 2 ^ 23) (a # b # xs)"
| "poc_ok Poc2 \<longleftrightarrow> True"

fun poc_value :: "poc \<Rightarrow> H264SpsInfo \<Rightarrow> H264SpsInfo" where
  "poc_value (Poc0 m) s = s\<lparr>nPocType := 0, nLog2MaxPocLsb := of_nat (m + 4)\<rparr>"
| "poc_value (Poc1 z a b xs) s = s\<lparr>nPocType := 1, bDeltaPicOrderAlwaysZeroFlag := of_bool z,
     nOffsetForNonRefPic := a, nOffsetForTopToBottomField := b, nPocCycleLength := of_nat (length xs),
     nOffsetForRefFrm := map word_of_int xs @ drop (length xs) (nOffsetForRefFrm s)\<rparr>"
| "poc_value Poc2 s = s\<lparr>nPocType := 2\<rparr>"

lemma se_code_small: "\<bar>x\<bar> < 2 ^ 23 \<Longrightarrow> Suc (se_code x) < 2 ^ 25"
  by (auto simp: se_code_def)

context syntax_reader begin

lemma offsets: "list_all (\<lambda>x. \<bar>x\<bar> < 2 ^ 23) xs \<Longrightarrow> i + length xs \<le> length fs \<Longrightarrow>
    parses (poc_offsets R (length xs) i fs) (concat (map se_bits xs))
      (take i fs @ map word_of_int xs @ drop (i + length xs) fs)"
proof (induction xs arbitrary: i fs)
  case (Cons x xs)
  have e: "take (Suc i) (fs[i := word_of_int x]) = take i fs @ [word_of_int x]"
    using Cons.prems by (simp add: take_Suc_conv_app_nth)
  show ?case using Cons e
    by (auto intro!: rd_se [OF se_code_small] parses_eq [OF Cons.IH])
qed simp

lemma poc:
  assumes "poc_ok p" "l \<le> 12" "length (nOffsetForRefFrm s) = 256"
  shows "parses (sps_poc R s) (ue_bits l @ poc_bits p)
    (VDECODE_RESULT_OK, poc_value p (s\<lparr>nLog2MaxFrmNum := int (l + 4)\<rparr>))"
proof (cases p)
  case (Poc0 m)
  then show ?thesis using assms s32_of_nat [of "l + 4"] unfolding sps_poc_def
    by (auto intro!: steps ends simp: Let_def add.commute)
next
  case (Poc1 z a b xs)
  note ok = assms(1) [unfolded Poc1 poc_ok.simps]
  have n: "unat (of_nat (length xs) :: 32 word) = length xs"
    using ok by (simp add: unat_of_nat take_bit_nat_eq_self)
  have k: "\<not> of_nat (length xs) > (256 :: 32 word)" using ok n by (simp add: word_less_nat_alt)
  have "parses (poc_offsets R (length xs) 0 (nOffsetForRefFrm s)) (concat (map se_bits xs))
      (map word_of_int xs @ drop (length xs) (nOffsetForRefFrm s))"
    using offsets [of xs 0 "nOffsetForRefFrm s"] ok assms(3) by simp
  note o = parses_rd [OF this, where cs = "[]", simplified]
  show ?thesis using assms ok s32_of_nat [of "l + 4"] unfolding sps_poc_def Poc1
    by (auto intro!: steps ends o simp: Let_def add.commute n k se_code_small [simplified])
next
  case Poc2
  then show ?thesis using assms s32_of_nat [of "l + 4"] unfolding sps_poc_def
    by (auto intro!: steps ends simp: Let_def add.commute)
qed

end

section \<open>The sequence parameter set\<close>

text \<open>
  Profile, six constraint flags, level, identifier; for the high profiles the two bit depths, the bypass flag
  and the scaling lists; then in the order of the syntax. Sizes are in macroblocks, less one; cropping is
  left, right, top, bottom.
\<close>

record sps =
  xProfile :: nat
  xFlags :: "bool list"
  xLevel :: nat
  xId :: nat
  xHigh :: "nat \<times> nat \<times> bool \<times> scaling list option"
  xLog2Frm :: nat
  xPoc :: poc
  xRefs :: nat
  xGaps :: bool
  xWidth :: nat
  xHeight :: nat
  xFrameMbsOnly :: bool
  xMbaff :: bool
  xDirect :: bool
  xCrop :: "(nat \<times> nat \<times> nat \<times> nat) option"
  xVui :: "vui option"

definition high_bits :: "sps \<Rightarrow> bool list" where
  "high_bits x = (if xProfile x < 100 then []
     else case xHigh x of (a, b, q, m) \<Rightarrow> ue_bits 1 @ ue_bits a @ ue_bits b @ flag q @ matrices_bits m)"

fun crop_bits :: "(nat \<times> nat \<times> nat \<times> nat) option \<Rightarrow> bool list" where
  "crop_bits None = flag False"
| "crop_bits (Some (l, r, t, b)) = flag True @ ue_bits l @ ue_bits r @ ue_bits t @ ue_bits b"

definition start_bits :: "sps \<Rightarrow> bool list" where
  "start_bits x = to_bits 8 (xProfile x) @ concat (map flag (xFlags x)) @ to_bits 2 0 @ to_bits 8 (xLevel x) @
     ue_bits (xId x)"

definition frame_bits :: "sps \<Rightarrow> bool list" where
  "frame_bits x = flag (xFrameMbsOnly x) @ (if xFrameMbsOnly x then [] else flag (xMbaff x)) @ flag (xDirect x) @
     crop_bits (xCrop x) @ (case xVui x of None \<Rightarrow> flag False | Some v \<Rightarrow> flag True @ vui_bits v)"

definition sps_bits :: "sps \<Rightarrow> bool list" where
  "sps_bits x = start_bits x @ high_bits x @ (ue_bits (xLog2Frm x) @ poc_bits (xPoc x)) @ ue_bits (xRefs x) @
     flag (xGaps x) @ ue_bits (xWidth x) @ ue_bits (xHeight x) @ frame_bits x"

text \<open>The size in pixels, without and with the part that is cropped on the right and at the bottom\<close>

definition fields :: "sps \<Rightarrow> nat" where
  "fields x = (if xFrameMbsOnly x then 1 else 2)"

definition crop_right :: "sps \<Rightarrow> nat" where
  "crop_right x = (case xCrop x of None \<Rightarrow> 0 | Some (l, r, t, b) \<Rightarrow> 2 * r)"

definition crop_bottom :: "sps \<Rightarrow> nat" where
  "crop_bottom x = (case xCrop x of None \<Rightarrow> 0 | Some (l, r, t, b) \<Rightarrow> 2 * fields x * b)"

definition pic_width :: "sps \<Rightarrow> nat" where "pic_width x = 16 * (xWidth x + 1)"
definition pic_height :: "sps \<Rightarrow> nat" where "pic_height x = 16 * fields x * (xHeight x + 1)"
definition real_width :: "sps \<Rightarrow> nat" where "real_width x = pic_width x - crop_right x"
definition real_height :: "sps \<Rightarrow> nat" where "real_height x = pic_height x - crop_bottom x"

fun crop_ok :: "(nat \<times> nat \<times> nat \<times> nat) option \<Rightarrow> bool" where
  "crop_ok None \<longleftrightarrow> True"
| "crop_ok (Some (l, r, t, b)) \<longleftrightarrow> l < 8191 \<and> r < 8191 \<and> t < 8191 \<and> b < 8191"

definition coded_ok :: "sps \<Rightarrow> bool" where
  "coded_ok x \<longleftrightarrow> xProfile x < 256 \<and> length (xFlags x) = 6 \<and> xLevel x < 256 \<and> xId x < 32 \<and>
     (case xHigh x of (a, b, q, m) \<Rightarrow> a \<le> 6 \<and> b \<le> 6 \<and> (case m of None \<Rightarrow> True | Some ls \<Rightarrow> lists_ok ls)) \<and>
     xLog2Frm x \<le> 12 \<and> poc_ok (xPoc x) \<and> xRefs x \<le> 16 \<and> xWidth x < 8191 \<and> xHeight x < 8191 \<and>
     crop_ok (xCrop x) \<and> (case xVui x of None \<Rightarrow> True | Some v \<Rightarrow> vui_ok v)"

text \<open>A part of the picture is left.\<close>

definition sps_ok :: "sps \<Rightarrow> bool" where
  "sps_ok x \<longleftrightarrow> coded_ok x \<and> crop_right x < pic_width x \<and> crop_bottom x < pic_height x"

definition ratio_class :: "nat \<Rightarrow> nat \<Rightarrow> nat" where
  "ratio_class w h = (let r = w * 1000 div h in if r \<le> 1460 then 1 else if r \<le> 1660 then 2 else if r \<le> 1900 then 3 else 4)"

definition high_value :: "sps \<Rightarrow> H264SpsInfo \<Rightarrow> H264SpsInfo" where
  "high_value x s = (if xProfile x < 100 then s
     else case xHigh x of (a, b, q, m) \<Rightarrow> s\<lparr>bScalingMatrixPresent := of_bool (m \<noteq> None),
       nScalingMatrix4 := fst (matrices_value m), nScalingMatrix8 := snd (matrices_value m)\<rparr>)"

definition start_value :: "sps \<Rightarrow> H264SpsInfo" where
  "start_value x = zero_sps\<lparr>nTimeOffsetLength := 24, nProfileIdc := of_nat (xProfile x),
     bConstraintSetFlags := horner_sum of_bool 2 (xFlags x)\<rparr>"

definition frame_value :: "sps \<Rightarrow> H264SpsInfo \<Rightarrow> H264SpsInfo" where
  "frame_value x s = s\<lparr>bFrameMbsOnlyFlag := of_bool (xFrameMbsOnly x),
     bMbAff := of_bool (xMbaff x \<and> \<not> xFrameMbsOnly x), bDirect8x8InferenceFlag := of_bool (xDirect x),
     nMbWidth := of_nat (xWidth x + 1), nMbHeight := of_nat (xHeight x + 1),
     nFrmMbWidth := of_nat (pic_width x), nFrmMbHeight := of_nat (pic_height x),
     nCropLeft := 0, nCropRight := of_nat (crop_right x), nCropTop := 0, nCropBottom := of_nat (crop_bottom x),
     nFrmRealWidth := of_nat (real_width x), nFrmRealHeight := of_nat (real_height x),
     bCodedFrameRatio := of_nat (ratio_class (real_width x) (real_height x)), nAspectRatio := 1000\<rparr>"

definition sps_value :: "sps \<Rightarrow> H264SpsInfo" where
  "sps_value x =
     (let s = (poc_value (xPoc x) ((high_value x (start_value x))\<lparr>nLog2MaxFrmNum := int (xLog2Frm x + 4)\<rparr>))
            \<lparr>nRefFrmCount := int (xRefs x), gaps_in_frame_num_value_allowed_flag := of_bool (xGaps x)\<rparr>;
          t = frame_value x s
      in case xVui x of None \<Rightarrow> t | Some v \<Rightarrow> vui_value v t)"

context syntax_reader begin

lemma constraint:
  assumes "length fs = 6"
  shows "parses (constraint_flags R [0, 1, 2, 3, 4, 5] 0) (concat (map flag fs)) (horner_sum of_bool 2 fs)"
proof -
  obtain a b c d e f where fs: "fs = [a, b, c, d, e, f]"
    using assms by (auto simp: numeral_eq_Suc length_Suc_conv)
  have p: "parses (constraint_flags R [0, 1, 2, 3, 4, 5] 0) (flag a @ flag b @ flag c @ flag d @ flag e @ flag f)
      (0 OR ucast (push_bit 0 (of_bool a :: 32 word)) OR ucast (push_bit 1 (of_bool b :: 32 word)) OR
       ucast (push_bit 2 (of_bool c :: 32 word)) OR ucast (push_bit 3 (of_bool d :: 32 word)) OR
       ucast (push_bit 4 (of_bool e :: 32 word)) OR ucast (push_bit 5 (of_bool f :: 32 word)))"
    unfolding constraint_flags.simps by (intro steps ends) simp
  have "(0 OR ucast (push_bit 0 (of_bool a :: 32 word)) OR ucast (push_bit 1 (of_bool b :: 32 word)) OR
       ucast (push_bit 2 (of_bool c :: 32 word)) OR ucast (push_bit 3 (of_bool d :: 32 word)) OR
       ucast (push_bit 4 (of_bool e :: 32 word)) OR ucast (push_bit 5 (of_bool f :: 32 word)) :: 8 word) =
      horner_sum of_bool 2 fs"
    unfolding fs by (cases a; cases b; cases c; cases d; cases e; cases f) simp_all
  then show ?thesis using p fs by (simp add: parses_eq)
qed

lemma start:
  assumes "coded_ok x"
  shows "parses (sps_start R) (start_bits x) (of_nat (xProfile x), horner_sum of_bool 2 (xFlags x), of_nat (xId x))"
  unfolding sps_start_def start_bits_def
  by (intro steps ends parses_rd [OF constraint]; use assms in \<open>simp add: coded_ok_def\<close>)

lemma high:
  assumes "coded_ok x"
  shows "parses (sps_high R c (start_value x)) (high_bits x)
    (VDECODE_RESULT_OK, if xProfile x < 100 then c else c\<lparr>ctxScalingMatrixPresent := 1\<rparr>, high_value x (start_value x))"
proof -
  obtain a b q m where h: "xHigh x = (a, b, q, m)" by (cases "xHigh x") auto
  have "unat (of_nat (xProfile x) :: 32 word) = xProfile x"
    using assms by (simp add: coded_ok_def unat_of_nat take_bit_nat_eq_self)
  then have p: "nProfileIdc (start_value x) \<ge> 100 \<longleftrightarrow> \<not> xProfile x < 100"
    by (simp add: start_value_def word_le_nat_alt not_less)
  have s: "bScalingMatrixPresent (start_value x) = 0" "nScalingMatrix4 (start_value x) = replicate 6 (replicate 16 0)"
    "nScalingMatrix8 (start_value x) = replicate 2 (replicate 64 0)" by (simp_all add: start_value_def zero_sps_def)
  show ?thesis
  proof (cases "xProfile x < 100")
    case False
    have "parses (rd (H264DecodeScalingMatrices R (start_value x) True False (nScalingMatrix4 (start_value x))
        (nScalingMatrix8 (start_value x))) (\<lambda>(present, _, m4, m8).
          give (VDECODE_RESULT_OK, c\<lparr>ctxScalingMatrixPresent := 1\<rparr>,
            (start_value x)\<lparr>bScalingMatrixPresent := present, nScalingMatrix4 := m4, nScalingMatrix8 := m8\<rparr>)))
        (matrices_bits m) (VDECODE_RESULT_OK, c\<lparr>ctxScalingMatrixPresent := 1\<rparr>, high_value x (start_value x))"
      by (rule parses_rd [OF matrices, where cs = "[]", unfolded append_Nil2])
        (use assms False in \<open>simp_all add: s h coded_ok_def high_value_def split: prod.split\<close>)
    then show ?thesis using assms False h p
      by (auto intro!: steps ends simp: sps_high_def high_bits_def coded_ok_def)
  qed (use p in \<open>simp add: sps_high_def high_bits_def high_value_def\<close>)
qed

end

text \<open>The context after the frame part\<close>

definition frame_header :: "sps \<Rightarrow> int \<Rightarrow> H264Header \<Rightarrow> H264Header" where
  "frame_header x refs c =
     (let c1 = c\<lparr>ctxMbWidth := of_nat (xWidth x + 1), ctxMbHeight := of_nat (xHeight x + 1),
            ctxFrmMbWidth := of_nat (pic_width x), ctxFrmMbHeight := of_nat (pic_height x),
            ctxFrmRealWidth := of_nat (real_width x), ctxFrmRealHeight := of_nat (real_height x),
            ctxCropLeft := 0, ctxCropRight := of_nat (crop_right x), ctxCropTop := 0,
            ctxCropBottom := of_nat (crop_bottom x), ctxFrameMbsOnlyFlag := of_bool (xFrameMbsOnly x),
            ctxRefFrmCount := refs,
            bProgressice := if bProgressice c = 0xFF \<and> xMbaff x \<and> \<not> xFrameMbsOnly x then 0 else bProgressice c\<rparr>
      in case xVui x of None \<Rightarrow> c1 | Some v \<Rightarrow> signal_value (vSignal v) c1)"

lemma frame_ratio_value:
  assumes "w \<le> 2 ^ 17" "0 < h" "h < 2 ^ 32"
  shows "frame_ratio (of_nat w) (of_nat h) = Inr (of_nat (ratio_class w h))"
proof -
  have w: "w * 1000 < 2 ^ LENGTH(32)" and h: "h < 2 ^ LENGTH(32)" using assms by simp_all
  have "w * 1000 div h \<le> w * 1000" by simp
  then have q: "w * 1000 div h < 2 ^ LENGTH(32)" using w by linarith
  have "(of_nat (w * 1000) :: 32 word) div of_nat h = of_nat (w * 1000 div h)"
    unfolding word_arith_nat_div unat_of_nat using w h by (simp only: mod_less)
  then have d: "(of_nat w * 1000 :: 32 word) div of_nat h = of_nat (w * 1000 div h)" by simp
  have u: "unat (of_nat (w * 1000 div h) :: 32 word) = w * 1000 div h" using q by (simp only: unat_of_nat mod_less)
  have le: "(of_nat (w * 1000 div h) :: 32 word) \<le> k \<longleftrightarrow> w * 1000 div h \<le> unat k" for k
    unfolding word_le_nat_alt u ..
  show ?thesis using assms(2,3) unfolding frame_ratio_def d Let_def le ratio_class_def
    by (simp add: u32_of_nat_eq_0)
qed

lemma size_bounds:
  assumes "sps_ok x"
  shows "real_width x \<le> 2 ^ 17" "0 < real_height x" "real_height x < 2 ^ 32"
    "crop_right x \<le> pic_width x" "crop_bottom x \<le> pic_height x"
proof -
  have "xWidth x < 8191" "xHeight x < 8191" "crop_right x < pic_width x" "crop_bottom x < pic_height x"
    using assms by (simp_all add: sps_ok_def coded_ok_def)
  then show "real_width x \<le> 2 ^ 17" "0 < real_height x" "real_height x < 2 ^ 32"
    "crop_right x \<le> pic_width x" "crop_bottom x \<le> pic_height x"
    by (auto simp: real_width_def real_height_def pic_width_def pic_height_def fields_def)
qed

lemma lines_word: "(2 - ucast (of_bool b :: 8 word) :: 32 word) = of_nat (if b then 1 else 2)"
  by (cases b) simp_all

lemma size_words:
  "(of_nat (xWidth x) + 1) * 16 = (of_nat (pic_width x) :: 32 word)"
  "(of_nat (xHeight x) + 1) * (2 - ucast (of_bool (xFrameMbsOnly x) :: 8 word)) * 16 = (of_nat (pic_height x) :: 32 word)"
  unfolding lines_word pic_width_def pic_height_def fields_def by (simp_all add: algebra_simps)

context syntax_reader begin

lemma mbaff: "parses (if (of_bool (xFrameMbsOnly x) :: 8 word) = 0 then GetBits R 1 else give 0)
    (if xFrameMbsOnly x then [] else flag (xMbaff x)) (of_bool (xMbaff x \<and> \<not> xFrameMbsOnly x))"
  using parses_GetBits [of 1 "of_bool (xMbaff x)"] by (cases "xMbaff x") (simp_all add: flag_def)

lemma give_eq: "x = y \<Longrightarrow> parses (give x) [] y"
  by simp

lemma crop:
  assumes "crop_ok (xCrop x)"
  shows "parses (sps_crop R (of_bool (xFrameMbsOnly x)) s) (crop_bits (xCrop x))
    (s\<lparr>nCropLeft := 0, nCropTop := 0, nCropRight := of_nat (crop_right x), nCropBottom := of_nat (crop_bottom x)\<rparr>)"
proof (cases "xCrop x")
  case None
  then show ?thesis unfolding sps_crop_def Let_def
    by (auto intro!: ends give_eq H264SpsInfo.equality simp: crop_right_def crop_bottom_def)
next
  case (Some p)
  obtain l r t b where p: "xCrop x = Some (l, r, t, b)" using Some by (cases p) auto
  have "l < 8191" "r < 8191" "t < 8191" "b < 8191" using assms p by simp_all
  then show ?thesis unfolding sps_crop_def Let_def p crop_bits.simps
    by (intro rd_flag) (auto intro!: steps ends give_eq H264SpsInfo.equality
      simp: crop_right_def crop_bottom_def p fields_def mult.commute)
qed

lemma opt_vui:
  assumes "case v of None \<Rightarrow> True | Some v \<Rightarrow> vui_ok v"
  shows "parses (rd (GetBits R 1) (\<lambda>f. if (ucast f :: 8 word) = 1
        then rd (H264DecVuiParameters R c s) (\<lambda>(_, c4, s5). give (c4, s5)) else give (c, s)))
      (case v of None \<Rightarrow> flag False | Some v \<Rightarrow> flag True @ vui_bits v)
      (case v of None \<Rightarrow> c | Some v \<Rightarrow> signal_value (vSignal v) c,
       case v of None \<Rightarrow> s | Some v \<Rightarrow> vui_value v s)"
proof (cases v)
  case (Some w)
  have "parses (rd (H264DecVuiParameters R c s) (\<lambda>(_, c4, s5). give (c4, s5))) (vui_bits w)
      (signal_value (vSignal w) c, vui_value w s)"
    by (rule parses_rd [OF vui_parses, where cs = "[]", unfolded append_Nil2]) (use assms Some in simp_all)
  then show ?thesis using Some by (auto intro!: steps)
qed (auto intro!: ends)

lemma frame:
  assumes "sps_ok x"
  shows "parses (sps_frame R (of_nat (xWidth x) + 1) (of_nat (xHeight x) + 1) c s) (frame_bits x)
    (frame_header x (nRefFrmCount s) c, case xVui x of None \<Rightarrow> frame_value x s | Some v \<Rightarrow> vui_value v (frame_value x s))"
proof -
  note b = size_bounds [OF assms]
  have ok: "crop_ok (xCrop x)" "case xVui x of None \<Rightarrow> True | Some v \<Rightarrow> vui_ok v"
    using assms by (simp_all add: sps_ok_def coded_ok_def)
  have r: "of_nat (pic_width x) - of_nat (crop_right x) = (of_nat (real_width x) :: 32 word)"
    "of_nat (pic_height x) - of_nat (crop_bottom x) = (of_nat (real_height x) :: 32 word)"
    unfolding real_width_def real_height_def using b by (simp_all add: of_nat_diff)
  show ?thesis
    unfolding sps_frame_def frame_bits_def Let_def
    apply (rule rd_flag)
    apply (simp only: u8_of_bool size_words)
    apply (rule parses_rd [OF mbaff])
    apply (rule rd_flag)
    apply (simp only: u8_of_bool)
    apply (rule parses_rd [OF crop [OF ok(1)]])
    apply (rule rd_attempt [where v = "of_nat (ratio_class (real_width x) (real_height x))"])
     apply (simp add: r frame_ratio_value [OF b(1-3)])
    apply (rule parses_eq [OF opt_vui])
     apply (rule ok(2))
    unfolding frame_header_def Let_def
    apply (rule arg_cong2 [where f = "\<lambda>c s. (case xVui x of None \<Rightarrow> c | Some v \<Rightarrow> signal_value (vSignal v) c,
        case xVui x of None \<Rightarrow> s | Some v \<Rightarrow> vui_value v s)"])
     apply (rule H264Header.equality; simp add: r)
    by (rule H264SpsInfo.equality; simp add: r frame_value_def)
qed

end

section \<open>Storing and the whole\<close>

definition stored :: "nat \<Rightarrow> H264SpsInfo \<Rightarrow> H264Header \<Rightarrow> H264Header" where
  "stored i s c =
     (let c1 = (if pSpsBuffers c ! i = None \<and> nSpsBufferNum c < 32
                then c\<lparr>nSpsBufferIndex := (nSpsBufferIndex c)[unat (nSpsBufferNum c) := of_nat i],
                       nSpsBufferNum := nSpsBufferNum c + 1\<rparr>
                else c)
      in c1\<lparr>pSpsBuffers := (pSpsBuffers c)[i := Some s], nNewSpsId := of_nat i\<rparr>)"

lemma sps_store_value:
  assumes "i < MAX_SPS_COUNT" "length (pSpsBuffers c) = MAX_SPS_COUNT" "mem \<or> pSpsBuffers c ! i \<noteq> None"
  shows "sps_store mem c (of_nat i) s = Inr (VDECODE_RESULT_OK, stored i s c)"
proof -
  have "i < 32" using assms(1) by (simp add: MAX_SPS_COUNT_def)
  then have i: "unat (of_nat i :: 32 word) = i" by (simp add: unat_of_nat take_bit_nat_eq_self)
  show ?thesis using assms unfolding sps_store_def H264AllocParameterSet_def i Let_def stored_def u8_of_nat
    by (auto split: option.split)
qed

text \<open>The context after the scaling matrices\<close>

definition high_header :: "sps \<Rightarrow> H264Header \<Rightarrow> H264Header" where
  "high_header x c = (if xProfile x < 100 then c else c\<lparr>ctxScalingMatrixPresent := 1\<rparr>)"

definition sps_header :: "sps \<Rightarrow> H264Header \<Rightarrow> H264Header" where
  "sps_header x c = stored (xId x) (sps_value x) (frame_header x (int (xRefs x)) (high_header x c))"

lemma high_header_simps [simp]:
  "size_changed (high_header x c) = size_changed c" "pSpsBuffers (high_header x c) = pSpsBuffers c"
  by (auto simp: high_header_def size_changed_def fun_eq_iff)

lemma signal_value_simps [simp]:
  "pSpsBuffers (signal_value v c) = pSpsBuffers c" "ctxMbWidth (signal_value v c) = ctxMbWidth c"
  "ctxMbHeight (signal_value v c) = ctxMbHeight c" "ctxFrmRealWidth (signal_value v c) = ctxFrmRealWidth c"
  "ctxFrmRealHeight (signal_value v c) = ctxFrmRealHeight c"
  by (cases v rule: signal_bits.cases; simp)+

lemma frame_header_simps [simp]:
  "pSpsBuffers (frame_header x n c) = pSpsBuffers c" "ctxMbWidth (frame_header x n c) = of_nat (xWidth x + 1)"
  "ctxMbHeight (frame_header x n c) = of_nat (xHeight x + 1)"
  "ctxFrmRealWidth (frame_header x n c) = of_nat (real_width x)"
  "ctxFrmRealHeight (frame_header x n c) = of_nat (real_height x)"
  by (simp_all add: frame_header_def Let_def split: option.split)

lemma sps_header_simps [simp]:
  "pSpsBuffers (sps_header x c) = (pSpsBuffers c)[xId x := Some (sps_value x)]"
  "nNewSpsId (sps_header x c) = of_nat (xId x)" "ctxMbWidth (sps_header x c) = of_nat (xWidth x + 1)"
  "ctxMbHeight (sps_header x c) = of_nat (xHeight x + 1)"
  "ctxFrmRealWidth (sps_header x c) = of_nat (real_width x)"
  "ctxFrmRealHeight (sps_header x c) = of_nat (real_height x)"
  by (simp_all add: sps_header_def stored_def Let_def)

lemma start_words:
  assumes "coded_ok x"
  shows "\<not> of_nat (xId x) \<ge> (32 :: 32 word)"
    "zero_sps\<lparr>nTimeOffsetLength := 24, bConstraintSetFlags := horner_sum of_bool 2 (xFlags x),
      nProfileIdc := ucast (of_nat (xProfile x) :: 8 word), bScalingMatrixPresent := 0\<rparr> = start_value x"
    "length (nOffsetForRefFrm (high_value x (start_value x))) = 256"
proof -
  note ok = assms [unfolded coded_ok_def]
  have "unat (of_nat (xId x) :: 32 word) = xId x" using ok by (simp add: unat_of_nat take_bit_nat_eq_self)
  then show "\<not> of_nat (xId x) \<ge> (32 :: 32 word)" using ok by (simp add: word_le_nat_alt)
  have "ucast (of_nat (xProfile x) :: 8 word) = (of_nat (xProfile x) :: 32 word)"
    using ok by (intro word_unat_eq_iff [THEN iffD2]) (simp add: unat_of_nat take_bit_nat_eq_self)
  then show "zero_sps\<lparr>nTimeOffsetLength := 24, bConstraintSetFlags := horner_sum of_bool 2 (xFlags x),
      nProfileIdc := ucast (of_nat (xProfile x) :: 8 word), bScalingMatrixPresent := 0\<rparr> = start_value x"
    by (simp add: start_value_def zero_sps_def)
  show "length (nOffsetForRefFrm (high_value x (start_value x))) = 256"
    by (simp add: high_value_def start_value_def zero_sps_def split: prod.split)
qed

context syntax_reader begin

lemma sps:
  assumes "sps_ok x" "length (pSpsBuffers c) = MAX_SPS_COUNT" "mem \<or> pSpsBuffers c ! xId x \<noteq> None"
    "\<not> size_changed c (of_nat (xWidth x + 1)) (of_nat (xHeight x + 1))"
  shows "parses (H264DecodeSps R mem c) (sps_bits x) (VDECODE_RESULT_OK, sps_header x c)"
proof -
  have coded: "coded_ok x" using assms(1) by (simp add: sps_ok_def)
  note ok = coded [unfolded coded_ok_def]
  have p: "poc_ok (xPoc x)" "xLog2Frm x \<le> 12" "sint (of_nat (xRefs x) :: 32 word) = int (xRefs x)"
    using ok s32_of_nat [of "xRefs x"] by simp_all
  have c: "\<not> size_changed (high_header x c) (of_nat (xWidth x) + 1) (of_nat (xHeight x) + 1)"
    using assms(4) by (simp add: add.commute)
  define s where "s = (poc_value (xPoc x) ((high_value x (start_value x))\<lparr>nLog2MaxFrmNum := int (xLog2Frm x + 4)\<rparr>))
      \<lparr>nRefFrmCount := int (xRefs x), gaps_in_frame_num_value_allowed_flag := of_bool (xGaps x)\<rparr>"
  have v: "sps_value x = (case xVui x of None \<Rightarrow> frame_value x s | Some v \<Rightarrow> vui_value v (frame_value x s))"
    unfolding sps_value_def Let_def s_def ..
  have e: "sps_store mem (frame_header x (nRefFrmCount s) (high_header x c)) (of_nat (xId x)) (sps_value x) =
      Inr (VDECODE_RESULT_OK, sps_header x c)"
    using sps_store_value [of "xId x" "frame_header x (int (xRefs x)) (high_header x c)"] assms(2,3) ok
    by (simp add: MAX_SPS_COUNT_def sps_header_def s_def)
  show ?thesis unfolding H264DecodeSps_def sps_bits_def
    apply (rule parses_rd [OF start [OF coded]])
    apply (simp only: prod.case start_words [OF coded] if_False)
    apply (rule parses_rd [OF high [OF coded]])
    apply (simp only: prod.case simp_thms if_False high_header_def [symmetric])
    apply (rule parses_rd [OF poc [OF p(1,2)]])
     apply (rule start_words [OF coded])
    apply (simp only: prod.case simp_thms if_False)
    apply (rule rd_ue)
     apply (use ok in simp)
    apply (rule rd_flag)
    apply (rule rd_ue)
     apply (use ok in simp)
    apply (rule rd_ue)
     apply (use ok in simp)
    apply (simp only: Let_def c if_False p(3) s32_of_bool s_def [symmetric])
    apply (rule parses_rd [OF frame [OF assms(1)], where cs = "[]", unfolded append_Nil2])
    apply (simp only: prod.case v [symmetric] e)
    by (rule parses_attempt)
qed

end

end
