(* ===== verification/H264HeaderTheorems.thy ===== *)
theory H264HeaderTheorems
  imports H264SpsTheorems
begin

text \<open>
  The properties of the header parsers on the software reader: everything the laws of the reader give, and a
  valid looking parameter set that stops the process.
\<close>

section \<open>A reader on given bits\<close>

definition byte_of :: "bool list \<Rightarrow> 8 word" where
  "byte_of bs = of_nat (num bs)"

fun bytes_of :: "bool list \<Rightarrow> 8 word list" where
  "bytes_of [] = []"
| "bytes_of (b # bs) = byte_of (take 8 (b # bs @ replicate 7 False)) # bytes_of (drop 7 bs)"

lemma byte_bits_byte_of:
  assumes "length bs = 8"
  shows "byte_bits (byte_of bs) = bs"
proof -
  have "num bs < 256" using num_less [of bs] assms by simp
  then have "num (byte_bits (byte_of bs)) = num bs"
    by (simp add: num_byte_bits byte_of_def unat_of_nat take_bit_nat_eq_self)
  moreover have "num xs = num ys \<Longrightarrow> length xs = length ys \<Longrightarrow> xs = ys" for xs ys
  proof (induction xs arbitrary: ys)
    case (Cons x xs)
    then obtain y zs where ys: "ys = y # zs" "length zs = length xs" by (cases ys) auto
    have "num xs < 2 ^ length xs" "num zs < 2 ^ length xs" using num_less [of xs] num_less [of zs] ys by simp_all
    then have "x = y \<and> num xs = num zs" using Cons.prems ys by (cases x; cases y; simp)
    then show ?case using Cons.IH [of zs] ys by simp
  qed simp
  ultimately show ?thesis using assms by simp
qed

lemma bits_of_bytes_of: "\<exists>pad. bits_of (bytes_of bs) = bs @ pad"
proof (induction bs rule: bytes_of.induct)
  case (2 b bs)
  then obtain pad where pad: "bits_of (bytes_of (drop 7 bs)) = drop 7 bs @ pad" by blast
  have e: "bits_of (bytes_of (b # bs)) = take 8 (b # bs @ replicate 7 False) @ drop 7 bs @ pad"
    using pad by (simp add: byte_bits_byte_of)
  show ?case
  proof (cases "length bs < 7")
    case True
    then show ?thesis using e by (simp add: take_Cons')
  next
    case False
    then have "take 8 (b # bs @ replicate 7 False) = b # take 7 bs" by (simp add: take_Cons')
    then have "bits_of (bytes_of (b # bs)) = (b # bs) @ pad"
      unfolding e by (metis append_Cons append_assoc append_take_drop_id)
    then show ?thesis by blast
  qed
qed simp

definition reader_on :: "bool list \<Rightarrow> GetBitContext" where
  "reader_on bs = H264InitGetBitsSw (bytes_of bs @ replicate 4 0) (int (length bs))"

lemma sw_ready_reader_on: "sw_ready (reader_on bs) bs"
proof -
  obtain pad where p: "bits_of (bytes_of bs) = bs @ pad" using bits_of_bytes_of by blast
  have "bits_of (bytes_of bs @ replicate 4 0) = bs @ pad @ bits_of (replicate 4 0)"
    using p by (simp add: bits_of_def)
  moreover have "length bs \<le> 8 * length (bytes_of bs)" using p length_bits_of [of "bytes_of bs"] by simp
  then have "length bs div 8 \<le> length (bytes_of bs)" by linarith
  ultimately show ?thesis
    by (simp add: sw_ready_def reader_on_def H264InitGetBitsSw_def rest_def window_ok_def skip_def)
qed

section \<open>Wide values\<close>

text \<open>
  A value of 32 bits comes from the same four bytes as a short one: past the first bit of a byte its last bits
  are read as zeros. \<^verbatim>\<open>H264DecVuiParameters\<close> reads the two fields of the timing information so.
\<close>

lemma wide_reads_lose_bits:
  assumes "window_ok s"
  shows "\<exists>w. H264GetBitsSw 32 s = Inr (w, skip 32 s) \<and>
    unat w = num (take (32 - index s mod 8) (rest s)) * 2 ^ (index s mod 8)"
proof -
  let ?k = "index s mod 8"
  obtain w where w: "get_cache s = Inr w"
      "\<forall>n. n \<le> 32 - ?k \<longrightarrow> unat (drop_bit (32 - n) w) = num (take n (rest s))"
    using get_cache_spec [OF assms] by blast
  have k: "?k < 8" by simp
  obtain v where v: "w = push_bit ?k v" using w(1) by (cases "AV_RB32 (buffer s) (index s div 8)") (auto simp: get_cache_def)
  have "2 ^ ?k dvd unat w"
  proof -
    have "(2::nat) ^ ?k dvd 2 ^ 32" using k by (intro le_imp_power_dvd) simp
    then show ?thesis unfolding v unat_push by (simp add: dvd_mod)
  qed
  moreover have "unat w div 2 ^ ?k = num (take (32 - ?k) (rest s))"
    using w(2) [rule_format, of "32 - ?k"] k by (simp add: unat_drop)
  ultimately have "unat w = num (take (32 - ?k) (rest s)) * 2 ^ ?k" by (metis dvd_div_mult_self)
  then show ?thesis using w(1) by (simp add: H264GetBitsSw_def)
qed

section \<open>Parsers that fault\<close>

context syntax_reader begin

definition fails :: "('r \<Rightarrow> ('a \<times> 'r) res) \<Rightarrow> bool list \<Rightarrow> fault \<Rightarrow> bool" where
  "fails p bs e \<longleftrightarrow> (\<forall>r ys. ready r (bs @ ys) \<longrightarrow> p r = Inl e)"

lemma fails_rd: "parses p bs x \<Longrightarrow> fails (k x) cs e \<Longrightarrow> fails (rd p k) (bs @ cs) e"
  unfolding fails_def
proof (intro allI impI)
  fix r ys assume a: "parses p bs x" "\<forall>r ys. ready r (cs @ ys) \<longrightarrow> k x r = Inl e" "ready r ((bs @ cs) @ ys)"
  obtain r1 where "p r = Inr (x, r1)" "ready r1 (cs @ ys)" using parsesD [OF a(1), of r "cs @ ys"] a(3) by auto
  moreover from this have "k x r1 = Inl e" using a(2) by blast
  ultimately show "rd p k r = Inl e" by (simp add: rd_def)
qed

lemma fails_first: "fails p bs e \<Longrightarrow> fails (rd p k) (bs @ cs) e"
  unfolding fails_def rd_def by (metis and_then.simps(1) append_assoc)

lemma fails_attempt: "x = Inl e \<Longrightarrow> fails (rd (attempt x) k) bs e"
  by (simp add: fails_def rd_def attempt_def)

lemma parses_flag: "parses (GetBits R 1) (flag b) (of_bool b)"
  using parses_GetBits [of 1 "of_bool b"] by (cases b) (simp_all add: flag_def)

lemmas fails_flag = fails_rd [OF parses_flag]
lemmas fails_ue = fails_rd [OF parses_GetUeGolomb]

text \<open>The frame part divides by the height that is left.\<close>

lemma frame_fails:
  assumes "crop_ok (xCrop x)" "crop_bottom x = pic_height x"
  shows "fails (sps_frame R (of_nat (xWidth x) + 1) (of_nat (xHeight x) + 1) c s) (frame_bits x) DivByZero"
  unfolding sps_frame_def frame_bits_def Let_def
  apply (rule fails_flag)
  apply (simp only: u8_of_bool size_words)
  apply (rule fails_rd [OF mbaff])
  apply (rule fails_flag)
  apply (simp only: u8_of_bool)
  apply (rule fails_rd [OF crop [OF assms(1)]])
  by (rule fails_attempt) (simp add: frame_ratio_def assms(2))

lemma sps_fails:
  assumes "coded_ok x" "crop_bottom x = pic_height x"
    "\<not> size_changed c (of_nat (xWidth x + 1)) (of_nat (xHeight x + 1))"
  shows "fails (H264DecodeSps R mem c) (sps_bits x) DivByZero"
proof -
  note ok = assms(1) [unfolded coded_ok_def]
  have p: "poc_ok (xPoc x)" "xLog2Frm x \<le> 12" "crop_ok (xCrop x)" using ok by simp_all
  have c: "\<not> size_changed (high_header x c) (of_nat (xWidth x) + 1) (of_nat (xHeight x) + 1)"
    using assms(3) by (simp add: add.commute)
  show ?thesis unfolding H264DecodeSps_def sps_bits_def
    apply (rule fails_rd [OF start [OF assms(1)]])
    apply (simp only: prod.case start_words [OF assms(1)] if_False)
    apply (rule fails_rd [OF high [OF assms(1)]])
    apply (simp only: prod.case simp_thms if_False high_header_def [symmetric])
    apply (rule fails_rd [OF poc [OF p(1,2)]])
     apply (rule start_words [OF assms(1)])
    apply (simp only: prod.case simp_thms if_False)
    apply (rule fails_ue)
     apply (use ok in simp)
    apply (rule fails_flag)
    apply (rule fails_ue)
     apply (use ok in simp)
    apply (rule fails_ue)
     apply (use ok in simp)
    apply (simp only: Let_def c if_False)
    by (rule fails_first [where cs = "[]", unfolded append_Nil2]) (rule frame_fails [OF p(3) assms(2)])
qed

end

section \<open>Properties\<close>




definition blank_header :: H264Header where
  "blank_header = \<lparr>bIsAvc = False, frame_vbv = False, pVbvStreamData = True, pCurStreamFrame = False, pHContext = True,
     pMinorHContext = False, actions = [], ctxMbWidth = 0, ctxMbHeight = 0, ctxFrmMbWidth = 0, ctxFrmMbHeight = 0,
     ctxFrmRealWidth = 0, ctxFrmRealHeight = 0, ctxCropLeft = 0, ctxCropRight = 0, ctxCropTop = 0, ctxCropBottom = 0,
     ctxFrameMbsOnlyFlag = 0, ctxRefFrmCount = 0, ctxScalingMatrixPresent = 0, bProgressice = 0xFF, nColorPrimary = 0,
     nFrameRate = 0, nPicDuration = 0, nFrameDuration = 0, nSpsBufferNum = 0, nSpsBufferIndex = replicate 32 0,
     pSpsBuffers = replicate 32 None, nNewSpsId = 0\<rparr>"

text \<open>1920 by 1080, high profile, with scaling lists, cropped by eight lines, with VUI parameters\<close>

definition example_sps :: sps where
  "example_sps = \<lparr>xProfile = 100, xFlags = [False, True, False, False, False, False], xLevel = 40, xId = 1,
     xHigh = (0, 0, False, Some [Coded (replicate 16 16) 1, Absent, Preset, Absent, Preset, Absent, Absent,
       Coded (replicate 64 20) 64]), xLog2Frm = 4, xPoc = Poc1 False (- 2) 1 [4, - 1], xRefs = 4, xGaps = False,
     xWidth = 119, xHeight = 67, xFrameMbsOnly = True, xMbaff = False, xDirect = True, xCrop = Some (0, 0, 0, 4),
     xVui = Some \<lparr>vAspect = Sar 4 3, vOverscan = None, vSignal = Some (5, True, Some (1, 1, 1)), vChroma = Some (0, 0),
       vNal = Some (Hrd 2 3 [(100, 200, True)] 23 23 23 24), vVcl = None, vLowDelay = False, vPicStruct = True,
       vRestriction = Some (True, 2, 1, 10, 10, 2, 4)\<rparr>\<rparr>"

lemma in_scan_replicate: "sz = 16 \<or> sz = 64 \<Longrightarrow> in_scan (replicate sz v) = replicate sz (uint v)"
proof -
  assume sz: "sz = 16 \<or> sz = 64"
  have "p < sz" if "p \<in> set (scan_of sz)" for p
    using that unfolding scan_perm length_scan [OF sz] by simp
  then have "map (\<lambda>p. uint (replicate sz v ! p)) (scan_of sz) = map (\<lambda>p. uint v) (scan_of sz)" by simp
  then show ?thesis by (simp add: in_scan_def map_replicate_const length_scan [OF sz])
qed

lemma flat_list_ok: "v \<noteq> 0 \<Longrightarrow> 0 < k \<Longrightarrow> k \<le> sz \<Longrightarrow> sz = 16 \<or> sz = 64 \<Longrightarrow> scaling_ok sz (Coded (replicate sz v) k)"
  by (auto simp: in_scan_replicate)

lemma example_ok:
  "coded_ok (example_sps\<lparr>xWidth := w, xHeight := h, xCrop := c\<rparr>) \<longleftrightarrow> w < 8191 \<and> h < 8191 \<and> crop_ok c"
proof -
  have "scaling_ok 16 (Coded (replicate 16 16) 1)" "scaling_ok 64 (Coded (replicate 64 20) 64)"
    by (rule flat_list_ok; simp)+
  then show ?thesis
    by (simp add: coded_ok_def example_sps_def vui_ok_def del: scaling_ok.simps(1))
qed


text \<open>C39 A parameter set whose cropping leaves no line stops the process: the width is divided by the height that is
  left, before anything is checked. Every stream may bring one, whatever the rest of it says.\<close>

theorem cropped_picture_divides_by_zero:
  assumes "coded_ok x" "crop_bottom x = pic_height x" "sw_ready r (sps_bits x @ ys)"
    "\<not> size_changed c (of_nat (xWidth x + 1)) (of_nat (xHeight x + 1))"
  shows "H264DecodeSps software_reader mem c r = Inl DivByZero"
  using sw.sps_fails [OF assms(1,2,4), of mem] assms(3) unfolding sw.fails_def by blast

theorem cropped_picture_divides_by_zero_witness:
  "H264DecodeSps software_reader True blank_header
     (reader_on (sps_bits (example_sps\<lparr>xWidth := 1, xHeight := 1, xCrop := Some (0, 0, 0, 16)\<rparr>))) = Inl DivByZero"
proof (rule cropped_picture_divides_by_zero)
  show "sw_ready (reader_on (sps_bits (example_sps\<lparr>xWidth := 1, xHeight := 1, xCrop := Some (0, 0, 0, 16)\<rparr>)))
      (sps_bits (example_sps\<lparr>xWidth := 1, xHeight := 1, xCrop := Some (0, 0, 0, 16)\<rparr>) @ [])"
    using sw_ready_reader_on by simp
  show "coded_ok (example_sps\<lparr>xWidth := 1, xHeight := 1, xCrop := Some (0, 0, 0, 16)\<rparr>)" by (simp add: example_ok)
  show "crop_bottom (example_sps\<lparr>xWidth := 1, xHeight := 1, xCrop := Some (0, 0, 0, 16)\<rparr>) =
      pic_height (example_sps\<lparr>xWidth := 1, xHeight := 1, xCrop := Some (0, 0, 0, 16)\<rparr>)"
    by (simp add: crop_bottom_def pic_height_def fields_def example_sps_def)
qed (simp add: blank_header_def size_changed_def)

end
