(* ===== verification/H264Poc.thy ===== *)
theory H264Poc
  imports H264Sps
begin

text \<open>
  Picture order counts: \<^verbatim>\<open>H264InitPoc\<close> (\<^verbatim>\<open>videoengine/h264/h264_nalu.c\<close>), the syntax elements the slice header
  reads for it, and the update of the previous values after a picture (\<^verbatim>\<open>H264DecoderDecodeSbmFrame\<close> in
  \<^verbatim>\<open>h264.c\<close>). All arithmetic is on \<^verbatim>\<open>s32\<close>, where an overflow is a fault.
\<close>

section \<open>State\<close>

text \<open>The fields of \<^verbatim>\<open>H264PicInfo\<close> that the function writes, and those of \<^verbatim>\<open>H264Context\<close> it uses\<close>

record PocPicture =
  nFieldPoc0 :: int
  nFieldPoc1 :: int
  nPoc :: int
  nFieldPicStructure0 :: int
  nFieldPicStructure1 :: int
  nFieldNalRefIdc0 :: "8 word"
  nFieldNalRefIdc1 :: "8 word"
  picMbAffFrame :: "8 word"

record PocContext =
  pCurSps :: H264SpsInfo
  bIdrFrmFlag :: bool
  nNalRefIdc :: int
  nPicStructure :: int
  bFstField :: bool
  bMbAffFrame :: int
  nFrmNum :: int
  nFrmNumOffset :: int
  nPrevFrmNum :: int
  nPrevFrmNumOffset :: int
  nPocLsb :: int
  nPocMsb :: int
  nPrevPocLsb :: int
  nPrevPocMsb :: int
  nDeltaPocBottom :: int
  nDeltaPoc0 :: int
  nDeltaPoc1 :: int
  ctxPocType :: int
  nPicPocDeltaNum :: "8 word"
  pCurPicture :: PocPicture

definition TOP_FIELD :: int where "TOP_FIELD = 1"
definition BOTTOM_FIELD :: int where "BOTTOM_FIELD = 2"
definition FRAME :: int where "FRAME = 3"

section \<open>The counts\<close>

text \<open>\<^verbatim>\<open>1 << n\<close> on an \<^verbatim>\<open>int\<close>\<close>

definition shl_one :: "int \<Rightarrow> int res" where
  "shl_one n = (if 0 \<le> n \<and> n < 31 then Inr (2 ^ nat n) else Inl SignedOverflow)"

definition frm_num_offset :: "PocContext \<Rightarrow> PocContext res" where
  "frm_num_offset c =
     and_then (shl_one (nLog2MaxFrmNum (pCurSps c))) (\<lambda>maxFrmNum.
       if bIdrFrmFlag c then Inr (c\<lparr>nFrmNumOffset := 0\<rparr>)
       else if nFrmNum c < nPrevFrmNum c
       then and_then (int_result (nPrevFrmNumOffset c + maxFrmNum)) (\<lambda>n. Inr (c\<lparr>nFrmNumOffset := n\<rparr>))
       else Inr (c\<lparr>nFrmNumOffset := nPrevFrmNumOffset c\<rparr>))"

text \<open>Type 0: the coded low bits extended by high bits that follow the previous picture\<close>

definition poc_type0 :: "PocContext \<Rightarrow> (PocContext \<times> int \<times> int) res" where
  "poc_type0 c =
     and_then (shl_one (uint (nLog2MaxPocLsb (pCurSps c)))) (\<lambda>maxPocLsb.
     let c1 = (if bIdrFrmFlag c then c\<lparr>nPrevPocMsb := 0, nPrevPocLsb := 0\<rparr> else c) in
     and_then (int_result (nPrevPocLsb c1 - nPocLsb c1)) (\<lambda>d.
     and_then (if nPocLsb c1 < nPrevPocLsb c1 \<and> d \<ge> maxPocLsb div 2
               then int_result (nPrevPocMsb c1 + maxPocLsb)
               else if nPocLsb c1 > nPrevPocLsb c1 \<and> d < - (maxPocLsb div 2)
               then int_result (nPrevPocMsb c1 - maxPocLsb)
               else Inr (nPrevPocMsb c1)) (\<lambda>msb.
     let c2 = c1\<lparr>nPocMsb := msb\<rparr> in
     and_then (int_result (msb + nPocLsb c2)) (\<lambda>p.
     and_then (if nPicStructure c2 = FRAME then int_result (p + nDeltaPocBottom c2) else Inr p) (\<lambda>q.
       Inr (c2, p, q))))))"

text \<open>A sum of offsets of the cycle\<close>

fun add_offsets :: "int \<Rightarrow> 16 word list \<Rightarrow> int res" where
  "add_offsets a [] = Inr a"
| "add_offsets a (x # xs) = and_then (int_result (a + uint x)) (\<lambda>b. add_offsets b xs)"

definition sum_offsets :: "int \<Rightarrow> nat \<Rightarrow> 16 word list \<Rightarrow> int res" where
  "sum_offsets a n xs = (if n \<le> length xs then add_offsets a (take n xs) else Inl OutOfBounds)"

text \<open>
  Type 1: a cycle of offsets between reference pictures. The quotient and the remainder by the unsigned
  length of the cycle are taken of a positive number.
\<close>

definition poc_type1 :: "PocContext \<Rightarrow> (PocContext \<times> int \<times> int) res" where
  "poc_type1 c =
     (let s = pCurSps c; len = uint (nPocCycleLength s) in
     and_then (if nPocCycleLength s \<noteq> 0 then int_result (nFrmNumOffset c + nFrmNum c) else Inr 0) (\<lambda>n0.
     let absFrmNum = (if nNalRefIdc c = 0 \<and> n0 > 0 then n0 - 1 else n0) in
     and_then (sum_offsets 0 (nat len) (nOffsetForRefFrm s)) (\<lambda>cycle.
     and_then (if absFrmNum > 0
               then and_then (int_result ((absFrmNum - 1) div len * cycle)) (\<lambda>e.
                      sum_offsets e (Suc (nat ((absFrmNum - 1) mod len))) (nOffsetForRefFrm s))
               else Inr 0) (\<lambda>e1.
     and_then (if nNalRefIdc c = 0 then int_result (e1 + nOffsetForNonRefPic s) else Inr e1) (\<lambda>e2.
     and_then (int_result (e2 + nDeltaPoc0 c)) (\<lambda>p.
     and_then (int_result (p + nOffsetForTopToBottomField s)) (\<lambda>q.
     and_then (if nPicStructure c = FRAME then int_result (q + nDeltaPoc1 c) else Inr q) (\<lambda>q1.
       Inr (c, p, q1)))))))))"

text \<open>Type 2: the output order is the decoding order\<close>

definition poc_type2 :: "PocContext \<Rightarrow> (PocContext \<times> int \<times> int) res" where
  "poc_type2 c =
     (if bIdrFrmFlag c then Inr (c, 0, 0)
      else and_then (int_result (nFrmNumOffset c + nFrmNum c)) (\<lambda>n.
           and_then (int_result (2 * n)) (\<lambda>m.
             if nNalRefIdc c \<noteq> 0 then Inr (c, m, m)
             else and_then (int_result (m - 1)) (\<lambda>k. Inr (c, k, k)))))"

text \<open>The counts of the fields that the picture has\<close>

definition store_poc :: "PocContext \<Rightarrow> int \<Rightarrow> int \<Rightarrow> PocContext" where
  "store_poc c p0 p1 =
     (let c1 = (if nPicStructure c \<noteq> BOTTOM_FIELD
                then (if p0 smod 2 = 1 then c\<lparr>nPicPocDeltaNum := 1\<rparr> else c)
                  \<lparr>pCurPicture := (pCurPicture c)\<lparr>nFieldPoc0 := p0, nPoc := p0,
                     nFieldPicStructure0 := nPicStructure c, nFieldNalRefIdc0 := word_of_int (nNalRefIdc c),
                     picMbAffFrame := word_of_int (bMbAffFrame c)\<rparr>\<rparr>
                else c);
          c2 = (if nPicStructure c1 \<noteq> TOP_FIELD
                then c1\<lparr>pCurPicture := (pCurPicture c1)\<lparr>nFieldPoc1 := p1, nPoc := p1,
                       nFieldPicStructure1 := nPicStructure c1, nFieldNalRefIdc1 := word_of_int (nNalRefIdc c1)\<rparr>\<rparr>
                else c1);
          v = pCurPicture c2
      in if nPicStructure c2 = FRAME \<or> \<not> bFstField c2
         then c2\<lparr>pCurPicture := v\<lparr>nPoc := if nFieldPoc0 v > nFieldPoc1 v then nFieldPoc1 v else nFieldPoc0 v\<rparr>\<rparr>
         else c2)"

definition H264InitPoc :: "PocContext \<Rightarrow> PocContext res" where
  "H264InitPoc c0 =
     and_then (frm_num_offset c0) (\<lambda>c.
     and_then (if nPocType (pCurSps c) = 0 then poc_type0 c
               else if ctxPocType c = 1 then poc_type1 c
               else poc_type2 c) (\<lambda>(c1, p0, p1). Inr (store_poc c1 p0 p1)))"

text \<open>The previous values after a decoded picture, reference or not\<close>

definition after_picture :: "PocContext \<Rightarrow> PocContext" where
  "after_picture c = c\<lparr>nPrevFrmNumOffset := nFrmNumOffset c, nPrevFrmNum := nFrmNum c,
     nPrevPocMsb := nPocMsb c, nPrevPocLsb := nPocLsb c\<rparr>"

text \<open>The counts in the slice header; \<open>order\<close> is the flag \<^verbatim>\<open>pPicOrderPresent\<close> of the picture parameter set.\<close>

definition slice_poc :: "'r H264Reader \<Rightarrow> bool \<Rightarrow> PocContext \<Rightarrow> 'r \<Rightarrow> (PocContext \<times> 'r) res" where
  "slice_poc R order c =
     (let s = pCurSps c; both = (order \<and> nPicStructure c = FRAME) in
     rd (if nPocType s = 0 then
           rd (GetBits R (unat (nLog2MaxPocLsb s))) (\<lambda>w.
             let c1 = c\<lparr>nPocLsb := sint w\<rparr>
             in if both then rd (GetSeGolomb R) (\<lambda>d. give (c1\<lparr>nDeltaPocBottom := d\<rparr>)) else give c1)
         else give c) (\<lambda>c2.
       if nPocType s = 1 \<and> bDeltaPicOrderAlwaysZeroFlag s = 0 then
         rd (GetSeGolomb R) (\<lambda>d0.
           let c3 = c2\<lparr>nDeltaPoc0 := d0\<rparr>
           in if both then rd (GetSeGolomb R) (\<lambda>d1. give (c3\<lparr>nDeltaPoc1 := d1\<rparr>)) else give c3)
       else give c2))"

section \<open>The true counts of a sequence\<close>

text \<open>
  A frame as an encoder sees it: whether it starts a coded sequence, whether it is a reference, its frame
  number and the counts of its two fields. The slice header has the low bits of the first and the difference.
\<close>

record frame =
  fIdr :: bool
  fRef :: bool
  fNum :: int
  fTop :: int
  fBottom :: int

definition code_frame :: "nat \<Rightarrow> frame \<Rightarrow> PocContext \<Rightarrow> PocContext" where
  "code_frame k f c = c\<lparr>bIdrFrmFlag := fIdr f, nNalRefIdc := of_bool (fRef f), nFrmNum := fNum f,
     nPicStructure := FRAME, nPocLsb := fTop f mod 2 ^ k, nDeltaPocBottom := fBottom f - fTop f\<rparr>"

text \<open>Decoding the frames one by one gives the counts of the pictures.\<close>

fun decode_pocs :: "nat \<Rightarrow> frame list \<Rightarrow> PocContext \<Rightarrow> (int \<times> int \<times> int) list res" where
  "decode_pocs k [] c = Inr []"
| "decode_pocs k (f # fs) c =
     and_then (H264InitPoc (code_frame k f c)) (\<lambda>c1.
     and_then (decode_pocs k fs (after_picture c1)) (\<lambda>ps.
       Inr ((nFieldPoc0 (pCurPicture c1), nFieldPoc1 (pCurPicture c1), nPoc (pCurPicture c1)) # ps)))"

text \<open>Each count is within half the range of the low bits of the one before, the first of a sequence of 0.\<close>

fun close_counts :: "nat \<Rightarrow> int \<Rightarrow> frame list \<Rightarrow> bool" where
  "close_counts k prev [] \<longleftrightarrow> True"
| "close_counts k prev (f # fs) \<longleftrightarrow>
     (let q = (if fIdr f then 0 else prev)
      in - (2 ^ (k - 1)) < fTop f - q \<and> fTop f - q \<le> 2 ^ (k - 1)) \<and>
     \<bar>fTop f\<bar> < 2 ^ 29 \<and> \<bar>fBottom f\<bar> < 2 ^ 29 \<and> close_counts k (fTop f) fs"

end
