(* ===== verification/SbmFrame.thy ===== *)
theory SbmFrame
  imports SbmStream MessageQueue
begin

text \<open>
  The frame-based stream manager of \<^verbatim>\<open>vdecoder/sbm/sbmFrameBase.c\<close>, which H.264 and H.265
  streams use: the descriptor ring and the byte ring of \<^verbatim>\<open>SbmStream\<close>, and behind them a ring
  of frame pictures, each with its list of NAL units. A thread of the manager takes the
  descriptors, cuts their bytes into NAL units (theory \<^verbatim>\<open>SbmDetect\<close>) and queues frame
  pictures; the decoder requests, gives back and flushes those. This theory holds the data,
  the calls of the client and of the decoder, and the queue operations of the thread.
\<close>

section \<open>Data\<close>

text \<open>
  Addresses are integers, NULL is 0; a pointer into \<^verbatim>\<open>pFrames\<close> or \<^verbatim>\<open>pFramePics\<close> that the
  thread keeps is the element's index. Fields whose names \<^verbatim>\<open>VideoStreamDataInfo\<close> has too carry
  the prefix \<^verbatim>\<open>pic_\<close>.
\<close>

record NaluInfo =
  nType :: int
  nNalRefIdc :: int
  pDataBuf :: int
  nDataSize :: int

record FramePicInfo =
  pNaluInfoList :: "nat \<Rightarrow> NaluInfo"
  nMaxNaluNum :: int
  nCurNaluIdx :: int
  nlength :: int
  pDataStartAddr :: int
  pic_nPts :: int
  pic_nPcr :: int
  bValidFlag :: int
  nFrameNaluType :: int
  pic_bVideoInfoFlag :: int
  pic_pVideoInfo :: int

record FramePicFifo =
  pFramePics :: "nat \<Rightarrow> FramePicInfo"
  nMaxFramePicNum :: int
  nValidFramePicNum :: int
  nUnReadFramePicNum :: int
  nFPReadPos :: int
  nFPWritePos :: int
  nFPFlushPos :: int

record DetectFramePicInfo =
  pCurStream :: "nat option"
  pCurStreamDataptr :: int
  nCurStreamDataSize :: int
  nCurStreamRebackFlag :: int
  pCurFramePic :: "nat option"
  bCurFrameStartCodeFound :: int
  nCurFramePtsList :: "int list"

record SbmFrameConfig = SbmConfig +
  nWidth :: int
  nConfigSbmBufferSize :: int
  nNaluLength :: int

record SbmFrame = SbmStream +
  sbm_mq :: MessageQueueContext
  mFramePicFifo :: FramePicFifo
  streamDataSem :: nat
  emptyFramePicSem :: nat
  resetSem :: nat
  bStreamWithStartCode :: int
  mDetectInfo :: DetectFramePicInfo
  mConfig :: SbmFrameConfig
  nEosFlag :: int
  pDetectBufStart :: int
  pDetectBufEnd :: int
  sbm_nType :: int

definition SBM_TYPE_STREAM :: int where "SBM_TYPE_STREAM = 0"
definition SBM_TYPE_FRAME :: int where "SBM_TYPE_FRAME = 1"
definition SBM_TYPE_FRAME_AVC :: int where "SBM_TYPE_FRAME_AVC = 4"
definition MAX_FRAME_PIC_NUM :: int where "MAX_FRAME_PIC_NUM = 100"
definition DEFAULT_NALU_NUM :: int where "DEFAULT_NALU_NUM = 32"
definition MAX_FRAME_PTS_LIST_NUM :: int where "MAX_FRAME_PTS_LIST_NUM = 10"

definition SBM_THREAD_CMD_READ :: int where "SBM_THREAD_CMD_READ = 1"
definition SBM_THREAD_CMD_QUIT :: int where "SBM_THREAD_CMD_QUIT = 2"
definition SBM_THREAD_CMD_RESET :: int where "SBM_THREAD_CMD_RESET = 3"

definition zero_nalu :: NaluInfo where
  "zero_nalu = \<lparr>nType = 0, nNalRefIdc = 0, pDataBuf = 0, nDataSize = 0\<rparr>"

definition zero_pic :: FramePicInfo where
  "zero_pic = \<lparr>pNaluInfoList = (\<lambda>_. zero_nalu), nMaxNaluNum = 0, nCurNaluIdx = 0, nlength = 0,
     pDataStartAddr = 0, pic_nPts = 0, pic_nPcr = 0, bValidFlag = 0, nFrameNaluType = 0,
     pic_bVideoInfoFlag = 0, pic_pVideoInfo = 0\<rparr>"

definition zero_detect :: DetectFramePicInfo where
  "zero_detect = \<lparr>pCurStream = None, pCurStreamDataptr = 0, nCurStreamDataSize = 0,
     nCurStreamRebackFlag = 0, pCurFramePic = None, bCurFrameStartCodeFound = 0,
     nCurFramePtsList = replicate 10 0\<rparr>"

text \<open>An access \<^verbatim>\<open>pFramePics[pos]\<close>: the array has \<^verbatim>\<open>nMaxFramePicNum\<close> elements.\<close>

definition pic_slot :: "FramePicFifo \<Rightarrow> int \<Rightarrow> nat res" where
  "pic_slot f pos = (if 0 \<le> pos \<and> pos < nMaxFramePicNum f then Inr (nat pos) else Inl OutOfBounds)"

text \<open>The idiom \<^verbatim>\<open>sem_getvalue\<close>, and \<^verbatim>\<open>sem_post\<close> when the count is 0.\<close>

definition sem_post_if_zero :: "nat \<Rightarrow> nat" where
  "sem_post_if_zero n = (if n = 0 then Suc n else n)"

text \<open>\<^verbatim>\<open>SemTimedWait\<close> with a deadline: a token is taken, or the deadline passes.\<close>

definition sem_wait_20 :: "nat \<Rightarrow> nat" where
  "sem_wait_20 n = (if n > 0 then n - 1 else n)"

section \<open>Size of a frame buffer\<close>

definition SbmFrameBufferSizeCalculate :: "int \<Rightarrow> int \<Rightarrow> int" where
  "SbmFrameBufferSizeCalculate nConfigSbmBufferSize0 nVideoWidth0 =
     (let nVideoWidth = (if nVideoWidth0 = 0 then 1920 else nVideoWidth0);
          nBufferSize =
            (if nVideoWidth < 720 then 256 * 1024
             else if nVideoWidth < 1920 then 512 * 1024
             else if nVideoWidth < 3840 then 1 * 1024 * 1024
             else 3 * 1024 * 1024 div 2)
      in if nConfigSbmBufferSize0 > 1 * 1024 * 1024 \<and> nConfigSbmBufferSize0 \<le> 32 * 1024 * 1024
         then if nBufferSize > nConfigSbmBufferSize0 div 2 then nConfigSbmBufferSize0 div 2
              else nBufferSize
         else nBufferSize)"

section \<open>Creation\<close>

text \<open>
  What the environment answers to \<^verbatim>\<open>SbmFrameInit\<close>: the stream buffer's address, whether the
  descriptor array, the mutex, the picture array, the NAL unit list of each picture and the
  thread could be had, and the message queue (theory \<^verbatim>\<open>MessageQueue\<close>). The structure itself
  is the caller's; the error path \<^verbatim>\<open>ERROR\<close> frees it: the result \<open>None\<close>.
\<close>

record init_answers =
  a_buf :: "int option"
  a_frames :: bool
  a_mutex :: bool
  a_pics :: bool
  a_nalus :: "nat \<Rightarrow> bool"
  a_mq :: "MessageQueueContext option"
  a_thread :: bool

definition thread_msg :: "int \<Rightarrow> CdcMessage" where
  "thread_msg cmd = empty_message\<lparr>messageId := cmd\<rparr>"

definition SbmFrameInit ::
    "SbmFrame \<Rightarrow> SbmFrameConfig option \<Rightarrow> init_answers \<Rightarrow> (int \<times> SbmFrame option) res" where
  "SbmFrameInit s pSbmConfig env =
     (case pSbmConfig of
        None \<Rightarrow> Inr (-1, Some s)
      | Some cfg \<Rightarrow>
          if nSbmBufferTotalSize cfg \<le> 0 then Inr (-1, Some s)
          else case a_buf env of
            None \<Rightarrow> Inr (-1, None)
          | Some buf \<Rightarrow>
              if \<not> a_frames env then Inr (-1, None)
              else if \<not> a_mutex env then Inr (-1, None)
              else if \<not> a_pics env then Inr (-1, None)
              else if \<exists>i \<in> {0..<nat MAX_FRAME_PIC_NUM}. \<not> a_nalus env i then Inr (-1, None)
              else if \<not> a_thread env then Inr (-1, None)
              else case a_mq env of
                None \<Rightarrow> Inl NullDeref
              | Some q \<Rightarrow>
                  and_then (CdcMessageQueuePostMessage q (thread_msg SBM_THREAD_CMD_READ)) (\<lambda>(r, q1).
                  let fin = buf + nSbmBufferTotalSize cfg - 1 in
                  Inr (0, Some (s\<lparr>
                    mConfig := cfg,
                    frameFifo :=
                      \<lparr>pFrames = (\<lambda>i. zero_info\<lparr>nID := int i\<rparr>),
                       nMaxFrameNum = SBM_FRAME_FIFO_SIZE,
                       nValidFrameNum = 0, nUnReadFrameNum = 0,
                       nReadPos = 0, nWritePos = 0, nFlushPos = 0\<rparr>,
                    pStreamBuffer := buf, pStreamBufferEnd := fin,
                    nStreamBufferSize := nSbmBufferTotalSize cfg,
                    pWriteAddr := buf, nValidDataSize := 0,
                    mFramePicFifo := (mFramePicFifo s)\<lparr>
                      pFramePics := (\<lambda>_. zero_pic\<lparr>nMaxNaluNum := DEFAULT_NALU_NUM\<rparr>),
                      nMaxFramePicNum := MAX_FRAME_PIC_NUM\<rparr>,
                    pDetectBufStart := buf, pDetectBufEnd := fin,
                    streamDataSem := 0, emptyFramePicSem := 0, resetSem := 0,
                    sbm_mq := q1,
                    bStreamWithStartCode := - 1\<rparr>))))"

text \<open>
  \<^verbatim>\<open>GetSbmInterfaceFrame\<close> hands out a zeroed structure of the given type (\<open>None\<close>: no memory),
  \<^verbatim>\<open>GetSbmInterface\<close> selects the manager by type; its default case, whose label is misspelt,
  is unreachable, and the function falls through to the same NULL.
\<close>

definition GetSbmInterfaceFrame :: "bool \<Rightarrow> int \<Rightarrow> SbmFrame option" where
  "GetSbmInterfaceFrame ok nType0 =
     (if \<not> ok then None
      else Some \<lparr>pStreamBuffer = 0, pStreamBufferEnd = 0, nStreamBufferSize = 0, pWriteAddr = 0,
        nValidDataSize = 0,
        frameFifo = \<lparr>pFrames = (\<lambda>_. zero_info), nMaxFrameNum = 0, nValidFrameNum = 0,
          nUnReadFrameNum = 0, nReadPos = 0, nWritePos = 0, nFlushPos = 0\<rparr>,
        sbm_mq = \<lparr>pName = None, pHead = None, nCount = 0, Nodes = (\<lambda>_. zero_node),
          nMaxMessageNum = 0, sem = 0\<rparr>,
        mFramePicFifo = \<lparr>pFramePics = (\<lambda>_. zero_pic), nMaxFramePicNum = 0,
          nValidFramePicNum = 0, nUnReadFramePicNum = 0, nFPReadPos = 0, nFPWritePos = 0,
          nFPFlushPos = 0\<rparr>,
        streamDataSem = 0, emptyFramePicSem = 0, resetSem = 0, bStreamWithStartCode = 0,
        mDetectInfo = zero_detect,
        mConfig = \<lparr>bVirFlag = 0, nSbmBufferTotalSize = 0, nWidth = 0, nConfigSbmBufferSize = 0,
          nNaluLength = 0\<rparr>,
        nEosFlag = 0, pDetectBufStart = 0, pDetectBufEnd = 0, sbm_nType = nType0\<rparr>)"

datatype sbm_kind = StreamKind | FrameKind SbmFrame

definition GetSbmInterface :: "bool \<Rightarrow> int \<Rightarrow> sbm_kind option" where
  "GetSbmInterface ok nType0 =
     (if nType0 = SBM_TYPE_STREAM then (if ok then Some StreamKind else None)
      else if nType0 = SBM_TYPE_FRAME \<or> nType0 = SBM_TYPE_FRAME_AVC
      then map_option FrameKind (GetSbmInterfaceFrame ok nType0)
      else None)"

section \<open>Calls of the client\<close>

text \<open>Each takes the handle, possibly NULL. The mutex of an initialised manager can be locked.\<close>

fun SbmFrameGetBufferAddress :: "SbmFrame option \<Rightarrow> int" where
  "SbmFrameGetBufferAddress None = 0"
| "SbmFrameGetBufferAddress (Some s) = pStreamBuffer s"

fun SbmFrameGetBufferSize :: "SbmFrame option \<Rightarrow> int" where
  "SbmFrameGetBufferSize None = 0"
| "SbmFrameGetBufferSize (Some s) = nStreamBufferSize s"

fun SbmFrameGetStreamFrameNum :: "SbmFrame option \<Rightarrow> int" where
  "SbmFrameGetStreamFrameNum None = 0"
| "SbmFrameGetStreamFrameNum (Some s) =
     nValidFrameNum (frameFifo s) + nValidFramePicNum (mFramePicFifo s)"

fun SbmFrameGetStreamDataSize :: "SbmFrame option \<Rightarrow> int" where
  "SbmFrameGetStreamDataSize None = 0"
| "SbmFrameGetStreamDataSize (Some s) = nValidDataSize s"

fun SbmFrameGetBufferWritePointer :: "SbmFrame option \<Rightarrow> int" where
  "SbmFrameGetBufferWritePointer None = 0"
| "SbmFrameGetBufferWritePointer (Some s) = pWriteAddr s"

fun SbmFrameGetBufferDataInfo :: "SbmFrame option \<Rightarrow> int res" where
  "SbmFrameGetBufferDataInfo None = Inr 0"
| "SbmFrameGetBufferDataInfo (Some s) =
     (let f = mFramePicFifo s in
      if nUnReadFramePicNum f = 0 then Inr 0
      else and_then (pic_slot f (nFPReadPos f)) (\<lambda>i. Inr (pic_pVideoInfo (pFramePics f i))))"

fun SbmFrameRequestBuffer :: "SbmFrame option \<Rightarrow> int \<Rightarrow> (int \<times> (int \<times> int) option) res" where
  "SbmFrameRequestBuffer None nRequireSize = Inr (-1, None)"
| "SbmFrameRequestBuffer (Some s) nRequireSize =
     (if nValidFrameNum (frameFifo s) \<ge> nMaxFrameNum (frameFifo s) then Inr (-1, None)
      else if nValidDataSize s < nStreamBufferSize s then
        (let nFreeSize = nStreamBufferSize s - nValidDataSize s
         in and_then (int_result (nRequireSize + 64)) (\<lambda>need.
              if need > nFreeSize then Inr (-1, None)
              else Inr (0, Some (pWriteAddr s, nRequireSize))))
      else Inr (-1, None))"

fun SbmFrameAddStream ::
    "SbmFrame option \<Rightarrow> VideoStreamDataInfo option \<Rightarrow>
     (int \<times> SbmFrame option \<times> VideoStreamDataInfo option) res" where
  "SbmFrameAddStream None d = Inr (-1, None, d)"
| "SbmFrameAddStream (Some s) None = Inr (-1, Some s, None)"
| "SbmFrameAddStream (Some s) (Some d) =
     (let f = frameFifo s in
      if pData d = 0 then Inr (-1, Some s, Some d)
      else if nValidFrameNum f \<ge> nMaxFrameNum f then Inr (-1, Some s, Some d)
      else and_then (int_result (nLength d + nValidDataSize s)) (\<lambda>total.
        if total > nStreamBufferSize s then Inr (-1, Some s, Some d)
        else
          let d1 = (if bValid d = 0 then d\<lparr>bValid := 1\<rparr> else d) in
          and_then (slot f (nWritePos f)) (\<lambda>i.
            let nWritePos1 = nWritePos f + 1;
                nWritePos2 = (if nWritePos1 \<ge> nMaxFrameNum f then 0 else nWritePos1);
                pNew = pWriteAddr s + nLength d1;
                pNew1 = (if pNew > pStreamBufferEnd s then pNew - nStreamBufferSize s else pNew)
            in Inr (0, Some (s\<lparr>frameFifo := f\<lparr>pFrames := (pFrames f)(i := d1),
                                             nWritePos := nWritePos2,
                                             nValidFrameNum := nValidFrameNum f + 1,
                                             nUnReadFrameNum := nUnReadFrameNum f + 1\<rparr>,
                               nValidDataSize := nValidDataSize s + nLength d1,
                               pWriteAddr := pNew1,
                               streamDataSem := sem_post_if_zero (streamDataSem s)\<rparr>), Some d1))))"

fun SbmFrameSetEos :: "SbmFrame option \<Rightarrow> int \<Rightarrow> int \<times> SbmFrame option" where
  "SbmFrameSetEos None nEosFlag1 = (-1, None)"
| "SbmFrameSetEos (Some s) nEosFlag1 = (0, Some (s\<lparr>nEosFlag := nEosFlag1\<rparr>))"

section \<open>Calls of the decoder\<close>

text \<open>
  The decoder's descriptor pointer is a picture of the \<^verbatim>\<open>pFramePics\<close> array (\<open>Slot\<close>) or any
  other object.
\<close>

fun SbmFrameRequestFramePic :: "SbmFrame option \<Rightarrow> (stream_ptr option \<times> SbmFrame option) res" where
  "SbmFrameRequestFramePic None = Inr (None, None)"
| "SbmFrameRequestFramePic (Some s) =
     (let f = mFramePicFifo s in
      if nUnReadFramePicNum f = 0 then Inr (None, Some s)
      else and_then (pic_slot f (nFPReadPos f)) (\<lambda>i.
        let nReadPos1 = nFPReadPos f + 1;
            nReadPos2 = (if nReadPos1 \<ge> nMaxFramePicNum f then 0 else nReadPos1)
        in Inr (Some (Slot i), Some (s\<lparr>mFramePicFifo := f\<lparr>nFPReadPos := nReadPos2,
                                     nUnReadFramePicNum := nUnReadFramePicNum f - 1\<rparr>\<rparr>))))"

fun SbmFrameReturnFramePic ::
    "SbmFrame option \<Rightarrow> stream_ptr option \<Rightarrow> (int \<times> SbmFrame option) res" where
  "SbmFrameReturnFramePic None d = Inr (-1, None)"
| "SbmFrameReturnFramePic (Some s) None = Inr (-1, Some s)"
| "SbmFrameReturnFramePic (Some s) (Some d) =
     (let f = mFramePicFifo s in
      if nValidFramePicNum f = 0 then Inr (-1, Some s)
      else
        let nReadPos1 = nFPReadPos f - 1;
            nReadPos2 = (if nReadPos1 < 0 then nMaxFramePicNum f - 1 else nReadPos1)
        in and_then (pic_slot f nReadPos2) (\<lambda>i.
             if d \<noteq> Slot i then Inl Aborted
             else Inr (0, Some (s\<lparr>mFramePicFifo := f\<lparr>nFPReadPos := nReadPos2,
                                   nUnReadFramePicNum := nUnReadFramePicNum f + 1\<rparr>\<rparr>))))"

fun SbmFrameFlushFramePic ::
    "SbmFrame option \<Rightarrow> stream_ptr option \<Rightarrow> (int \<times> SbmFrame option) res" where
  "SbmFrameFlushFramePic None d = Inr (-1, None)"
| "SbmFrameFlushFramePic (Some s) None = Inr (-1, Some s)"
| "SbmFrameFlushFramePic (Some s) (Some d) =
     (let f = mFramePicFifo s in
      if nValidFramePicNum f = 0 then Inr (-1, Some s)
      else and_then (pic_slot f (nFPFlushPos f)) (\<lambda>i.
        if d \<noteq> Slot i then Inl Aborted
        else
          let nFlushPos1 = nFPFlushPos f + 1;
              nFlushPos2 = (if nFlushPos1 \<ge> nMaxFramePicNum f then 0 else nFlushPos1)
          in Inr (0, Some (s\<lparr>mFramePicFifo := f\<lparr>nValidFramePicNum := nValidFramePicNum f - 1,
                                              nFPFlushPos := nFlushPos2\<rparr>,
                             nValidDataSize := nValidDataSize s - nlength (pFramePics f i),
                             emptyFramePicSem := sem_post_if_zero (emptyFramePicSem s)\<rparr>))))"

section \<open>Queue operations of the thread\<close>

text \<open>The thread calls them on its own manager, so the handle is not NULL.\<close>

definition requestStream :: "SbmFrame \<Rightarrow> (nat option \<times> SbmFrame) res" where
  "requestStream s =
     (let f = frameFifo s in
      if nUnReadFrameNum f = 0 then Inr (None, s)
      else and_then (slot f (nReadPos f)) (\<lambda>i.
        let nReadPos1 = nReadPos f + 1;
            nReadPos2 = (if nReadPos1 \<ge> nMaxFrameNum f then 0 else nReadPos1)
        in Inr (Some i, s\<lparr>frameFifo := f\<lparr>nReadPos := nReadPos2,
                                        nUnReadFrameNum := nUnReadFrameNum f - 1\<rparr>\<rparr>)))"

definition returnStream :: "SbmFrame \<Rightarrow> nat option \<Rightarrow> (int \<times> SbmFrame) res" where
  "returnStream s pDataInfo =
     (case pDataInfo of None \<Rightarrow> Inr (-1, s) | Some d \<Rightarrow>
      let f = frameFifo s in
      if nValidFrameNum f = 0 then Inr (-1, s)
      else
        let nReadPos1 = nReadPos f - 1;
            nReadPos2 = (if nReadPos1 < 0 then nMaxFrameNum f - 1 else nReadPos1);
            f1 = f\<lparr>nUnReadFrameNum := nUnReadFrameNum f + 1\<rparr>
        in and_then (slot f1 nReadPos2) (\<lambda>i.
             if d \<noteq> i then Inl Aborted
             else Inr (0, s\<lparr>frameFifo := f1\<lparr>pFrames := (pFrames f1)(i := pFrames f1 d),
                                           nReadPos := nReadPos2\<rparr>\<rparr>)))"

definition flushStream :: "SbmFrame \<Rightarrow> nat option \<Rightarrow> bool \<Rightarrow> (int \<times> SbmFrame) res" where
  "flushStream s pDataInfo bFlush =
     (let f = frameFifo s in
      if nValidFrameNum f = 0 then Inr (-1, s)
      else and_then (slot f (nFlushPos f)) (\<lambda>i.
        if pDataInfo \<noteq> Some i then Inl Aborted
        else
          let nFlushPos1 = nFlushPos f + 1;
              nFlushPos2 = (if nFlushPos1 \<ge> nMaxFrameNum f then 0 else nFlushPos1)
          in Inr (0, s\<lparr>frameFifo := f\<lparr>nValidFrameNum := nValidFrameNum f - 1,
                                    nFlushPos := nFlushPos2\<rparr>,
                      nValidDataSize := (if bFlush then nValidDataSize s - nLength (pFrames f i)
                                         else nValidDataSize s)\<rparr>)))"

definition requestEmptyFramePic :: "SbmFrame \<Rightarrow> nat option res" where
  "requestEmptyFramePic s =
     (let f = mFramePicFifo s in
      if nValidFramePicNum f \<ge> nMaxFramePicNum f then Inr None
      else and_then (pic_slot f (nFPWritePos f)) (\<lambda>i. Inr (Some i)))"

definition addFramePic :: "SbmFrame \<Rightarrow> nat option \<Rightarrow> (int \<times> SbmFrame) res" where
  "addFramePic s pFramePic =
     (case pFramePic of None \<Rightarrow> Inr (-1, s) | Some p \<Rightarrow>
      let f = mFramePicFifo s in
      if nValidFramePicNum f \<ge> nMaxFramePicNum f then Inr (-1, s)
      else and_then (pic_slot f (nFPWritePos f)) (\<lambda>i.
        if p \<noteq> i then Inl Aborted
        else
          let nWritePos1 = nFPWritePos f + 1;
              nWritePos2 = (if nWritePos1 \<ge> nMaxFramePicNum f then 0 else nWritePos1)
          in Inr (0, s\<lparr>mFramePicFifo := f\<lparr>nFPWritePos := nWritePos2,
                        nValidFramePicNum := nValidFramePicNum f + 1,
                        nUnReadFramePicNum := nUnReadFramePicNum f + 1\<rparr>\<rparr>)))"

end
