(* ===== verification/SbmDetect.thy ===== *)
theory SbmDetect
  imports SbmFrame
begin

text \<open>
  How the frame-based stream manager reads its stream buffer: the helper functions that
  \<^verbatim>\<open>vdecoder/sbm/sbmFrameH264.c\<close> and \<^verbatim>\<open>sbmFrameH265.c\<close> have in common, textually the same in
  both files up to the two limits of the buffer, which are arguments here. The bytes are a
  memory \<open>m\<close>; every read is checked against the stream buffer. A \<^verbatim>\<open>char\<close> is unsigned, as on
  the ARM targets of the library (the H.265 code relies on it).
\<close>

type_synonym memory = "int \<Rightarrow> 8 word"

section \<open>Loops\<close>

text \<open>One round of a \<^verbatim>\<open>while(1)\<close>: it goes round again or leaves with a result.\<close>

datatype ('s, 'r) flow = Go 's | Stop 'r

partial_function (option) loop :: "('s \<Rightarrow> ('s, 'r) flow res) \<Rightarrow> 's \<Rightarrow> 'r res option" where
  "loop body s = (case body s of
       Inl e \<Rightarrow> Some (Inl e)
     | Inr fl \<Rightarrow> (case fl of Stop r \<Rightarrow> Some (Inr r) | Go s' \<Rightarrow> loop body s'))"

declare loop.simps [code]

definition run_loop :: "('s \<Rightarrow> ('s, 'r) flow res) \<Rightarrow> 's \<Rightarrow> 'r res" where
  "run_loop body s = (case loop body s of None \<Rightarrow> Inl Diverges | Some r \<Rightarrow> r)"

lemma run_loop_unroll:
  "run_loop body s = (case body s of
       Inl e \<Rightarrow> Inl e
     | Inr fl \<Rightarrow> (case fl of Stop r \<Rightarrow> Inr r | Go s' \<Rightarrow> run_loop body s'))"
  by (subst run_loop_def, subst loop.simps) (auto simp: run_loop_def split: sum.splits flow.splits)

fun read_many :: "(int \<Rightarrow> 'b res) \<Rightarrow> int list \<Rightarrow> 'b list res" where
  "read_many f [] = Inr []"
| "read_many f (i # is) = and_then (f i) (\<lambda>b. and_then (read_many f is) (\<lambda>bs. Inr (b # bs)))"

section \<open>Bytes of the stream buffer\<close>

definition load :: "memory \<Rightarrow> SbmFrame \<Rightarrow> int \<Rightarrow> 8 word res" where
  "load m s a = (if pStreamBuffer s \<le> a \<and> a \<le> pStreamBufferEnd s then Inr (m a) else Inl OutOfBounds)"

definition readByteIdx :: "memory \<Rightarrow> SbmFrame \<Rightarrow> int \<Rightarrow> int \<Rightarrow> int \<Rightarrow> int \<Rightarrow> 8 word res" where
  "readByteIdx m s p pStart pEnd i =
     (if p + i \<le> pEnd then load m s (p + i)
      else let d = (pEnd - p) + 1 in load m s (pStart + (i - d)))"

definition ptrPlusOne :: "int \<Rightarrow> int \<Rightarrow> int \<Rightarrow> int" where
  "ptrPlusOne p pStart pEnd = (if p = pEnd then pStart else p + 1)"

text \<open>Big-endian accumulation \<^verbatim>\<open>x <<= 8; x |= byte\<close> in 32 bits.\<close>

definition shift_in :: "32 word \<Rightarrow> 8 word list \<Rightarrow> 32 word" where
  "shift_in x bs = foldl (\<lambda>x b. push_bit 8 x OR ucast b) x bs"

section \<open>The two searches for a start code\<close>

text \<open>\<^verbatim>\<open>tmpBuf[0] == 0 && tmpBuf[1] == 0 && tmpBuf[2] == 1\<close> on bytes read beforehand.\<close>

definition is_start_code :: "8 word list \<Rightarrow> bool" where
  "is_start_code bs = (bs = [0, 0, 1])"

fun search_ring :: "memory \<Rightarrow> SbmFrame \<Rightarrow> int \<Rightarrow> int \<Rightarrow> nat \<Rightarrow> int \<Rightarrow> int \<Rightarrow> (int \<times> int) res" where
  "search_ring m s pStart pEnd 0 pBuf idx = Inr (-1, idx)"
| "search_ring m s pStart pEnd (Suc nSize) pBuf idx =
     and_then (read_many (readByteIdx m s pBuf pStart pEnd) [0, 1, 2]) (\<lambda>tmpBuf.
       if is_start_code tmpBuf then Inr (0, idx + 3)
       else search_ring m s pStart pEnd nSize (ptrPlusOne pBuf pStart pEnd) (idx + 1))"

text \<open>The other branch reads \<^verbatim>\<open>pBuf[1]\<close> and \<^verbatim>\<open>pBuf[2]\<close> only when the bytes before are 0.\<close>

definition start_code_at :: "memory \<Rightarrow> SbmFrame \<Rightarrow> int \<Rightarrow> bool res" where
  "start_code_at m s pBuf =
     and_then (load m s pBuf) (\<lambda>b0. if b0 \<noteq> 0 then Inr False else
     and_then (load m s (pBuf + 1)) (\<lambda>b1. if b1 \<noteq> 0 then Inr False else
     and_then (load m s (pBuf + 2)) (\<lambda>b2. Inr (b2 = 1))))"

fun search_flat :: "memory \<Rightarrow> SbmFrame \<Rightarrow> nat \<Rightarrow> int \<Rightarrow> int \<Rightarrow> (int \<times> int) res" where
  "search_flat m s 0 pBuf idx = Inr (-1, idx)"
| "search_flat m s (Suc nSize) pBuf idx =
     and_then (start_code_at m s pBuf) (\<lambda>found.
       if found then Inr (0, idx + 3) else search_flat m s nSize (pBuf + 1) (idx + 1))"

text \<open>The result code and the index behind the start code.\<close>

definition searchStartCode :: "memory \<Rightarrow> int \<Rightarrow> int \<Rightarrow> SbmFrame \<Rightarrow> (int \<times> int) res" where
  "searchStartCode m pStart pEnd s =
     (let d = mDetectInfo s; nSize = nat (nCurStreamDataSize d - 3)
      in if nCurStreamRebackFlag d \<noteq> 0 then search_ring m s pStart pEnd nSize (pCurStreamDataptr d) 0
         else search_flat m s nSize (pCurStreamDataptr d) 0)"

section \<open>The frame picture under construction\<close>

definition upd_detect :: "(DetectFramePicInfo \<Rightarrow> DetectFramePicInfo) \<Rightarrow> SbmFrame \<Rightarrow> SbmFrame" where
  "upd_detect g s = s\<lparr>mDetectInfo := g (mDetectInfo s)\<rparr>"

definition set_pic :: "nat \<Rightarrow> FramePicInfo \<Rightarrow> SbmFrame \<Rightarrow> SbmFrame" where
  "set_pic i p s = s\<lparr>mFramePicFifo := (mFramePicFifo s)\<lparr>
     pFramePics := (pFramePics (mFramePicFifo s))(i := p)\<rparr>\<rparr>"

text \<open>Accesses through the pointers \<^verbatim>\<open>pCurFramePic\<close> and \<^verbatim>\<open>pCurStream\<close>.\<close>

definition cur_pic :: "SbmFrame \<Rightarrow> FramePicInfo res" where
  "cur_pic s = and_then (of_option NullDeref (pCurFramePic (mDetectInfo s)))
     (\<lambda>i. Inr (pFramePics (mFramePicFifo s) i))"

definition upd_cur_pic :: "(FramePicInfo \<Rightarrow> FramePicInfo) \<Rightarrow> SbmFrame \<Rightarrow> SbmFrame res" where
  "upd_cur_pic g s = and_then (of_option NullDeref (pCurFramePic (mDetectInfo s)))
     (\<lambda>i. Inr (set_pic i (g (pFramePics (mFramePicFifo s) i)) s))"

definition cur_stream :: "SbmFrame \<Rightarrow> VideoStreamDataInfo res" where
  "cur_stream s = and_then (of_option NullDeref (pCurStream (mDetectInfo s)))
     (\<lambda>i. Inr (pFrames (frameFifo s) i))"

text \<open>\<^verbatim>\<open>realloc\<close> keeps the elements both lists have; it is assumed to succeed, as the code does.\<close>

definition expandNaluList :: "FramePicInfo \<Rightarrow> FramePicInfo" where
  "expandNaluList p = p\<lparr>nMaxNaluNum := nMaxNaluNum p + DEFAULT_NALU_NUM\<rparr>"

definition first_valid_pts :: "int list \<Rightarrow> int" where
  "first_valid_pts ps = (case find (\<lambda>x. x \<noteq> -1) (take (nat MAX_FRAME_PTS_LIST_NUM) ps) of
     None \<Rightarrow> -1 | Some x \<Rightarrow> x)"

definition chooseFramePts :: "SbmFrame \<Rightarrow> SbmFrame res" where
  "chooseFramePts s =
     upd_cur_pic (\<lambda>p. p\<lparr>pic_nPts := first_valid_pts (nCurFramePtsList (mDetectInfo s))\<rparr>) s"

definition initFramePicInfo :: "SbmFrame \<Rightarrow> SbmFrame res" where
  "initFramePicInfo s =
     upd_cur_pic (\<lambda>p.
       let p1 = p\<lparr>bValidFlag := 1, nlength := 0, pDataStartAddr := 0, pic_nPts := -1,
                  pic_nPcr := -1, nCurNaluIdx := 0\<rparr>;
           p2 = (if nMaxNaluNum p1 > DEFAULT_NALU_NUM then p1\<lparr>nMaxNaluNum := DEFAULT_NALU_NUM\<rparr>
                 else p1)
       in p2\<lparr>pNaluInfoList := (\<lambda>j. if int j < nMaxNaluNum p2 then zero_nalu
                                   else pNaluInfoList p2 j)\<rparr>)
       (upd_detect (\<lambda>d. d\<lparr>nCurFramePtsList := replicate (nat MAX_FRAME_PTS_LIST_NUM) (-1)\<rparr>) s)"

section \<open>Taking the next piece of the stream\<close>

text \<open>
  \<open>reback s d\<close> is the file's condition under which the piece \<open>d\<close> turns around at the end of
  the buffer.
\<close>

definition drop_cur_stream :: "SbmFrame \<Rightarrow> SbmFrame res" where
  "drop_cur_stream s =
     (case pCurStream (mDetectInfo s) of None \<Rightarrow> Inr s | Some i \<Rightarrow>
        and_then (flushStream s (Some i) False) (\<lambda>(_, s1).
        let s2 = upd_detect (\<lambda>d. d\<lparr>pCurStream := None\<rparr>) s1 in
        and_then (if pCurFramePic (mDetectInfo s2) \<noteq> None
                  then upd_cur_pic (\<lambda>p. p\<lparr>nlength := nlength p + nCurStreamDataSize (mDetectInfo s2)\<rparr>) s2
                  else Inr s2) (\<lambda>s3.
        Inr (upd_detect (\<lambda>d. d\<lparr>nCurStreamDataSize := 0, pCurStreamDataptr := 0\<rparr>) s3))))"

definition supplyStreamData ::
    "(SbmFrame \<Rightarrow> VideoStreamDataInfo \<Rightarrow> bool) \<Rightarrow> SbmFrame \<Rightarrow> (int \<times> SbmFrame) res" where
  "supplyStreamData reback s =
     and_then (drop_cur_stream s) (\<lambda>s1.
     and_then (requestStream s1) (\<lambda>(pStream, s2).
     case pStream of
       None \<Rightarrow> Inr (-1, s2\<lparr>streamDataSem := sem_wait_20 (streamDataSem s2)\<rparr>)
     | Some i \<Rightarrow>
         let st = pFrames (frameFifo s2) i in
         if nLength st \<le> 0 then and_then (flushStream s2 (Some i) False) (\<lambda>(_, s3). Inr (-1, s3))
         else Inr (0, upd_detect (\<lambda>d. d\<lparr>pCurStream := Some i, pCurStreamDataptr := pData st,
             nCurStreamDataSize := nLength st,
             nCurStreamRebackFlag := (if reback s2 st then 1 else 0)\<rparr>) s2)))"

definition MAX_INVALID_STREAM_DATA_SIZE :: int where
  "MAX_INVALID_STREAM_DATA_SIZE = 1 * 1024 * 1024"

definition MAX_NALU_NUM_IN_FRAME :: int where
  "MAX_NALU_NUM_IN_FRAME = 1024"

text \<open>
  What becomes of the picture when its piece has no NAL unit: whether it is queued at once, and
  its new fields.
\<close>

definition disposed_pic :: "VideoStreamDataInfo \<Rightarrow> DetectFramePicInfo \<Rightarrow> FramePicInfo \<Rightarrow>
    bool \<times> FramePicInfo" where
  "disposed_pic st d p =
     (if pCurStreamDataptr d = pData st \<and> nlength p = 0
      then (True, p\<lparr>pDataStartAddr := pData st, nlength := nLength st, bValidFlag := 0\<rparr>)
      else let p1 = p\<lparr>nlength := nlength p + nCurStreamDataSize d\<rparr>
           in if nlength p1 > MAX_INVALID_STREAM_DATA_SIZE then (True, p1\<lparr>bValidFlag := 0\<rparr>)
              else (False, p1))"

definition disposeInvalidStreamData :: "SbmFrame \<Rightarrow> SbmFrame res" where
  "disposeInvalidStreamData s =
     and_then (cur_stream s) (\<lambda>st.
     and_then (cur_pic s) (\<lambda>p.
     let (bNeedAddFramePic, p1) = disposed_pic st (mDetectInfo s) p in
     and_then (upd_cur_pic (\<lambda>_. p1) s) (\<lambda>s1.
     and_then (flushStream s1 (pCurStream (mDetectInfo s1)) False) (\<lambda>(_, s2).
     let s3 = upd_detect (\<lambda>d. d\<lparr>pCurStream := None, pCurStreamDataptr := 0,
                                 nCurStreamDataSize := 0\<rparr>) s2
     in if bNeedAddFramePic
        then and_then (addFramePic s3 (pCurFramePic (mDetectInfo s3))) (\<lambda>(_, s4).
             Inr (upd_detect (\<lambda>d. d\<lparr>pCurFramePic := None\<rparr>) s4))
        else Inr s3))))"

definition skipCurStreamDataBytes :: "int \<Rightarrow> int \<Rightarrow> int \<Rightarrow> SbmFrame \<Rightarrow> SbmFrame res" where
  "skipCurStreamDataBytes pStart pEnd nSkipSize s =
     (let p = pCurStreamDataptr (mDetectInfo s) + nSkipSize;
          p1 = (if p > pEnd then pStart + (p - pEnd - 1) else p)
      in upd_cur_pic (\<lambda>q. q\<lparr>nlength := nlength q + nSkipSize\<rparr>)
           (upd_detect (\<lambda>d. d\<lparr>pCurStreamDataptr := p1,
                              nCurStreamDataSize := nCurStreamDataSize d - nSkipSize\<rparr>) s))"

text \<open>
  \<^verbatim>\<open>storeNaluInfo\<close> of both files: \<open>fill\<close> writes the fields of the list element, \<open>flags\<close> what
  the file adds to the picture.
\<close>

definition store_nalu :: "(NaluInfo \<Rightarrow> NaluInfo) \<Rightarrow>
    (VideoStreamDataInfo \<Rightarrow> FramePicInfo \<Rightarrow> FramePicInfo) \<Rightarrow> SbmFrame \<Rightarrow> SbmFrame res" where
  "store_nalu fill flags s =
     and_then (cur_pic s) (\<lambda>p.
     and_then (cur_stream s) (\<lambda>st.
     let nNaluIdx = nCurNaluIdx p in
     if \<not> (0 \<le> nNaluIdx \<and> nNaluIdx < nMaxNaluNum p) then Inl OutOfBounds
     else
       let i = nat nNaluIdx;
           s1 = upd_detect (\<lambda>d. if nNaluIdx < MAX_FRAME_PTS_LIST_NUM
                  then d\<lparr>nCurFramePtsList := (nCurFramePtsList d)[i := nPts st]\<rparr> else d) s;
           p1 = p\<lparr>pNaluInfoList := (pNaluInfoList p)(i := fill (pNaluInfoList p i)),
                  nCurNaluIdx := nNaluIdx + 1\<rparr>;
           p2 = (if nCurNaluIdx p1 \<ge> nMaxNaluNum p1 then expandNaluList p1 else p1)
       in upd_cur_pic (\<lambda>_. flags st p2) s1))"

section \<open>The steps of a detection round\<close>

text \<open>A picture is at hand, or an empty one is taken from the ring (\<open>False\<close>: there is none).\<close>

definition obtain_pic :: "SbmFrame \<Rightarrow> (bool \<times> SbmFrame) res" where
  "obtain_pic s =
     (if pCurFramePic (mDetectInfo s) \<noteq> None then Inr (True, s)
      else and_then (requestEmptyFramePic s) (\<lambda>p. case p of
          None \<Rightarrow> Inr (False, s\<lparr>emptyFramePicSem := sem_wait_20 (emptyFramePicSem s)\<rparr>)
        | Some i \<Rightarrow> and_then (initFramePicInfo (upd_detect (\<lambda>d. d\<lparr>pCurFramePic := Some i\<rparr>) s))
                     (\<lambda>s1. Inr (True, s1))))"

text \<open>One frame picture is complete.\<close>

definition close_pic :: "SbmFrame \<Rightarrow> SbmFrame res" where
  "close_pic s =
     and_then (chooseFramePts (upd_detect (\<lambda>d. d\<lparr>bCurFrameStartCodeFound := 0\<rparr>) s)) (\<lambda>s1.
     and_then (addFramePic s1 (pCurFramePic (mDetectInfo s1))) (\<lambda>(_, s2).
     Inr (upd_detect (\<lambda>d. d\<lparr>pCurFramePic := None\<rparr>) s2)))"

text \<open>Step 1: there are at least 5 bytes left, or the next piece is requested.\<close>

definition supply_step ::
    "(SbmFrame \<Rightarrow> VideoStreamDataInfo \<Rightarrow> bool) \<Rightarrow> SbmFrame \<Rightarrow> (bool \<times> SbmFrame) res" where
  "supply_step reback s =
     (if nCurStreamDataSize (mDetectInfo s) < 5 \<or> pCurStreamDataptr (mDetectInfo s) = 0
      then and_then (supplyStreamData reback s) (\<lambda>(r, s1).
             if r \<noteq> 0 then
               if bCurFrameStartCodeFound (mDetectInfo s1) = 1 \<and> nEosFlag s1 = 1
               then and_then (close_pic s1) (\<lambda>s2. Inr (False, s2))
               else Inr (False, s1)
             else Inr (True, s1))
      else Inr (True, s))"

text \<open>The first bytes of a picture.\<close>

definition begin_pic :: "SbmFrame \<Rightarrow> SbmFrame res" where
  "begin_pic s =
     and_then (cur_pic s) (\<lambda>p.
     if pDataStartAddr p = 0 then
       and_then (cur_stream s) (\<lambda>st.
       upd_cur_pic (\<lambda>p. p\<lparr>pDataStartAddr := pCurStreamDataptr (mDetectInfo s),
                          pic_pVideoInfo := pVideoInfo st\<rparr>) s)
     else Inr s)"

text \<open>
  Steps 2 to 7 for start codes; the file gives the limits of its buffer, its decision at the
  boundary of a picture (\<open>boundary\<close>, from the address behind the start code and the header
  byte; \<open>False\<close>: the picture is complete), and its \<^verbatim>\<open>storeNaluInfo\<close> (\<open>store\<close>, from the header byte,
  the size and the address).
\<close>

definition with_code_unit :: "memory \<Rightarrow> int \<Rightarrow> int \<Rightarrow>
    (int \<Rightarrow> 8 word \<Rightarrow> SbmFrame \<Rightarrow> (bool \<times> SbmFrame) res) \<Rightarrow>
    (8 word \<Rightarrow> int \<Rightarrow> int \<Rightarrow> SbmFrame \<Rightarrow> SbmFrame res) \<Rightarrow>
    SbmFrame \<Rightarrow> (SbmFrame, SbmFrame) flow res" where
  "with_code_unit m pStart pEnd boundary store s2 =
     and_then (searchStartCode m pStart pEnd s2) (\<lambda>(nRet, nAfterStartCodeIdx).
     and_then (cur_pic s2) (\<lambda>p.
     if nRet \<noteq> 0 \<or> nCurNaluIdx p > MAX_NALU_NUM_IN_FRAME
     then and_then (disposeInvalidStreamData s2) (\<lambda>s3. Inr (Stop s3))
     else
       let pAfterStartCodeBuf = pCurStreamDataptr (mDetectInfo s2) + nAfterStartCodeIdx in
       and_then (readByteIdx m s2 pAfterStartCodeBuf pStart pEnd 0) (\<lambda>b.
       and_then (boundary pAfterStartCodeBuf b s2) (\<lambda>(open1, s3).
       if \<not> open1 then Inr (Stop s3) else
       and_then (skipCurStreamDataBytes pStart pEnd nAfterStartCodeIdx s3) (\<lambda>s4.
       and_then (searchStartCode m pStart pEnd s4) (\<lambda>(nRet1, idx).
       let nNaluSize = (if nRet1 \<noteq> 0 then nCurStreamDataSize (mDetectInfo s4) else idx - 3) in
       and_then (store b nNaluSize (pCurStreamDataptr (mDetectInfo s4)) s4) (\<lambda>s5.
       and_then (skipCurStreamDataBytes pStart pEnd nNaluSize s5) (\<lambda>s6.
       Inr (Go s6)))))))))"

text \<open>
  Steps 2 to 6 for lengths of \<open>k\<close> bytes; \<open>fits\<close> is the file's comparison of the length with the
  bytes left.
\<close>

definition with_length_unit :: "memory \<Rightarrow> int \<Rightarrow> int \<Rightarrow> int \<Rightarrow> (32 word \<Rightarrow> int \<Rightarrow> bool) \<Rightarrow>
    (int \<Rightarrow> 8 word \<Rightarrow> SbmFrame \<Rightarrow> (bool \<times> SbmFrame) res) \<Rightarrow>
    (8 word \<Rightarrow> int \<Rightarrow> int \<Rightarrow> SbmFrame \<Rightarrow> SbmFrame res) \<Rightarrow>
    SbmFrame \<Rightarrow> (SbmFrame, SbmFrame) flow res" where
  "with_length_unit m pStart pEnd k fits boundary store s2 =
     (let ptr = pCurStreamDataptr (mDetectInfo s2) in
      and_then (read_many (readByteIdx m s2 ptr pStart pEnd) (upto 0 (k - 1))) (\<lambda>tmpBuf.
      let nNaluSize = shift_in 0 tmpBuf in
      and_then (cur_pic s2) (\<lambda>p.
      if \<not> fits nNaluSize (nCurStreamDataSize (mDetectInfo s2) - k) \<or> nNaluSize = 0 \<or>
         nCurNaluIdx p > MAX_NALU_NUM_IN_FRAME
      then and_then (disposeInvalidStreamData s2) (\<lambda>s3. Inr (Stop s3))
      else
        and_then (readByteIdx m s2 (ptr + k) pStart pEnd 0) (\<lambda>b.
        and_then (boundary (ptr + k) b s2) (\<lambda>(open1, s3).
        if \<not> open1 then Inr (Stop s3) else
        and_then (skipCurStreamDataBytes pStart pEnd k s3) (\<lambda>s4.
        and_then (store b (sint nNaluSize) (pCurStreamDataptr (mDetectInfo s4)) s4) (\<lambda>s5.
        and_then (skipCurStreamDataBytes pStart pEnd (sint nNaluSize) s5) (\<lambda>s6.
        Inr (Go s6)))))))))"

text \<open>One round of the \<^verbatim>\<open>while(1)\<close> loop, and a detection call.\<close>

definition detection_round :: "(SbmFrame \<Rightarrow> VideoStreamDataInfo \<Rightarrow> bool) \<Rightarrow>
    (SbmFrame \<Rightarrow> (SbmFrame, SbmFrame) flow res) \<Rightarrow> SbmFrame \<Rightarrow> (SbmFrame, SbmFrame) flow res" where
  "detection_round reback take_unit s =
     and_then (supply_step reback s) (\<lambda>(go, s1). if \<not> go then Inr (Stop s1) else
     and_then (begin_pic s1) take_unit)"

definition detect :: "(memory \<Rightarrow> SbmFrame \<Rightarrow> (SbmFrame, SbmFrame) flow res) \<Rightarrow> memory \<Rightarrow> SbmFrame \<Rightarrow>
    SbmFrame res" where
  "detect body m s =
     and_then (obtain_pic s) (\<lambda>(got, s1). if \<not> got then Inr s1 else run_loop (body m) s1)"

section \<open>Which kind of stream it is\<close>

definition VDECODE_RESULT_NO_BITSTREAM :: int where "VDECODE_RESULT_NO_BITSTREAM = 5"

text \<open>
  The loop of both \<^verbatim>\<open>...SbmFrameCheckBitStreamType\<close> functions, over the two checks of the
  file, for at most the given number of requests.
\<close>

fun check_stream_type :: "(SbmFrame \<Rightarrow> VideoStreamDataInfo \<Rightarrow> (int \<times> SbmFrame) res) \<Rightarrow>
    (SbmFrame \<Rightarrow> VideoStreamDataInfo \<Rightarrow> int res) \<Rightarrow> nat \<Rightarrow> SbmFrame \<Rightarrow> (int \<times> SbmFrame) res" where
  "check_stream_type withCode withoutCode 0 s = Inr (VDECODE_RESULT_NO_BITSTREAM, s)"
| "check_stream_type withCode withoutCode (Suc n) s =
     and_then (requestStream s) (\<lambda>(pStream, s1).
     case pStream of
       None \<Rightarrow> Inr (VDECODE_RESULT_NO_BITSTREAM, s1)
     | Some i \<Rightarrow>
         let st = pFrames (frameFifo s1) i in
         if nLength st = 0 \<or> pData st = 0 then
           and_then (flushStream s1 (Some i) True) (\<lambda>(_, s2).
             check_stream_type withCode withoutCode n s2)
         else
           and_then (withCode s1 st) (\<lambda>(r1, s2).
           and_then (withoutCode s2 st) (\<lambda>r2.
           let bStartCode_with = (r1 = 0);
               bStartCode_without = (r2 = 0);
               kind = (if bStartCode_with \<and> bStartCode_without then 0
                       else if bStartCode_with \<and> \<not> bStartCode_without then 1
                       else if \<not> bStartCode_with \<and> bStartCode_without then 0 else - 1);
               s3 = s2\<lparr>bStreamWithStartCode := kind\<rparr>
           in if kind = - 1 then
                and_then (flushStream s3 (Some i) True) (\<lambda>(_, s4).
                  check_stream_type withCode withoutCode n s4)
              else and_then (returnStream s3 (Some i)) (\<lambda>(_, s4). Inr (0, s4)))))"

end
