(* ===== verification/SbmCodecs.thy ===== *)
theory SbmCodecs
  imports SbmDetect
begin

text \<open>
  The detection of frame pictures for H.264 (\<^verbatim>\<open>vdecoder/sbm/sbmFrameH264.c\<close>) and for H.265
  (\<^verbatim>\<open>sbmFrameH265.c\<close>): which kind of stream the bytes are (start codes, or a length before
  each NAL unit), and one detection call for each kind. Both files define the helper
  functions of theory \<^verbatim>\<open>SbmDetect\<close> for themselves. \<^verbatim>\<open>ADD_ONE_FRAME\<close> is 0 in the H.264 file,
  so there every NAL unit is a frame picture of its own; the H.265 file collects the NAL units
  of an access unit.
\<close>

section \<open>H.264\<close>

definition avc_reback :: "SbmFrame \<Rightarrow> VideoStreamDataInfo \<Rightarrow> bool" where
  "avc_reback s st =
     (let nRingBufSize = pStreamBufferEnd s - pData st + 1 in nLength st > nRingBufSize)"

function avc_scan_codes :: "memory \<Rightarrow> SbmFrame \<Rightarrow> int \<Rightarrow> int \<Rightarrow> int \<Rightarrow> int res" where
  "avc_scan_codes m s pBuf nBufSize nHadCheckBytesLen =
     (if nHadCheckBytesLen + 4 < nBufSize then
        and_then (read_many (\<lambda>i. readByteIdx m s pBuf (pDetectBufStart s) (pDetectBufEnd s)
            (nHadCheckBytesLen + i)) [0, 1, 2, 3]) (\<lambda>tmpBuf.
          let nCheck4BitsValue = sint (shift_in 0 tmpBuf) in
          if nCheck4BitsValue = 0 then avc_scan_codes m s pBuf nBufSize (nHadCheckBytesLen + 1)
          else if nCheck4BitsValue = 1 then Inr 0
          else if nCheck4BitsValue div 256 = 1 then Inr 0
          else avc_scan_codes m s pBuf nBufSize (nHadCheckBytesLen + 4))
      else Inr (-1))"
  by auto

termination
  by (relation "measure (\<lambda>(m, s, pBuf, nBufSize, n). nat (nBufSize - n))") auto

declare avc_scan_codes.simps [simp del]

definition avc_checkBitStreamTypeWithStartCode ::
    "memory \<Rightarrow> SbmFrame \<Rightarrow> VideoStreamDataInfo \<Rightarrow> (int \<times> SbmFrame) res" where
  "avc_checkBitStreamTypeWithStartCode m s pStream =
     and_then (avc_scan_codes m s (pData pStream) (nLength pStream) 0) (\<lambda>r.
       Inr (r, if r = 0 then s\<lparr>bStreamWithStartCode := 1\<rparr> else s))"

text \<open>
  The state of the loop: the bytes passed, \<^verbatim>\<open>nDataSize\<close> (which is not reset from one NAL unit
  to the next), and the read pointer.
\<close>

definition avc_lengths_body :: "memory \<Rightarrow> SbmFrame \<Rightarrow> VideoStreamDataInfo \<Rightarrow>
    int \<times> 32 word \<times> int \<Rightarrow> (int \<times> 32 word \<times> int, int) flow res" where
  "avc_lengths_body m s pStream = (\<lambda>(nHadProcessLen, nDataSize, pBuf).
     if nHadProcessLen < nLength pStream then
       let nRemainSize = nLength pStream - nHadProcessLen;
           k = nNaluLength (mConfig s)
       in if k > 4 then Inl OutOfBounds
          else and_then (read_many (readByteIdx m s pBuf (pDetectBufStart s) (pDetectBufEnd s))
                 (upto 0 (k - 1))) (\<lambda>tmpBuf.
            let w = shift_in nDataSize tmpBuf; n = sint w in
            if n > nRemainSize - k \<or> n < 0 then Inr (Stop (-1))
            else if n = nRemainSize - k \<and> n \<noteq> 0 then Inr (Stop 0)
            else Inr (Go (nHadProcessLen + (n + k), w, pBuf + (n + k))))
     else Inr (Stop (-1)))"

definition avc_checkBitStreamTypeWithoutStartCode ::
    "memory \<Rightarrow> SbmFrame \<Rightarrow> VideoStreamDataInfo \<Rightarrow> int res" where
  "avc_checkBitStreamTypeWithoutStartCode m s pStream =
     run_loop (avc_lengths_body m s pStream) (0, 0, pData pStream)"

definition AvcSbmFrameCheckBitStreamType :: "memory \<Rightarrow> SbmFrame \<Rightarrow> (int \<times> SbmFrame) res" where
  "AvcSbmFrameCheckBitStreamType m s =
     check_stream_type (avc_checkBitStreamTypeWithStartCode m)
       (avc_checkBitStreamTypeWithoutStartCode m) 50 s"

definition avc_ref_idc :: "8 word \<Rightarrow> int" where
  "avc_ref_idc b = (if b AND 0x60 \<noteq> 0 then 1 else 0)"

definition avc_nalu_type :: "8 word \<Rightarrow> int" where
  "avc_nalu_type b = uint (b AND 0x1f)"

definition avc_fill :: "8 word \<Rightarrow> int \<Rightarrow> int \<Rightarrow> NaluInfo \<Rightarrow> NaluInfo" where
  "avc_fill b nNaluSize pNaluBuf u =
     u\<lparr>nNalRefIdc := avc_ref_idc b, nType := avc_nalu_type b, pDataBuf := pNaluBuf,
       nDataSize := nNaluSize\<rparr>"

definition avc_flags :: "VideoStreamDataInfo \<Rightarrow> FramePicInfo \<Rightarrow> FramePicInfo" where
  "avc_flags st p = (if bVideoInfoFlag st = 1 then p\<lparr>pic_bVideoInfoFlag := 1\<rparr> else p)"

definition avc_storeNaluInfo :: "8 word \<Rightarrow> int \<Rightarrow> int \<Rightarrow> SbmFrame \<Rightarrow> SbmFrame res" where
  "avc_storeNaluInfo b nNaluSize pNaluBuf = store_nalu (avc_fill b nNaluSize pNaluBuf) avc_flags"

text \<open>Step 3: the first NAL unit opens the picture, the next one closes it (\<open>False\<close>).\<close>

definition avc_boundary :: "int \<Rightarrow> 8 word \<Rightarrow> SbmFrame \<Rightarrow> (bool \<times> SbmFrame) res" where
  "avc_boundary pAfterStartCodeBuf b s =
     (if bCurFrameStartCodeFound (mDetectInfo s) = 0 then
        and_then (upd_cur_pic (\<lambda>p. p\<lparr>nFrameNaluType := avc_nalu_type b\<rparr>)
            (upd_detect (\<lambda>d. d\<lparr>bCurFrameStartCodeFound := 1\<rparr>) s)) (\<lambda>s1. Inr (True, s1))
      else and_then (close_pic s) (\<lambda>s1. Inr (False, s1)))"

definition avc_with_body :: "memory \<Rightarrow> SbmFrame \<Rightarrow> (SbmFrame, SbmFrame) flow res" where
  "avc_with_body m s = detection_round avc_reback
     (with_code_unit m (pDetectBufStart s) (pDetectBufEnd s) avc_boundary avc_storeNaluInfo) s"

definition avc_detectWithStartCode :: "memory \<Rightarrow> SbmFrame \<Rightarrow> SbmFrame res" where
  "avc_detectWithStartCode m s = detect avc_with_body m s"

text \<open>
  The size is an \<^verbatim>\<open>int\<close>: a length of four bytes with the top bit set is negative, and less
  than the bytes left. The array \<^verbatim>\<open>tmpBuf\<close> has six elements.
\<close>

definition avc_fits :: "32 word \<Rightarrow> int \<Rightarrow> bool" where
  "avc_fits nNaluSize rest \<longleftrightarrow> \<not> sint nNaluSize > rest"

definition avc_without_body :: "memory \<Rightarrow> SbmFrame \<Rightarrow> (SbmFrame, SbmFrame) flow res" where
  "avc_without_body m s = detection_round avc_reback (\<lambda>s2.
     let k = nNaluLength (mConfig s2) in
     if k > 6 then Inl OutOfBounds
     else with_length_unit m (pDetectBufStart s) (pDetectBufEnd s) k avc_fits avc_boundary
            avc_storeNaluInfo s2) s"

definition avc_detectWithoutStartCode :: "memory \<Rightarrow> SbmFrame \<Rightarrow> SbmFrame res" where
  "avc_detectWithoutStartCode m s = detect avc_without_body m s"

definition AvcSbmFrameDetectOneFramePic :: "memory \<Rightarrow> SbmFrame \<Rightarrow> SbmFrame res" where
  "AvcSbmFrameDetectOneFramePic m s =
     (if bStreamWithStartCode s = 1 then avc_detectWithStartCode m s
      else avc_detectWithoutStartCode m s)"

section \<open>H.265\<close>

definition SBM_HEVC_NAL_CRA_NUT :: int where "SBM_HEVC_NAL_CRA_NUT = 21"
definition SBM_HEVC_NAL_VPS :: int where "SBM_HEVC_NAL_VPS = 32"
definition SBM_HEVC_NAL_AUD :: int where "SBM_HEVC_NAL_AUD = 35"
definition SBM_HEVC_NAL_SEI_PREFIX :: int where "SBM_HEVC_NAL_SEI_PREFIX = 39"

definition hevc_reback :: "SbmFrame \<Rightarrow> VideoStreamDataInfo \<Rightarrow> bool" where
  "hevc_reback s st = (pData st + nLength st > pStreamBufferEnd s)"

text \<open>The two header bytes after a start code: no forbidden bit, a temporal id from 1.\<close>

definition hevc_header_ok :: "8 word \<Rightarrow> 8 word \<Rightarrow> bool" where
  "hevc_header_ok b0 b1 = (uint (b1 AND 0x7) \<ge> 1 \<and> uint (drop_bit 7 b0) = 0)"

function hevc_scan_codes :: "memory \<Rightarrow> SbmFrame \<Rightarrow> int \<Rightarrow> int \<Rightarrow> int \<Rightarrow> int res" where
  "hevc_scan_codes m s pBuf nBufSize nHadCheckBytesLen =
     (if nHadCheckBytesLen + 6 < nBufSize then
        and_then (read_many (\<lambda>i. readByteIdx m s pBuf (pStreamBuffer s) (pStreamBufferEnd s)
            (nHadCheckBytesLen + i)) [0, 1, 2, 3, 4, 5]) (\<lambda>tmpBuf.
          let nCheck4BitsValue = sint (shift_in 0 (take 4 tmpBuf)) in
          if nCheck4BitsValue = 0 then hevc_scan_codes m s pBuf nBufSize (nHadCheckBytesLen + 1)
          else if nCheck4BitsValue = 1 then
            if hevc_header_ok (tmpBuf ! 4) (tmpBuf ! 5) then Inr 0
            else hevc_scan_codes m s pBuf nBufSize (nHadCheckBytesLen + 4)
          else if nCheck4BitsValue div 256 = 1 then
            if hevc_header_ok (tmpBuf ! 3) (tmpBuf ! 4) then Inr 0
            else hevc_scan_codes m s pBuf nBufSize (nHadCheckBytesLen + 3)
          else hevc_scan_codes m s pBuf nBufSize (nHadCheckBytesLen + 4))
      else Inr (-1))"
  by auto

termination
  by (relation "measure (\<lambda>(m, s, pBuf, nBufSize, n). nat (nBufSize - n))") auto

declare hevc_scan_codes.simps [simp del]

definition hevc_checkBitStreamTypeWithStartCode ::
    "memory \<Rightarrow> SbmFrame \<Rightarrow> VideoStreamDataInfo \<Rightarrow> (int \<times> SbmFrame) res" where
  "hevc_checkBitStreamTypeWithStartCode m s pStream =
     and_then (hevc_scan_codes m s (pData pStream) (nLength pStream) 0) (\<lambda>r.
       Inr (r, if r = 0 then s\<lparr>bStreamWithStartCode := 1\<rparr> else s))"

definition hevc_lengths_body :: "memory \<Rightarrow> SbmFrame \<Rightarrow> VideoStreamDataInfo \<Rightarrow>
    int \<times> int \<Rightarrow> (int \<times> int, int) flow res" where
  "hevc_lengths_body m s pStream = (\<lambda>(nHadProcessLen, pBuf).
     if nHadProcessLen < nLength pStream then
       let nRemainSize = nLength pStream - nHadProcessLen in
       and_then (read_many (readByteIdx m s pBuf (pStreamBuffer s) (pStreamBufferEnd s))
           [0, 1, 2, 3, 4, 5]) (\<lambda>tmpBuf.
         let n = sint (shift_in 0 (take 4 tmpBuf)) in
         if n > nRemainSize - 4 \<or> n < 0 \<or> \<not> hevc_header_ok (tmpBuf ! 4) (tmpBuf ! 5)
         then Inr (Stop (-1))
         else if n = nRemainSize - 4 \<and> n \<noteq> 0 then Inr (Stop 0)
         else
           let nHad = nHadProcessLen + (n + 4);
               p = pData pStream + nHad;
               p1 = (if p - pStreamBufferEnd s > 0 then pStreamBuffer s + (p - pStreamBufferEnd s)
                     else p)
           in Inr (Go (nHad, p1)))
     else Inr (Stop (-1)))"

definition hevc_checkBitStreamTypeWithoutStartCode ::
    "memory \<Rightarrow> SbmFrame \<Rightarrow> VideoStreamDataInfo \<Rightarrow> int res" where
  "hevc_checkBitStreamTypeWithoutStartCode m s pStream =
     run_loop (hevc_lengths_body m s pStream) (0, pData pStream)"

definition HevcSbmFrameCheckBitStreamType :: "memory \<Rightarrow> SbmFrame \<Rightarrow> (int \<times> SbmFrame) res" where
  "HevcSbmFrameCheckBitStreamType m s =
     check_stream_type (hevc_checkBitStreamTypeWithStartCode m)
       (hevc_checkBitStreamTypeWithoutStartCode m) 50 s"

definition hevc_nalu_type :: "8 word \<Rightarrow> int" where
  "hevc_nalu_type b = uint (drop_bit 1 (b AND 0x7e))"

definition hevc_fill :: "8 word \<Rightarrow> int \<Rightarrow> int \<Rightarrow> NaluInfo \<Rightarrow> NaluInfo" where
  "hevc_fill b nNaluSize pNaluBuf u =
     u\<lparr>nType := hevc_nalu_type b, pDataBuf := pNaluBuf, nDataSize := nNaluSize\<rparr>"

definition hevc_storeNaluInfo :: "8 word \<Rightarrow> int \<Rightarrow> int \<Rightarrow> SbmFrame \<Rightarrow> SbmFrame res" where
  "hevc_storeNaluInfo b nNaluSize pNaluBuf = store_nalu (hevc_fill b nNaluSize pNaluBuf) (\<lambda>st p. p)"

text \<open>
  Step 3: a parameter set, delimiter or prefix SEI, or the first slice segment of a picture,
  closes the picture when a slice has been found for it (\<open>False\<close>). The flag
  \<^verbatim>\<open>first_slice_segment_in_pic_flag\<close> is the top bit of the byte behind the NAL unit header.
\<close>

definition hevc_starts_unit :: "int \<Rightarrow> bool" where
  "hevc_starts_unit nNaluType \<longleftrightarrow>
     (nNaluType \<ge> SBM_HEVC_NAL_VPS \<and> nNaluType \<le> SBM_HEVC_NAL_AUD) \<or>
     nNaluType = SBM_HEVC_NAL_SEI_PREFIX"

definition hevc_boundary :: "memory \<Rightarrow> int \<Rightarrow> 8 word \<Rightarrow> SbmFrame \<Rightarrow> (bool \<times> SbmFrame) res" where
  "hevc_boundary m pAfterStartCodeBuf b s =
     (let nNaluType = hevc_nalu_type b in
      if hevc_starts_unit nNaluType \<and> bCurFrameStartCodeFound (mDetectInfo s) = 1
      then and_then (close_pic s) (\<lambda>s1. Inr (False, s1))
      else if nNaluType \<le> SBM_HEVC_NAL_CRA_NUT then
        and_then (readByteIdx m s pAfterStartCodeBuf (pStreamBuffer s) (pStreamBufferEnd s) 2) (\<lambda>b2.
        if uint (drop_bit 7 b2) = 1 then
          if bCurFrameStartCodeFound (mDetectInfo s) = 0 then
            and_then (upd_cur_pic (\<lambda>p. p\<lparr>nFrameNaluType := nNaluType\<rparr>)
                (upd_detect (\<lambda>d. d\<lparr>bCurFrameStartCodeFound := 1\<rparr>) s)) (\<lambda>s1. Inr (True, s1))
          else and_then (close_pic s) (\<lambda>s1. Inr (False, s1))
        else Inr (True, s))
      else Inr (True, s))"

definition hevc_with_body :: "memory \<Rightarrow> SbmFrame \<Rightarrow> (SbmFrame, SbmFrame) flow res" where
  "hevc_with_body m s = detection_round hevc_reback
     (with_code_unit m (pStreamBuffer s) (pStreamBufferEnd s) (hevc_boundary m) hevc_storeNaluInfo) s"

definition hevc_detectWithStartCode :: "memory \<Rightarrow> SbmFrame \<Rightarrow> SbmFrame res" where
  "hevc_detectWithStartCode m s = detect hevc_with_body m s"

text \<open>The size is an \<^verbatim>\<open>unsigned int\<close> and compared as such.\<close>

definition hevc_fits :: "32 word \<Rightarrow> int \<Rightarrow> bool" where
  "hevc_fits nNaluSize rest \<longleftrightarrow> \<not> nNaluSize > word_of_int rest"

definition hevc_without_body :: "memory \<Rightarrow> SbmFrame \<Rightarrow> (SbmFrame, SbmFrame) flow res" where
  "hevc_without_body m s = detection_round hevc_reback
     (with_length_unit m (pStreamBuffer s) (pStreamBufferEnd s) 4 hevc_fits (hevc_boundary m)
        hevc_storeNaluInfo) s"

definition hevc_detectWithoutStartCode :: "memory \<Rightarrow> SbmFrame \<Rightarrow> SbmFrame res" where
  "hevc_detectWithoutStartCode m s = detect hevc_without_body m s"

definition HevcSbmFrameDetectOneFramePic :: "memory \<Rightarrow> SbmFrame \<Rightarrow> SbmFrame res" where
  "HevcSbmFrameDetectOneFramePic m s =
     (if bStreamWithStartCode s = 1 then hevc_detectWithStartCode m s
      else hevc_detectWithoutStartCode m s)"

end
