(* ===== verification/SbmScan.thy ===== *)
theory SbmScan
  imports SbmCodecs
begin

text \<open>
  What the detection reads, without the ring: the bytes at stream positions (the number of
  bytes ever written before them), the search for a start code as a function on lists, and the
  NAL units of a piece of the stream. The searches of the code are equal to the search on
  lists, whether the piece turns around at the end of the buffer or not.
\<close>

section \<open>Stream positions\<close>

definition addr_of :: "SbmFrame \<Rightarrow> int \<Rightarrow> int" where
  "addr_of s x = pStreamBuffer s + x mod nStreamBufferSize s"

definition bytes_at :: "memory \<Rightarrow> SbmFrame \<Rightarrow> int \<Rightarrow> nat \<Rightarrow> 8 word list" where
  "bytes_at m s x n = map (\<lambda>i. m (addr_of s (x + int i))) [0..<n]"

text \<open>The buffer as \<^verbatim>\<open>SbmFrameInit\<close> lays it out.\<close>

definition window :: "SbmFrame \<Rightarrow> bool" where
  "window s \<longleftrightarrow> 0 < pStreamBuffer s \<and> 64 < nStreamBufferSize s \<and> nStreamBufferSize s < 2 ^ 31 \<and>
     pStreamBufferEnd s = pStreamBuffer s + nStreamBufferSize s - 1 \<and>
     pDetectBufStart s = pStreamBuffer s \<and> pDetectBufEnd s = pStreamBufferEnd s"

lemma addr_of_range:
  assumes "window s"
  shows "pStreamBuffer s \<le> addr_of s x" "addr_of s x \<le> pStreamBufferEnd s" "0 < addr_of s x"
proof -
  have "0 \<le> x mod nStreamBufferSize s" "x mod nStreamBufferSize s < nStreamBufferSize s"
    using assms by (auto simp: window_def)
  then show "pStreamBuffer s \<le> addr_of s x" "addr_of s x \<le> pStreamBufferEnd s" "0 < addr_of s x"
    using assms unfolding window_def addr_of_def by linarith+
qed

lemma addr_of_shift:
  assumes "window s" and "0 \<le> i" and "i \<le> nStreamBufferSize s"
  shows "addr_of s (x + i) = (if addr_of s x + i \<le> pStreamBufferEnd s then addr_of s x + i
    else addr_of s x + i - nStreamBufferSize s)"
proof -
  define B where "B = nStreamBufferSize s"
  define y where "y = x mod B"
  have B: "0 < B" "i \<le> B" using assms by (auto simp: window_def B_def)
  have y: "0 \<le> y" "y < B" using B by (auto simp: y_def)
  have "(x + i) mod B = (y + i) mod B" by (simp add: y_def mod_simps)
  also have "\<dots> = (if y + i < B then y + i else y + i - B)"
  proof (cases "y + i < B")
    case True
    with y assms(2) show ?thesis by simp
  next
    case False
    have "(y + i) mod B = (y + i - B) mod B" by (metis minus_mod_self2)
    also have "\<dots> = y + i - B"
      by (rule mod_pos_pos_trivial) (use False y B in linarith)+
    finally show ?thesis using False by simp
  qed
  finally show ?thesis
    using assms(1) by (auto simp: addr_of_def window_def B_def y_def)
qed

lemma addr_of_inj:
  assumes "window s" and "addr_of s x = addr_of s y" and "\<bar>x - y\<bar> < nStreamBufferSize s"
  shows "x = y"
proof -
  have "x mod nStreamBufferSize s = y mod nStreamBufferSize s"
    using assms(2) by (simp add: addr_of_def)
  then have d: "nStreamBufferSize s dvd \<bar>x - y\<bar>" by (simp add: mod_eq_dvd_iff)
  show ?thesis
  proof (rule ccontr)
    assume "x \<noteq> y"
    then have "0 < \<bar>x - y\<bar>" by simp
    from zdvd_imp_le [OF d this] assms(3) show False by simp
  qed
qed

lemma length_bytes_at [simp]: "length (bytes_at m s x n) = n"
  by (simp add: bytes_at_def)

lemma bytes_at_0 [simp]: "bytes_at m s x 0 = []"
  by (simp add: bytes_at_def)

lemma bytes_at_Suc: "bytes_at m s x (Suc n) = m (addr_of s x) # bytes_at m s (x + 1) n"
  unfolding bytes_at_def upt_conv_Cons [OF zero_less_Suc]
  by (simp add: map_Suc_upt [symmetric] ac_simps del: upt_Suc)

lemma nth_bytes_at: "i < n \<Longrightarrow> bytes_at m s x n ! i = m (addr_of s (x + int i))"
  by (simp add: bytes_at_def)

lemma bytes_at_add: "bytes_at m s x (a + b) = bytes_at m s x a @ bytes_at m s (x + int a) b"
  by (induction a arbitrary: x) (simp_all add: bytes_at_Suc ac_simps)

lemma drop_bytes_at: "a \<le> n \<Longrightarrow> drop a (bytes_at m s x n) = bytes_at m s (x + int a) (n - a)"
  using bytes_at_add [of m s x a "n - a"] by simp

lemma take_bytes_at: "a \<le> n \<Longrightarrow> take a (bytes_at m s x n) = bytes_at m s x a"
  using bytes_at_add [of m s x a "n - a"] by simp

section \<open>Reads\<close>

lemma load_addr [simp]: "window s \<Longrightarrow> load m s (addr_of s x) = Inr (m (addr_of s x))"
  using addr_of_range [of s x] by (simp add: load_def)

text \<open>\<^verbatim>\<open>readByteIdx\<close> from a pointer into the ring reads the byte at the later position.\<close>

lemma readByteIdx_addr:
  assumes "window s" and "0 \<le> i" and "i \<le> nStreamBufferSize s"
  shows "readByteIdx m s (addr_of s x) (pStreamBuffer s) (pStreamBufferEnd s) i
    = Inr (m (addr_of s (x + i)))"
proof (cases "addr_of s x + i \<le> pStreamBufferEnd s")
  case True
  then have "addr_of s (x + i) = addr_of s x + i" using addr_of_shift [OF assms] by simp
  with True load_addr [OF assms(1), of m "x + i"] show ?thesis by (simp add: readByteIdx_def)
next
  case False
  then have "addr_of s (x + i) = pStreamBuffer s + (i - (pStreamBufferEnd s - addr_of s x + 1))"
    using addr_of_shift [OF assms] assms(1) by (simp add: window_def)
  with False load_addr [OF assms(1), of m "x + i"] show ?thesis
    by (simp add: readByteIdx_def Let_def)
qed

lemma ptrPlusOne_addr:
  assumes "window s"
  shows "ptrPlusOne (addr_of s x) (pStreamBuffer s) (pStreamBufferEnd s) = addr_of s (x + 1)"
  using addr_of_shift [OF assms, of 1 x] addr_of_range [OF assms, of x] assms
  by (auto simp: ptrPlusOne_def window_def)

text \<open>A pointer that has run past the end still reads the right byte, for one turn of the ring.\<close>

lemma readByteIdx_beyond:
  assumes "window s" and "0 \<le> a" and "0 \<le> i" and "a + i \<le> nStreamBufferSize s"
  shows "readByteIdx m s (addr_of s x + a) (pStreamBuffer s) (pStreamBufferEnd s) i
    = Inr (m (addr_of s (x + a + i)))"
proof -
  have "readByteIdx m s (addr_of s x + a) (pStreamBuffer s) (pStreamBufferEnd s) i
      = readByteIdx m s (addr_of s x) (pStreamBuffer s) (pStreamBufferEnd s) (a + i)"
    by (simp add: readByteIdx_def Let_def algebra_simps)
  with readByteIdx_addr [OF assms(1), of "a + i" m x] assms show ?thesis by (simp add: ac_simps)
qed

section \<open>The search for a start code\<close>

text \<open>The index behind the first start code that has a byte after it.\<close>

fun find_code :: "8 word list \<Rightarrow> nat option" where
  "find_code (a # b # c # d # r) =
     (if a = 0 \<and> b = 0 \<and> c = 1 then Some 3 else map_option Suc (find_code (b # c # d # r)))"
| "find_code _ = None"

lemma find_code_short: "length r < 4 \<Longrightarrow> find_code r = None"
  by (induction r rule: find_code.induct) auto

lemma find_code_bounds: "find_code r = Some k \<Longrightarrow> 3 \<le> k \<and> k < length r"
  by (induction r arbitrary: k rule: find_code.induct) (fastforce split: if_splits)+

definition search_result :: "int \<Rightarrow> nat \<Rightarrow> nat option \<Rightarrow> int \<times> int" where
  "search_result idx nSize r = (case r of None \<Rightarrow> (-1, idx + int nSize) | Some k \<Rightarrow> (0, idx + int k))"

lemma search_result_Suc:
  "search_result idx (Suc n) (map_option Suc r) = search_result (idx + 1) n r"
  by (simp add: search_result_def split: option.splits)

lemma four_bytes:
  "bytes_at m s x (Suc n + 3) = m (addr_of s x) # m (addr_of s (x + 1)) # m (addr_of s (x + 2)) #
     m (addr_of s (x + 3)) # bytes_at m s (x + 4) n"
  by (simp add: bytes_at_Suc eval_nat_numeral ac_simps)

lemma find_code_bytes:
  "find_code (bytes_at m s x (Suc n + 3)) =
     (if m (addr_of s x) = 0 \<and> m (addr_of s (x + 1)) = 0 \<and> m (addr_of s (x + 2)) = 1 then Some 3
      else map_option Suc (find_code (bytes_at m s (x + 1) (n + 3))))"
proof -
  have "bytes_at m s (x + 1) (n + 3) = m (addr_of s (x + 1)) # m (addr_of s (x + 2)) #
     m (addr_of s (x + 3)) # bytes_at m s (x + 4) n"
    by (simp add: bytes_at_Suc eval_nat_numeral ac_simps)
  then show ?thesis unfolding four_bytes by simp
qed

lemma search_ring_eq:
  assumes "window s"
  shows "search_ring m s (pStreamBuffer s) (pStreamBufferEnd s) n (addr_of s x) idx
    = Inr (search_result idx n (find_code (bytes_at m s x (n + 3))))"
proof (induction n arbitrary: x idx)
  case 0
  then show ?case by (simp add: search_result_def find_code_short)
next
  case (Suc n)
  have B: "64 < nStreamBufferSize s" using assms by (simp add: window_def)
  have r: "read_many (readByteIdx m s (addr_of s x) (pStreamBuffer s) (pStreamBufferEnd s)) [0, 1, 2]
      = Inr [m (addr_of s x), m (addr_of s (x + 1)), m (addr_of s (x + 2))]"
    using readByteIdx_addr [OF assms, of 0 m x] readByteIdx_addr [OF assms, of 1 m x]
      readByteIdx_addr [OF assms, of 2 m x] B by simp
  show ?case
    unfolding find_code_bytes
    by (simp add: r is_start_code_def ptrPlusOne_addr [OF assms] Suc.IH search_result_Suc
        search_result_def [where r = "Some 3"] del: read_many.simps)
qed

text \<open>Without the wrap the addresses run on.\<close>

lemma addr_of_flat:
  assumes "window s" and "addr_of s x + i \<le> pStreamBufferEnd s" and "0 \<le> i"
  shows "addr_of s (x + i) = addr_of s x + i"
proof -
  have "i \<le> nStreamBufferSize s"
    using assms addr_of_range(1) [OF assms(1), of x] by (simp add: window_def)
  from addr_of_shift [OF assms(1,3) this] assms(2) show ?thesis by simp
qed

lemma search_flat_eq:
  assumes "window s" and "addr_of s x + int n + 2 \<le> pStreamBufferEnd s"
  shows "search_flat m s n (addr_of s x) idx
    = Inr (search_result idx n (find_code (bytes_at m s x (n + 3))))"
  using assms(2)
proof (induction n arbitrary: x idx)
  case 0
  then show ?case by (simp add: search_result_def find_code_short)
next
  case (Suc n)
  have a: "addr_of s x + 1 = addr_of s (x + 1)" "addr_of s x + 2 = addr_of s (x + 2)"
    using addr_of_flat [OF assms(1), of x 1] addr_of_flat [OF assms(1), of x 2] Suc.prems by auto
  have c: "start_code_at m s (addr_of s x) = Inr (m (addr_of s x) = 0 \<and> m (addr_of s (x + 1)) = 0 \<and>
      m (addr_of s (x + 2)) = 1)"
    using assms(1) by (simp add: start_code_at_def a)
  have "addr_of s (x + 1) + int n + 2 \<le> pStreamBufferEnd s" using Suc.prems a(1) by simp
  note IH = Suc.IH [OF this]
  show ?case
    unfolding find_code_bytes
    by (simp add: c a(1) IH search_result_Suc search_result_def [where r = "Some 3"])
qed

text \<open>The read position of the detection: the bytes left of the current piece start at \<open>x\<close>.\<close>

definition reading_at :: "SbmFrame \<Rightarrow> int \<Rightarrow> bool" where
  "reading_at s x \<longleftrightarrow> (let d = mDetectInfo s in
     pCurStreamDataptr d = addr_of s x \<and> 0 \<le> nCurStreamDataSize d \<and>
     nCurStreamDataSize d + 64 \<le> nStreamBufferSize s \<and>
     (nCurStreamRebackFlag d = 0 \<longrightarrow>
        pCurStreamDataptr d + nCurStreamDataSize d \<le> pStreamBufferEnd s + 1))"

definition left_bytes :: "memory \<Rightarrow> SbmFrame \<Rightarrow> int \<Rightarrow> 8 word list" where
  "left_bytes m s x = bytes_at m s x (nat (nCurStreamDataSize (mDetectInfo s)))"

lemma searchStartCode_eq:
  assumes "window s" and "reading_at s x"
  shows "searchStartCode m (pStreamBuffer s) (pStreamBufferEnd s) s
    = Inr (search_result 0 (nat (nCurStreamDataSize (mDetectInfo s) - 3))
             (find_code (left_bytes m s x)))"
proof -
  let ?d = "mDetectInfo s"
  let ?n = "nat (nCurStreamDataSize ?d - 3)"
  have ptr: "pCurStreamDataptr ?d = addr_of s x" using assms(2) by (simp add: reading_at_def Let_def)
  have eq: "find_code (bytes_at m s x (?n + 3)) = find_code (left_bytes m s x)"
  proof (cases "3 \<le> nCurStreamDataSize ?d")
    case True
    then have "?n + 3 = nat (nCurStreamDataSize ?d)" by arith
    then show ?thesis by (simp add: left_bytes_def)
  next
    case False
    then show ?thesis by (simp add: find_code_short left_bytes_def)
  qed
  show ?thesis
  proof (cases "nCurStreamRebackFlag ?d = 0")
    case False
    with search_ring_eq [OF assms(1), of m ?n x 0] ptr eq show ?thesis
      by (simp add: searchStartCode_def Let_def)
  next
    case True
    show ?thesis
    proof (cases "?n = 0")
      case True
      with \<open>nCurStreamRebackFlag ?d = 0\<close> eq show ?thesis
        by (simp add: searchStartCode_def Let_def search_result_def find_code_short)
    next
      case False
      then have "addr_of s x + int ?n + 2 \<le> pStreamBufferEnd s"
        using assms(2) True by (simp add: reading_at_def Let_def)
      from search_flat_eq [OF assms(1) this, of m 0] ptr eq True show ?thesis
        by (simp add: searchStartCode_def Let_def)
    qed
  qed
qed

end
