(* ===== verification/SbmRep.thy ===== *)
theory SbmRep
  imports SbmScan
begin

text \<open>
  What a state of the frame-based stream manager means: two rings (the descriptors, of which
  the thread holds at most one, and the frame pictures, of which the decoder holds some) and a
  layout of the valid bytes, in stream order: the frame pictures, the picture under
  construction, the rest of the current piece, the pieces not yet taken. Each queue operation
  and each step of the detection is shown to move between such states.
\<close>

section \<open>The ring of frame pictures\<close>

definition pic_at :: "FramePicFifo \<Rightarrow> nat \<Rightarrow> nat" where
  "pic_at f k = nat ((nFPFlushPos f + int k) mod nMaxFramePicNum f)"

definition pic_rep :: "nat \<Rightarrow> FramePicFifo \<Rightarrow> FramePicInfo list \<Rightarrow> FramePicInfo list \<Rightarrow> bool" where
  "pic_rep N f held ready \<longleftrightarrow>
     0 < N \<and> nMaxFramePicNum f = int N \<and> length (held @ ready) \<le> N \<and>
     nValidFramePicNum f = int (length (held @ ready)) \<and>
     nUnReadFramePicNum f = int (length ready) \<and>
     0 \<le> nFPFlushPos f \<and> nFPFlushPos f < int N \<and>
     nFPReadPos f = (nFPFlushPos f + int (length held)) mod int N \<and>
     nFPWritePos f = (nFPFlushPos f + int (length (held @ ready))) mod int N \<and>
     (\<forall>k < length (held @ ready). pFramePics f (pic_at f k) = (held @ ready) ! k) \<and>
     (\<forall>i. 0 < nMaxNaluNum (pFramePics f i))"

lemma pic_rep_pos:
  assumes "pic_rep N f held ready"
  shows "nMaxFramePicNum f = int N" and "0 < int N"
    and "0 \<le> nFPWritePos f" and "nFPWritePos f < int N"
    and "0 \<le> nFPReadPos f" and "nFPReadPos f < int N"
    and "0 \<le> nFPFlushPos f" and "nFPFlushPos f < int N"
  using assms by (simp_all add: pic_rep_def)

lemma pic_wrap:
  assumes "pic_rep N f held ready"
  shows "(if nFPWritePos f + 1 \<ge> nMaxFramePicNum f then 0 else nFPWritePos f + 1)
      = (nFPWritePos f + 1) mod int N"
    and "(if nFPReadPos f + 1 \<ge> nMaxFramePicNum f then 0 else nFPReadPos f + 1)
      = (nFPReadPos f + 1) mod int N"
    and "(if nFPFlushPos f + 1 \<ge> nMaxFramePicNum f then 0 else nFPFlushPos f + 1)
      = (nFPFlushPos f + 1) mod int N"
    and "(if nFPReadPos f - 1 < 0 then nMaxFramePicNum f - 1 else nFPReadPos f - 1)
      = (nFPReadPos f - 1) mod int N"
proof -
  note pos = pic_rep_pos [OF assms]
  show "(if nFPWritePos f + 1 \<ge> nMaxFramePicNum f then 0 else nFPWritePos f + 1)
      = (nFPWritePos f + 1) mod int N"
    unfolding pos(1) using pos by (intro ring_succ)
  show "(if nFPReadPos f + 1 \<ge> nMaxFramePicNum f then 0 else nFPReadPos f + 1)
      = (nFPReadPos f + 1) mod int N"
    unfolding pos(1) using pos by (intro ring_succ)
  show "(if nFPFlushPos f + 1 \<ge> nMaxFramePicNum f then 0 else nFPFlushPos f + 1)
      = (nFPFlushPos f + 1) mod int N"
    unfolding pos(1) using pos by (intro ring_succ)
  show "(if nFPReadPos f - 1 < 0 then nMaxFramePicNum f - 1 else nFPReadPos f - 1)
      = (nFPReadPos f - 1) mod int N"
    unfolding pos(1) using pos by (intro ring_pred)
qed

lemma pic_slots:
  assumes "pic_rep N f held ready"
  shows "pic_slot f (nFPWritePos f) = Inr (nat (nFPWritePos f))"
    and "nat (nFPWritePos f) = pic_at f (length (held @ ready))"
    and "pic_slot f (nFPReadPos f) = Inr (pic_at f (length held))"
    and "pic_slot f (nFPFlushPos f) = Inr (pic_at f 0)"
  using assms by (simp_all add: pic_rep_def pic_slot_def pic_at_def)

lemma pic_at_inj:
  assumes "pic_at f i = pic_at f j" and "nMaxFramePicNum f = int N" and "i < N" and "j < N"
  shows "i = j"
proof -
  have "0 < int N" using assms(3) by simp
  then have "(nFPFlushPos f + int i) mod int N = (nFPFlushPos f + int j) mod int N"
    using assms(1,2) by (simp add: pic_at_def nat_eq_iff)
  then show ?thesis using assms(3,4) by (rule ring_inj)
qed

text \<open>The slot at the write position is free for the thread to fill in.\<close>

lemma pic_rep_set:
  assumes "pic_rep N f held ready" and "length (held @ ready) < N" and "0 < nMaxNaluNum p"
  shows "pic_rep N (f\<lparr>pFramePics := (pFramePics f)(nat (nFPWritePos f) := p)\<rparr>) held ready"
proof -
  let ?m = "length (held @ ready)"
  have w: "nat (nFPWritePos f) = pic_at f ?m" "nMaxFramePicNum f = int N"
    using pic_slots(2) [OF assms(1)] assms(1) by (auto simp: pic_rep_def)
  have "\<forall>k < ?m. pic_at f k \<noteq> pic_at f ?m"
    using pic_at_inj [OF _ w(2)] assms(2) by fastforce
  moreover have "pic_at (f\<lparr>pFramePics := g\<rparr>) k = pic_at f k" for g k by (simp add: pic_at_def)
  ultimately show ?thesis
    using assms unfolding pic_rep_def w(1) by simp
qed

lemma pic_rep_push:
  assumes "pic_rep N f held ready" and "length (held @ ready) < N"
    and "pFramePics f (nat (nFPWritePos f)) = p"
  shows "pic_rep N (f\<lparr>nFPWritePos := (nFPWritePos f + 1) mod int N,
      nValidFramePicNum := nValidFramePicNum f + 1,
      nUnReadFramePicNum := nUnReadFramePicNum f + 1\<rparr>) held (ready @ [p])"
proof -
  let ?m = "length (held @ ready)"
  have "pFramePics f (pic_at f ?m) = p" using pic_slots(2) [OF assms(1)] assms(3) by simp
  then have "\<forall>k < Suc ?m. pFramePics f (pic_at f k) = (held @ ready @ [p]) ! k"
    using assms(1) by (auto simp: pic_rep_def nth_append less_Suc_eq)
  moreover have "(nFPWritePos f + 1) mod int N = (nFPFlushPos f + int (Suc ?m)) mod int N"
    using assms(1) by (simp add: pic_rep_def mod_simps ac_simps)
  ultimately show ?thesis
    using assms unfolding pic_rep_def by (simp add: pic_at_def)
qed

lemma pic_rep_read:
  assumes "pic_rep N f held (p # ready)"
  shows "pic_rep N (f\<lparr>nFPReadPos := (nFPReadPos f + 1) mod int N,
      nUnReadFramePicNum := nUnReadFramePicNum f - 1\<rparr>) (held @ [p]) ready"
  using assms by (auto simp: pic_rep_def pic_at_def mod_simps ac_simps)

lemma pic_rep_unread:
  assumes "pic_rep N f (held @ [p]) ready"
  shows "pic_rep N (f\<lparr>nFPReadPos := (nFPReadPos f - 1) mod int N,
      nUnReadFramePicNum := nUnReadFramePicNum f + 1\<rparr>) held (p # ready)"
  using assms by (auto simp: pic_rep_def pic_at_def mod_simps ac_simps)

lemma pic_rep_drop:
  assumes "pic_rep N f (p # held) ready"
  shows "pic_rep N (f\<lparr>nValidFramePicNum := nValidFramePicNum f - 1,
      nFPFlushPos := (nFPFlushPos f + 1) mod int N\<rparr>) held ready"
proof -
  let ?f = "f\<lparr>nValidFramePicNum := nValidFramePicNum f - 1,
      nFPFlushPos := (nFPFlushPos f + 1) mod int N\<rparr>"
  have at: "pic_at ?f k = pic_at f (Suc k)" for k
    using assms by (simp add: pic_at_def pic_rep_def mod_simps ac_simps)
  have "\<forall>k < length (held @ ready). pFramePics f (pic_at f (Suc k)) = (held @ ready) ! k"
    using assms by (auto simp: pic_rep_def dest!: spec [of _ "Suc _"])
  moreover have "nFPWritePos f = ((nFPFlushPos f + 1) mod int N + int (length (held @ ready))) mod int N"
    unfolding ring_shift using assms by (simp add: pic_rep_def)
  moreover have "nFPReadPos f = ((nFPFlushPos f + 1) mod int N + int (length held)) mod int N"
    unfolding ring_shift using assms by (simp add: pic_rep_def)
  ultimately show ?thesis
    using assms unfolding pic_rep_def at by simp
qed

section \<open>States of the thread\<close>

text \<open>
  \<open>streams n s c es\<close>: the thread reads the piece \<open>c\<close>, the pieces \<open>es\<close> wait.
  \<open>pictures N s held ready p\<close>: the decoder holds \<open>held\<close>, the pictures \<open>ready\<close> wait for it, and
  \<open>p\<close> is under construction in the slot behind them.
\<close>

definition streams :: "nat \<Rightarrow> SbmFrame \<Rightarrow> VideoStreamDataInfo option \<Rightarrow>
    VideoStreamDataInfo list \<Rightarrow> bool" where
  "streams n s c es \<longleftrightarrow>
     (case c of
        None \<Rightarrow> pCurStream (mDetectInfo s) = None \<and> nCurStreamDataSize (mDetectInfo s) = 0 \<and>
          pCurStreamDataptr (mDetectInfo s) = 0 \<and> fifo_rep n (frameFifo s) [] es
      | Some e \<Rightarrow> pCurStream (mDetectInfo s) = Some (ring_at (frameFifo s) 0) \<and>
          fifo_rep n (frameFifo s) [e] es)"

definition pictures :: "nat \<Rightarrow> SbmFrame \<Rightarrow> FramePicInfo list \<Rightarrow> FramePicInfo list \<Rightarrow>
    FramePicInfo option \<Rightarrow> bool" where
  "pictures N s held ready p \<longleftrightarrow>
     pic_rep N (mFramePicFifo s) held ready \<and>
     (case p of
        None \<Rightarrow> pCurFramePic (mDetectInfo s) = None
      | Some q \<Rightarrow> length (held @ ready) < N \<and>
          pCurFramePic (mDetectInfo s) = Some (nat (nFPWritePos (mFramePicFifo s))) \<and>
          pFramePics (mFramePicFifo s) (nat (nFPWritePos (mFramePicFifo s))) = q \<and>
          0 \<le> nCurNaluIdx q \<and> nCurNaluIdx q < nMaxNaluNum q)"

lemma cur_stream_eq: "streams n s (Some e) es \<Longrightarrow> cur_stream s = Inr e"
  by (auto simp: streams_def cur_stream_def fifo_rep_def)

lemma cur_pic_eq: "pictures N s held ready (Some q) \<Longrightarrow> cur_pic s = Inr q"
  by (auto simp: pictures_def cur_pic_def)

lemma upd_cur_pic_pictures:
  assumes "pictures N s held ready (Some q)" and "0 \<le> nCurNaluIdx (g q)"
    and "nCurNaluIdx (g q) < nMaxNaluNum (g q)"
  shows "\<exists>f. upd_cur_pic g s = Inr (s\<lparr>mFramePicFifo := f\<rparr>) \<and>
    nFPFlushPos f = nFPFlushPos (mFramePicFifo s) \<and> pictures N (s\<lparr>mFramePicFifo := f\<rparr>) held ready (Some (g q))"
proof -
  let ?f = "mFramePicFifo s"
  let ?f' = "?f\<lparr>pFramePics := (pFramePics ?f)(nat (nFPWritePos ?f) := g q)\<rparr>"
  have "pic_rep N ?f' held ready"
    using assms by (intro pic_rep_set) (auto simp: pictures_def)
  then show ?thesis
    using assms by (auto simp: pictures_def upd_cur_pic_def set_pic_def)
qed

section \<open>The layout of the valid bytes\<close>

text \<open>Over the addresses \<open>a\<close> of the stream positions.\<close>

definition nalu_in :: "(int \<Rightarrow> int) \<Rightarrow> int \<Rightarrow> int \<Rightarrow> NaluInfo \<Rightarrow> bool" where
  "nalu_in a x y u \<longleftrightarrow> 0 \<le> nDataSize u \<and>
     (\<exists>z. pDataBuf u = a z \<and> x \<le> z \<and> z + nDataSize u \<le> y)"

definition pic_in :: "(int \<Rightarrow> int) \<Rightarrow> int \<Rightarrow> FramePicInfo \<Rightarrow> bool" where
  "pic_in a x p \<longleftrightarrow> 0 \<le> nlength p \<and> 0 \<le> nCurNaluIdx p \<and>
     (\<forall>j. int j < nCurNaluIdx p \<longrightarrow> nalu_in a x (x + nlength p) (pNaluInfoList p j))"

fun pics_at :: "(int \<Rightarrow> int) \<Rightarrow> int \<Rightarrow> FramePicInfo list \<Rightarrow> int \<Rightarrow> bool" where
  "pics_at a x [] y \<longleftrightarrow> x = y"
| "pics_at a x (p # ps) y \<longleftrightarrow> pic_in a x p \<and> pics_at a (x + nlength p) ps y"

fun elems_at :: "(int \<Rightarrow> int) \<Rightarrow> int \<Rightarrow> VideoStreamDataInfo list \<Rightarrow> int \<Rightarrow> bool" where
  "elems_at a x [] y \<longleftrightarrow> x = y"
| "elems_at a x (e # es) y \<longleftrightarrow> pData e = a x \<and> 5 \<le> nLength e \<and> elems_at a (x + nLength e) es y"

definition len_of :: "FramePicInfo option \<Rightarrow> int" where
  "len_of p = (case p of None \<Rightarrow> 0 | Some q \<Rightarrow> nlength q)"

text \<open>
  \<open>W\<close> bytes have been written in all, the next one to be read is at position \<open>x\<close>.
\<close>

definition layout :: "int \<Rightarrow> int \<Rightarrow> SbmFrame \<Rightarrow> FramePicInfo list \<Rightarrow> FramePicInfo option \<Rightarrow>
    VideoStreamDataInfo option \<Rightarrow> VideoStreamDataInfo list \<Rightarrow> bool" where
  "layout W x s pics p c es \<longleftrightarrow>
     (let a = addr_of s; d = mDetectInfo s; left = nCurStreamDataSize d in
      window s \<and> pWriteAddr s = a W \<and> nValidDataSize s + 64 \<le> nStreamBufferSize s \<and>
      pics_at a (W - nValidDataSize s) pics (x - len_of p) \<and>
      (\<forall>q. p = Some q \<longrightarrow> pic_in a (x - nlength q) q) \<and>
      (\<forall>e. c = Some e \<longrightarrow> reading_at s x \<and> left \<le> nLength e \<and> pData e = a (x + left - nLength e) \<and>
         5 \<le> nLength e \<and> nLength e + 64 \<le> nStreamBufferSize s) \<and>
      elems_at a (x + left) es W)"

definition frame_rep :: "nat \<Rightarrow> nat \<Rightarrow> int \<Rightarrow> int \<Rightarrow> SbmFrame \<Rightarrow> FramePicInfo list \<Rightarrow>
    FramePicInfo list \<Rightarrow> FramePicInfo option \<Rightarrow> VideoStreamDataInfo option \<Rightarrow>
    VideoStreamDataInfo list \<Rightarrow> bool" where
  "frame_rep N n W x s held ready p c es \<longleftrightarrow>
     streams n s c es \<and> pictures N s held ready p \<and> layout W x s (held @ ready) p c es"

text \<open>What the detection does not touch, apart from the flag of the picture.\<close>

definition control :: "SbmFrame \<Rightarrow> int \<times> int \<times> SbmFrameConfig \<times> MessageQueueContext \<times> nat \<times> int" where
  "control s = (nEosFlag s, bStreamWithStartCode s, mConfig s, sbm_mq s, resetSem s,
     nFPFlushPos (mFramePicFifo s))"

definition code_found :: "SbmFrame \<Rightarrow> int" where
  "code_found s = bCurFrameStartCodeFound (mDetectInfo s)"

abbreviation left_size :: "SbmFrame \<Rightarrow> int" where
  "left_size s \<equiv> nCurStreamDataSize (mDetectInfo s)"

definition same_nalus :: "FramePicInfo \<Rightarrow> FramePicInfo \<Rightarrow> bool" where
  "same_nalus q q' \<longleftrightarrow> pNaluInfoList q = pNaluInfoList q' \<and> nCurNaluIdx q = nCurNaluIdx q' \<and>
     nMaxNaluNum q = nMaxNaluNum q'"

lemma same_nalus_refl [simp]: "same_nalus q q"
  by (simp add: same_nalus_def)

lemma same_nalus_trans: "same_nalus p q \<Longrightarrow> same_nalus q r \<Longrightarrow> same_nalus p r"
  by (simp add: same_nalus_def)

lemma pic_in_grow:
  assumes "pic_in a x q" and "same_nalus q' q" and "nlength q \<le> nlength q'"
  shows "pic_in a x q'"
  using assms unfolding pic_in_def same_nalus_def nalu_in_def by fastforce

lemma pics_at_append:
  "pics_at a x (ps @ qs) y \<longleftrightarrow> (\<exists>z. pics_at a x ps z \<and> pics_at a z qs y)"
  by (induction ps arbitrary: x) auto

lemma pics_at_snoc: "pics_at a x ps y \<Longrightarrow> pic_in a y p \<Longrightarrow> pics_at a x (ps @ [p]) (y + nlength p)"
  by (induction ps arbitrary: x) auto

lemma pics_at_le: "pics_at a x ps y \<Longrightarrow> x \<le> y"
  by (induction ps arbitrary: x) (fastforce simp: pic_in_def)+

lemma elems_at_append:
  "elems_at a x (es @ fs) y \<longleftrightarrow> (\<exists>z. elems_at a x es z \<and> elems_at a z fs y)"
  by (induction es arbitrary: x) auto

lemma elems_at_le: "elems_at a x es y \<Longrightarrow> x + 5 * int (length es) \<le> y"
  by (induction es arbitrary: x) fastforce+

text \<open>The buffer stays the same under the updates of the operations.\<close>

lemma addr_of_upd [simp]:
  "addr_of (s\<lparr>frameFifo := f\<rparr>) = addr_of s" "addr_of (s\<lparr>mFramePicFifo := g\<rparr>) = addr_of s"
  "addr_of (s\<lparr>nValidDataSize := k\<rparr>) = addr_of s" "addr_of (s\<lparr>pWriteAddr := k\<rparr>) = addr_of s"
  "addr_of (s\<lparr>streamDataSem := j\<rparr>) = addr_of s" "addr_of (s\<lparr>emptyFramePicSem := j\<rparr>) = addr_of s"
  "addr_of (s\<lparr>mDetectInfo := d\<rparr>) = addr_of s" "addr_of (s\<lparr>bStreamWithStartCode := k\<rparr>) = addr_of s"
  "addr_of (s\<lparr>nEosFlag := k\<rparr>) = addr_of s" "addr_of (s\<lparr>sbm_mq := q\<rparr>) = addr_of s"
  by (simp_all add: addr_of_def fun_eq_iff)

lemma addr_of_upd_detect [simp]: "addr_of (upd_detect h s) = addr_of s"
  by (simp add: upd_detect_def)

lemma window_upd [simp]:
  "window (s\<lparr>frameFifo := f\<rparr>) = window s" "window (s\<lparr>mFramePicFifo := g\<rparr>) = window s"
  "window (s\<lparr>nValidDataSize := k\<rparr>) = window s" "window (s\<lparr>pWriteAddr := k\<rparr>) = window s"
  "window (s\<lparr>streamDataSem := j\<rparr>) = window s" "window (s\<lparr>emptyFramePicSem := j\<rparr>) = window s"
  "window (s\<lparr>mDetectInfo := d\<rparr>) = window s" "window (s\<lparr>bStreamWithStartCode := k\<rparr>) = window s"
  "window (s\<lparr>nEosFlag := k\<rparr>) = window s" "window (s\<lparr>sbm_mq := q\<rparr>) = window s"
  by (simp_all add: window_def)

section \<open>Queue operations\<close>

lemma flushStream_eq:
  assumes "fifo_rep n (frameFifo s) (e # out) es"
  shows "\<exists>f. flushStream s (Some (ring_at (frameFifo s) 0)) b = Inr (0, s\<lparr>frameFifo := f,
      nValidDataSize := nValidDataSize s - (if b then nLength e else 0)\<rparr>) \<and> fifo_rep n f out es"
proof -
  have v: "nValidFrameNum (frameFifo s) \<noteq> 0" "pFrames (frameFifo s) (ring_at (frameFifo s) 0) = e"
    using assms by (auto simp: fifo_rep_def)
  show ?thesis
    using fifo_rep_drop [OF assms] flush_wrap [OF assms] v
    by (auto simp: flushStream_def Let_def)
qed

lemma requestStream_empty:
  assumes "fifo_rep n (frameFifo s) out []"
  shows "requestStream s = Inr (None, s)"
  using assms by (simp add: requestStream_def fifo_rep_def Let_def)

lemma requestStream_eq:
  assumes "fifo_rep n (frameFifo s) [] (e # es)"
  shows "\<exists>f. requestStream s = Inr (Some (ring_at f 0), s\<lparr>frameFifo := f\<rparr>) \<and> fifo_rep n f [e] es \<and>
    pFrames f (ring_at f 0) = e"
proof -
  let ?f = "(frameFifo s)\<lparr>nReadPos := (nReadPos (frameFifo s) + 1) mod int n,
      nUnReadFrameNum := nUnReadFrameNum (frameFifo s) - 1\<rparr>"
  have f: "fifo_rep n ?f [e] es" using fifo_rep_read [OF assms] by simp
  have "ring_at ?f 0 = ring_at (frameFifo s) 0" by (simp add: ring_at_def)
  moreover have "pFrames (frameFifo s) (ring_at (frameFifo s) 0) = e"
    using assms by (auto simp: fifo_rep_def)
  ultimately have "pFrames ?f (ring_at ?f 0) = e" by simp
  moreover have "nUnReadFrameNum (frameFifo s) \<noteq> 0" using assms by (simp add: fifo_rep_def)
  then have "requestStream s = Inr (Some (ring_at ?f 0), s\<lparr>frameFifo := ?f\<rparr>)"
    using read_wrap [OF assms] by (simp add: requestStream_def Let_def ring_at_def)
  ultimately show ?thesis using f by blast
qed

lemma returnStream_eq:
  assumes "fifo_rep n (frameFifo s) [e] es"
  shows "\<exists>f. returnStream s (Some (ring_at (frameFifo s) 0)) = Inr (0, s\<lparr>frameFifo := f\<rparr>) \<and>
    fifo_rep n f [] (e # es)"
proof -
  let ?g = "frameFifo s"
  have at: "(nReadPos ?g - 1) mod int n = nFlushPos ?g mod int n"
    using assms by (simp add: fifo_rep_def mod_simps)
  have v: "nValidFrameNum ?g \<noteq> 0" "nMaxFrameNum ?g = int n" "0 < n"
    using assms by (auto simp: fifo_rep_def)
  have "fifo_rep n (?g\<lparr>nUnReadFrameNum := nUnReadFrameNum ?g + 1,
      nReadPos := (nReadPos ?g - 1) mod int n\<rparr>) [] (e # es)"
    using fifo_rep_unread [of n ?g "[]" e es] assms by simp
  with v read_wrap [OF assms] show ?thesis
    by (auto simp: returnStream_def Let_def ring_at_def at)
qed

lemma requestEmptyFramePic_eq:
  assumes "pic_rep N (mFramePicFifo s) held ready"
  shows "requestEmptyFramePic s = Inr (if length (held @ ready) < N
    then Some (nat (nFPWritePos (mFramePicFifo s))) else None)"
  using pic_slots [OF assms] assms by (auto simp: requestEmptyFramePic_def Let_def pic_rep_def)

lemma addFramePic_eq:
  assumes "pictures N s held ready (Some q)"
  shows "\<exists>f. addFramePic s (pCurFramePic (mDetectInfo s)) = Inr (0, s\<lparr>mFramePicFifo := f\<rparr>) \<and>
    nFPFlushPos f = nFPFlushPos (mFramePicFifo s) \<and> pic_rep N f held (ready @ [q])"
proof -
  have rep: "pic_rep N (mFramePicFifo s) held ready" and lt: "length (held @ ready) < N"
    and q: "pFramePics (mFramePicFifo s) (nat (nFPWritePos (mFramePicFifo s))) = q"
    and cur: "pCurFramePic (mDetectInfo s) = Some (nat (nFPWritePos (mFramePicFifo s)))"
    using assms by (auto simp: pictures_def)
  have "\<not> nMaxFramePicNum (mFramePicFifo s) \<le> nValidFramePicNum (mFramePicFifo s)"
    using rep lt by (simp add: pic_rep_def)
  with pic_wrap(1) [OF rep] pic_slots(1) [OF rep] pic_rep_push [OF rep lt q] show ?thesis
    by (auto simp: addFramePic_def cur Let_def)
qed

end
