(* ===== verification/SbmSteps.thy ===== *)
theory SbmSteps
  imports SbmRep
begin

text \<open>
  The steps of a detection round, as the files for H.264 and H.265 share them, on the states of
  theory \<^verbatim>\<open>SbmRep\<close>: none runs into a fault, and each moves the read position and the picture
  under construction as it says here.
\<close>

definition buffer :: "SbmFrame \<Rightarrow> int \<times> int" where
  "buffer s = (pStreamBuffer s, nStreamBufferSize s)"

lemma buffer_addr: "buffer s' = buffer s \<Longrightarrow> addr_of s' = addr_of s"
  by (simp add: buffer_def addr_of_def fun_eq_iff)

definition keeps :: "SbmFrame \<Rightarrow> SbmFrame \<Rightarrow> bool" where
  "keeps s s' \<longleftrightarrow> control s' = control s \<and> code_found s' = code_found s \<and> buffer s' = buffer s"

lemma keeps_refl [simp]: "keeps s s"
  by (simp add: keeps_def)

lemma keeps_trans: "keeps s s' \<Longrightarrow> keeps s' s'' \<Longrightarrow> keeps s s''"
  by (simp add: keeps_def)

abbreviation grow :: "FramePicInfo \<Rightarrow> int \<Rightarrow> FramePicInfo" where
  "grow q k \<equiv> q\<lparr>nlength := nlength q + k\<rparr>"

lemma reading_at_upd [simp]:
  "reading_at (s\<lparr>frameFifo := f\<rparr>) x = reading_at s x"
  "reading_at (s\<lparr>mFramePicFifo := h\<rparr>) x = reading_at s x"
  "reading_at (s\<lparr>nValidDataSize := k\<rparr>) x = reading_at s x"
  "reading_at (s\<lparr>pWriteAddr := k\<rparr>) x = reading_at s x"
  "reading_at (s\<lparr>streamDataSem := j\<rparr>) x = reading_at s x"
  "reading_at (s\<lparr>emptyFramePicSem := j\<rparr>) x = reading_at s x"
  by (simp_all add: reading_at_def)

text \<open>The read position is the same.\<close>

definition same_reading :: "DetectFramePicInfo \<Rightarrow> DetectFramePicInfo \<Rightarrow> bool" where
  "same_reading d d' \<longleftrightarrow> pCurStream d = pCurStream d' \<and> pCurStreamDataptr d = pCurStreamDataptr d' \<and>
     nCurStreamDataSize d = nCurStreamDataSize d' \<and> nCurStreamRebackFlag d = nCurStreamRebackFlag d'"

lemma streams_cong:
  assumes "mDetectInfo s' = mDetectInfo s" and "frameFifo s' = frameFifo s"
  shows "streams n s' c es = streams n s c es"
  using assms by (cases c) (simp_all add: streams_def)

lemma streams_same_reading:
  assumes "same_reading (mDetectInfo s') (mDetectInfo s)" and "frameFifo s' = frameFifo s"
  shows "streams n s' c es = streams n s c es"
  using assms by (cases c) (simp_all add: streams_def same_reading_def)

lemma streams_upd [simp]:
  "streams n (s\<lparr>mFramePicFifo := h\<rparr>) c es = streams n s c es"
  "streams n (s\<lparr>nValidDataSize := k\<rparr>) c es = streams n s c es"
  "streams n (s\<lparr>streamDataSem := j\<rparr>) c es = streams n s c es"
  "streams n (s\<lparr>emptyFramePicSem := j\<rparr>) c es = streams n s c es"
  by (rule streams_cong; simp)+

lemma flushStream_keep:
  assumes "fifo_rep n (frameFifo s) (e # out) es"
  shows "\<exists>f. flushStream s (Some (ring_at (frameFifo s) 0)) False = Inr (0, s\<lparr>frameFifo := f\<rparr>) \<and>
    fifo_rep n f out es"
proof -
  have "(s :: SbmFrame)\<lparr>frameFifo := f, nValidDataSize := nValidDataSize s\<rparr> = s\<lparr>frameFifo := f\<rparr>" for f
    by (cases s) simp
  with flushStream_eq [OF assms, of False] show ?thesis by simp
qed

lemma frame_rep_pic:
  assumes "frame_rep N n W x s held ready (Some q) c es"
  shows "0 \<le> nCurNaluIdx q" "nCurNaluIdx q < nMaxNaluNum q" "pic_in (addr_of s) (x - nlength q) q"
    "pictures N s held ready (Some q)" "length (held @ ready) < N"
  using assms by (auto simp: frame_rep_def pictures_def layout_def Let_def)

lemma frame_rep_left: "frame_rep N n W x s held ready p c es \<Longrightarrow> 0 \<le> left_size s"
  by (auto simp: frame_rep_def layout_def streams_def reading_at_def Let_def split: option.splits)

lemma drop_cur_stream_rep:
  assumes "frame_rep N n W x s held ready (Some q) c es"
  shows "\<exists>s'. drop_cur_stream s = Inr s' \<and> keeps s s' \<and> left_size s' = 0 \<and>
    frame_rep N n W (x + left_size s) s' held ready (Some (grow q (left_size s))) None es"
proof (cases c)
  case None
  then have "left_size s = 0" "pCurStream (mDetectInfo s) = None"
    using assms by (auto simp: frame_rep_def streams_def)
  with None assms show ?thesis by (simp add: drop_cur_stream_def)
next
  case (Some e)
  let ?L = "left_size s"
  have st: "fifo_rep n (frameFifo s) [e] es"
      "pCurStream (mDetectInfo s) = Some (ring_at (frameFifo s) 0)"
    using assms Some by (auto simp: frame_rep_def streams_def)
  from flushStream_keep [OF st(1)] obtain f where
    f: "flushStream s (Some (ring_at (frameFifo s) 0)) False = Inr (0, s\<lparr>frameFifo := f\<rparr>)"
      "fifo_rep n f [] es" by blast
  let ?s2 = "s\<lparr>frameFifo := f, mDetectInfo := (mDetectInfo s)\<lparr>pCurStream := None\<rparr>\<rparr>"
  note q = frame_rep_pic [OF assms]
  have pq: "pictures N ?s2 held ready (Some q)" using q(4) by (simp add: pictures_def)
  let ?g = "\<lambda>p. p\<lparr>nlength := nlength p + ?L\<rparr>"
  obtain h where h: "upd_cur_pic ?g ?s2 = Inr (?s2\<lparr>mFramePicFifo := h\<rparr>)"
      "pictures N (?s2\<lparr>mFramePicFifo := h\<rparr>) held ready (Some (grow q ?L))"
      "nFPFlushPos h = nFPFlushPos (mFramePicFifo s)"
    using upd_cur_pic_pictures [OF pq, of ?g] q(1,2) by auto
  let ?s' = "upd_detect (\<lambda>d. d\<lparr>nCurStreamDataSize := 0, pCurStreamDataptr := 0\<rparr>)
      (?s2\<lparr>mFramePicFifo := h\<rparr>)"
  have "pCurFramePic (mDetectInfo s) \<noteq> None" using q(4) by (auto simp: pictures_def)
  then have "drop_cur_stream s = Inr ?s'"
    using h(1) by (simp add: drop_cur_stream_def st(2) f(1) upd_detect_def)
  moreover have "0 \<le> ?L" by (rule frame_rep_left [OF assms])
  then have "pic_in (addr_of s) (x - nlength q) (grow q ?L)"
    by (intro pic_in_grow [OF q(3)]) (auto simp: same_nalus_def)
  then have "frame_rep N n W (x + ?L) ?s' held ready (Some (grow q ?L)) None es"
    using assms f(2) h(2)
    by (simp add: frame_rep_def streams_def pictures_def layout_def Let_def upd_detect_def len_of_def)
  moreover have "keeps s ?s'"
    using h(3) by (simp add: keeps_def control_def buffer_def code_found_def upd_detect_def)
  moreover have "left_size ?s' = 0" by (simp add: upd_detect_def)
  ultimately show ?thesis by blast
qed

text \<open>Both files detect a piece that turns around.\<close>

definition detects_wrap :: "(SbmFrame \<Rightarrow> VideoStreamDataInfo \<Rightarrow> bool) \<Rightarrow> bool" where
  "detects_wrap reback \<longleftrightarrow>
     (\<forall>s st. \<not> reback s st \<longrightarrow> pData st + nLength st \<le> pStreamBufferEnd s + 1)"

lemma avc_detects_wrap [simp]: "detects_wrap avc_reback"
  by (simp add: detects_wrap_def avc_reback_def)

lemma hevc_detects_wrap [simp]: "detects_wrap hevc_reback"
  by (simp add: detects_wrap_def hevc_reback_def)

lemma supply_empty:
  assumes "frame_rep N n W x s held ready (Some q) c []"
  shows "\<exists>s'. supplyStreamData reback s = Inr (-1, s') \<and> keeps s s' \<and> left_size s' = 0 \<and>
    frame_rep N n W (x + left_size s) s' held ready (Some (grow q (left_size s))) None []"
proof -
  from drop_cur_stream_rep [OF assms] obtain s1 where s1: "drop_cur_stream s = Inr s1" "keeps s s1"
    "left_size s1 = 0"
    "frame_rep N n W (x + left_size s) s1 held ready (Some (grow q (left_size s))) None []" by blast
  let ?s' = "s1\<lparr>streamDataSem := sem_wait_20 (streamDataSem s1)\<rparr>"
  have "fifo_rep n (frameFifo s1) [] []" using s1(4) by (simp add: frame_rep_def streams_def)
  then have "supplyStreamData reback s = Inr (-1, ?s')"
    by (simp add: supplyStreamData_def s1(1) requestStream_empty)
  moreover have "frame_rep N n W (x + left_size s) ?s' held ready (Some (grow q (left_size s))) None []"
    using s1(4) by (simp add: frame_rep_def streams_def pictures_def layout_def Let_def)
  moreover have "keeps s ?s'" "left_size ?s' = 0"
    using s1(2,3) by (simp_all add: keeps_def control_def buffer_def code_found_def)
  ultimately show ?thesis by blast
qed

lemma supply_next:
  assumes "frame_rep N n W x s held ready (Some q) c (e # es)" and "detects_wrap reback"
  shows "\<exists>s'. supplyStreamData reback s = Inr (0, s') \<and> keeps s s' \<and> left_size s' = nLength e \<and>
    frame_rep N n W (x + left_size s) s' held ready (Some (grow q (left_size s))) (Some e) es"
proof -
  let ?x = "x + left_size s" and ?q = "grow q (left_size s)"
  from drop_cur_stream_rep [OF assms(1)] obtain s1 where s1: "drop_cur_stream s = Inr s1" "keeps s s1"
    "left_size s1 = 0" "frame_rep N n W ?x s1 held ready (Some ?q) None (e # es)" by blast
  have "fifo_rep n (frameFifo s1) [] (e # es)" using s1(4) by (simp add: frame_rep_def streams_def)
  from requestStream_eq [OF this] obtain f where
    f: "requestStream s1 = Inr (Some (ring_at f 0), s1\<lparr>frameFifo := f\<rparr>)" "fifo_rep n f [e] es"
      "pFrames f (ring_at f 0) = e" by blast
  have pq: "pictures N s1 held ready (Some ?q)" using s1(4) by (simp add: frame_rep_def)
  have lay: "pData e = addr_of s1 ?x" "5 \<le> nLength e" "elems_at (addr_of s1) (?x + nLength e) es W"
      "window s1" "pWriteAddr s1 = addr_of s1 W" "nValidDataSize s1 + 64 \<le> nStreamBufferSize s1"
      "pics_at (addr_of s1) (W - nValidDataSize s1) (held @ ready) (?x - nlength ?q)"
      "pic_in (addr_of s1) (?x - nlength ?q) ?q"
    using s1(3,4) unfolding frame_rep_def layout_def Let_def len_of_def option.case by simp_all
  have "nLength e \<le> nValidDataSize s1"
    using elems_at_le [OF lay(3)] pics_at_le [OF lay(7)] lay(8) by (simp add: pic_in_def)
  with lay(6) have fits: "nLength e + 64 \<le> nStreamBufferSize s1" by simp
  let ?s' = "upd_detect (\<lambda>d. d\<lparr>pCurStream := Some (ring_at f 0), pCurStreamDataptr := pData e,
      nCurStreamDataSize := nLength e,
      nCurStreamRebackFlag := (if reback (s1\<lparr>frameFifo := f\<rparr>) e then 1 else 0)\<rparr>)
      (s1\<lparr>frameFifo := f\<rparr>)"
  have wrap: "\<not> reback (s1\<lparr>frameFifo := f\<rparr>) e \<Longrightarrow>
      pData e + nLength e \<le> pStreamBufferEnd s1 + 1"
    using assms(2) unfolding detects_wrap_def by fastforce
  have "supplyStreamData reback s = Inr (0, ?s')"
    using lay(2) by (simp add: supplyStreamData_def s1(1) f(1,3) Let_def)
  moreover have "reading_at ?s' ?x"
    using lay(1,2) fits wrap by (simp add: reading_at_def upd_detect_def Let_def)
  then have "layout W ?x ?s' (held @ ready) (Some ?q) (Some e) es"
    using lay fits unfolding layout_def Let_def len_of_def option.case
    by (simp add: upd_detect_def)
  then have "frame_rep N n W ?x ?s' held ready (Some ?q) (Some e) es"
    using pq f(2) by (simp add: frame_rep_def streams_def pictures_def upd_detect_def)
  moreover have "keeps s ?s'" "left_size ?s' = nLength e"
    using s1(2) by (simp_all add: keeps_def control_def buffer_def code_found_def upd_detect_def)
  ultimately show ?thesis by blast
qed

lemma begin_pic_rep:
  assumes "frame_rep N n W x s held ready (Some q) (Some e) es"
  shows "\<exists>s' q'. begin_pic s = Inr s' \<and> keeps s s' \<and> mDetectInfo s' = mDetectInfo s \<and>
    same_nalus q' q \<and> nlength q' = nlength q \<and>
    frame_rep N n W x s' held ready (Some q') (Some e) es"
proof (cases "pDataStartAddr q = 0")
  case False
  then have "begin_pic s = Inr s"
    using cur_pic_eq [OF frame_rep_pic(4) [OF assms]] by (simp add: begin_pic_def)
  with assms show ?thesis by force
next
  case True
  let ?g = "\<lambda>p. p\<lparr>pDataStartAddr := pCurStreamDataptr (mDetectInfo s),
      pic_pVideoInfo := pVideoInfo e\<rparr>"
  note q = frame_rep_pic [OF assms]
  obtain h where h: "upd_cur_pic ?g s = Inr (s\<lparr>mFramePicFifo := h\<rparr>)"
      "pictures N (s\<lparr>mFramePicFifo := h\<rparr>) held ready (Some (?g q))"
      "nFPFlushPos h = nFPFlushPos (mFramePicFifo s)"
    using upd_cur_pic_pictures [OF q(4), of ?g] q(1,2) by auto
  have "streams n s (Some e) es" using assms by (simp add: frame_rep_def)
  then have "begin_pic s = Inr (s\<lparr>mFramePicFifo := h\<rparr>)"
    using True cur_pic_eq [OF q(4)] cur_stream_eq h(1) by (fastforce simp: begin_pic_def)
  moreover have "pic_in (addr_of s) (x - nlength q) (?g q)"
    by (intro pic_in_grow [OF q(3)]) (auto simp: same_nalus_def)
  then have "frame_rep N n W x (s\<lparr>mFramePicFifo := h\<rparr>) held ready (Some (?g q)) (Some e) es"
    using assms h(2)
    by (simp add: frame_rep_def streams_def layout_def Let_def len_of_def)
  moreover have "same_nalus (?g q) q" by (simp add: same_nalus_def)
  ultimately show ?thesis
    using h(3) by (intro exI [of _ "s\<lparr>mFramePicFifo := h\<rparr>"] exI [of _ "?g q"])
      (simp add: keeps_def control_def buffer_def code_found_def)
qed

lemma upd_pic_rep:
  assumes "frame_rep N n W x s held ready (Some q) c es" and "same_nalus (g q) q"
    and "nlength (g q) = nlength q"
  shows "\<exists>h. upd_cur_pic g s = Inr (s\<lparr>mFramePicFifo := h\<rparr>) \<and>
    nFPFlushPos h = nFPFlushPos (mFramePicFifo s) \<and>
    frame_rep N n W x (s\<lparr>mFramePicFifo := h\<rparr>) held ready (Some (g q)) c es"
proof -
  note q = frame_rep_pic [OF assms(1)]
  have nq: "0 \<le> nCurNaluIdx (g q)" "nCurNaluIdx (g q) < nMaxNaluNum (g q)"
    using q(1,2) assms(2) by (simp_all add: same_nalus_def)
  from upd_cur_pic_pictures [where g = g, OF q(4) nq] obtain h where h: "upd_cur_pic g s = Inr (s\<lparr>mFramePicFifo := h\<rparr>)"
      "pictures N (s\<lparr>mFramePicFifo := h\<rparr>) held ready (Some (g q))"
      "nFPFlushPos h = nFPFlushPos (mFramePicFifo s)" by blast
  have "pic_in (addr_of s) (x - nlength q) (g q)"
    by (intro pic_in_grow [OF q(3)]) (use assms in auto)
  then have "frame_rep N n W x (s\<lparr>mFramePicFifo := h\<rparr>) held ready (Some (g q)) c es"
    using assms h(2) by (simp add: frame_rep_def layout_def Let_def len_of_def)
  with h(1,3) show ?thesis by blast
qed

lemma frame_rep_detect:
  assumes "frame_rep N n W x s held ready p c es" and "same_reading (g (mDetectInfo s)) (mDetectInfo s)"
    and "pCurFramePic (g (mDetectInfo s)) = pCurFramePic (mDetectInfo s)"
  shows "frame_rep N n W x (upd_detect g s) held ready p c es"
proof -
  have r: "reading_at (upd_detect g s) y = reading_at s y" for y
    using assms(2) by (simp add: reading_at_def Let_def upd_detect_def same_reading_def)
  have f: "frameFifo (upd_detect g s) = frameFifo s" "mFramePicFifo (upd_detect g s) = mFramePicFifo s"
      "mDetectInfo (upd_detect g s) = g (mDetectInfo s)" "pWriteAddr (upd_detect g s) = pWriteAddr s"
      "nValidDataSize (upd_detect g s) = nValidDataSize s"
      "nStreamBufferSize (upd_detect g s) = nStreamBufferSize s"
      "window (upd_detect g s) = window s"
    by (simp_all add: upd_detect_def)
  have st: "streams n (upd_detect g s) c es = streams n s c es"
    using assms(2) by (intro streams_same_reading) (simp_all add: upd_detect_def)
  have pc: "pictures N (upd_detect g s) held ready p = pictures N s held ready p"
    using assms(3) by (cases p) (simp_all add: pictures_def upd_detect_def)
  show ?thesis
    using assms(1) assms(2) [unfolded same_reading_def]
    unfolding frame_rep_def layout_def Let_def f r st pc addr_of_upd_detect
    by simp
qed

lemma close_pic_rep:
  assumes "frame_rep N n W x s held ready (Some q) c es"
  shows "\<exists>s' q'. close_pic s = Inr s' \<and> control s' = control s \<and> buffer s' = buffer s \<and>
    code_found s' = 0 \<and> left_size s' = left_size s \<and> same_nalus q' q \<and> nlength q' = nlength q \<and>
    frame_rep N n W x s' held (ready @ [q']) None c es"
proof -
  let ?s1 = "upd_detect (\<lambda>d. d\<lparr>bCurFrameStartCodeFound := 0\<rparr>) s"
  have rep1: "frame_rep N n W x ?s1 held ready (Some q) c es"
    by (rule frame_rep_detect [OF assms]) (simp_all add: same_reading_def)
  let ?g = "\<lambda>p. p\<lparr>pic_nPts := first_valid_pts (nCurFramePtsList (mDetectInfo ?s1))\<rparr>"
  from upd_pic_rep [OF rep1, of ?g] obtain h where h: "chooseFramePts ?s1 = Inr (?s1\<lparr>mFramePicFifo := h\<rparr>)"
    "frame_rep N n W x (?s1\<lparr>mFramePicFifo := h\<rparr>) held ready (Some (?g q)) c es"
      "nFPFlushPos h = nFPFlushPos (mFramePicFifo s)"
    by (auto simp: chooseFramePts_def same_nalus_def upd_detect_def)
  let ?s2 = "?s1\<lparr>mFramePicFifo := h\<rparr>"
  from addFramePic_eq [OF frame_rep_pic(4) [OF h(2)]] obtain f where
    f: "addFramePic ?s2 (pCurFramePic (mDetectInfo ?s2)) = Inr (0, ?s2\<lparr>mFramePicFifo := f\<rparr>)"
      "pic_rep N f held (ready @ [?g q])" "nFPFlushPos f = nFPFlushPos (mFramePicFifo s)"
    using h(3) by auto
  let ?s' = "upd_detect (\<lambda>d. d\<lparr>pCurFramePic := None\<rparr>) (?s2\<lparr>mFramePicFifo := f\<rparr>)"
  have close: "close_pic s = Inr ?s'"
    using f(1) by (simp add: close_pic_def h(1))
  have "reading_at ?s' x = reading_at s x"
    by (simp add: reading_at_def Let_def upd_detect_def)
  moreover have "pics_at a y (held @ ready @ [?g q]) x" if "pics_at a y (held @ ready) (x - nlength q)"
      "pic_in a (x - nlength q) q" for a y
  proof -
    have "pic_in a (x - nlength q) (?g q)"
      by (rule pic_in_grow [OF that(2)]) (simp_all add: same_nalus_def)
    with that(1) show ?thesis unfolding append_assoc [symmetric] by (subst pics_at_append) auto
  qed
  then have lay: "layout W x ?s' ((held @ ready) @ [?g q]) None c es"
    using assms \<open>reading_at ?s' x = reading_at s x\<close>
    by (simp add: frame_rep_def layout_def Let_def len_of_def upd_detect_def)
  have "streams n ?s' c es"
    using assms streams_same_reading [of ?s' s n c es]
    by (simp add: frame_rep_def upd_detect_def same_reading_def)
  with lay have rep: "frame_rep N n W x ?s' held (ready @ [?g q]) None c es"
    using f(2) by (simp add: frame_rep_def pictures_def upd_detect_def)
  show ?thesis
    using close rep f(3) by (intro exI [of _ ?s'] exI [of _ "?g q"])
      (simp add: control_def buffer_def code_found_def upd_detect_def same_nalus_def)
qed

text \<open>The read position moves by \<open>k\<close> bytes, which become part of the picture.\<close>

lemma skip_core:
  assumes "window s" and "reading_at s x" and "pictures N s held ready (Some q)"
    and "0 \<le> k" and "k \<le> left_size s"
  shows "\<exists>d h. skipCurStreamDataBytes (pStreamBuffer s) (pStreamBufferEnd s) k s
      = Inr (s\<lparr>mDetectInfo := d, mFramePicFifo := h\<rparr>) \<and>
    nFPFlushPos h = nFPFlushPos (mFramePicFifo s) \<and>
    pCurStream d = pCurStream (mDetectInfo s) \<and>
    bCurFrameStartCodeFound d = code_found s \<and> nCurStreamDataSize d = left_size s - k \<and>
    pCurStreamDataptr d = addr_of s (x + k) \<and>
    reading_at (s\<lparr>mDetectInfo := d, mFramePicFifo := h\<rparr>) (x + k) \<and>
    pictures N (s\<lparr>mDetectInfo := d, mFramePicFifo := h\<rparr>) held ready (Some (grow q k))"
proof -
  let ?d = "mDetectInfo s"
  have rd: "pCurStreamDataptr ?d = addr_of s x" "k \<le> nStreamBufferSize s"
    using assms by (auto simp: Let_def reading_at_def)
  have q: "0 \<le> nCurNaluIdx q" "nCurNaluIdx q < nMaxNaluNum q"
    using assms(3) by (auto simp: pictures_def)
  let ?p = "pCurStreamDataptr ?d + k"
  let ?p1 = "if ?p > pStreamBufferEnd s then pStreamBuffer s + (?p - pStreamBufferEnd s - 1) else ?p"
  have p1: "?p1 = addr_of s (x + k)"
    using addr_of_shift [OF assms(1,4) rd(2), of x] rd(1) assms(1) by (simp add: window_def)
  let ?d1 = "?d\<lparr>pCurStreamDataptr := ?p1, nCurStreamDataSize := nCurStreamDataSize ?d - k\<rparr>"
  let ?s1 = "s\<lparr>mDetectInfo := ?d1\<rparr>"
  let ?g = "\<lambda>p. p\<lparr>nlength := nlength p + k\<rparr>"
  have "pictures N ?s1 held ready (Some q)" using assms(3) by (simp add: pictures_def)
  from upd_cur_pic_pictures [OF this, of ?g] q obtain h where
    h: "upd_cur_pic ?g ?s1 = Inr (?s1\<lparr>mFramePicFifo := h\<rparr>)"
      "pictures N (?s1\<lparr>mFramePicFifo := h\<rparr>) held ready (Some (?g q))"
      "nFPFlushPos h = nFPFlushPos (mFramePicFifo s)" by auto
  have "skipCurStreamDataBytes (pStreamBuffer s) (pStreamBufferEnd s) k s
      = Inr (?s1\<lparr>mFramePicFifo := h\<rparr>)"
    using h(1) by (simp add: skipCurStreamDataBytes_def upd_detect_def Let_def)
  moreover have "nCurStreamRebackFlag ?d = 0 \<Longrightarrow>
      addr_of s (x + k) + (left_size s - k) \<le> pStreamBufferEnd s + 1"
    unfolding p1 [symmetric] using assms(1,2,4,5)
    by (auto simp: reading_at_def Let_def window_def)
  then have "reading_at (?s1\<lparr>mFramePicFifo := h\<rparr>) (x + k)"
    using assms(2,4,5) p1 by (simp add: reading_at_def Let_def)
  ultimately show ?thesis
    using h(2,3) p1 by (intro exI [of _ ?d1] exI [of _ h]) (simp add: code_found_def)
qed

lemma frame_rep_advance:
  assumes "frame_rep N n W x s held ready (Some q) (Some e) es"
    and "pCurStream d = pCurStream (mDetectInfo s)" and "nCurStreamDataSize d = left_size s - k"
    and "reading_at (s\<lparr>mDetectInfo := d, mFramePicFifo := h\<rparr>) (x + k)" and "0 \<le> k"
    and "pictures N (s\<lparr>mDetectInfo := d, mFramePicFifo := h\<rparr>) held ready (Some q')"
    and "pic_in (addr_of s) (x - nlength q) q'" and "nlength q' = nlength q + k"
  shows "frame_rep N n W (x + k) (s\<lparr>mDetectInfo := d, mFramePicFifo := h\<rparr>) held ready
    (Some q') (Some e) es"
  using assms by (simp add: frame_rep_def streams_def layout_def Let_def len_of_def)

lemma frame_rep_reading:
  assumes "frame_rep N n W x s held ready p (Some e) es"
  shows "window s" "reading_at s x" "left_size s \<le> nLength e"
  using assms by (auto simp: frame_rep_def layout_def Let_def)

lemma skip_rep:
  assumes "frame_rep N n W x s held ready (Some q) (Some e) es" and "0 \<le> k" and "k \<le> left_size s"
  shows "\<exists>s'. skipCurStreamDataBytes (pStreamBuffer s) (pStreamBufferEnd s) k s = Inr s' \<and> keeps s s' \<and>
    left_size s' = left_size s - k \<and> pCurStreamDataptr (mDetectInfo s') = addr_of s (x + k) \<and>
    pStreamBuffer s' = pStreamBuffer s \<and> pStreamBufferEnd s' = pStreamBufferEnd s \<and>
    frame_rep N n W (x + k) s' held ready (Some (grow q k)) (Some e) es"
proof -
  note q = frame_rep_pic [OF assms(1)]
  from skip_core [OF frame_rep_reading(1,2) [OF assms(1)] q(4) assms(2,3)] obtain d h where
    s': "skipCurStreamDataBytes (pStreamBuffer s) (pStreamBufferEnd s) k s
      = Inr (s\<lparr>mDetectInfo := d, mFramePicFifo := h\<rparr>)" and
    d: "pCurStream d = pCurStream (mDetectInfo s)" "bCurFrameStartCodeFound d = code_found s"
      "nCurStreamDataSize d = left_size s - k" "pCurStreamDataptr d = addr_of s (x + k)"
      "reading_at (s\<lparr>mDetectInfo := d, mFramePicFifo := h\<rparr>) (x + k)"
      "pictures N (s\<lparr>mDetectInfo := d, mFramePicFifo := h\<rparr>) held ready (Some (grow q k))"
      "nFPFlushPos h = nFPFlushPos (mFramePicFifo s)" by blast
  have "pic_in (addr_of s) (x - nlength q) (grow q k)"
    by (rule pic_in_grow [OF q(3)]) (use assms(2) in \<open>simp_all add: same_nalus_def\<close>)
  from frame_rep_advance [OF assms(1) d(1,3,5) assms(2) d(6) this] s' d show ?thesis
    by (simp add: keeps_def control_def buffer_def code_found_def)
qed

section \<open>Reading NAL units\<close>

text \<open>
  The bytes of a stored NAL unit, as the decoder finds them, and the NAL units of a picture
  with the fields \<open>lab\<close> of their list elements.
\<close>

definition read_nalu :: "memory \<Rightarrow> SbmFrame \<Rightarrow> NaluInfo \<Rightarrow> 8 word list" where
  "read_nalu m s u = map (\<lambda>i. m (addr_of s (pDataBuf u - pStreamBuffer s + int i)))
     [0..<nat (nDataSize u)]"

definition pic_units :: "(NaluInfo \<Rightarrow> 'l) \<Rightarrow> memory \<Rightarrow> SbmFrame \<Rightarrow> FramePicInfo \<Rightarrow> ('l \<times> 8 word list) list" where
  "pic_units lab m s q = map (\<lambda>j. (lab (pNaluInfoList q j), read_nalu m s (pNaluInfoList q j)))
     [0..<nat (nCurNaluIdx q)]"

lemma read_nalu_at:
  assumes "pDataBuf u = addr_of s z"
  shows "read_nalu m s u = bytes_at m s z (nat (nDataSize u))"
proof -
  have "addr_of s (addr_of s z - pStreamBuffer s + i) = addr_of s (z + i)" for i
    by (simp add: addr_of_def mod_simps)
  then show ?thesis by (simp add: read_nalu_def bytes_at_def assms)
qed

lemma pic_units_buffer: "buffer s' = buffer s \<Longrightarrow> pic_units lab m s' q = pic_units lab m s q"
  using buffer_addr [of s' s] by (simp add: pic_units_def read_nalu_def buffer_def)

lemma pic_units_same: "same_nalus q' q \<Longrightarrow> pic_units lab m s q' = pic_units lab m s q"
  by (simp add: pic_units_def same_nalus_def)

lemma bytes_at_buffer: "buffer s' = buffer s \<Longrightarrow> bytes_at m s' x k = bytes_at m s x k"
  using buffer_addr [of s' s] by (simp add: bytes_at_def)

section \<open>A NAL unit is stored\<close>

definition fills :: "(NaluInfo \<Rightarrow> NaluInfo) \<Rightarrow> int \<Rightarrow> int \<Rightarrow> bool" where
  "fills fill p k \<longleftrightarrow> (\<forall>u. pDataBuf (fill u) = p \<and> nDataSize (fill u) = k)"

text \<open>\<^verbatim>\<open>storeNaluInfo\<close>, and the bytes of the NAL unit are skipped.\<close>

lemma store_skip_rep:
  assumes rep: "frame_rep N n W x s held ready (Some q) (Some e) es"
    and k: "0 \<le> k" "k \<le> left_size s"
    and fill: "fills fill (pCurStreamDataptr (mDetectInfo s)) k"
    and flags: "\<And>st p. same_nalus (flags st p) p \<and> nlength (flags st p) = nlength p"
  shows "\<exists>s1 s' q'. store_nalu fill flags s = Inr s1 \<and>
    pStreamBuffer s1 = pStreamBuffer s \<and> pStreamBufferEnd s1 = pStreamBufferEnd s \<and>
    pDetectBufStart s1 = pDetectBufStart s \<and> pDetectBufEnd s1 = pDetectBufEnd s \<and>
    skipCurStreamDataBytes (pStreamBuffer s) (pStreamBufferEnd s) k s1 = Inr s' \<and> keeps s s' \<and>
    left_size s' = left_size s - k \<and>
    pic_units lab m s' q' = pic_units lab m s q @
      [(lab (fill (pNaluInfoList q (nat (nCurNaluIdx q)))), bytes_at m s x (nat k))] \<and>
    nCurNaluIdx q' = nCurNaluIdx q + 1 \<and>
    frame_rep N n W (x + k) s' held ready (Some q') (Some e) es"
proof -
  note q = frame_rep_pic [OF rep]
  let ?i = "nat (nCurNaluIdx q)"
  let ?u = "fill (pNaluInfoList q ?i)"
  have st: "cur_stream s = Inr e" "cur_pic s = Inr q"
    using rep cur_stream_eq cur_pic_eq [OF q(4)] by (auto simp: frame_rep_def)
  let ?s0 = "upd_detect (\<lambda>d. if nCurNaluIdx q < MAX_FRAME_PTS_LIST_NUM
      then d\<lparr>nCurFramePtsList := (nCurFramePtsList d)[?i := nPts e]\<rparr> else d) s"
  have rep0: "frame_rep N n W x ?s0 held ready (Some q) (Some e) es"
    by (rule frame_rep_detect [OF rep]) (simp_all add: same_reading_def)
  define p1 where "p1 = q\<lparr>pNaluInfoList := (pNaluInfoList q)(?i := ?u), nCurNaluIdx := nCurNaluIdx q + 1\<rparr>"
  define p2 where "p2 = flags e (if nCurNaluIdx p1 \<ge> nMaxNaluNum p1 then expandNaluList p1 else p1)"
  have p2: "pNaluInfoList p2 = (pNaluInfoList q)(?i := ?u)" "nCurNaluIdx p2 = nCurNaluIdx q + 1"
      "nCurNaluIdx p2 < nMaxNaluNum p2" "nlength p2 = nlength q"
    using flags q(2) unfolding p2_def p1_def same_nalus_def
    by (auto simp: expandNaluList_def DEFAULT_NALU_NUM_def)
  obtain h where h: "upd_cur_pic (\<lambda>_. p2) ?s0 = Inr (?s0\<lparr>mFramePicFifo := h\<rparr>)"
      "pictures N (?s0\<lparr>mFramePicFifo := h\<rparr>) held ready (Some p2)"
      "nFPFlushPos h = nFPFlushPos (mFramePicFifo s)"
    using upd_cur_pic_pictures [OF frame_rep_pic(4) [OF rep0], of "\<lambda>_. p2"] p2(2,3) q(1)
    by (auto simp: upd_detect_def)
  let ?s1 = "?s0\<lparr>mFramePicFifo := h\<rparr>"
  have "store_nalu fill flags s = upd_cur_pic (\<lambda>_. p2) ?s0"
    using q(1,2) by (simp add: store_nalu_def st Let_def p2_def p1_def)
  with h(1) have store: "store_nalu fill flags s = Inr ?s1" by simp
  have win: "window ?s1" "reading_at ?s1 x" "left_size ?s1 = left_size s"
      "pCurStreamDataptr (mDetectInfo ?s1) = pCurStreamDataptr (mDetectInfo s)"
    using frame_rep_reading(1,2) [OF rep0] by (simp_all add: upd_detect_def)
  have "k \<le> left_size ?s1" using k(2) win(3) by simp
  from skip_core [OF win(1,2) h(2) k(1) this] obtain d g where
    s': "skipCurStreamDataBytes (pStreamBuffer ?s1) (pStreamBufferEnd ?s1) k ?s1
      = Inr (?s1\<lparr>mDetectInfo := d, mFramePicFifo := g\<rparr>)" and
    d: "pCurStream d = pCurStream (mDetectInfo ?s1)" "bCurFrameStartCodeFound d = code_found ?s1"
      "nCurStreamDataSize d = left_size ?s1 - k"
      "reading_at (?s1\<lparr>mDetectInfo := d, mFramePicFifo := g\<rparr>) (x + k)"
      "pictures N (?s1\<lparr>mDetectInfo := d, mFramePicFifo := g\<rparr>) held ready (Some (grow p2 k))"
      "nFPFlushPos g = nFPFlushPos (mFramePicFifo s)" using h(3) by auto
  let ?s' = "?s1\<lparr>mDetectInfo := d, mFramePicFifo := g\<rparr>"
  have ptr: "pCurStreamDataptr (mDetectInfo s) = addr_of s x"
    using frame_rep_reading(2) [OF rep] by (simp add: reading_at_def Let_def)
  then have u: "pDataBuf ?u = addr_of s x" "nDataSize ?u = k"
    using fill by (simp_all add: fills_def)
  have nal: "nalu_in (addr_of s) (x - nlength q) (x - nlength q + nlength (grow p2 k))
      (pNaluInfoList p2 j)" if "int j < nCurNaluIdx p2" for j
  proof (cases "j = ?i")
    case True
    have "0 \<le> nlength q" using q(3) by (simp add: pic_in_def)
    with True u k(1) p2(1,4) show ?thesis by (auto simp: nalu_in_def)
  next
    case False
    with that p2(2) have "int j < nCurNaluIdx q" by linarith
    with q(3) have "nalu_in (addr_of s) (x - nlength q) (x - nlength q + nlength q) (pNaluInfoList q j)"
      by (simp add: pic_in_def)
    with False k(1) p2(1,4) show ?thesis by (fastforce simp: nalu_in_def)
  qed
  have "pic_in (addr_of s) (x - nlength q) (grow p2 k)"
    using nal q(1,3) k(1) p2(2,4) unfolding pic_in_def by simp
  note pin = this
  have eq: "?s' = s\<lparr>mDetectInfo := d, mFramePicFifo := g\<rparr>" by (simp add: upd_detect_def)
  have d': "pCurStream d = pCurStream (mDetectInfo s)" "nCurStreamDataSize d = left_size s - k"
      "bCurFrameStartCodeFound d = code_found s"
    using d(1-3) by (simp_all add: upd_detect_def code_found_def)
  have rep': "frame_rep N n W (x + k) ?s' held ready (Some (grow p2 k)) (Some e) es"
    unfolding eq
    by (rule frame_rep_advance [OF rep d'(1,2) _ k(1) _ pin]) (use d(4,5) eq p2(4) in simp_all)
  have keep: "keeps s ?s'" "left_size ?s' = left_size s - k"
    unfolding eq using d' d(6) by (simp_all add: keeps_def control_def buffer_def code_found_def)
  have "pic_units lab m ?s' (grow p2 k) = pic_units lab m s (grow p2 k)"
    by (rule pic_units_buffer) (use keep(1) in \<open>simp add: keeps_def\<close>)
  also have "\<dots> = pic_units lab m s q @ [(lab ?u, read_nalu m s ?u)]"
  proof -
    have n: "nat (nCurNaluIdx (grow p2 k)) = Suc ?i" using p2(2) q(1) by simp
    show ?thesis unfolding pic_units_def n using p2(1) by simp
  qed
  also have "read_nalu m s ?u = bytes_at m s x (nat k)"
    using read_nalu_at [OF u(1), of m] u(2) by simp
  finally have units: "pic_units lab m ?s' (grow p2 k)
      = pic_units lab m s q @ [(lab ?u, bytes_at m s x (nat k))]" .
  have "pStreamBuffer ?s1 = pStreamBuffer s" "pStreamBufferEnd ?s1 = pStreamBufferEnd s"
      "pDetectBufStart ?s1 = pDetectBufStart s" "pDetectBufEnd ?s1 = pDetectBufEnd s"
    by (simp_all add: upd_detect_def)
  with store s' rep' keep units p2(2) show ?thesis
    by (intro exI [of _ ?s1] exI [of _ ?s'] exI [of _ "grow p2 k"]) simp
qed

section \<open>Pictures begin, and pieces without NAL units are put away\<close>

lemma obtain_pic_some:
  assumes "frame_rep N n W x s held ready (Some q) c es"
  shows "obtain_pic s = Inr (True, s)"
  using frame_rep_pic(4) [OF assms] by (auto simp: obtain_pic_def pictures_def)

lemma obtain_pic_full:
  assumes "frame_rep N n W x s held ready None c es" and "\<not> length (held @ ready) < N"
  shows "\<exists>s'. obtain_pic s = Inr (False, s') \<and> keeps s s' \<and> left_size s' = left_size s \<and>
    frame_rep N n W x s' held ready None c es"
proof -
  let ?s' = "s\<lparr>emptyFramePicSem := sem_wait_20 (emptyFramePicSem s)\<rparr>"
  have pr: "pic_rep N (mFramePicFifo s) held ready" "pCurFramePic (mDetectInfo s) = None"
    using assms(1) by (auto simp: frame_rep_def pictures_def)
  have "requestEmptyFramePic s = Inr None"
    using requestEmptyFramePic_eq [OF pr(1)] assms(2) by simp
  then have "obtain_pic s = Inr (False, ?s')" using pr(2) by (simp add: obtain_pic_def)
  moreover have "frame_rep N n W x ?s' held ready None c es"
    using assms(1) by (simp add: frame_rep_def pictures_def layout_def Let_def)
  ultimately show ?thesis
    by (intro exI [of _ ?s']) (simp add: keeps_def control_def buffer_def code_found_def)
qed

lemma obtain_pic_new:
  assumes "frame_rep N n W x s held ready None c es" and "length (held @ ready) < N"
  shows "\<exists>s' q. obtain_pic s = Inr (True, s') \<and> keeps s s' \<and> left_size s' = left_size s \<and>
    nCurNaluIdx q = 0 \<and> frame_rep N n W x s' held ready (Some q) c es"
proof -
  have pr: "pic_rep N (mFramePicFifo s) held ready" "pCurFramePic (mDetectInfo s) = None"
    using assms(1) by (auto simp: frame_rep_def pictures_def)
  let ?f = "mFramePicFifo s"
  let ?w = "nat (nFPWritePos ?f)"
  let ?s1 = "upd_detect (\<lambda>d. d\<lparr>pCurFramePic := Some ?w\<rparr>) s"
  obtain s2 g where init: "initFramePicInfo ?s1 = upd_cur_pic g s2"
      "s2 = s\<lparr>mDetectInfo := (mDetectInfo s)\<lparr>pCurFramePic := Some ?w,
        nCurFramePtsList := replicate (nat MAX_FRAME_PTS_LIST_NUM) (-1)\<rparr>\<rparr>"
      "\<And>p. nCurNaluIdx (g p) = 0" "\<And>p. nlength (g p) = 0"
      "\<And>p. 0 < nMaxNaluNum p \<Longrightarrow> 0 < nMaxNaluNum (g p)"
    unfolding initFramePicInfo_def upd_detect_def
    by (auto simp: Let_def DEFAULT_NALU_NUM_def)
  let ?q = "g (pFramePics ?f ?w)"
  have m: "0 < nMaxNaluNum ?q" using pr(1) init(5) by (simp add: pic_rep_def)
  let ?h = "?f\<lparr>pFramePics := (pFramePics ?f)(?w := ?q)\<rparr>"
  let ?s' = "s2\<lparr>mFramePicFifo := ?h\<rparr>"
  have "upd_cur_pic g s2 = Inr ?s'" by (simp add: upd_cur_pic_def set_pic_def init(2))
  then have "obtain_pic s = Inr (True, ?s')"
    using requestEmptyFramePic_eq [OF pr(1)] assms(2) pr(2) init(1) by (simp add: obtain_pic_def)
  moreover have "pictures N ?s' held ready (Some ?q)"
    using pic_rep_set [OF pr(1) assms(2) m] assms(2) m
    by (simp add: pictures_def init(2,3))
  moreover have "pic_in (addr_of s) x ?q" by (simp add: pic_in_def init(3,4))
  moreover have "reading_at ?s' x = reading_at s x"
    by (simp add: reading_at_def Let_def init(2))
  moreover have "streams n ?s' c es"
    using assms(1) streams_same_reading [of ?s' s n c es]
    by (simp add: frame_rep_def init(2) same_reading_def)
  ultimately have "obtain_pic s = Inr (True, ?s') \<and> frame_rep N n W x ?s' held ready (Some ?q) c es"
    using assms(1) by (simp add: frame_rep_def layout_def Let_def len_of_def init(2,4))
  then show ?thesis
    by (intro exI [of _ ?s'] exI [of _ ?q])
      (simp add: keeps_def control_def buffer_def code_found_def init(2,3))
qed

lemma dispose_rep:
  assumes rep: "frame_rep N n W x s held ready (Some q) (Some e) es" and "5 \<le> left_size s"
  shows "\<exists>s' ready' p' q'. disposeInvalidStreamData s = Inr s' \<and> keeps s s' \<and> left_size s' = 0 \<and>
    same_nalus q' q \<and> (ready' = ready @ [q'] \<and> p' = None \<or> ready' = ready \<and> p' = Some q') \<and>
    frame_rep N n W (x + left_size s) s' held ready' p' None es"
proof -
  note q = frame_rep_pic [OF rep]
  let ?L = "left_size s"
  have st: "cur_stream s = Inr e" "cur_pic s = Inr q" "fifo_rep n (frameFifo s) [e] es"
      "pCurStream (mDetectInfo s) = Some (ring_at (frameFifo s) 0)"
    using rep cur_stream_eq cur_pic_eq [OF q(4)] by (auto simp: frame_rep_def streams_def)
  have lay: "window s" "pWriteAddr s = addr_of s W" "nValidDataSize s + 64 \<le> nStreamBufferSize s"
      "pics_at (addr_of s) (W - nValidDataSize s) (held @ ready) (x - nlength q)"
      "elems_at (addr_of s) (x + ?L) es W" "pCurStreamDataptr (mDetectInfo s) = addr_of s x"
      "?L \<le> nLength e" "pData e = addr_of s (x + ?L - nLength e)"
      "nLength e + 64 \<le> nStreamBufferSize s"
    using rep by (auto simp: frame_rep_def layout_def Let_def len_of_def reading_at_def)
  have whole: "nLength e = ?L" if "addr_of s x = pData e"
    using addr_of_inj [OF lay(1), of x "x + ?L - nLength e"] that lay(7-9) assms(2) by simp
  define add where "add = fst (disposed_pic e (mDetectInfo s) q)"
  define p1 where "p1 = snd (disposed_pic e (mDetectInfo s) q)"
  have dp: "disposed_pic e (mDetectInfo s) q = (add, p1)"
      "same_nalus p1 q" "nlength p1 = nlength q + ?L"
    using whole lay(6) by (auto simp: add_def p1_def disposed_pic_def same_nalus_def Let_def)
  note p1 = dp(2,3)
  have np1: "0 \<le> nCurNaluIdx p1" "nCurNaluIdx p1 < nMaxNaluNum p1"
    using p1(1) q(1,2) by (simp_all add: same_nalus_def)
  obtain h where h: "upd_cur_pic (\<lambda>_. p1) s = Inr (s\<lparr>mFramePicFifo := h\<rparr>)"
      "pictures N (s\<lparr>mFramePicFifo := h\<rparr>) held ready (Some p1)"
      "nFPFlushPos h = nFPFlushPos (mFramePicFifo s)"
    using upd_cur_pic_pictures [OF q(4), of "\<lambda>_. p1"] np1 by blast
  obtain f where f: "flushStream (s\<lparr>mFramePicFifo := h\<rparr>) (pCurStream (mDetectInfo s)) False
      = Inr (0, s\<lparr>mFramePicFifo := h, frameFifo := f\<rparr>)" "fifo_rep n f [] es"
    using flushStream_keep [of n "s\<lparr>mFramePicFifo := h\<rparr>" e "[]" es] st(3,4) by auto
  let ?s3 = "s\<lparr>mFramePicFifo := h, frameFifo := f, mDetectInfo := (mDetectInfo s)\<lparr>pCurStream := None,
      pCurStreamDataptr := 0, nCurStreamDataSize := 0\<rparr>\<rparr>"
  have pin: "pic_in (addr_of s) (x - nlength q) p1"
    by (rule pic_in_grow [OF q(3) p1(1)]) (use p1(2) assms(2) in simp)
  have pics3: "pictures N ?s3 held ready (Some p1)" using h(2) by (simp add: pictures_def)
  have run: "disposeInvalidStreamData s =
      (if add then and_then (addFramePic ?s3 (pCurFramePic (mDetectInfo ?s3))) (\<lambda>(_, s4).
                Inr (upd_detect (\<lambda>d. d\<lparr>pCurFramePic := None\<rparr>) s4)) else Inr ?s3)"
    using h(1) f(1) by (simp add: disposeInvalidStreamData_def st(1,2) dp(1) Let_def upd_detect_def)
  have keep3: "keeps s ?s3" using h(3) by (simp add: keeps_def control_def buffer_def code_found_def)
  show ?thesis
  proof (cases add)
    case False
    have "frame_rep N n W (x + ?L) ?s3 held ready (Some p1) None es"
      using lay(1-5) f(2) pics3 pin p1(2)
      by (simp add: frame_rep_def streams_def layout_def Let_def len_of_def)
    with run False keep3 p1(1) show ?thesis
      by (intro exI [of _ ?s3] exI [of _ ready] exI [of _ "Some p1"] exI [of _ p1]) simp
  next
    case True
    obtain g where g: "addFramePic ?s3 (pCurFramePic (mDetectInfo ?s3)) = Inr (0, ?s3\<lparr>mFramePicFifo := g\<rparr>)"
        "pic_rep N g held (ready @ [p1])" "nFPFlushPos g = nFPFlushPos (mFramePicFifo s)"
      using addFramePic_eq [OF pics3] h(3) by auto
    let ?s' = "upd_detect (\<lambda>d. d\<lparr>pCurFramePic := None\<rparr>) (?s3\<lparr>mFramePicFifo := g\<rparr>)"
    have "pics_at (addr_of s) (W - nValidDataSize s) ((held @ ready) @ [p1]) (x + ?L)"
      using pics_at_snoc [OF lay(4) pin] p1(2) by (simp add: algebra_simps)
    then have "frame_rep N n W (x + ?L) ?s' held (ready @ [p1]) None None es"
      using lay(1-5) f(2) g(2)
      by (simp add: frame_rep_def streams_def pictures_def layout_def Let_def len_of_def upd_detect_def)
    moreover have "keeps s ?s'" "left_size ?s' = 0"
      using g(3) by (simp_all add: keeps_def control_def buffer_def code_found_def upd_detect_def)
    moreover have "disposeInvalidStreamData s = Inr ?s'" unfolding run using True g(1) by simp
    ultimately show ?thesis using p1(1)
      by (intro exI [of _ ?s'] exI [of _ "ready @ [p1]"] exI [of _ None] exI [of _ p1]) simp
  qed
qed

end
