(* ===== verification/SbmUnits.thy ===== *)
theory SbmUnits
  imports SbmSteps
begin

text \<open>
  The NAL units of a piece of the stream, as a function of its bytes, and the interface of a
  detection: its loop body moves between states of the thread and keeps the sequence of NAL
  units that are in the pictures or still to come. From this the contract of a whole
  detection call follows once, for both codecs and both kinds of stream.
\<close>

section \<open>NAL units of a list of bytes\<close>

text \<open>
  A scanner takes the first NAL unit off the bytes, if there is one: its header byte, its bytes,
  the bytes behind it. Fewer than five bytes are not scanned.
\<close>

type_synonym scanner = "8 word list \<Rightarrow> ((8 word \<times> 8 word list) \<times> 8 word list) option"

fun units_fuel :: "scanner \<Rightarrow> nat \<Rightarrow> 8 word list \<Rightarrow> (8 word \<times> 8 word list) list" where
  "units_fuel scan 0 r = []"
| "units_fuel scan (Suc k) r =
     (if length r < 5 then [] else case scan r of
        None \<Rightarrow> [] | Some (u, r') \<Rightarrow> u # units_fuel scan k r')"

definition units :: "scanner \<Rightarrow> 8 word list \<Rightarrow> (8 word \<times> 8 word list) list" where
  "units scan r = units_fuel scan (length r) r"

definition shrinks :: "scanner \<Rightarrow> bool" where
  "shrinks scan \<longleftrightarrow> (\<forall>r u r'. scan r = Some (u, r') \<longrightarrow> length r' < length r)"

lemma shrinksD: "shrinks scan \<Longrightarrow> scan r = Some (u, r') \<Longrightarrow> length r' < length r"
  unfolding shrinks_def by blast

lemma units_fuel_enough:
  assumes "shrinks scan"
  shows "length r \<le> k \<Longrightarrow> units_fuel scan k r = units_fuel scan (length r) r"
proof (induction k arbitrary: r rule: less_induct)
  case (less k)
  show ?case
  proof (cases k)
    case 0
    with less.prems show ?thesis by simp
  next
    case (Suc j)
    show ?thesis
    proof (cases "length r")
      case 0
      with Suc show ?thesis by simp
    next
      case (Suc i)
      have "units_fuel scan j r' = units_fuel scan i r'" if "scan r = Some (u, r')" for u r'
      proof -
        have "length r' \<le> i" "length r' \<le> j"
          using shrinksD [OF assms that] Suc \<open>k = Suc j\<close> less.prems by simp_all
        with less.IH [of j r'] less.IH [of i r'] less.prems Suc \<open>k = Suc j\<close> show ?thesis by simp
      qed
      then show ?thesis using Suc \<open>k = Suc j\<close> by (auto split: option.splits)
    qed
  qed
qed

lemma units_unfold:
  assumes "shrinks scan"
  shows "units scan r = (if length r < 5 then [] else case scan r of
    None \<Rightarrow> [] | Some (u, r') \<Rightarrow> u # units scan r')"
proof (cases "length r < 5")
  case True
  then show ?thesis by (cases "length r") (simp_all add: units_def)
next
  case False
  then obtain k where k: "length r = Suc k" by (cases "length r") auto
  have "units_fuel scan k r' = units scan r'" if "scan r = Some (u, r')" for u r'
  proof -
    have "length r' \<le> k" using shrinksD [OF assms that] k by simp
    then show ?thesis unfolding units_def by (rule units_fuel_enough [OF assms])
  qed
  moreover have "units scan r = units_fuel scan (Suc k) r" by (simp only: units_def k)
  ultimately show ?thesis using False by (simp split: option.splits)
qed

lemma units_short: "length r < 5 \<Longrightarrow> units scan r = []"
  by (cases "length r") (simp_all add: units_def)

text \<open>Start codes: a NAL unit reaches up to the next start code or to the end of the piece.\<close>

definition unit_size :: "8 word list \<Rightarrow> nat" where
  "unit_size t = (case find_code t of None \<Rightarrow> length t | Some j \<Rightarrow> j - 3)"

definition code_scan :: scanner where
  "code_scan r = (case find_code r of
       None \<Rightarrow> None
     | Some k \<Rightarrow> let t = drop k r; n = unit_size t in Some ((hd t, take n t), drop n t))"

text \<open>Lengths: \<open>k\<close> bytes say how long the NAL unit behind them is.\<close>

definition length_scan :: "nat \<Rightarrow> scanner" where
  "length_scan k r =
     (let n = unat (shift_in 0 (take k r)) in
      if n + k > length r \<or> n = 0 then None
      else Some ((r ! k, take n (drop k r)), drop n (drop k r)))"

lemma shrinks_code_scan: "shrinks code_scan"
  by (auto simp: shrinks_def code_scan_def Let_def split: option.splits dest: find_code_bounds)

lemma shrinks_length_scan: "shrinks (length_scan k)"
  by (auto simp: shrinks_def length_scan_def Let_def split: if_splits)

lemma unit_size_le: "unit_size t \<le> length t"
  by (auto simp: unit_size_def split: option.splits dest: find_code_bounds)

section \<open>Views\<close>

text \<open>
  What the thread works on: the read position, the pictures queued for the decoder, the
  picture under construction, the current piece, the pieces behind it.
\<close>

record view =
  v_pos :: int
  v_ready :: "FramePicInfo list"
  v_pic :: "FramePicInfo option"
  v_cur :: "VideoStreamDataInfo option"
  v_pieces :: "VideoStreamDataInfo list"

definition rep_view :: "nat \<Rightarrow> nat \<Rightarrow> int \<Rightarrow> FramePicInfo list \<Rightarrow> SbmFrame \<Rightarrow> view \<Rightarrow> bool" where
  "rep_view N n W held s v \<longleftrightarrow>
     frame_rep N n W (v_pos v) s held (v_ready v) (v_pic v) (v_cur v) (v_pieces v)"

fun piece_units :: "scanner \<Rightarrow> memory \<Rightarrow> SbmFrame \<Rightarrow> int \<Rightarrow> VideoStreamDataInfo list \<Rightarrow>
    (8 word \<times> 8 word list) list" where
  "piece_units scan m s x [] = []"
| "piece_units scan m s x (e # es) =
     units scan (bytes_at m s x (nat (nLength e))) @ piece_units scan m s (x + nLength e) es"

definition todo :: "scanner \<Rightarrow> memory \<Rightarrow> SbmFrame \<Rightarrow> int \<Rightarrow> VideoStreamDataInfo list \<Rightarrow>
    (8 word \<times> 8 word list) list" where
  "todo scan m s x es = units scan (left_bytes m s x) @ piece_units scan m s (x + left_size s) es"

text \<open>A label for each NAL unit: of its header byte, as the fields of the list element have it.\<close>

definition label_units :: "(8 word \<Rightarrow> 'l) \<Rightarrow> (8 word \<times> 8 word list) list \<Rightarrow> ('l \<times> 8 word list) list" where
  "label_units hdr us = map (\<lambda>(b, r). (hdr b, r)) us"

lemma label_units_simps [simp]:
  "label_units hdr [] = []" "label_units hdr (u # us) = (hdr (fst u), snd u) # label_units hdr us"
  "label_units hdr (us @ vs) = label_units hdr us @ label_units hdr vs"
  "length (label_units hdr us) = length us"
  by (simp_all add: label_units_def split_beta)

definition opt_units :: "(NaluInfo \<Rightarrow> 'l) \<Rightarrow> memory \<Rightarrow> SbmFrame \<Rightarrow> FramePicInfo option \<Rightarrow>
    ('l \<times> 8 word list) list" where
  "opt_units lab m s p = (case p of None \<Rightarrow> [] | Some q \<Rightarrow> pic_units lab m s q)"

definition pics_units :: "(NaluInfo \<Rightarrow> 'l) \<Rightarrow> memory \<Rightarrow> SbmFrame \<Rightarrow> FramePicInfo list \<Rightarrow>
    ('l \<times> 8 word list) list" where
  "pics_units lab m s ps = concat (map (pic_units lab m s) ps)"

text \<open>The NAL units in the picture under construction and those still to be found.\<close>

definition open_units :: "(NaluInfo \<Rightarrow> 'l) \<Rightarrow> (8 word \<Rightarrow> 'l) \<Rightarrow> scanner \<Rightarrow> memory \<Rightarrow> SbmFrame \<Rightarrow> view \<Rightarrow>
    ('l \<times> 8 word list) list" where
  "open_units lab hdr scan m s v =
     opt_units lab m s (v_pic v) @ label_units hdr (todo scan m s (v_pos v) (v_pieces v))"

text \<open>Every byte the thread passes and every picture it closes is progress.\<close>

definition progress :: "int \<Rightarrow> SbmFrame \<Rightarrow> view \<Rightarrow> int" where
  "progress W s v = 2 * (W - v_pos v) + (if code_found s = 1 then 1 else 0)"

definition follows :: "(NaluInfo \<Rightarrow> 'l) \<Rightarrow> (8 word \<Rightarrow> 'l) \<Rightarrow> scanner \<Rightarrow> nat \<Rightarrow> nat \<Rightarrow> int \<Rightarrow>
    FramePicInfo list \<Rightarrow> memory \<Rightarrow> SbmFrame \<Rightarrow> view \<Rightarrow> SbmFrame \<Rightarrow> view \<Rightarrow> bool" where
  "follows lab hdr scan N n W held m s v s' v' \<longleftrightarrow>
     rep_view N n W held s' v' \<and> control s' = control s \<and> buffer s' = buffer s \<and>
     (\<exists>more. v_ready v' = v_ready v @ more \<and> length more \<le> 1 \<and>
        pics_units lab m s' more @ open_units lab hdr scan m s' v' = open_units lab hdr scan m s v)"

text \<open>Nothing is left to do for the thread: all bytes read, no picture to close.\<close>

definition rests :: "int \<Rightarrow> SbmFrame \<Rightarrow> view \<Rightarrow> bool" where
  "rests W s v \<longleftrightarrow> v_pos v = W \<and> (nEosFlag s = 1 \<longrightarrow> code_found s \<noteq> 1)"

lemma pics_units_append [simp]:
  "pics_units lab m s [] = []" "pics_units lab m s (p # ps) = pic_units lab m s p @ pics_units lab m s ps"
  "pics_units lab m s (ps @ qs) = pics_units lab m s ps @ pics_units lab m s qs"
  by (simp_all add: pics_units_def)

lemma piece_units_buffer:
  "buffer s' = buffer s \<Longrightarrow> piece_units scan m s' x es = piece_units scan m s x es"
  by (induction es arbitrary: x) (simp_all add: bytes_at_buffer [of s' s])

lemma todo_buffer:
  "buffer s' = buffer s \<Longrightarrow> left_size s' = left_size s \<Longrightarrow> todo scan m s' x es = todo scan m s x es"
  by (simp add: todo_def piece_units_buffer [of s' s] left_bytes_def bytes_at_buffer [of s' s])

lemma rep_view_end:
  assumes "rep_view N n W held s v"
  shows "v_pos v + left_size s \<le> W" "v_pos v \<le> W"
proof -
  have e: "elems_at (addr_of s) (v_pos v + left_size s) (v_pieces v) W"
    using assms by (simp add: rep_view_def frame_rep_def layout_def Let_def)
  from elems_at_le [OF e] show "v_pos v + left_size s \<le> W" by simp
  with frame_rep_left [OF assms [unfolded rep_view_def]] show "v_pos v \<le> W" by simp
qed

lemma todo_end:
  assumes "rep_view N n W held s v" and "v_pos v = W"
  shows "todo scan m s (v_pos v) (v_pieces v) = []"
proof -
  have e: "elems_at (addr_of s) (v_pos v + left_size s) (v_pieces v) W"
    using assms by (simp add: rep_view_def frame_rep_def layout_def Let_def)
  have l: "left_size s = 0"
    using rep_view_end(1) [OF assms(1)] assms(2) frame_rep_left [OF assms(1) [unfolded rep_view_def]]
    by simp
  with elems_at_le [OF e] assms(2) have "v_pieces v = []" by simp
  with l show ?thesis by (simp add: todo_def left_bytes_def units_short)
qed

end
