(* ===== verification/SbmContract.thy ===== *)
theory SbmContract
  imports SbmUnits
begin

text \<open>
  The contract of a detection: the interface of a loop body (locale \<open>nalu_detector\<close>), what a
  whole detection call does for every body that meets it, and the steps from which the bodies
  of H.264 and H.265 are shown to meet it.
\<close>

section \<open>Step 1: the supply of bytes\<close>

lemma todo_short:
  assumes "left_size s < 5"
  shows "todo scan m s x es = piece_units scan m s (x + left_size s) es"
proof -
  have "length (left_bytes m s x) < 5" using assms by (simp add: left_bytes_def)
  then show ?thesis by (simp add: todo_def units_short)
qed

lemma supply_step_cases:
  assumes rep: "frame_rep N n W x s held ready (Some q) c es" and wrap: "detects_wrap reback"
    and flag: "code_found s = 0 \<or> code_found s = 1"
  obtains
    (go) s' x' q' e es' where "supply_step reback s = Inr (True, s')" "keeps s s'"
      "same_nalus q' q" "frame_rep N n W x' s' held ready (Some q') (Some e) es'"
      "\<forall>m. todo scan m s' x' es' = todo scan m s x es" "x \<le> x'" "5 \<le> left_size s'"
  | (closed) s' q' where "supply_step reback s = Inr (False, s')" "control s' = control s"
      "buffer s' = buffer s" "code_found s' = 0" "code_found s = 1" "same_nalus q' q"
      "frame_rep N n W W s' held (ready @ [q']) None None []" "\<forall>m. todo scan m s x es = []"
      "x \<le> W" "left_size s' = 0"
  | (stopped) s' q' where "supply_step reback s = Inr (False, s')" "keeps s s'" "same_nalus q' q"
      "frame_rep N n W W s' held ready (Some q') None []" "\<forall>m. todo scan m s x es = []"
      "nEosFlag s = 1 \<longrightarrow> code_found s \<noteq> 1" "x \<le> W" "left_size s' = 0"
proof -
  note left = frame_rep_left [OF rep]
  show ?thesis
  proof (cases "left_size s < 5 \<or> pCurStreamDataptr (mDetectInfo s) = 0")
    case False
    then obtain e where "c = Some e" using rep by (cases c) (auto simp: frame_rep_def streams_def)
    with go [of s q x e es] False rep show ?thesis by (simp add: supply_step_def)
  next
    case True
    have short: "left_size s < 5"
    proof (cases c)
      case None
      then show ?thesis using rep by (simp add: frame_rep_def streams_def)
    next
      case (Some e)
      with frame_rep_reading [OF rep [unfolded Some]] addr_of_range(3) [of s x]
      have "pCurStreamDataptr (mDetectInfo s) \<noteq> 0" by (simp add: reading_at_def Let_def)
      with True show ?thesis by simp
    qed
    show ?thesis
    proof (cases es)
      case (Cons e es')
      from supply_next [OF rep [unfolded Cons] wrap] obtain s' where
        s': "supplyStreamData reback s = Inr (0, s')" "keeps s s'" "left_size s' = nLength e"
          "frame_rep N n W (x + left_size s) s' held ready (Some (grow q (left_size s))) (Some e) es'"
        by blast
      have b: "buffer s' = buffer s" using s'(2) by (simp add: keeps_def)
      have "todo scan m s' (x + left_size s) es' = piece_units scan m s (x + left_size s) es" for m
        unfolding Cons todo_def left_bytes_def bytes_at_buffer [OF b] piece_units_buffer [OF b]
        using s'(3) by simp
      then have "\<forall>m. todo scan m s' (x + left_size s) es' = todo scan m s x es"
        by (simp add: todo_short [OF short])
      moreover have "5 \<le> left_size s'"
        using rep s'(3) Cons by (simp add: frame_rep_def layout_def Let_def)
      ultimately show ?thesis
        using go [of s' "grow q (left_size s)" "x + left_size s" e es'] True s' left
        by (simp add: supply_step_def same_nalus_def)
    next
      case Nil
      from supply_empty [OF rep [unfolded Nil], of reback] obtain s1 where
        s1: "supplyStreamData reback s = Inr (-1, s1)" "keeps s s1" "left_size s1 = 0"
          "frame_rep N n W (x + left_size s) s1 held ready (Some (grow q (left_size s))) None []"
        by blast
      have W: "x + left_size s = W" using rep Nil by (simp add: frame_rep_def layout_def Let_def)
      have t: "\<forall>m. todo scan m s x es = []" by (simp add: todo_short [OF short] Nil)
      have sn: "same_nalus (grow q (left_size s)) q" by (simp add: same_nalus_def)
      show ?thesis
      proof (cases "code_found s = 1 \<and> nEosFlag s = 1")
        case False
        then have "supply_step reback s = Inr (False, s1)"
          using True s1(1,2) by (auto simp: supply_step_def keeps_def control_def code_found_def)
        with stopped [of s1 "grow q (left_size s)"] s1 sn t W left False show ?thesis by auto
      next
        case cl: True
        from close_pic_rep [OF s1(4)] obtain s' q' where
          s': "close_pic s1 = Inr s'" "control s' = control s1" "buffer s' = buffer s1"
            "code_found s' = 0" "left_size s' = left_size s1" "same_nalus q' (grow q (left_size s))"
            "frame_rep N n W (x + left_size s) s' held (ready @ [q']) None None []" by blast
        have "supply_step reback s = Inr (False, s')"
          using True cl s1(1,2) s'(1) by (auto simp: supply_step_def keeps_def control_def code_found_def)
        with closed [of s' q'] s' s1 cl sn t W left same_nalus_trans [OF s'(6) sn] show ?thesis
          by (simp add: keeps_def)
      qed
    qed
  qed
qed

section \<open>Taking a NAL unit\<close>

lemma left_bytes_drop:
  assumes "buffer s' = buffer s" and "left_size s' = left_size s - int k" and "int k \<le> left_size s"
  shows "left_bytes m s' (x + int k) = drop k (left_bytes m s x)"
proof -
  have "nat (left_size s - int k) = nat (left_size s) - k" "k \<le> nat (left_size s)"
    using assms(3) by linarith+
  then show ?thesis
    using assms(2) by (simp add: left_bytes_def bytes_at_buffer [OF assms(1)] drop_bytes_at)
qed

text \<open>The prefix of \<open>k\<close> bytes is skipped; then the NAL unit of \<open>j\<close> bytes is stored and skipped.\<close>

lemma skip_prefix:
  assumes rep: "frame_rep N n W x s held ready (Some q) (Some e) es" and k: "int k \<le> left_size s"
  obtains s4 where
    "skipCurStreamDataBytes (pStreamBuffer s) (pStreamBufferEnd s) (int k) s = Inr s4" "keeps s s4"
    "left_size s4 = left_size s - int k"
    "frame_rep N n W (x + int k) s4 held ready (Some (grow q (int k))) (Some e) es"
    "left_bytes m s4 (x + int k) = drop k (left_bytes m s x)"
    "pStreamBuffer s4 = pStreamBuffer s" "pStreamBufferEnd s4 = pStreamBufferEnd s"
proof -
  from skip_rep [OF rep _ k] obtain s4 where s4:
    "skipCurStreamDataBytes (pStreamBuffer s) (pStreamBufferEnd s) (int k) s = Inr s4" "keeps s s4"
    "left_size s4 = left_size s - int k" "pStreamBuffer s4 = pStreamBuffer s"
    "pStreamBufferEnd s4 = pStreamBufferEnd s"
    "frame_rep N n W (x + int k) s4 held ready (Some (grow q (int k))) (Some e) es" by auto
  with left_bytes_drop [OF _ s4(3) k] that show ?thesis by (simp add: keeps_def)
qed

lemma store_unit:
  assumes rep: "frame_rep N n W x s held ready (Some q) (Some e) es" and j: "int j \<le> left_size s"
    and fill: "fills fill (pCurStreamDataptr (mDetectInfo s)) (int j)"
    and flags: "\<And>st p. same_nalus (flags st p) p \<and> nlength (flags st p) = nlength p"
  obtains s5 s6 q' where "store_nalu fill flags s = Inr s5"
    "pStreamBuffer s5 = pStreamBuffer s" "pStreamBufferEnd s5 = pStreamBufferEnd s"
    "pDetectBufStart s5 = pDetectBufStart s" "pDetectBufEnd s5 = pDetectBufEnd s"
    "skipCurStreamDataBytes (pStreamBuffer s) (pStreamBufferEnd s) (int j) s5 = Inr s6" "keeps s s6"
    "left_size s6 = left_size s - int j"
    "pic_units lab m s6 q' = pic_units lab m s q @
       [(lab (fill (pNaluInfoList q (nat (nCurNaluIdx q)))), take j (left_bytes m s x))]"
    "nCurNaluIdx q' = nCurNaluIdx q + 1"
    "frame_rep N n W (x + int j) s6 held ready (Some q') (Some e) es"
    "left_bytes m s6 (x + int j) = drop j (left_bytes m s x)"
proof -
  have "j \<le> nat (left_size s)" using j by linarith
  then have t: "take j (left_bytes m s x) = bytes_at m s x (nat (int j))"
    by (simp add: left_bytes_def take_bytes_at)
  from store_skip_rep [OF rep _ j fill, of flags lab m] flags obtain s5 s6 q' where s6:
    "store_nalu fill flags s = Inr s5"
    "pStreamBuffer s5 = pStreamBuffer s" "pStreamBufferEnd s5 = pStreamBufferEnd s"
    "pDetectBufStart s5 = pDetectBufStart s" "pDetectBufEnd s5 = pDetectBufEnd s"
    "skipCurStreamDataBytes (pStreamBuffer s) (pStreamBufferEnd s) (int j) s5 = Inr s6" "keeps s s6"
    "left_size s6 = left_size s - int j"
    "pic_units lab m s6 q' = pic_units lab m s q @
       [(lab (fill (pNaluInfoList q (nat (nCurNaluIdx q)))), bytes_at m s x (nat (int j)))]"
    "nCurNaluIdx q' = nCurNaluIdx q + 1"
    "frame_rep N n W (x + int j) s6 held ready (Some q') (Some e) es" by auto
  from s6 left_bytes_drop [OF _ s6(8) j] that show ?thesis by (simp add: keeps_def t)
qed

section \<open>The interface of a loop body\<close>

text \<open>
  What holds of the picture under construction besides its layout: the configuration fits the
  body; the flag is 0 or 1; where every NAL unit is a picture of its own (\<open>single\<close>) the picture
  has at most one, and none before the flag is set. Otherwise a picture may collect NAL units,
  but the code gives up beyond \<^verbatim>\<open>MAX_NALU_NUM_IN_FRAME\<close> of them.
\<close>

definition fine :: "(SbmFrameConfig \<Rightarrow> bool) \<Rightarrow> bool \<Rightarrow> SbmFrame \<Rightarrow> FramePicInfo option \<Rightarrow> bool" where
  "fine cfg single s p \<longleftrightarrow> cfg (mConfig s) \<and> (code_found s = 0 \<or> code_found s = 1) \<and>
     (single \<longrightarrow> (\<forall>q. p = Some q \<longrightarrow> nCurNaluIdx q \<le> 1 \<and> (code_found s = 0 \<longrightarrow> nCurNaluIdx q = 0)))"

definition few :: "bool \<Rightarrow> nat \<Rightarrow> bool" where
  "few single k \<longleftrightarrow> single \<or> k \<le> nat MAX_NALU_NUM_IN_FRAME"

definition flow_ok :: "(NaluInfo \<Rightarrow> 'l) \<Rightarrow> (8 word \<Rightarrow> 'l) \<Rightarrow> scanner \<Rightarrow> (SbmFrameConfig \<Rightarrow> bool) \<Rightarrow> bool \<Rightarrow>
    nat \<Rightarrow> nat \<Rightarrow> int \<Rightarrow> FramePicInfo list \<Rightarrow> memory \<Rightarrow> SbmFrame \<Rightarrow> view \<Rightarrow>
    (SbmFrame, SbmFrame) flow \<Rightarrow> bool" where
  "flow_ok lab hdr scan cfg single N n W held m s v fl \<longleftrightarrow> (case fl of
     Go s' \<Rightarrow> \<exists>v'. follows lab hdr scan N n W held m s v s' v' \<and> v_ready v' = v_ready v \<and>
       v_pic v' \<noteq> None \<and> fine cfg single s' (v_pic v') \<and> progress W s' v' < progress W s v
   | Stop s' \<Rightarrow> \<exists>v'. follows lab hdr scan N n W held m s v s' v' \<and> fine cfg single s' (v_pic v') \<and>
       (progress W s' v' < progress W s v \<or> rests W s' v' \<and> v_ready v' = v_ready v \<and>
          progress W s' v' = progress W s v))"

locale nalu_detector =
  fixes body :: "memory \<Rightarrow> SbmFrame \<Rightarrow> (SbmFrame, SbmFrame) flow res"
    and lab :: "NaluInfo \<Rightarrow> 'l" and hdr :: "8 word \<Rightarrow> 'l" and scan :: scanner
    and cfg :: "SbmFrameConfig \<Rightarrow> bool" and single :: bool
  assumes body_ok: "rep_view N n W held s v \<Longrightarrow> v_pic v \<noteq> None \<Longrightarrow> fine cfg single s (v_pic v) \<Longrightarrow>
    few single (length (open_units lab hdr scan m s v)) \<Longrightarrow>
    \<exists>fl. body m s = Inr fl \<and> flow_ok lab hdr scan cfg single N n W held m s v fl"

lemma follows_refl:
  "rep_view N n W held s v \<Longrightarrow> follows lab hdr scan N n W held m s v s v"
  by (auto simp: follows_def intro: exI [of _ "[]"])

lemma follows_trans:
  assumes "follows lab hdr scan N n W held m s v s1 v1" and "v_ready v1 = v_ready v"
    and "follows lab hdr scan N n W held m s1 v1 s2 v2"
  shows "follows lab hdr scan N n W held m s v s2 v2"
  using assms by (auto simp: follows_def)

lemma progress_nonneg: "rep_view N n W held s v \<Longrightarrow> 0 \<le> progress W s v"
  using rep_view_end(2) by (fastforce simp: progress_def)

context nalu_detector
begin

lemma loop_ok:
  assumes "rep_view N n W held s v" and "v_pic v \<noteq> None" and "fine cfg single s (v_pic v)"
    and "few single (length (open_units lab hdr scan m s v))"
  shows "\<exists>s'. run_loop (body m) s = Inr s' \<and> flow_ok lab hdr scan cfg single N n W held m s v (Stop s')"
  using assms
proof (induction "nat (progress W s v)" arbitrary: s v rule: less_induct)
  case less
  from body_ok [OF less.prems] obtain fl where
    fl: "body m s = Inr fl" "flow_ok lab hdr scan cfg single N n W held m s v fl" by blast
  show ?case
  proof (cases fl)
    case (Stop s')
    with fl show ?thesis by (simp add: run_loop_unroll [of "body m" s])
  next
    case (Go s1)
    with fl(2) obtain v1 where v1: "follows lab hdr scan N n W held m s v s1 v1" "v_ready v1 = v_ready v"
      "v_pic v1 \<noteq> None" "fine cfg single s1 (v_pic v1)" "progress W s1 v1 < progress W s v"
      by (auto simp: flow_ok_def)
    from v1(1,2) have rep1: "rep_view N n W held s1 v1"
      and "open_units lab hdr scan m s1 v1 = open_units lab hdr scan m s v"
      by (auto simp: follows_def)
    with less.prems(4) have few1: "few single (length (open_units lab hdr scan m s1 v1))" by simp
    have "nat (progress W s1 v1) < nat (progress W s v)"
      using v1(5) progress_nonneg [OF rep1] by linarith
    from less.hyps [OF this rep1 v1(3,4) few1] obtain s' where
      s': "run_loop (body m) s1 = Inr s'" "flow_ok lab hdr scan cfg single N n W held m s1 v1 (Stop s')"
      by blast
    then have "flow_ok lab hdr scan cfg single N n W held m s v (Stop s')"
      using v1(5) follows_trans [OF v1(1,2)] unfolding flow_ok_def by fastforce
    with fl(1) Go s'(1) show ?thesis by (simp add: run_loop_unroll [of "body m" s])
  qed
qed

text \<open>The contract of a detection call.\<close>

lemma detect_ok:
  assumes rep: "rep_view N n W held s v" and fine: "fine cfg single s (v_pic v)"
    and few: "few single (length (open_units lab hdr scan m s v))"
  shows "\<exists>s' v'. detect body m s = Inr s' \<and> follows lab hdr scan N n W held m s v s' v' \<and>
    fine cfg single s' (v_pic v') \<and>
    (progress W s' v' < progress W s v \<or>
     progress W s' v' = progress W s v \<and> v_ready v' = v_ready v \<and>
       (rests W s' v' \<or> \<not> length (held @ v_ready v) < N))"
proof (cases "v_pic v")
  case (Some q)
  with rep have "obtain_pic s = Inr (True, s)"
    using obtain_pic_some by (fastforce simp: rep_view_def)
  with loop_ok [OF rep _ fine few] Some show ?thesis
    by (fastforce simp: detect_def flow_ok_def)
next
  case None
  note rep' = rep [unfolded rep_view_def None]
  show ?thesis
  proof (cases "length (held @ v_ready v) < N")
    case False
    from obtain_pic_full [OF rep' False] obtain s' where s': "obtain_pic s = Inr (False, s')" "keeps s s'"
      "left_size s' = left_size s" "frame_rep N n W (v_pos v) s' held (v_ready v) None (v_cur v) (v_pieces v)"
      by blast
    have b: "buffer s' = buffer s" using s'(2) by (simp add: keeps_def)
    have "follows lab hdr scan N n W held m s v s' v"
      using s'(2,4) None todo_buffer [OF b s'(3)]
      by (auto simp: follows_def keeps_def rep_view_def open_units_def opt_units_def
          intro: exI [of _ "[]"])
    moreover have "fine cfg single s' (v_pic v)" "progress W s' v = progress W s v"
      using fine s'(2) None by (auto simp: fine_def keeps_def control_def progress_def)
    ultimately show ?thesis using s'(1) False by (auto simp: detect_def)
  next
    case True
    from obtain_pic_new [OF rep' True] obtain s1 q where s1: "obtain_pic s = Inr (True, s1)" "keeps s s1"
      "left_size s1 = left_size s" "nCurNaluIdx q = 0"
      "frame_rep N n W (v_pos v) s1 held (v_ready v) (Some q) (v_cur v) (v_pieces v)" by blast
    let ?v1 = "v\<lparr>v_pic := Some q\<rparr>"
    have b: "buffer s1 = buffer s" using s1(2) by (simp add: keeps_def)
    have open1: "open_units lab hdr scan m s1 ?v1 = open_units lab hdr scan m s v"
      using s1(4) None todo_buffer [OF b s1(3)]
      by (simp add: open_units_def opt_units_def pic_units_def)
    have fol1: "follows lab hdr scan N n W held m s v s1 ?v1"
      using s1(2,5) open1 by (auto simp: follows_def keeps_def rep_view_def intro: exI [of _ "[]"])
    have fine1: "fine cfg single s1 (v_pic ?v1)"
      using fine s1(2,4) None by (auto simp: fine_def keeps_def control_def)
    have prog1: "progress W s1 ?v1 = progress W s v"
      using s1(2) by (simp add: progress_def keeps_def)
    have rep1: "rep_view N n W held s1 ?v1" using s1(5) by (simp add: rep_view_def)
    from loop_ok [OF rep1 _ fine1, of m] few open1 obtain s' where
      s': "run_loop (body m) s1 = Inr s'" "flow_ok lab hdr scan cfg single N n W held m s1 ?v1 (Stop s')"
      by auto
    from s'(2) obtain v' where v': "follows lab hdr scan N n W held m s1 ?v1 s' v'"
      "fine cfg single s' (v_pic v')" "progress W s' v' < progress W s1 ?v1 \<or>
        rests W s' v' \<and> v_ready v' = v_ready ?v1 \<and> progress W s' v' = progress W s1 ?v1"
      by (auto simp: flow_ok_def)
    have "follows lab hdr scan N n W held m s v s' v'"
      by (rule follows_trans [OF fol1 _ v'(1)]) simp
    with v'(2,3) prog1 s1(1) s'(1) show ?thesis by (auto simp: detect_def)
  qed
qed

end

end
