(* ===== verification/SbmDetectors.thy ===== *)
theory SbmDetectors
  imports SbmContract
begin

text \<open>
  The four loop bodies, H.264 and H.265, start codes and lengths, meet the contract of
  theory \<^verbatim>\<open>SbmContract\<close>: each is an instance of the interface.
\<close>

abbreviation mk_view where
  "mk_view x ready p c es \<equiv> \<lparr>v_pos = x, v_ready = ready, v_pic = p, v_cur = c, v_pieces = es\<rparr>"

lemma view_eq: "v = mk_view (v_pos v) (v_ready v) (v_pic v) (v_cur v) (v_pieces v)"
  by simp

lemma flow_ok_from:
  assumes "follows lab hdr scan N n W held m s v s2 v2" and "v_ready v2 = v_ready v"
    and "progress W s2 v2 \<le> progress W s v"
    and "flow_ok lab hdr scan cfg single N n W held m s2 v2 fl"
  shows "flow_ok lab hdr scan cfg single N n W held m s v fl"
proof (cases fl)
  case (Go s')
  with assms(4) obtain v' where "follows lab hdr scan N n W held m s2 v2 s' v'" "v_ready v' = v_ready v2"
    "v_pic v' \<noteq> None" "fine cfg single s' (v_pic v')" "progress W s' v' < progress W s2 v2"
    by (auto simp: flow_ok_def)
  with follows_trans [OF assms(1,2)] assms(2,3) Go show ?thesis
    unfolding flow_ok_def by fastforce
next
  case (Stop s')
  with assms(4) obtain v' where v': "follows lab hdr scan N n W held m s2 v2 s' v'"
    "fine cfg single s' (v_pic v')" "progress W s' v' < progress W s2 v2 \<or>
      rests W s' v' \<and> v_ready v' = v_ready v2 \<and> progress W s' v' = progress W s2 v2"
    by (auto simp: flow_ok_def)
  have "progress W s' v' < progress W s v \<or>
      rests W s' v' \<and> v_ready v' = v_ready v \<and> progress W s' v' = progress W s v"
    using v'(3) assms(2,3) by auto
  with follows_trans [OF assms(1,2) v'(1)] v'(2) Stop show ?thesis
    unfolding flow_ok_def by (auto intro: exI [of _ v'])
qed

section \<open>The ways a round ends\<close>

lemma closed_flow:
  assumes rep: "frame_rep N n W x s held ready (Some q) c es" and fine: "fine cfg single s (Some q)"
    and flag: "code_found s = 1"
  obtains s' where "close_pic s = Inr s'"
    "flow_ok lab hdr scan cfg single N n W held m s (mk_view x ready (Some q) c es) (Stop s')"
proof -
  from close_pic_rep [OF rep] obtain s' q' where s': "close_pic s = Inr s'" "control s' = control s"
    "buffer s' = buffer s" "code_found s' = 0" "left_size s' = left_size s" "same_nalus q' q"
    "frame_rep N n W x s' held (ready @ [q']) None c es" by blast
  have "follows lab hdr scan N n W held m s (mk_view x ready (Some q) c es) s'
      (mk_view x (ready @ [q']) None c es)"
    using s' todo_buffer [OF s'(3,5)] pic_units_same [OF s'(6), of lab m s]
      pic_units_buffer [OF s'(3), of lab m]
    by (auto simp: follows_def rep_view_def open_units_def opt_units_def intro: exI [of _ "[q']"])
  moreover have "fine cfg single s' None"
    using fine s'(2,4) by (simp add: fine_def control_def)
  moreover have "progress W s' (mk_view x (ready @ [q']) None c es) <
      progress W s (mk_view x ready (Some q) c es)"
    using s'(4) flag by (simp add: progress_def)
  ultimately have "flow_ok lab hdr scan cfg single N n W held m s (mk_view x ready (Some q) c es) (Stop s')"
    by (auto simp: flow_ok_def intro: exI [of _ "mk_view x (ready @ [q']) None c es"])
  with s'(1) that show ?thesis by blast
qed

lemma disposed_flow:
  assumes rep: "frame_rep N n W x s held ready (Some q) (Some e) es" and fine: "fine cfg single s (Some q)"
    and left: "5 \<le> left_size s" and none: "scan (left_bytes m s x) = None"
    and shrinks: "shrinks scan"
  obtains s' where "disposeInvalidStreamData s = Inr s'"
    "flow_ok lab hdr scan cfg single N n W held m s (mk_view x ready (Some q) (Some e) es) (Stop s')"
proof -
  from dispose_rep [OF rep left] obtain s' ready' p' q' where s': "disposeInvalidStreamData s = Inr s'"
    "keeps s s'" "left_size s' = 0" "same_nalus q' q"
    "ready' = ready @ [q'] \<and> p' = None \<or> ready' = ready \<and> p' = Some q'"
    "frame_rep N n W (x + left_size s) s' held ready' p' None es" by blast
  let ?v = "mk_view x ready (Some q) (Some e) es" and ?v' = "mk_view (x + left_size s) ready' p' None es"
  have b: "buffer s' = buffer s" using s'(2) by (simp add: keeps_def)
  have "units scan (left_bytes m s x) = []"
    by (subst units_unfold [OF shrinks]) (simp add: none)
  then have "todo scan m s x es = todo scan m s' (x + left_size s) es"
    using s'(3) by (simp add: todo_def left_bytes_def units_short piece_units_buffer [OF b])
  then have "follows lab hdr scan N n W held m s ?v s' ?v'"
    using s'(2,5,6) pic_units_same [OF s'(4), of lab m s] pic_units_buffer [OF b, of lab m]
    by (auto simp: follows_def rep_view_def open_units_def opt_units_def keeps_def
        intro: exI [of _ "[q']"] exI [of _ "[]"])
  moreover have "fine cfg single s' p'"
    using fine s'(2,4,5) by (auto simp: fine_def keeps_def control_def same_nalus_def)
  moreover have "progress W s' ?v' < progress W s ?v"
    using s'(2) left by (simp add: progress_def keeps_def)
  ultimately have "flow_ok lab hdr scan cfg single N n W held m s ?v (Stop s')"
    by (auto simp: flow_ok_def intro: exI [of _ ?v'])
  with s'(1) that show ?thesis by blast
qed

text \<open>
  A NAL unit of \<open>j\<close> bytes behind a prefix of \<open>k\<close> bytes has been stored; \<open>s\<close> is the state before
  the round, whose flag may have been 0.
\<close>

lemma stored_flow:
  assumes rep0: "frame_rep N n W x s held ready (Some q) (Some e) es"
    and scan: "scan (left_bytes m s x) = Some ((b, u), r')" and shrinks: "shrinks scan"
    and left: "5 \<le> left_size s"
    and rep: "frame_rep N n W (x + int k + int j) s' held ready (Some q') (Some e) es"
    and same: "control s' = control s" "buffer s' = buffer s"
    and left': "left_size s' = left_size s - int k - int j" and kj: "0 < k + j"
    and bytes: "left_bytes m s' (x + int k + int j) = r'"
    and pic: "pic_units lab m s' q' = pic_units lab m s q @ [(hdr b, u)]"
    and fine: "fine cfg single s' (Some q')"
  shows "flow_ok lab hdr scan cfg single N n W held m s (mk_view x ready (Some q) (Some e) es) (Go s')"
proof -
  let ?v = "mk_view x ready (Some q) (Some e) es"
  let ?v' = "mk_view (x + int k + int j) ready (Some q') (Some e) es"
  have "length (left_bytes m s x) \<ge> 5" using left by (simp add: left_bytes_def)
  then have "units scan (left_bytes m s x) = (b, u) # units scan r'"
    by (subst units_unfold [OF shrinks]) (simp add: scan)
  then have "todo scan m s x es = (b, u) # todo scan m s' (x + int k + int j) es"
    using bytes left' by (simp add: todo_def piece_units_buffer [OF same(2)])
  then have "follows lab hdr scan N n W held m s ?v s' ?v'"
    using rep same pic
    by (auto simp: follows_def rep_view_def open_units_def opt_units_def intro: exI [of _ "[]"])
  moreover have "1 \<le> int k + int j" using kj by linarith
  then have "progress W s' ?v' < progress W s ?v" by (simp add: progress_def)
  ultimately show ?thesis using fine
    by (auto simp: flow_ok_def intro: exI [of _ ?v'])
qed

section \<open>The common beginning of a round\<close>

lemma few_bound:
  assumes "fine cfg single s (Some q)" and "few single (length (pic_units lab m s q @ us))"
    and "0 \<le> nCurNaluIdx q"
  shows "nCurNaluIdx q \<le> MAX_NALU_NUM_IN_FRAME"
proof (cases single)
  case True
  with assms(1) have "nCurNaluIdx q \<le> 1" by (simp add: fine_def)
  then show ?thesis by (simp add: MAX_NALU_NUM_IN_FRAME_def)
next
  case False
  with assms(2) have "nat (nCurNaluIdx q) \<le> nat MAX_NALU_NUM_IN_FRAME"
    by (simp add: few_def pic_units_def)
  then show ?thesis by (simp add: MAX_NALU_NUM_IN_FRAME_def)
qed

lemma body_rule:
  assumes rep: "rep_view N n W held s v" and pic: "v_pic v \<noteq> None" and fine: "fine cfg single s (v_pic v)"
    and few: "few single (length (open_units lab hdr scan m s v))" and wrap: "detects_wrap reback"
    and cont: "\<And>s2 x q e es. frame_rep N n W x s2 held (v_ready v) (Some q) (Some e) es \<Longrightarrow>
      5 \<le> left_size s2 \<Longrightarrow> fine cfg single s2 (Some q) \<Longrightarrow> nCurNaluIdx q \<le> MAX_NALU_NUM_IN_FRAME \<Longrightarrow>
      control s2 = control s \<Longrightarrow> buffer s2 = buffer s \<Longrightarrow>
      \<exists>fl. k s2 = Inr fl \<and>
        flow_ok lab hdr scan cfg single N n W held m s2 (mk_view x (v_ready v) (Some q) (Some e) es) fl"
  shows "\<exists>fl. detection_round reback k s = Inr fl \<and>
    flow_ok lab hdr scan cfg single N n W held m s v fl"
proof -
  obtain q where q: "v_pic v = Some q" using pic by blast
  note rep' = rep [unfolded rep_view_def q]
  have flag: "code_found s = 0 \<or> code_found s = 1" using fine by (simp add: fine_def)
  show ?thesis
  proof (rule supply_step_cases [OF rep' wrap flag, where scan = scan])
    fix s1 x q1 e es
    assume s1: "supply_step reback s = Inr (True, s1)" "keeps s s1" "same_nalus q1 q"
      "frame_rep N n W x s1 held (v_ready v) (Some q1) (Some e) es"
      "\<forall>m. todo scan m s1 x es = todo scan m s (v_pos v) (v_pieces v)" "v_pos v \<le> x" "5 \<le> left_size s1"
    from begin_pic_rep [OF s1(4)] obtain s2 q2 where s2: "begin_pic s1 = Inr s2" "keeps s1 s2"
      "mDetectInfo s2 = mDetectInfo s1" "same_nalus q2 q1"
      "frame_rep N n W x s2 held (v_ready v) (Some q2) (Some e) es" by blast
    let ?v2 = "mk_view x (v_ready v) (Some q2) (Some e) es"
    have k2: "keeps s s2" and sn2: "same_nalus q2 q"
      using keeps_trans [OF s1(2) s2(2)] same_nalus_trans [OF s2(4) s1(3)] by auto
    have b: "buffer s2 = buffer s" "buffer s2 = buffer s1" using k2 s2(2) by (simp_all add: keeps_def)
    have op: "open_units lab hdr scan m s2 ?v2 = open_units lab hdr scan m s v"
      using s1(5) s2(3) todo_buffer [OF b(2)] pic_units_same [OF sn2, of lab m s] q
        pic_units_buffer [OF b(1), of lab m] by (simp add: open_units_def opt_units_def)
    have fol: "follows lab hdr scan N n W held m s v s2 ?v2"
      using op s2(5) k2 by (auto simp: follows_def rep_view_def keeps_def intro: exI [of _ "[]"])
    have fine2: "fine cfg single s2 (Some q2)"
      using fine k2 sn2 q by (auto simp: fine_def keeps_def control_def same_nalus_def)
    have "few single (length (pic_units lab m s q @
        label_units hdr (todo scan m s (v_pos v) (v_pieces v))))"
      using few q by (simp add: open_units_def opt_units_def)
    from few_bound [OF fine [unfolded q] this frame_rep_pic(1) [OF rep']]
    have "nCurNaluIdx q2 \<le> MAX_NALU_NUM_IN_FRAME" using sn2 by (simp add: same_nalus_def)
    from cont [OF s2(5) _ fine2 this] s1(7) s2(3) k2 obtain fl where
      fl: "k s2 = Inr fl" "flow_ok lab hdr scan cfg single N n W held m s2 ?v2 fl"
      by (auto simp: keeps_def)
    have "progress W s2 ?v2 \<le> progress W s v" using s1(6) k2 by (simp add: progress_def keeps_def)
    with flow_ok_from [OF fol _ this fl(2)] s1(1) s2(1) fl(1) show ?thesis
      by (simp add: detection_round_def)
  next
    fix s' q'
    assume s': "supply_step reback s = Inr (False, s')" "control s' = control s"
      "buffer s' = buffer s" "code_found s' = 0" "code_found s = 1" "same_nalus q' q"
      "frame_rep N n W W s' held (v_ready v @ [q']) None None []"
      "\<forall>m. todo scan m s (v_pos v) (v_pieces v) = []" "v_pos v \<le> W" "left_size s' = 0"
    let ?v' = "mk_view W (v_ready v @ [q']) None None []"
    have "todo scan m s' W [] = []" using s'(10) by (simp add: todo_def left_bytes_def units_short)
    then have "follows lab hdr scan N n W held m s v s' ?v'"
      using s' q pic_units_same [OF s'(6), of lab m s] pic_units_buffer [OF s'(3), of lab m]
      by (auto simp: follows_def rep_view_def open_units_def opt_units_def intro: exI [of _ "[q']"])
    moreover have "fine cfg single s' None" using fine s'(2,4) by (simp add: fine_def control_def)
    moreover have "progress W s' ?v' < progress W s v" using s'(4,5,9) by (simp add: progress_def)
    ultimately show ?thesis using s'(1)
      by (auto simp: detection_round_def flow_ok_def intro: exI [of _ ?v'])
  next
    fix s' q'
    assume s': "supply_step reback s = Inr (False, s')" "keeps s s'" "same_nalus q' q"
      "frame_rep N n W W s' held (v_ready v) (Some q') None []"
      "\<forall>m. todo scan m s (v_pos v) (v_pieces v) = []" "nEosFlag s = 1 \<longrightarrow> code_found s \<noteq> 1"
      "v_pos v \<le> W" "left_size s' = 0"
    let ?v' = "mk_view W (v_ready v) (Some q') None []"
    have b: "buffer s' = buffer s" using s'(2) by (simp add: keeps_def)
    have "todo scan m s' W [] = []" using s'(8) by (simp add: todo_def left_bytes_def units_short)
    then have "follows lab hdr scan N n W held m s v s' ?v'"
      using s' q pic_units_same [OF s'(3), of lab m s] pic_units_buffer [OF b, of lab m]
      by (auto simp: follows_def rep_view_def open_units_def opt_units_def keeps_def
          intro: exI [of _ "[]"])
    moreover have "fine cfg single s' (Some q')"
      using fine s'(2,3) q by (auto simp: fine_def keeps_def control_def same_nalus_def)
    moreover have "progress W s' ?v' < progress W s v \<or>
        rests W s' ?v' \<and> v_ready ?v' = v_ready v \<and> progress W s' ?v' = progress W s v"
      using s'(2,6,7) by (auto simp: progress_def keeps_def rests_def control_def)
    ultimately show ?thesis using s'(1)
      by (auto simp: detection_round_def flow_ok_def intro: exI [of _ ?v'])
  qed
qed

section \<open>A NAL unit is taken\<close>

text \<open>The flag is set and the type noted.\<close>

lemma open_pic_rep:
  assumes "frame_rep N n W x s held ready (Some q) c es"
  shows "\<exists>s' q'. upd_cur_pic (\<lambda>p. p\<lparr>nFrameNaluType := t\<rparr>)
      (upd_detect (\<lambda>d. d\<lparr>bCurFrameStartCodeFound := 1\<rparr>) s) = Inr s' \<and>
    control s' = control s \<and> buffer s' = buffer s \<and> code_found s' = 1 \<and> left_size s' = left_size s \<and>
    pCurStreamDataptr (mDetectInfo s') = pCurStreamDataptr (mDetectInfo s) \<and>
    pStreamBufferEnd s' = pStreamBufferEnd s \<and> same_nalus q' q \<and>
    frame_rep N n W x s' held ready (Some q') c es"
proof -
  let ?s1 = "upd_detect (\<lambda>d. d\<lparr>bCurFrameStartCodeFound := 1\<rparr>) s"
  have rep1: "frame_rep N n W x ?s1 held ready (Some q) c es"
    by (rule frame_rep_detect [OF assms]) (simp_all add: same_reading_def)
  let ?g = "\<lambda>p. p\<lparr>nFrameNaluType := t\<rparr>"
  from upd_pic_rep [OF rep1, of ?g] obtain h where
    "upd_cur_pic ?g ?s1 = Inr (?s1\<lparr>mFramePicFifo := h\<rparr>)"
    "nFPFlushPos h = nFPFlushPos (mFramePicFifo ?s1)"
    "frame_rep N n W x (?s1\<lparr>mFramePicFifo := h\<rparr>) held ready (Some (?g q)) c es"
    by (auto simp: same_nalus_def)
  then show ?thesis
    by (intro exI [of _ "?s1\<lparr>mFramePicFifo := h\<rparr>"] exI [of _ "?g q"])
      (simp add: control_def buffer_def code_found_def upd_detect_def same_nalus_def)
qed

lemma window_limits:
  assumes "frame_rep N n W x s held ready p c es"
  shows "window s" "pDetectBufStart s = pStreamBuffer s" "pDetectBufEnd s = pStreamBufferEnd s"
  using assms by (auto simp: frame_rep_def layout_def Let_def window_def)

text \<open>
  \<open>s\<close> is the state when the NAL unit has been found, \<open>s3\<close> the state when it is known to belong
  to the picture under construction. The prefix of \<open>k\<close> bytes is skipped, the \<open>j\<close> bytes are
  stored and skipped, and the round goes on.
\<close>

lemma store_flow:
  assumes rep: "frame_rep N n W x s held ready (Some q) (Some e) es"
    and rep3: "frame_rep N n W x s3 held ready (Some q3) (Some e) es"
    and s3: "control s3 = control s" "buffer s3 = buffer s" "left_size s3 = left_size s" "same_nalus q3 q"
    and scan: "scan (left_bytes m s x) = Some ((b, take j (drop k (left_bytes m s x))),
        drop j (drop k (left_bytes m s x)))"
    and shrinks: "shrinks scan" and left: "5 \<le> left_size s"
    and kj: "0 < k + j" "int k + int j \<le> left_size s"
    and fill: "\<And>p. fills (fill p) p (int j)" "\<And>p u. lab (fill p u) = hdr b"
    and flags: "\<And>st p. same_nalus (flags st p) p \<and> nlength (flags st p) = nlength p"
    and fine: "\<And>s' q'. control s' = control s \<Longrightarrow> code_found s' = code_found s3 \<Longrightarrow>
      nCurNaluIdx q' = nCurNaluIdx q + 1 \<Longrightarrow> fine cfg single s' (Some q')"
  obtains s4 s5 s6 q4 where
    "skipCurStreamDataBytes (pStreamBuffer s3) (pStreamBufferEnd s3) (int k) s3 = Inr s4"
    "frame_rep N n W (x + int k) s4 held ready (Some q4) (Some e) es"
    "left_bytes m s4 (x + int k) = drop k (left_bytes m s x)" "left_size s4 = left_size s - int k"
    "pStreamBuffer s4 = pStreamBuffer s3" "pStreamBufferEnd s4 = pStreamBufferEnd s3"
    "store_nalu (fill (pCurStreamDataptr (mDetectInfo s4))) flags s4 = Inr s5"
    "pStreamBuffer s5 = pStreamBuffer s3" "pStreamBufferEnd s5 = pStreamBufferEnd s3"
    "pDetectBufStart s5 = pStreamBuffer s3" "pDetectBufEnd s5 = pStreamBufferEnd s3"
    "skipCurStreamDataBytes (pStreamBuffer s3) (pStreamBufferEnd s3) (int j) s5 = Inr s6"
    "flow_ok lab hdr scan cfg single N n W held m s (mk_view x ready (Some q) (Some e) es) (Go s6)"
proof -
  have "int k \<le> left_size s3" using kj(2) s3(3) by simp
  from skip_prefix [OF rep3 this, of m] obtain s4 where s4:
    "skipCurStreamDataBytes (pStreamBuffer s3) (pStreamBufferEnd s3) (int k) s3 = Inr s4" "keeps s3 s4"
    "left_size s4 = left_size s3 - int k"
    "frame_rep N n W (x + int k) s4 held ready (Some (grow q3 (int k))) (Some e) es"
    "left_bytes m s4 (x + int k) = drop k (left_bytes m s3 x)"
    "pStreamBuffer s4 = pStreamBuffer s3" "pStreamBufferEnd s4 = pStreamBufferEnd s3" by blast
  let ?q4 = "grow q3 (int k)"
  have "int j \<le> left_size s4" using kj(2) s3(3) s4(3) by simp
  then obtain s5 s6 q6 where s6:
    "store_nalu (fill (pCurStreamDataptr (mDetectInfo s4))) flags s4 = Inr s5"
    "pStreamBuffer s5 = pStreamBuffer s4" "pStreamBufferEnd s5 = pStreamBufferEnd s4"
    "pDetectBufStart s5 = pDetectBufStart s4" "pDetectBufEnd s5 = pDetectBufEnd s4"
    "skipCurStreamDataBytes (pStreamBuffer s4) (pStreamBufferEnd s4) (int j) s5 = Inr s6" "keeps s4 s6"
    "left_size s6 = left_size s4 - int j"
    "pic_units lab m s6 q6 = pic_units lab m s4 ?q4 @
       [(lab (fill (pCurStreamDataptr (mDetectInfo s4)) (pNaluInfoList ?q4 (nat (nCurNaluIdx ?q4)))),
         take j (left_bytes m s4 (x + int k)))]"
    "nCurNaluIdx q6 = nCurNaluIdx ?q4 + 1"
    "frame_rep N n W (x + int k + int j) s6 held ready (Some q6) (Some e) es"
    "left_bytes m s6 (x + int k + int j) = drop j (left_bytes m s4 (x + int k))"
    by (rule store_unit [OF s4(4) _ fill(1) flags, where lab = lab and m = m])
  have lb: "left_bytes m s3 x = left_bytes m s x"
    using s3(3) by (simp add: left_bytes_def bytes_at_buffer [OF s3(2)])
  have same: "control s6 = control s" "buffer s6 = buffer s" "buffer s4 = buffer s"
      "code_found s6 = code_found s3"
    using s3(1,2) s4(2) s6(7) by (simp_all add: keeps_def)
  have "pic_units lab m s4 ?q4 = pic_units lab m s q"
    using s3(4) pic_units_buffer [OF same(3), of lab m]
      pic_units_same [of ?q4 q lab m s] by (simp add: same_nalus_def)
  then have pic6: "pic_units lab m s6 q6 = pic_units lab m s q @
      [(hdr b, take j (drop k (left_bytes m s x)))]"
    unfolding s6(9) s4(5) lb using fill(2) by simp
  have "nCurNaluIdx q6 = nCurNaluIdx q + 1" using s6(10) s3(4) by (simp add: same_nalus_def)
  note fine6 = fine [OF same(1,4) this]
  have "flow_ok lab hdr scan cfg single N n W held m s (mk_view x ready (Some q) (Some e) es) (Go s6)"
  proof (rule stored_flow [where hdr = hdr and lab = lab and k = k and j = j,
        OF rep scan shrinks left s6(11) same(1,2) _ kj(1) _ pic6 fine6])
    show "left_size s6 = left_size s - int k - int j" using s3(3) s4(3) s6(8) by simp
    show "left_bytes m s6 (x + int k + int j) = drop j (drop k (left_bytes m s x))"
      unfolding s6(12) s4(5) lb ..
  qed
  moreover have "left_bytes m s4 (x + int k) = drop k (left_bytes m s x)" "left_size s4 = left_size s - int k"
    using s4(3,5) s3(3) lb by simp_all
  ultimately show ?thesis
    using that [OF s4(1,4) _ _ s4(6,7) s6(1)] s6(2-6) s4(6,7) window_limits(2,3) [OF s4(4)] by simp
qed

lemma search_found:
  "find_code r = Some k \<Longrightarrow> search_result 0 j (find_code r) = (0, int k)"
  "find_code r = None \<Longrightarrow> fst (search_result 0 j (find_code r)) = -1"
  by (simp_all add: search_result_def)

lemma search_size:
  "(if fst (search_result 0 i (find_code t)) \<noteq> 0 then int (length t)
    else snd (search_result 0 i (find_code t)) - 3) = int (unit_size t)"
  by (auto simp: search_result_def unit_size_def split: option.splits dest: find_code_bounds)

text \<open>The byte behind the prefix.\<close>

lemma header_byte:
  assumes "frame_rep N n W x s held ready p (Some e) es" and "int k < left_size s"
  shows "readByteIdx m s (pCurStreamDataptr (mDetectInfo s) + int k) (pStreamBuffer s)
      (pStreamBufferEnd s) 0 = Inr (hd (drop k (left_bytes m s x)))"
    and "hd (drop k (left_bytes m s x)) = left_bytes m s x ! k"
proof -
  note r = frame_rep_reading [OF assms(1)]
  have "int k \<le> nStreamBufferSize s" "pCurStreamDataptr (mDetectInfo s) = addr_of s x"
    using r(2) assms(2) by (simp_all add: reading_at_def Let_def)
  with readByteIdx_beyond [OF r(1), of "int k" 0 m x]
  have "readByteIdx m s (pCurStreamDataptr (mDetectInfo s) + int k) (pStreamBuffer s)
      (pStreamBufferEnd s) 0 = Inr (m (addr_of s (x + int k)))" by simp
  moreover have "k < nat (left_size s)" using assms(2) by linarith
  then show "hd (drop k (left_bytes m s x)) = left_bytes m s x ! k"
    by (simp add: left_bytes_def hd_drop_conv_nth)
  moreover have "left_bytes m s x ! k = m (addr_of s (x + int k))"
    using \<open>k < nat (left_size s)\<close> by (simp add: left_bytes_def nth_bytes_at)
  ultimately show "readByteIdx m s (pCurStreamDataptr (mDetectInfo s) + int k) (pStreamBuffer s)
      (pStreamBufferEnd s) 0 = Inr (hd (drop k (left_bytes m s x)))" by simp
qed

lemma length_left: "0 \<le> left_size s \<Longrightarrow> int (length (left_bytes m s x)) = left_size s"
  by (simp add: left_bytes_def)

lemma code_scan_some:
  assumes "find_code r = Some k"
  shows "code_scan r = Some ((hd (drop k r), take (unit_size (drop k r)) (drop k r)),
      drop (unit_size (drop k r)) (drop k r))" "0 < k + j" "k < length r"
    "k + unit_size (drop k r) \<le> length r"
  using find_code_bounds [OF assms] unit_size_le [of "drop k r"] assms
  by (auto simp: code_scan_def Let_def)

text \<open>
  What is asked of the decision at the boundary of a picture: it closes the picture, which ends
  the call, or it lets the NAL unit into the picture.
\<close>

definition boundary_ok :: "(NaluInfo \<Rightarrow> 'l) \<Rightarrow> (8 word \<Rightarrow> 'l) \<Rightarrow> scanner \<Rightarrow> (SbmFrameConfig \<Rightarrow> bool) \<Rightarrow> bool \<Rightarrow>
    nat \<Rightarrow> nat \<Rightarrow> int \<Rightarrow> FramePicInfo list \<Rightarrow> memory \<Rightarrow> SbmFrame \<Rightarrow> int \<Rightarrow> FramePicInfo list \<Rightarrow> FramePicInfo \<Rightarrow>
    VideoStreamDataInfo \<Rightarrow> VideoStreamDataInfo list \<Rightarrow> (bool \<times> SbmFrame) res \<Rightarrow> bool" where
  "boundary_ok lab hdr scan cfg single N n W held m s x ready q e es r \<longleftrightarrow>
     (\<exists>s'. r = Inr (False, s') \<and> flow_ok lab hdr scan cfg single N n W held m s
        (mk_view x ready (Some q) (Some e) es) (Stop s')) \<or>
     (\<exists>s3 q3. r = Inr (True, s3) \<and> frame_rep N n W x s3 held ready (Some q3) (Some e) es \<and>
        control s3 = control s \<and> buffer s3 = buffer s \<and> left_size s3 = left_size s \<and>
        pStreamBufferEnd s3 = pStreamBufferEnd s \<and> same_nalus q3 q \<and>
        (\<forall>s' q'. control s' = control s \<longrightarrow> code_found s' = code_found s3 \<longrightarrow>
           nCurNaluIdx q' = nCurNaluIdx q + 1 \<longrightarrow> fine cfg single s' (Some q')))"

definition store_ok :: "(NaluInfo \<Rightarrow> 'l) \<Rightarrow> (8 word \<Rightarrow> 'l) \<Rightarrow>
    (8 word \<Rightarrow> int \<Rightarrow> int \<Rightarrow> NaluInfo \<Rightarrow> NaluInfo) \<Rightarrow>
    (VideoStreamDataInfo \<Rightarrow> FramePicInfo \<Rightarrow> FramePicInfo) \<Rightarrow> bool" where
  "store_ok lab hdr fill flags \<longleftrightarrow>
     (\<forall>b n p. fills (fill b n p) p n \<and> (\<forall>u. lab (fill b n p u) = hdr b)) \<and>
     (\<forall>st p. same_nalus (flags st p) p \<and> nlength (flags st p) = nlength p)"

lemma store_okD:
  assumes "store_ok lab hdr fill flags"
  shows "fills (fill b n p) p n" "lab (fill b n p u) = hdr b"
    "same_nalus (flags st q) q \<and> nlength (flags st q) = nlength q"
  using assms by (auto simp: store_ok_def)

text \<open>A round on a piece with start codes.\<close>

lemma with_code_ok:
  assumes rep: "frame_rep N n W x s held ready (Some q) (Some e) es" and left: "5 \<le> left_size s"
    and fine: "fine cfg single s (Some q)" and max: "nCurNaluIdx q \<le> MAX_NALU_NUM_IN_FRAME"
    and bd: "\<And>k b. int k < left_size s \<Longrightarrow> boundary_ok lab hdr code_scan cfg single N n W held m s x ready
      q e es (boundary (pCurStreamDataptr (mDetectInfo s) + int k) b s)"
    and store: "store_ok lab hdr fill flags" "\<And>b j p. store b j p = store_nalu (fill b j p) flags"
  shows "\<exists>fl. with_code_unit m (pStreamBuffer s) (pStreamBufferEnd s) boundary store s = Inr fl \<and>
    flow_ok lab hdr code_scan cfg single N n W held m s (mk_view x ready (Some q) (Some e) es) fl"
proof -
  note r = frame_rep_reading [OF rep] and sok = store_okD [OF store(1)]
  have cp: "cur_pic s = Inr q" by (rule cur_pic_eq [OF frame_rep_pic(4) [OF rep]])
  let ?L = "left_bytes m s x"
  have lenL: "int (length ?L) = left_size s" using left by (simp add: length_left)
  have se: "searchStartCode m (pStreamBuffer s) (pStreamBufferEnd s) s
      = Inr (search_result 0 (nat (left_size s - 3)) (find_code ?L))"
    by (rule searchStartCode_eq [OF r(1,2)])
  show ?thesis
  proof (cases "find_code ?L")
    case None
    then have "code_scan ?L = None" by (simp add: code_scan_def)
    from disposed_flow [OF rep fine left this shrinks_code_scan] obtain s' where
      "disposeInvalidStreamData s = Inr s'"
      "flow_ok lab hdr code_scan cfg single N n W held m s
        (mk_view x ready (Some q) (Some e) es) (Stop s')" .
    with se cp search_found(2) [OF None] show ?thesis by (simp add: with_code_unit_def split_beta)
  next
    case (Some k)
    note cs = code_scan_some [OF Some]
    have klt: "int k < left_size s" using cs(3) lenL by linarith
    note hb = header_byte(1) [OF rep klt, of m]
    let ?b = "hd (drop k ?L)" and ?t = "drop k ?L"
    let ?j = "unit_size ?t"
    from bd [OF klt, of ?b] show ?thesis unfolding boundary_ok_def
    proof (elim disjE exE conjE)
      fix s'
      assume "boundary (pCurStreamDataptr (mDetectInfo s) + int k) ?b s = Inr (False, s')"
        "flow_ok lab hdr code_scan cfg single N n W held m s
          (mk_view x ready (Some q) (Some e) es) (Stop s')"
      with se cp search_found(1) [OF Some] hb max show ?thesis
        by (simp add: with_code_unit_def split_beta Let_def)
    next
      fix s3 q3
      assume bd3: "boundary (pCurStreamDataptr (mDetectInfo s) + int k) ?b s = Inr (True, s3)"
        and rep3: "frame_rep N n W x s3 held ready (Some q3) (Some e) es"
        and s3: "control s3 = control s" "buffer s3 = buffer s" "left_size s3 = left_size s"
        and lim3: "pStreamBufferEnd s3 = pStreamBufferEnd s" and sn: "same_nalus q3 q"
        and fine3: "\<forall>s' q'. control s' = control s \<longrightarrow> code_found s' = code_found s3 \<longrightarrow>
           nCurNaluIdx q' = nCurNaluIdx q + 1 \<longrightarrow> fine cfg single s' (Some q')"
      have kj: "int k + int ?j \<le> left_size s" using cs(4) lenL by linarith
      have fine6: "\<And>s' q'. control s' = control s \<Longrightarrow> code_found s' = code_found s3 \<Longrightarrow>
           nCurNaluIdx q' = nCurNaluIdx q + 1 \<Longrightarrow> fine cfg single s' (Some q')" using fine3 by blast
      from store_flow [where fill = "fill ?b (int ?j)" and lab = lab and hdr = hdr and flags = flags and
          scan = code_scan and k = k and j = ?j and b = ?b,
          OF rep rep3 s3 sn cs(1) shrinks_code_scan left cs(2) kj sok fine6]
      obtain s4 s5 s6 q4 where st:
        "skipCurStreamDataBytes (pStreamBuffer s3) (pStreamBufferEnd s3) (int k) s3 = Inr s4"
        "frame_rep N n W (x + int k) s4 held ready (Some q4) (Some e) es"
        "left_bytes m s4 (x + int k) = ?t" "left_size s4 = left_size s - int k"
        "pStreamBuffer s4 = pStreamBuffer s3" "pStreamBufferEnd s4 = pStreamBufferEnd s3"
        "store_nalu (fill ?b (int ?j) (pCurStreamDataptr (mDetectInfo s4))) flags s4 = Inr s5"
        "skipCurStreamDataBytes (pStreamBuffer s3) (pStreamBufferEnd s3) (int ?j) s5 = Inr s6"
        "flow_ok lab hdr code_scan cfg single N n W held m s
          (mk_view x ready (Some q) (Some e) es) (Go s6)" .
      have lims: "pStreamBuffer s3 = pStreamBuffer s" "pStreamBufferEnd s3 = pStreamBufferEnd s"
        using s3(2) lim3 by (simp_all add: buffer_def)
      have se4: "searchStartCode m (pStreamBuffer s) (pStreamBufferEnd s) s4
          = Inr (search_result 0 (nat (left_size s4 - 3)) (find_code ?t))"
        using searchStartCode_eq [OF frame_rep_reading(1,2) [OF st(2)], of m] st(3,5,6) lims by simp
      have len4: "left_size s4 = int (length ?t)" using st(4) lenL cs(3) by simp
      note sz = search_size [of "nat (left_size s4 - 3)" ?t, folded len4]
      show ?thesis
        using se cp search_found(1) [OF Some] hb max bd3 se4 sz st(1,7-9) lims store(2)
        by (simp add: with_code_unit_def split_beta Let_def)
    qed
  qed
qed

text \<open>A round on a piece with lengths.\<close>

lemma read_many_upt:
  assumes "\<And>i. i < k \<Longrightarrow> f (int i) = Inr (g i)" and "a \<le> k"
  shows "read_many f (map int [a..<k]) = Inr (map g [a..<k])"
  using assms(2)
proof (induction "k - a" arbitrary: a)
  case 0
  then show ?case by simp
next
  case (Suc d)
  then have "[a..<k] = a # [Suc a..<k]" by (intro upt_conv_Cons) simp
  with Suc.hyps(1) [of "Suc a"] Suc.hyps(2) assms(1) [of a] show ?case by simp
qed

lemma upto_int: "upto 0 (int k - 1) = map int [0..<k]"
  by (induction k) (simp_all add: upto_rec2)

lemma read_prefix:
  assumes "window s" and "int k \<le> nStreamBufferSize s" and "int k \<le> left_size s"
    and "pCurStreamDataptr (mDetectInfo s) = addr_of s x"
  shows "read_many (readByteIdx m s (pCurStreamDataptr (mDetectInfo s)) (pStreamBuffer s)
    (pStreamBufferEnd s)) (upto 0 (int k - 1)) = Inr (take k (left_bytes m s x))"
proof -
  have "k \<le> nat (left_size s)" using assms(3) by linarith
  then have t: "take k (left_bytes m s x) = map (\<lambda>i. m (addr_of s (x + int i))) [0..<k]"
    by (simp add: left_bytes_def take_bytes_at) (simp add: bytes_at_def)
  show ?thesis unfolding upto_int t assms(4)
    by (rule read_many_upt) (use readByteIdx_addr [OF assms(1)] assms(2) in simp_all)
qed

lemma bit_shift_in: "bit (shift_in 0 bs) i \<Longrightarrow> i < 8 * length bs"
proof (induction bs arbitrary: i rule: rev_induct)
  case Nil
  then show ?case by (simp add: shift_in_def)
next
  case (snoc b bs)
  have "shift_in 0 (bs @ [b]) = push_bit 8 (shift_in 0 bs) OR ucast b" by (simp add: shift_in_def)
  with snoc.prems have "8 \<le> i \<and> bit (shift_in 0 bs) (i - 8) \<or> bit b i"
    by (auto simp: bit_simps)
  then show ?case
  proof
    assume "8 \<le> i \<and> bit (shift_in 0 bs) (i - 8)"
    with snoc.IH [of "i - 8"] show ?thesis by simp
  next
    assume "bit b i"
    then have "i < 8" using bit_imp_le_length [of b i] by simp
    then show ?thesis by simp
  qed
qed

lemma shift_in_small: "length bs \<le> 3 \<Longrightarrow> unat (shift_in 0 bs) < 2 ^ 24"
proof -
  assume "length bs \<le> 3"
  then have "take_bit 24 (shift_in 0 bs) = shift_in 0 bs"
    using bit_shift_in [of bs] by (intro bit_eqI) (fastforce simp: bit_simps)
  then have "unat (shift_in 0 bs) = take_bit 24 (unat (shift_in 0 bs))"
    by (metis unsigned_take_bit_eq)
  then show ?thesis by (metis take_bit_nat_less_exp)
qed

definition fits_ok :: "nat \<Rightarrow> (32 word \<Rightarrow> int \<Rightarrow> bool) \<Rightarrow> bool" where
  "fits_ok k fits \<longleftrightarrow> (\<forall>bs rest. length bs = k \<longrightarrow> 0 \<le> rest \<longrightarrow> rest < 2 ^ 31 \<longrightarrow>
     (fits (shift_in 0 bs) rest \<longleftrightarrow> int (unat (shift_in 0 bs)) \<le> rest))"

lemma avc_fits_ok: "k \<le> 3 \<Longrightarrow> fits_ok k avc_fits"
proof -
  have "sint (shift_in 0 bs) = int (unat (shift_in 0 bs))" if "length bs \<le> 3" for bs
    using shift_in_small [OF that] by (intro sint_small) simp
  then show "k \<le> 3 \<Longrightarrow> fits_ok k avc_fits" by (auto simp: fits_ok_def avc_fits_def)
qed

lemma hevc_fits_ok: "fits_ok k hevc_fits"
proof -
  have "(w \<le> word_of_int rest) = (int (unat w) \<le> rest)" if "0 \<le> rest" "rest < 2 ^ 31"
    for w :: "32 word" and rest
  proof -
    have "uint (word_of_int rest :: 32 word) = rest"
      using that by (simp add: uint_word_of_int_eq take_bit_int_eq_self)
    then show ?thesis by (simp add: word_le_def)
  qed
  then show ?thesis by (auto simp: fits_ok_def hevc_fits_def not_less)
qed

lemma length_scan_some:
  assumes "length_scan k r = Some (u, r')" and "n = unat (shift_in 0 (take k r))"
  shows "u = (r ! k, take n (drop k r))" "r' = drop n (drop k r)" "n + k \<le> length r" "0 < n"
  using assms by (auto simp: length_scan_def Let_def split: if_splits)

lemma with_length_ok:
  assumes rep: "frame_rep N n W x s held ready (Some q) (Some e) es" and left: "5 \<le> left_size s"
    and fine: "fine cfg single s (Some q)" and max: "nCurNaluIdx q \<le> MAX_NALU_NUM_IN_FRAME"
    and k: "0 < k" "k \<le> 4" and fits: "fits_ok k fits"
    and bd: "\<And>b. boundary_ok lab hdr (length_scan k) cfg single N n W held m s x ready
      q e es (boundary (pCurStreamDataptr (mDetectInfo s) + int k) b s)"
    and store: "store_ok lab hdr fill flags" "\<And>b j p. store b j p = store_nalu (fill b j p) flags"
  shows "\<exists>fl. with_length_unit m (pStreamBuffer s) (pStreamBufferEnd s) (int k) fits boundary store s
      = Inr fl \<and>
    flow_ok lab hdr (length_scan k) cfg single N n W held m s (mk_view x ready (Some q) (Some e) es) fl"
proof -
  note r = frame_rep_reading [OF rep] and sok = store_okD [OF store(1)]
  have cp: "cur_pic s = Inr q" by (rule cur_pic_eq [OF frame_rep_pic(4) [OF rep]])
  let ?L = "left_bytes m s x"
  let ?w = "shift_in 0 (take k ?L)"
  let ?j = "unat ?w"
  have lenL: "int (length ?L) = left_size s" using left by (simp add: length_left)
  have kL: "k < length ?L" "int k < left_size s" using k left lenL by linarith+
  have B: "left_size s \<le> nStreamBufferSize s" "nStreamBufferSize s < 2 ^ 31"
    "pCurStreamDataptr (mDetectInfo s) = addr_of s x"
    using r(1,2) by (simp_all add: reading_at_def window_def Let_def)
  have "int k \<le> nStreamBufferSize s" "int k \<le> left_size s" using kL(2) B(1) by linarith+
  note rd = read_prefix [OF r(1) this B(3), of m]
  have rest: "0 \<le> left_size s - int k" "left_size s - int k < 2 ^ 31" using kL(2) B(1,2) by linarith+
  have fits': "fits ?w (left_size s - int k) \<longleftrightarrow> int ?j \<le> left_size s - int k"
    using fits kL(1) rest unfolding fits_ok_def by auto
  have j0: "?j = 0 \<longleftrightarrow> ?w = 0" by (rule unsigned_eq_0_iff)
  show ?thesis
  proof (cases "int ?j \<le> left_size s - int k \<and> ?w \<noteq> 0")
    case False
    then have "?j + k > length ?L \<or> ?j = 0" using j0 lenL kL(1) by linarith
    then have "length_scan k ?L = None" unfolding length_scan_def Let_def by (rule if_P)
    from disposed_flow [OF rep fine left this shrinks_length_scan] obtain s' where
      "disposeInvalidStreamData s = Inr s'"
      "flow_ok lab hdr (length_scan k) cfg single N n W held m s
        (mk_view x ready (Some q) (Some e) es) (Stop s')" .
    with rd cp False fits' show ?thesis by (auto simp: with_length_unit_def Let_def)
  next
    case True
    have kj: "int k + int ?j \<le> left_size s" using True by linarith
    have "?j \<noteq> 0" using True j0 by blast
    moreover have "?j + k \<le> length ?L" using kj lenL by linarith
    ultimately have sc: "length_scan k ?L = Some ((?L ! k, take ?j (drop k ?L)), drop ?j (drop k ?L))"
      by (simp add: length_scan_def Let_def)
    have "int ?j < 2 ^ 31" using kj B(1,2) by linarith
    then have "?j < 2 ^ 31" by (metis of_nat_less_numeral_power_cancel_iff)
    then have sj: "sint ?w = int ?j" by (rule sint_small)
    note hb = header_byte [OF rep kL(2), of m]
    let ?b = "?L ! k"
    have go: "fits ?w (left_size s - int k)" "?w \<noteq> 0" "\<not> nCurNaluIdx q > MAX_NALU_NUM_IN_FRAME"
      using True fits' max by simp_all
    from bd [of ?b] show ?thesis unfolding boundary_ok_def
    proof (elim disjE exE conjE)
      fix s'
      assume "boundary (pCurStreamDataptr (mDetectInfo s) + int k) ?b s = Inr (False, s')"
        "flow_ok lab hdr (length_scan k) cfg single N n W held m s
          (mk_view x ready (Some q) (Some e) es) (Stop s')"
      with rd cp hb go show ?thesis by (simp add: with_length_unit_def Let_def)
    next
      fix s3 q3
      assume bd3: "boundary (pCurStreamDataptr (mDetectInfo s) + int k) ?b s = Inr (True, s3)"
        and rep3: "frame_rep N n W x s3 held ready (Some q3) (Some e) es"
        and s3: "control s3 = control s" "buffer s3 = buffer s" "left_size s3 = left_size s"
        and lim3: "pStreamBufferEnd s3 = pStreamBufferEnd s" and sn: "same_nalus q3 q"
        and fine3: "\<forall>s' q'. control s' = control s \<longrightarrow> code_found s' = code_found s3 \<longrightarrow>
           nCurNaluIdx q' = nCurNaluIdx q + 1 \<longrightarrow> fine cfg single s' (Some q')"
      have fine6: "\<And>s' q'. control s' = control s \<Longrightarrow> code_found s' = code_found s3 \<Longrightarrow>
           nCurNaluIdx q' = nCurNaluIdx q + 1 \<Longrightarrow> fine cfg single s' (Some q')" using fine3 by blast
      have k0: "0 < k + ?j" using k(1) by simp
      from store_flow [where fill = "fill ?b (int ?j)" and lab = lab and hdr = hdr and flags = flags and
          scan = "length_scan k" and k = k and j = ?j and b = ?b,
          OF rep rep3 s3 sn sc shrinks_length_scan left k0 kj sok fine6]
      obtain s4 s5 s6 q4 where st:
        "skipCurStreamDataBytes (pStreamBuffer s3) (pStreamBufferEnd s3) (int k) s3 = Inr s4"
        "store_nalu (fill ?b (int ?j) (pCurStreamDataptr (mDetectInfo s4))) flags s4 = Inr s5"
        "skipCurStreamDataBytes (pStreamBuffer s3) (pStreamBufferEnd s3) (int ?j) s5 = Inr s6"
        "flow_ok lab hdr (length_scan k) cfg single N n W held m s
          (mk_view x ready (Some q) (Some e) es) (Go s6)" .
      have lims: "pStreamBuffer s3 = pStreamBuffer s" "pStreamBufferEnd s3 = pStreamBufferEnd s"
        using s3(2) lim3 by (simp_all add: buffer_def)
      show ?thesis
        using rd cp hb go bd3 st lims store(2) sj by (simp add: with_length_unit_def Let_def)
    qed
  qed
qed

section \<open>H.264\<close>

definition avc_label :: "NaluInfo \<Rightarrow> int \<times> int" where
  "avc_label u = (nType u, nNalRefIdc u)"

definition avc_header :: "8 word \<Rightarrow> int \<times> int" where
  "avc_header b = (avc_nalu_type b, avc_ref_idc b)"

lemma avc_store_ok: "store_ok avc_label avc_header avc_fill avc_flags"
  by (simp add: store_ok_def fills_def avc_fill_def avc_flags_def avc_label_def avc_header_def
      same_nalus_def)

lemma avc_boundary_ok:
  assumes rep: "frame_rep N n W x s held ready (Some q) (Some e) es" and fine: "fine cfg True s (Some q)"
  shows "boundary_ok lab hdr scan cfg True N n W held m s x ready q e es (avc_boundary p b s)"
proof (cases "code_found s = 0")
  case False
  then have f1: "code_found s = 1" using fine by (simp add: fine_def)
  from closed_flow [OF rep fine f1, of lab hdr scan] obtain s' where "close_pic s = Inr s'"
    "flow_ok lab hdr scan cfg True N n W held m s (mk_view x ready (Some q) (Some e) es) (Stop s')" .
  with f1 show ?thesis by (simp add: avc_boundary_def boundary_ok_def code_found_def)
next
  case True
  from open_pic_rep [OF rep, of "avc_nalu_type b"] obtain s3 q3 where s3:
    "upd_cur_pic (\<lambda>p. p\<lparr>nFrameNaluType := avc_nalu_type b\<rparr>)
      (upd_detect (\<lambda>d. d\<lparr>bCurFrameStartCodeFound := 1\<rparr>) s) = Inr s3"
    "control s3 = control s" "buffer s3 = buffer s" "code_found s3 = 1" "left_size s3 = left_size s"
    "pStreamBufferEnd s3 = pStreamBufferEnd s" "same_nalus q3 q"
    "frame_rep N n W x s3 held ready (Some q3) (Some e) es" by blast
  have "avc_boundary p b s = Inr (True, s3)"
    using s3(1) True by (simp add: avc_boundary_def code_found_def)
  moreover have "nCurNaluIdx q = 0" using fine True by (simp add: fine_def)
  then have "\<forall>s' q'. control s' = control s \<longrightarrow> code_found s' = code_found s3 \<longrightarrow>
      nCurNaluIdx q' = nCurNaluIdx q + 1 \<longrightarrow> fine cfg True s' (Some q')"
    using fine s3(4) by (simp add: fine_def control_def)
  ultimately show ?thesis unfolding boundary_ok_def
    using s3(2,3,5-8) by (intro disjI2 exI [of _ s3] exI [of _ q3]) simp
qed

interpretation avc_codes: nalu_detector avc_with_body avc_label avc_header code_scan "\<lambda>_. True" True
proof
  fix N n W held s v m
  assume rep: "rep_view N n W held s v" and pic: "v_pic v \<noteq> None"
    and fine: "fine (\<lambda>_. True) True s (v_pic v)"
    and few: "few True (length (open_units avc_label avc_header code_scan m s v))"
  show "\<exists>fl. avc_with_body m s = Inr fl \<and>
      flow_ok avc_label avc_header code_scan (\<lambda>_. True) True N n W held m s v fl"
    unfolding avc_with_body_def
  proof (rule body_rule [OF rep pic fine few avc_detects_wrap])
    fix s2 x q e es
    assume r: "frame_rep N n W x s2 held (v_ready v) (Some q) (Some e) es" and l: "5 \<le> left_size s2"
      and f: "fine (\<lambda>_. True) True s2 (Some q)" and x: "nCurNaluIdx q \<le> MAX_NALU_NUM_IN_FRAME"
      and same: "buffer s2 = buffer s"
    have "pDetectBufStart s = pStreamBuffer s2" "pDetectBufEnd s = pStreamBufferEnd s2"
      using window_limits [OF r] window_limits [OF rep [unfolded rep_view_def]] same
      by (simp_all add: window_def buffer_def)
    then show "\<exists>fl. with_code_unit m (pDetectBufStart s) (pDetectBufEnd s) avc_boundary avc_storeNaluInfo s2
        = Inr fl \<and> flow_ok avc_label avc_header code_scan (\<lambda>_. True) True N n W held m s2
          (mk_view x (v_ready v) (Some q) (Some e) es) fl"
      using with_code_ok [where boundary = avc_boundary and store = avc_storeNaluInfo and m = m,
          OF r l f x avc_boundary_ok [OF r f] avc_store_ok]
      by (simp add: avc_storeNaluInfo_def)
  qed
qed


lemma avc_length_detector:
  assumes k: "0 < k" "k \<le> 3"
  shows "nalu_detector avc_without_body avc_label avc_header (length_scan k)
    (\<lambda>c. nNaluLength c = int k) True"
proof
  fix N n W held s v m
  let ?cfg = "\<lambda>c. nNaluLength c = int k"
  assume rep: "rep_view N n W held s v" and pic: "v_pic v \<noteq> None"
    and fine: "fine ?cfg True s (v_pic v)"
    and few: "few True (length (open_units avc_label avc_header (length_scan k) m s v))"
  show "\<exists>fl. avc_without_body m s = Inr fl \<and>
      flow_ok avc_label avc_header (length_scan k) ?cfg True N n W held m s v fl"
    unfolding avc_without_body_def
  proof (rule body_rule [OF rep pic fine few avc_detects_wrap])
    fix s2 x q e es
    assume r: "frame_rep N n W x s2 held (v_ready v) (Some q) (Some e) es" and l: "5 \<le> left_size s2"
      and f: "fine ?cfg True s2 (Some q)" and x: "nCurNaluIdx q \<le> MAX_NALU_NUM_IN_FRAME"
      and same: "buffer s2 = buffer s"
    have b: "pDetectBufStart s = pStreamBuffer s2" "pDetectBufEnd s = pStreamBufferEnd s2"
      using window_limits [OF r] window_limits [OF rep [unfolded rep_view_def]] same
      by (simp_all add: window_def buffer_def)
    have c: "nNaluLength (mConfig s2) = int k" using f by (simp add: fine_def)
    have k4: "k \<le> 4" using k(2) by simp
    from with_length_ok [where boundary = avc_boundary and store = avc_storeNaluInfo and m = m,
          OF r l f x k(1) k4 avc_fits_ok [OF k(2)] avc_boundary_ok [OF r f] avc_store_ok]
    show "\<exists>fl. (let k = nNaluLength (mConfig s2) in if k > 6 then Inl OutOfBounds
         else with_length_unit m (pDetectBufStart s) (pDetectBufEnd s) k avc_fits avc_boundary
            avc_storeNaluInfo s2) = Inr fl \<and>
        flow_ok avc_label avc_header (length_scan k) ?cfg True N n W held m s2
          (mk_view x (v_ready v) (Some q) (Some e) es) fl"
      using k(2) by (simp add: avc_storeNaluInfo_def b c Let_def)
  qed
qed

interpretation avc_length1: nalu_detector avc_without_body avc_label avc_header "length_scan 1"
  "\<lambda>c. nNaluLength c = int 1" True
  by (rule avc_length_detector) simp_all

interpretation avc_length2: nalu_detector avc_without_body avc_label avc_header "length_scan 2"
  "\<lambda>c. nNaluLength c = int 2" True
  by (rule avc_length_detector) simp_all

interpretation avc_length3: nalu_detector avc_without_body avc_label avc_header "length_scan 3"
  "\<lambda>c. nNaluLength c = int 3" True
  by (rule avc_length_detector) simp_all

section \<open>H.265\<close>

lemma hevc_store_ok: "store_ok nType hevc_nalu_type hevc_fill (\<lambda>st p. p)"
  by (simp add: store_ok_def fills_def hevc_fill_def)

lemma hevc_opens:
  assumes rep: "frame_rep N n W x s held ready (Some q) (Some e) es" and fine: "fine cfg False s (Some q)"
    and flag: "code_found s = 0"
  shows "\<exists>s3. upd_cur_pic (\<lambda>p. p\<lparr>nFrameNaluType := t\<rparr>)
      (upd_detect (\<lambda>d. d\<lparr>bCurFrameStartCodeFound := 1\<rparr>) s) = Inr s3 \<and>
    boundary_ok lab hdr scan cfg False N n W held m s x ready q e es (Inr (True, s3))"
proof -
  from open_pic_rep [OF rep, of t] obtain s3 q3 where s3:
    "upd_cur_pic (\<lambda>p. p\<lparr>nFrameNaluType := t\<rparr>)
      (upd_detect (\<lambda>d. d\<lparr>bCurFrameStartCodeFound := 1\<rparr>) s) = Inr s3"
    "control s3 = control s" "buffer s3 = buffer s" "code_found s3 = 1" "left_size s3 = left_size s"
    "pStreamBufferEnd s3 = pStreamBufferEnd s" "same_nalus q3 q"
    "frame_rep N n W x s3 held ready (Some q3) (Some e) es" by blast
  have "\<forall>s' q'. control s' = control s \<longrightarrow> code_found s' = code_found s3 \<longrightarrow>
      nCurNaluIdx q' = nCurNaluIdx q + 1 \<longrightarrow> fine cfg False s' (Some q')"
    using fine s3(4) by (simp add: fine_def control_def)
  then have "boundary_ok lab hdr scan cfg False N n W held m s x ready q e es (Inr (True, s3))"
    unfolding boundary_ok_def using s3(2,3,5-8)
    by (intro disjI2 exI [of _ s3] exI [of _ q3]) simp
  with s3(1) show ?thesis by blast
qed

lemma hevc_stays:
  assumes "frame_rep N n W x s held ready (Some q) (Some e) es" and "fine cfg False s (Some q)"
  shows "boundary_ok lab hdr scan cfg False N n W held m s x ready q e es (Inr (True, s))"
  unfolding boundary_ok_def using assms
  by (intro disjI2 exI [of _ s] exI [of _ q]) (simp add: fine_def control_def)

lemma hevc_closes:
  assumes rep: "frame_rep N n W x s held ready (Some q) (Some e) es" and fine: "fine cfg False s (Some q)"
    and flag: "code_found s = 1"
  shows "\<exists>s'. close_pic s = Inr s' \<and>
    boundary_ok lab hdr scan cfg False N n W held m s x ready q e es (Inr (False, s'))"
  using closed_flow [OF rep fine flag, of lab hdr scan m] unfolding boundary_ok_def by metis

lemma hevc_boundary_ok:
  assumes rep: "frame_rep N n W x s held ready (Some q) (Some e) es" and fine: "fine cfg False s (Some q)"
    and k: "int k < left_size s"
  shows "boundary_ok lab hdr scan cfg False N n W held m s x ready q e es
    (hevc_boundary m (pCurStreamDataptr (mDetectInfo s) + int k) b s)"
proof -
  note r = frame_rep_reading [OF rep]
  have "nLength e + 64 \<le> nStreamBufferSize s" using rep by (simp add: frame_rep_def layout_def Let_def)
  then have k2: "int k + 2 \<le> nStreamBufferSize s" using k r(3) by linarith
  have "pCurStreamDataptr (mDetectInfo s) = addr_of s x" using r(2) by (simp add: reading_at_def Let_def)
  with readByteIdx_beyond [OF r(1) _ _ k2, of m x] obtain b2 where
    b2: "readByteIdx m s (pCurStreamDataptr (mDetectInfo s) + int k) (pStreamBuffer s)
      (pStreamBufferEnd s) 2 = Inr b2" by simp
  have flag: "code_found s = 0 \<or> code_found s = 1" using fine by (simp add: fine_def)
  from hevc_opens [OF rep fine, where lab = lab and hdr = hdr and scan = scan and m = m and
      t = "hevc_nalu_type b"] hevc_closes [OF rep fine, where lab = lab and hdr = hdr and scan = scan and m = m]
    hevc_stays [OF rep fine, where lab = lab and hdr = hdr and scan = scan and m = m] flag
  show ?thesis
    by (auto simp: hevc_boundary_def b2 code_found_def Let_def)
qed

interpretation hevc_codes: nalu_detector hevc_with_body nType hevc_nalu_type code_scan "\<lambda>_. True" False
proof
  fix N n W held s v m
  assume rep: "rep_view N n W held s v" and pic: "v_pic v \<noteq> None"
    and fine: "fine (\<lambda>_. True) False s (v_pic v)"
    and few: "few False (length (open_units nType hevc_nalu_type code_scan m s v))"
  show "\<exists>fl. hevc_with_body m s = Inr fl \<and>
      flow_ok nType hevc_nalu_type code_scan (\<lambda>_. True) False N n W held m s v fl"
    unfolding hevc_with_body_def
  proof (rule body_rule [OF rep pic fine few hevc_detects_wrap])
    fix s2 x q e es
    assume r: "frame_rep N n W x s2 held (v_ready v) (Some q) (Some e) es" and l: "5 \<le> left_size s2"
      and f: "fine (\<lambda>_. True) False s2 (Some q)" and x: "nCurNaluIdx q \<le> MAX_NALU_NUM_IN_FRAME"
      and same: "buffer s2 = buffer s"
    have "pStreamBuffer s = pStreamBuffer s2" "pStreamBufferEnd s = pStreamBufferEnd s2"
      using window_limits [OF r] window_limits [OF rep [unfolded rep_view_def]] same
      by (simp_all add: window_def buffer_def)
    then show "\<exists>fl. with_code_unit m (pStreamBuffer s) (pStreamBufferEnd s) (hevc_boundary m)
          hevc_storeNaluInfo s2 = Inr fl \<and>
        flow_ok nType hevc_nalu_type code_scan (\<lambda>_. True) False N n W held m s2
          (mk_view x (v_ready v) (Some q) (Some e) es) fl"
      using with_code_ok [where boundary = "hevc_boundary m" and store = hevc_storeNaluInfo and m = m,
          OF r l f x hevc_boundary_ok [OF r f] hevc_store_ok]
      by (simp add: hevc_storeNaluInfo_def)
  qed
qed

interpretation hevc_lengths: nalu_detector hevc_without_body nType hevc_nalu_type "length_scan 4"
  "\<lambda>_. True" False
proof
  fix N n W held s v m
  assume rep: "rep_view N n W held s v" and pic: "v_pic v \<noteq> None"
    and fine: "fine (\<lambda>_. True) False s (v_pic v)"
    and few: "few False (length (open_units nType hevc_nalu_type (length_scan 4) m s v))"
  show "\<exists>fl. hevc_without_body m s = Inr fl \<and>
      flow_ok nType hevc_nalu_type (length_scan 4) (\<lambda>_. True) False N n W held m s v fl"
    unfolding hevc_without_body_def
  proof (rule body_rule [OF rep pic fine few hevc_detects_wrap])
    fix s2 x q e es
    assume r: "frame_rep N n W x s2 held (v_ready v) (Some q) (Some e) es" and l: "5 \<le> left_size s2"
      and f: "fine (\<lambda>_. True) False s2 (Some q)" and x: "nCurNaluIdx q \<le> MAX_NALU_NUM_IN_FRAME"
      and same: "buffer s2 = buffer s"
    have b: "pStreamBuffer s = pStreamBuffer s2" "pStreamBufferEnd s = pStreamBufferEnd s2"
      using window_limits [OF r] window_limits [OF rep [unfolded rep_view_def]] same
      by (simp_all add: window_def buffer_def)
    have k: "int 4 < left_size s2" using l by simp
    from with_length_ok [where boundary = "hevc_boundary m" and store = hevc_storeNaluInfo and m = m
          and k = 4, OF r l f x _ _ hevc_fits_ok hevc_boundary_ok [OF r f k] hevc_store_ok]
    show "\<exists>fl. with_length_unit m (pStreamBuffer s) (pStreamBufferEnd s) 4 hevc_fits (hevc_boundary m)
          hevc_storeNaluInfo s2 = Inr fl \<and>
        flow_ok nType hevc_nalu_type (length_scan 4) (\<lambda>_. True) False N n W held m s2
          (mk_view x (v_ready v) (Some q) (Some e) es) fl"
      by (simp add: hevc_storeNaluInfo_def b)
  qed
qed

end
