(* ===== verification/SbmThread.thy ===== *)
theory SbmThread
  imports SbmDetectors
begin

text \<open>
  The thread of the frame-based stream manager (\<^verbatim>\<open>ProcessThread\<close> of
  \<^verbatim>\<open>vdecoder/sbm/sbmFrameBase.c\<close>), which serves the message queue of theory
  \<^verbatim>\<open>MessageQueue\<close>, the two calls that send it messages, and the manager in use: a client that
  puts pieces of the stream into the buffer, the thread, a decoder that takes frame pictures,
  in any order.
\<close>

section \<open>The thread\<close>

text \<open>The function pointers that \<^verbatim>\<open>SbmFrameInit\<close> sets by the type of the manager.\<close>

record sbm_functions =
  checkBitStreamType :: "memory \<Rightarrow> SbmFrame \<Rightarrow> (int \<times> SbmFrame) res"
  detectOneFramePic :: "memory \<Rightarrow> SbmFrame \<Rightarrow> SbmFrame res"

definition avc_functions :: sbm_functions where
  "avc_functions = \<lparr>checkBitStreamType = AvcSbmFrameCheckBitStreamType,
     detectOneFramePic = AvcSbmFrameDetectOneFramePic\<rparr>"

definition hevc_functions :: sbm_functions where
  "hevc_functions = \<lparr>checkBitStreamType = HevcSbmFrameCheckBitStreamType,
     detectOneFramePic = HevcSbmFrameDetectOneFramePic\<rparr>"

definition sbm_functions_of :: "int \<Rightarrow> sbm_functions option" where
  "sbm_functions_of nType0 =
     (if nType0 = SBM_TYPE_FRAME_AVC then Some avc_functions
      else if nType0 = SBM_TYPE_FRAME then Some hevc_functions else None)"

definition post_message :: "CdcMessage \<Rightarrow> SbmFrame \<Rightarrow> SbmFrame res" where
  "post_message m s =
     and_then (CdcMessageQueuePostMessage (sbm_mq s) m) (\<lambda>(r, q). Inr (s\<lparr>sbm_mq := q\<rparr>))"

text \<open>
  A message \<^verbatim>\<open>SBM_THREAD_CMD_READ\<close>: one step of work, and the message is posted again when the
  queue is empty. The flag \<^verbatim>\<open>bUseNewVeMemoryProgram\<close> is 0 in this configuration.
\<close>

definition thread_read :: "sbm_functions \<Rightarrow> memory \<Rightarrow> CdcMessage \<Rightarrow> SbmFrame \<Rightarrow> SbmFrame res" where
  "thread_read c m msg1 s =
     and_then (if bStreamWithStartCode s = -1
               then and_then (checkBitStreamType c m s) (\<lambda>(_, s1). Inr s1)
               else detectOneFramePic c m s) (\<lambda>s1.
     if CdcMessageQueueGetCount (sbm_mq s1) \<le> 0
     then post_message (msg1\<lparr>messageId := SBM_THREAD_CMD_READ\<rparr>) s1
     else Inr s1)"

text \<open>A message \<^verbatim>\<open>SBM_THREAD_CMD_RESET\<close>: everything is dropped, the caller is woken up.\<close>

definition thread_reset :: "SbmFrame \<Rightarrow> SbmFrame res" where
  "thread_reset s =
     and_then (if pCurStream (mDetectInfo s) \<noteq> None
               then and_then (flushStream s (pCurStream (mDetectInfo s)) False) (\<lambda>(_, s1).
                    Inr (upd_detect (\<lambda>d. d\<lparr>pCurStream := None\<rparr>) s1))
               else Inr s) (\<lambda>s1.
     let s2 = upd_detect (\<lambda>d. d\<lparr>bCurFrameStartCodeFound := 0, nCurStreamDataSize := 0,
           nCurStreamRebackFlag := 0, pCurStreamDataptr := 0, pCurFramePic := None\<rparr>) s1
     in Inr (s2\<lparr>pWriteAddr := pStreamBuffer s2, nValidDataSize := 0,
          frameFifo := (frameFifo s2)\<lparr>nReadPos := 0, nWritePos := 0, nFlushPos := 0,
            nValidFrameNum := 0, nUnReadFrameNum := 0\<rparr>,
          mFramePicFifo := (mFramePicFifo s2)\<lparr>nFPFlushPos := 0, nFPReadPos := 0, nFPWritePos := 0,
            nUnReadFramePicNum := 0, nValidFramePicNum := 0\<rparr>,
          resetSem := Suc (resetSem s2)\<rparr>))"

text \<open>One round of the loop of \<^verbatim>\<open>ProcessThread\<close>; \<open>True\<close>: the thread exits.\<close>

definition process_round :: "sbm_functions \<Rightarrow> memory \<Rightarrow> SbmFrame \<Rightarrow> (bool \<times> SbmFrame) res" where
  "process_round c m s =
     and_then (CdcMessageQueueTryGetMessage (sbm_mq s) 20) (\<lambda>(r, msg1, q).
     let s1 = s\<lparr>sbm_mq := q\<rparr> in
     if r \<noteq> 0 then Inr (False, s1)
     else case msg1 of None \<Rightarrow> Inr (False, s1) | Some msg2 \<Rightarrow>
       if messageId msg2 = SBM_THREAD_CMD_QUIT then Inr (True, s1)
       else if messageId msg2 = SBM_THREAD_CMD_READ
       then and_then (thread_read c m msg2 s1) (\<lambda>s2. Inr (False, s2))
       else if messageId msg2 = SBM_THREAD_CMD_RESET
       then and_then (thread_reset s1) (\<lambda>s2. Inr (False, s2))
       else Inr (False, s1))"

section \<open>Calls that send messages\<close>

text \<open>
  \<^verbatim>\<open>SbmFrameReset\<close> up to the wait for \<^verbatim>\<open>resetSem\<close>, and from there on (\<open>None\<close>: it still
  waits). \<^verbatim>\<open>SbmFrameDestroy\<close> posts \<^verbatim>\<open>SBM_THREAD_CMD_QUIT\<close> before it joins the thread.
\<close>

definition reset_request :: "SbmFrame \<Rightarrow> SbmFrame res" where
  "reset_request = post_message (thread_msg SBM_THREAD_CMD_RESET)"

definition reset_return :: "SbmFrame \<Rightarrow> SbmFrame option res" where
  "reset_return s =
     (if resetSem s = 0 then Inr None
      else and_then (post_message (thread_msg SBM_THREAD_CMD_READ)
             (s\<lparr>resetSem := resetSem s - 1\<rparr>)) (\<lambda>s1. Inr (Some s1)))"

definition quit_request :: "SbmFrame \<Rightarrow> SbmFrame res" where
  "quit_request = post_message (thread_msg SBM_THREAD_CMD_QUIT)"

section \<open>The manager in use\<close>

text \<open>
  The bytes of a piece are written at the address \<^verbatim>\<open>SbmFrameRequestBuffer\<close> hands out, around
  the end of the buffer, as the client of \<^verbatim>\<open>vdecoder.c\<close> does with the two parts it is given.
\<close>

definition write_bytes :: "memory \<Rightarrow> SbmFrame \<Rightarrow> int \<Rightarrow> 8 word list \<Rightarrow> memory" where
  "write_bytes m s p bs = (\<lambda>a.
     let i = (a - p) mod nStreamBufferSize s
     in if pStreamBuffer s \<le> a \<and> a \<le> pStreamBufferEnd s \<and> i < int (length bs) then bs ! nat i
        else m a)"

text \<open>
  The state of the run: the memory, the manager, the pictures the decoder holds (oldest first),
  and for the record the pieces accepted and the NAL units the decoder has read. It reads
  a picture when it gives it up for good.
\<close>

record 'l frame_run =
  fr_mem :: memory
  fr_sbm :: SbmFrame
  fr_held :: "stream_ptr list"
  fr_put :: "8 word list list"
  fr_read :: "('l \<times> 8 word list) list"

datatype frame_event =
    Put VideoStreamDataInfo "8 word list"
  | Turn
  | Take
  | GiveBack
  | Flush
  | Eos int
  | Reset

definition put_piece :: "VideoStreamDataInfo \<Rightarrow> 8 word list \<Rightarrow> 'l frame_run \<Rightarrow> 'l frame_run res" where
  "put_piece d bs z =
     and_then (SbmFrameRequestBuffer (Some (fr_sbm z)) (int (length bs))) (\<lambda>(r, grant). case grant of
       None \<Rightarrow> Inr z
     | Some (p, n) \<Rightarrow>
         and_then (SbmFrameAddStream (Some (fr_sbm z)) (Some (d\<lparr>pData := p, nLength := n\<rparr>)))
           (\<lambda>(r1, s1, _). case s1 of None \<Rightarrow> Inr z | Some s2 \<Rightarrow>
             if r1 \<noteq> 0 then Inr z
             else Inr (z\<lparr>fr_mem := write_bytes (fr_mem z) (fr_sbm z) p bs, fr_sbm := s2,
                         fr_put := fr_put z @ [bs]\<rparr>)))"

definition take_picture :: "'l frame_run \<Rightarrow> 'l frame_run res" where
  "take_picture z =
     and_then (SbmFrameRequestFramePic (Some (fr_sbm z))) (\<lambda>(h, s1). case (h, s1) of
       (Some h, Some s) \<Rightarrow> Inr (z\<lparr>fr_sbm := s, fr_held := fr_held z @ [h]\<rparr>)
     | _ \<Rightarrow> Inr z)"

definition give_back_picture :: "'l frame_run \<Rightarrow> 'l frame_run res" where
  "give_back_picture z =
     (if fr_held z = [] then Inr z
      else and_then (SbmFrameReturnFramePic (Some (fr_sbm z)) (Some (List.last (fr_held z))))
        (\<lambda>(r, s1). case s1 of None \<Rightarrow> Inr z
           | Some s \<Rightarrow> Inr (z\<lparr>fr_sbm := s, fr_held := butlast (fr_held z)\<rparr>)))"

definition picture_of :: "SbmFrame \<Rightarrow> stream_ptr \<Rightarrow> FramePicInfo" where
  "picture_of s h = (case h of Slot i \<Rightarrow> pFramePics (mFramePicFifo s) i | Foreign _ \<Rightarrow> zero_pic)"

definition flush_picture :: "(NaluInfo \<Rightarrow> 'l) \<Rightarrow> 'l frame_run \<Rightarrow> 'l frame_run res" where
  "flush_picture lab z =
     (case fr_held z of [] \<Rightarrow> Inr z
      | h # hs \<Rightarrow>
          let us = pic_units lab (fr_mem z) (fr_sbm z) (picture_of (fr_sbm z) h)
          in and_then (SbmFrameFlushFramePic (Some (fr_sbm z)) (Some h)) (\<lambda>(r, s1). case s1 of
               None \<Rightarrow> Inr z
             | Some s \<Rightarrow> Inr (z\<lparr>fr_sbm := s, fr_held := hs, fr_read := fr_read z @ us\<rparr>)))"

definition thread_turn :: "sbm_functions \<Rightarrow> 'l frame_run \<Rightarrow> 'l frame_run res" where
  "thread_turn c z =
     and_then (process_round c (fr_mem z) (fr_sbm z)) (\<lambda>(_, s). Inr (z\<lparr>fr_sbm := s\<rparr>))"

text \<open>
  \<^verbatim>\<open>SbmFrameReset\<close>: while the caller waits, the thread serves the message \<^verbatim>\<open>SBM_THREAD_CMD_READ\<close>
  that is in the queue, and then the reset. A wait without an end is the fault \<open>Diverges\<close>. The
  record of the run starts again.
\<close>

definition reset_manager :: "sbm_functions \<Rightarrow> 'l frame_run \<Rightarrow> 'l frame_run res" where
  "reset_manager c z =
     and_then (reset_request (fr_sbm z)) (\<lambda>s1.
     and_then (process_round c (fr_mem z) s1) (\<lambda>(_, s2).
     and_then (process_round c (fr_mem z) s2) (\<lambda>(_, s3).
     and_then (reset_return s3) (\<lambda>s4. case s4 of
         None \<Rightarrow> Inl Diverges
       | Some s \<Rightarrow> Inr (z\<lparr>fr_sbm := s, fr_held := [], fr_put := [], fr_read := []\<rparr>)))))"

fun run_event :: "sbm_functions \<Rightarrow> (NaluInfo \<Rightarrow> 'l) \<Rightarrow> frame_event \<Rightarrow> 'l frame_run \<Rightarrow> 'l frame_run res" where
  "run_event c lab (Put d bs) z = put_piece d bs z"
| "run_event c lab Turn z = thread_turn c z"
| "run_event c lab Take z = take_picture z"
| "run_event c lab GiveBack z = give_back_picture z"
| "run_event c lab Flush z = flush_picture lab z"
| "run_event c lab Reset z = reset_manager c z"
| "run_event c lab (Eos e) z =
     (case SbmFrameSetEos (Some (fr_sbm z)) e of (_, s1) \<Rightarrow>
        (case s1 of None \<Rightarrow> Inr z | Some s \<Rightarrow> Inr (z\<lparr>fr_sbm := s\<rparr>)))"

fun run_events :: "sbm_functions \<Rightarrow> (NaluInfo \<Rightarrow> 'l) \<Rightarrow> frame_event list \<Rightarrow> 'l frame_run \<Rightarrow>
    'l frame_run res" where
  "run_events c lab [] z = Inr z"
| "run_events c lab (e # es) z = and_then (run_event c lab e z) (run_events c lab es)"

definition fresh_run :: "memory \<Rightarrow> SbmFrame \<Rightarrow> 'l frame_run" where
  "fresh_run m s = \<lparr>fr_mem = m, fr_sbm = s, fr_held = [], fr_put = [], fr_read = []\<rparr>"

end
