(* ===== verification/SbmRuns.thy ===== *)
theory SbmRuns
  imports SbmThread
begin

text \<open>
  The calls of the client and of the decoder move between the states of theory \<^verbatim>\<open>SbmRep\<close>, and
  leave the NAL units that are in the pictures or still to come as they are, apart from those
  put in and taken out. With the contract of the detection this gives the invariant of the
  manager in use, for every codec and kind of stream that is an instance of the interface.
\<close>

section \<open>Calls of the decoder\<close>

lemma take_rep:
  assumes rep: "frame_rep N n W x s held (p # ready) q c es"
  shows "\<exists>f. SbmFrameRequestFramePic (Some s) =
      Inr (Some (Slot (pic_at (mFramePicFifo s) (length held))), Some (s\<lparr>mFramePicFifo := f\<rparr>)) \<and>
    pic_at f = pic_at (mFramePicFifo s) \<and>
    frame_rep N n W x (s\<lparr>mFramePicFifo := f\<rparr>) (held @ [p]) ready q c es"
proof -
  let ?f = "mFramePicFifo s"
  let ?f' = "?f\<lparr>nFPReadPos := (nFPReadPos ?f + 1) mod int N, nUnReadFramePicNum := nUnReadFramePicNum ?f - 1\<rparr>"
  have pr: "pic_rep N ?f held (p # ready)" using rep by (simp add: frame_rep_def pictures_def)
  have u: "nUnReadFramePicNum ?f \<noteq> 0" using pr by (simp add: pic_rep_def)
  have at: "pic_at ?f' = pic_at ?f" by (simp add: pic_at_def fun_eq_iff)
  have "frame_rep N n W x (s\<lparr>mFramePicFifo := ?f'\<rparr>) (held @ [p]) ready q c es"
    using rep pic_rep_read [OF pr]
    by (auto simp: frame_rep_def pictures_def layout_def Let_def split: option.splits)
  with u at pic_slots(3) [OF pr] pic_wrap(2) [OF pr] show ?thesis
    by (auto simp: Let_def)
qed

lemma take_none:
  "frame_rep N n W x s held [] q c es \<Longrightarrow> SbmFrameRequestFramePic (Some s) = Inr (None, Some s)"
  by (simp add: frame_rep_def pictures_def pic_rep_def Let_def)

lemma give_back_rep:
  assumes rep: "frame_rep N n W x s (held @ [p]) ready q c es"
  shows "\<exists>f. SbmFrameReturnFramePic (Some s) (Some (Slot (pic_at (mFramePicFifo s) (length held)))) =
      Inr (0, Some (s\<lparr>mFramePicFifo := f\<rparr>)) \<and> pic_at f = pic_at (mFramePicFifo s) \<and>
    frame_rep N n W x (s\<lparr>mFramePicFifo := f\<rparr>) held (p # ready) q c es"
proof -
  let ?f = "mFramePicFifo s"
  let ?f' = "?f\<lparr>nFPReadPos := (nFPReadPos ?f - 1) mod int N, nUnReadFramePicNum := nUnReadFramePicNum ?f + 1\<rparr>"
  have pr: "pic_rep N ?f (held @ [p]) ready" using rep by (simp add: frame_rep_def pictures_def)
  have pr': "pic_rep N ?f' held (p # ready)" by (rule pic_rep_unread [OF pr])
  have v: "nValidFramePicNum ?f \<noteq> 0" using pr by (simp add: pic_rep_def)
  have at: "pic_at ?f' = pic_at ?f" by (simp add: pic_at_def fun_eq_iff)
  have "pic_slot ?f ((nFPReadPos ?f - 1) mod int N) = Inr (pic_at ?f (length held))"
    using pic_slots(3) [OF pr'] at by (simp add: pic_slot_def)
  moreover have "frame_rep N n W x (s\<lparr>mFramePicFifo := ?f'\<rparr>) held (p # ready) q c es"
    using rep pr' by (auto simp: frame_rep_def pictures_def layout_def Let_def split: option.splits)
  ultimately show ?thesis using v at pic_wrap(4) [OF pr] by (auto simp: Let_def)
qed

text \<open>What a call of the decoder leaves alone.\<close>

definition serves :: "SbmFrame \<Rightarrow> SbmFrame \<Rightarrow> bool" where
  "serves s s' \<longleftrightarrow> nEosFlag s' = nEosFlag s \<and> bStreamWithStartCode s' = bStreamWithStartCode s \<and>
     mConfig s' = mConfig s \<and> sbm_mq s' = sbm_mq s \<and> code_found s' = code_found s \<and>
     resetSem s' = resetSem s"

lemma flush_rep:
  assumes rep: "frame_rep N n W x s (p # held) ready q c es"
  shows "\<exists>s'. SbmFrameFlushFramePic (Some s) (Some (Slot (pic_at (mFramePicFifo s) 0))) =
      Inr (0, Some s') \<and> serves s s' \<and> buffer s' = buffer s \<and> left_size s' = left_size s \<and>
    (\<forall>k. pic_at (mFramePicFifo s') k = pic_at (mFramePicFifo s) (Suc k)) \<and>
    pFramePics (mFramePicFifo s) (pic_at (mFramePicFifo s) 0) = p \<and>
    frame_rep N n W x s' held ready q c es"
proof -
  let ?f = "mFramePicFifo s"
  let ?f' = "?f\<lparr>nValidFramePicNum := nValidFramePicNum ?f - 1, nFPFlushPos := (nFPFlushPos ?f + 1) mod int N\<rparr>"
  let ?s' = "s\<lparr>mFramePicFifo := ?f', nValidDataSize := nValidDataSize s - nlength p,
    emptyFramePicSem := sem_post_if_zero (emptyFramePicSem s)\<rparr>"
  have pr: "pic_rep N ?f (p # held) ready" using rep by (simp add: frame_rep_def pictures_def)
  have p: "nValidFramePicNum ?f \<noteq> 0" "pFramePics ?f (pic_at ?f 0) = p" "0 < N" "nMaxFramePicNum ?f = int N"
    using pr by (auto simp: pic_rep_def)
  have at: "pic_at ?f' k = pic_at ?f (Suc k)" for k
    using p(3,4) by (simp add: pic_at_def mod_simps ac_simps)
  have "SbmFrameFlushFramePic (Some s) (Some (Slot (pic_at ?f 0))) = Inr (0, Some ?s')"
    using p(1,2) pic_slots(4) [OF pr] pic_wrap(3) [OF pr] by (simp add: Let_def)
  moreover have "serves s ?s'" "buffer ?s' = buffer s"
    by (simp_all add: serves_def code_found_def buffer_def)
  moreover have shift: "W - (nValidDataSize s - nlength p) = W - nValidDataSize s + nlength p" by simp
  have "layout W x ?s' (held @ ready) q c es"
    using rep by (auto simp: frame_rep_def layout_def Let_def pic_in_def shift)
  then have "frame_rep N n W x ?s' held ready q c es"
    using rep pic_rep_drop [OF pr] by (auto simp: frame_rep_def pictures_def split: option.splits)
  ultimately show ?thesis using at p(2) by fastforce
qed

section \<open>The client puts a piece into the buffer\<close>

lemma nValid_nonneg:
  assumes "frame_rep N n W x s held ready q c es"
  shows "0 \<le> nValidDataSize s" "W - nValidDataSize s \<le> x - len_of q" "x + left_size s \<le> W"
proof -
  have l: "pics_at (addr_of s) (W - nValidDataSize s) (held @ ready) (x - len_of q)"
    "elems_at (addr_of s) (x + left_size s) es W" "0 \<le> len_of q"
    using assms by (auto simp: frame_rep_def layout_def Let_def len_of_def pic_in_def split: option.splits)
  from pics_at_le [OF l(1)] elems_at_le [OF l(2)] frame_rep_left [OF assms] l(3)
  show "0 \<le> nValidDataSize s" "W - nValidDataSize s \<le> x - len_of q" "x + left_size s \<le> W" by simp_all
qed

lemma pictures_cong:
  assumes "mDetectInfo s' = mDetectInfo s" and "mFramePicFifo s' = mFramePicFifo s"
  shows "pictures N s' held ready q = pictures N s held ready q"
  using assms by (cases q) (simp_all add: pictures_def)

lemma put_rep:
  assumes rep: "frame_rep N n W x s held ready q c es" and len: "5 \<le> len"
    and req: "SbmFrameRequestBuffer (Some s) len = Inr (r, Some (p, l))"
  shows "p = addr_of s W \<and> l = len \<and> len + 64 + nValidDataSize s \<le> nStreamBufferSize s \<and>
    (\<exists>s' e. SbmFrameAddStream (Some s) (Some (d\<lparr>pData := p, nLength := l\<rparr>)) = Inr (0, Some s', Some e) \<and>
      keeps s s' \<and> left_size s' = left_size s \<and> mFramePicFifo s' = mFramePicFifo s \<and> nLength e = len \<and>
      frame_rep N n (W + len) x s' held ready q c (es @ [e]))"
proof -
  let ?f = "frameFifo s"
  have lay: "window s" "pWriteAddr s = addr_of s W" "layout W x s (held @ ready) q c es"
    "streams n s c es" "pictures N s held ready q"
    using rep by (auto simp: frame_rep_def layout_def Let_def)
  have B: "nStreamBufferSize s < 2 ^ 31" "64 < nStreamBufferSize s"
    "nValidDataSize s + 64 \<le> nStreamBufferSize s"
    using lay(1,3) by (auto simp: window_def layout_def Let_def)
  have "\<not> nValidFrameNum ?f \<ge> nMaxFrameNum ?f" using req by (auto split: if_splits)
  moreover have "nValidDataSize s < nStreamBufferSize s" using B by simp
  ultimately have g: "nValidFrameNum ?f < nMaxFrameNum ?f" "p = pWriteAddr s" "l = len"
      "len + 64 \<le> nStreamBufferSize s - nValidDataSize s"
    using req by (auto simp: int_result_def Let_def split: if_splits)
  obtain out where out: "fifo_rep n ?f out es" using lay(4) by (cases c) (auto simp: streams_def)
  have room: "length (out @ es) < n" using out g(1) by (simp add: fifo_rep_def)
  let ?d = "d\<lparr>pData := p, nLength := l\<rparr>"
  define e where "e = (if bValid ?d = 0 then ?d\<lparr>bValid := 1\<rparr> else ?d)"
  let ?g = "?f\<lparr>pFrames := (pFrames ?f)(nat (nWritePos ?f) := e), nWritePos := (nWritePos ?f + 1) mod int n,
    nValidFrameNum := nValidFrameNum ?f + 1, nUnReadFrameNum := nUnReadFrameNum ?f + 1\<rparr>"
  let ?s' = "s\<lparr>frameFifo := ?g, nValidDataSize := nValidDataSize s + len, pWriteAddr := addr_of s (W + len),
    streamDataSem := sem_post_if_zero (streamDataSem s)\<rparr>"
  have e: "nLength e = len" "pData e = addr_of s W" using g(2,3) lay(2) by (simp_all add: e_def)
  have p0: "p \<noteq> 0" using addr_of_range(3) [OF lay(1), of W] g(2) lay(2) by simp
  have "int_result (len + nValidDataSize s) = Inr (len + nValidDataSize s)"
    using g(4) B len nValid_nonneg(1) [OF rep] by (intro int_result_ok) linarith+
  moreover have "\<not> pStreamBufferEnd s < pWriteAddr s + len \<Longrightarrow> pWriteAddr s + len = addr_of s (W + len)"
    "pStreamBufferEnd s < pWriteAddr s + len \<Longrightarrow>
      pWriteAddr s + len - nStreamBufferSize s = addr_of s (W + len)"
    using addr_of_shift [OF lay(1), of len W] len g(4) nValid_nonneg(1) [OF rep] lay(2) by simp_all
  ultimately have "SbmFrameAddStream (Some s) (Some ?d) = Inr (0, Some ?s', Some e)"
    using p0 g write_wrap [OF out] by (simp add: Let_def e_def)
  moreover have "keeps s ?s'" by (simp add: keeps_def control_def code_found_def buffer_def)
  moreover have "frame_rep N n (W + len) x ?s' held ready q c (es @ [e])"
  proof -
    have "streams n ?s' c (es @ [e])"
    proof (cases c)
      case None
      with lay(4) have f: "fifo_rep n ?f [] es" by (simp add: streams_def)
      then have "length ([] @ es) < n" using g(1) by (simp add: fifo_rep_def)
      from fifo_rep_push [OF f this, of e] None lay(4) show ?thesis
        by (simp add: streams_def del: append_Nil)
    next
      case (Some e')
      with lay(4) have f: "fifo_rep n ?f [e'] es" "pCurStream (mDetectInfo s) = Some (ring_at ?f 0)"
        by (simp_all add: streams_def)
      have "length ([e'] @ es) < n" using f(1) g(1) by (simp add: fifo_rep_def)
      from fifo_rep_push [OF f(1) this, of e] f(2) Some show ?thesis
        by (simp add: streams_def ring_at_def)
    qed
    moreover have "pictures N ?s' held ready q"
      using lay(5) pictures_cong [of ?s' s N held ready q] by simp
    moreover have "layout (W + len) x ?s' (held @ ready) q c (es @ [e])"
      using lay(3) g(4) e len by (auto simp: layout_def Let_def elems_at_append)
    ultimately show ?thesis by (simp add: frame_rep_def)
  qed
  ultimately have "\<exists>s' e. SbmFrameAddStream (Some s) (Some ?d) = Inr (0, Some s', Some e) \<and>
      keeps s s' \<and> left_size s' = left_size s \<and> mFramePicFifo s' = mFramePicFifo s \<and> nLength e = len \<and>
      frame_rep N n (W + len) x s' held ready q c (es @ [e])"
    using e(1) by (intro exI [of _ ?s'] exI [of _ e]) simp
  then show ?thesis using g lay(2) by simp
qed

section \<open>The bytes of the piece\<close>

lemma write_bytes_at:
  assumes "window s" and "int (length bs) + v \<le> nStreamBufferSize s" and "0 \<le> v" and "W - v \<le> z"
    and "z < W + int (length bs)"
  shows "write_bytes m s (addr_of s W) bs (addr_of s z) =
    (if z < W then m (addr_of s z) else bs ! nat (z - W))"
proof -
  let ?B = "nStreamBufferSize s"
  have i: "(addr_of s z - addr_of s W) mod ?B = (z - W) mod ?B" by (simp add: addr_of_def mod_simps)
  have "(z - W) mod ?B = (if z < W then z - W + ?B else z - W)"
  proof (cases "z < W")
    case True
    then have "(z - W + ?B) mod ?B = z - W + ?B" using assms by (intro mod_pos_pos_trivial) simp_all
    then show ?thesis using True by simp
  next
    case False
    then have "(z - W) mod ?B = z - W" using assms by (intro mod_pos_pos_trivial) simp_all
    then show ?thesis using False by simp
  qed
  with i addr_of_range [OF assms(1), of z] assms show ?thesis by (simp add: write_bytes_def Let_def)
qed

definition agree :: "SbmFrame \<Rightarrow> memory \<Rightarrow> memory \<Rightarrow> int \<Rightarrow> int \<Rightarrow> bool" where
  "agree s m m' lo hi \<longleftrightarrow> (\<forall>z. lo \<le> z \<longrightarrow> z < hi \<longrightarrow> m' (addr_of s z) = m (addr_of s z))"

lemma agree_bytes:
  "agree s m m' lo hi \<Longrightarrow> lo \<le> x \<Longrightarrow> x + int k \<le> hi \<Longrightarrow> bytes_at m' s x k = bytes_at m s x k"
  by (simp add: bytes_at_def agree_def)

lemma agree_pic:
  assumes "agree s m m' lo hi" and "pic_in (addr_of s) x p" and "lo \<le> x" and "x + nlength p \<le> hi"
  shows "pic_units lab m' s p = pic_units lab m s p"
proof -
  have "read_nalu m' s (pNaluInfoList p j) = read_nalu m s (pNaluInfoList p j)"
    if "j < nat (nCurNaluIdx p)" for j
  proof -
    let ?u = "pNaluInfoList p j"
    from that assms(2) have "nalu_in (addr_of s) x (x + nlength p) ?u" by (auto simp: pic_in_def)
    then obtain z where z: "0 \<le> nDataSize ?u" "pDataBuf ?u = addr_of s z" "x \<le> z"
      "z + nDataSize ?u \<le> x + nlength p" by (auto simp: nalu_in_def)
    show ?thesis unfolding read_nalu_at [OF z(2)]
      by (rule agree_bytes [OF assms(1)]) (use z assms(3,4) in simp_all)
  qed
  then show ?thesis by (simp add: pic_units_def)
qed

lemma agree_pics:
  assumes "agree s m m' lo hi"
  shows "pics_at (addr_of s) x ps y \<Longrightarrow> lo \<le> x \<Longrightarrow> y \<le> hi \<Longrightarrow>
    pics_units lab m' s ps = pics_units lab m s ps"
proof (induction ps arbitrary: x)
  case Nil
  then show ?case by simp
next
  case (Cons p ps)
  then have p: "pic_in (addr_of s) x p" "pics_at (addr_of s) (x + nlength p) ps y" "0 \<le> nlength p"
    by (auto simp: pic_in_def)
  with agree_pic [OF assms p(1) Cons.prems(2), of lab] Cons.IH [OF p(2)] pics_at_le [OF p(2)] Cons.prems
  show ?case by simp
qed

lemma agree_pieces:
  assumes "agree s m m' lo hi"
  shows "elems_at (addr_of s) x es hi \<Longrightarrow> lo \<le> x \<Longrightarrow> piece_units scan m' s x es = piece_units scan m s x es"
proof (induction es arbitrary: x)
  case Nil
  then show ?case by simp
next
  case (Cons e es)
  then have e: "elems_at (addr_of s) (x + nLength e) es hi" "5 \<le> nLength e" by simp_all
  from elems_at_le [OF e(1)] have "x + int (nat (nLength e)) \<le> hi" using e(2) by simp
  with agree_bytes [OF assms Cons.prems(2) this] Cons.IH [OF e(1)] Cons.prems(2) e(2) show ?case by simp
qed

lemma piece_units_snoc:
  "elems_at a x es W \<Longrightarrow> piece_units scan m s x (es @ [e]) =
    piece_units scan m s x es @ units scan (bytes_at m s W (nat (nLength e)))"
  by (induction es arbitrary: x) auto

text \<open>The NAL units in the pictures, finished or not, and those still to come.\<close>

definition all_units :: "(NaluInfo \<Rightarrow> 'l) \<Rightarrow> (8 word \<Rightarrow> 'l) \<Rightarrow> scanner \<Rightarrow> memory \<Rightarrow> SbmFrame \<Rightarrow>
    FramePicInfo list \<Rightarrow> view \<Rightarrow> ('l \<times> 8 word list) list" where
  "all_units lab hdr scan m s held v =
     pics_units lab m s (held @ v_ready v) @ open_units lab hdr scan m s v"

lemma all_units_agree:
  assumes rep: "rep_view N n W held s v" and ag: "agree s m m' (W - nValidDataSize s) W"
  shows "all_units lab hdr scan m' s held v = all_units lab hdr scan m s held v"
proof -
  let ?x = "v_pos v" and ?q = "v_pic v"
  have l: "pics_at (addr_of s) (W - nValidDataSize s) (held @ v_ready v) (?x - len_of ?q)"
    "elems_at (addr_of s) (?x + left_size s) (v_pieces v) W" "0 \<le> len_of ?q"
    "\<And>q. ?q = Some q \<Longrightarrow> pic_in (addr_of s) (?x - nlength q) q"
    using rep by (auto simp: rep_view_def frame_rep_def layout_def Let_def len_of_def pic_in_def
        split: option.splits)
  note b = nValid_nonneg [OF rep [unfolded rep_view_def]]
  note left = frame_rep_left [OF rep [unfolded rep_view_def]]
  have "opt_units lab m' s ?q = opt_units lab m s ?q"
  proof (cases ?q)
    case (Some q)
    with b have "W - nValidDataSize s \<le> ?x - nlength q" "?x - nlength q + nlength q \<le> W"
      using left by (simp_all add: len_of_def)
    with agree_pic [OF ag l(4) [OF Some]] Some show ?thesis by (simp add: opt_units_def)
  qed (simp add: opt_units_def)
  moreover have "pics_units lab m' s (held @ v_ready v) = pics_units lab m s (held @ v_ready v)"
    by (rule agree_pics [OF ag l(1)]) (use b l(3) left in simp_all)
  moreover have "left_bytes m' s ?x = left_bytes m s ?x"
    unfolding left_bytes_def by (rule agree_bytes [OF ag]) (use b l(3) left in simp_all)
  moreover have "piece_units scan m' s (?x + left_size s) (v_pieces v)
      = piece_units scan m s (?x + left_size s) (v_pieces v)"
    by (rule agree_pieces [OF ag l(2)]) (use b l(3) left in simp)
  ultimately show ?thesis by (simp add: all_units_def open_units_def todo_def)
qed

lemma all_units_keeps:
  assumes "buffer s' = buffer s" and "left_size s' = left_size s"
  shows "all_units lab hdr scan m s' held v = all_units lab hdr scan m s held v"
proof -
  have "pic_units lab m s' = pic_units lab m s" by (rule ext) (rule pic_units_buffer [OF assms(1)])
  then show ?thesis
    by (simp add: all_units_def open_units_def opt_units_def pics_units_def todo_buffer [OF assms]
        split: option.splits)
qed

lemma put_units:
  assumes rep: "rep_view N n W held s v"
    and rep': "rep_view N n (W + int (length bs)) held s' (v\<lparr>v_pieces := v_pieces v @ [e]\<rparr>)"
    and e: "nLength e = int (length bs)" and s': "buffer s' = buffer s" "left_size s' = left_size s"
    and room: "int (length bs) + 64 + nValidDataSize s \<le> nStreamBufferSize s"
  shows "all_units lab hdr scan (write_bytes m s (addr_of s W) bs) s' held
      (v\<lparr>v_pieces := v_pieces v @ [e]\<rparr>) =
    all_units lab hdr scan m s held v @ label_units hdr (units scan bs)"
proof -
  let ?m' = "write_bytes m s (addr_of s W) bs" and ?v' = "v\<lparr>v_pieces := v_pieces v @ [e]\<rparr>"
  have w: "window s" and el: "elems_at (addr_of s) (v_pos v + left_size s) (v_pieces v) W"
    using rep by (simp_all add: rep_view_def frame_rep_def layout_def Let_def)
  have room': "int (length bs) + nValidDataSize s \<le> nStreamBufferSize s" using room by simp
  note wr = write_bytes_at [OF w room' nValid_nonneg(1) [OF rep [unfolded rep_view_def]]]
  have "agree s m ?m' (W - nValidDataSize s) W" by (simp add: agree_def wr)
  note old = all_units_agree [OF rep this, of lab hdr scan]
  have "bytes_at ?m' s W (length bs) = bs"
  proof (rule nth_equalityI)
    fix i assume i: "i < length (bytes_at ?m' s W (length bs))"
    then have "?m' (addr_of s (W + int i)) = bs ! i"
      using wr [of W "W + int i"] nValid_nonneg(1) [OF rep [unfolded rep_view_def]] by simp
    with i show "bytes_at ?m' s W (length bs) ! i = bs ! i" by (simp add: nth_bytes_at)
  qed simp
  then have "todo scan ?m' s (v_pos v) (v_pieces v @ [e]) = todo scan ?m' s (v_pos v) (v_pieces v) @ units scan bs"
    by (simp add: todo_def piece_units_snoc [OF el] e)
  then have "all_units lab hdr scan ?m' s held ?v' = all_units lab hdr scan ?m' s held v @ label_units hdr (units scan bs)"
    by (simp add: all_units_def open_units_def)
  with old show ?thesis by (simp add: all_units_keeps [OF s'])
qed

section \<open>The invariant of a run\<close>

text \<open>The decoder's handles are the slots of the pictures it holds.\<close>

definition handles :: "SbmFrame \<Rightarrow> nat \<Rightarrow> stream_ptr list" where
  "handles s k = map (\<lambda>i. Slot (pic_at (mFramePicFifo s) i)) [0..<k]"

definition run_ok :: "(NaluInfo \<Rightarrow> 'l) \<Rightarrow> (8 word \<Rightarrow> 'l) \<Rightarrow> scanner \<Rightarrow> (SbmFrameConfig \<Rightarrow> bool) \<Rightarrow> bool \<Rightarrow>
    int \<Rightarrow> int \<times> int \<Rightarrow> nat \<Rightarrow> nat \<Rightarrow> int \<Rightarrow> FramePicInfo list \<Rightarrow> view \<Rightarrow> 'l frame_run \<Rightarrow> bool" where
  "run_ok lab hdr scan cfg single kind buf N n W held v z \<longleftrightarrow>
     rep_view N n W held (fr_sbm z) v \<and> fine cfg single (fr_sbm z) (v_pic v) \<and>
     bStreamWithStartCode (fr_sbm z) = kind \<and> buffer (fr_sbm z) = buf \<and> resetSem (fr_sbm z) = 0 \<and>
     mq_rep 32 (sbm_mq (fr_sbm z)) [thread_msg SBM_THREAD_CMD_READ] \<and>
     fr_held z = handles (fr_sbm z) (length held) \<and>
     fr_read z @ all_units lab hdr scan (fr_mem z) (fr_sbm z) held v =
       label_units hdr (concat (map (units scan) (fr_put z)))"

text \<open>A piece the client may put: at least five bytes, and the sum with the 64 bytes is an \<^verbatim>\<open>int\<close>.\<close>

fun event_ok :: "frame_event \<Rightarrow> bool" where
  "event_ok (Put d bs) \<longleftrightarrow> 5 \<le> length bs \<and> int (length bs) + 64 < 2 ^ 31"
| "event_ok _ \<longleftrightarrow> True"

lemma handles_pics:
  "pic_at (mFramePicFifo s') = pic_at (mFramePicFifo s) \<Longrightarrow> handles s' k = handles s k"
  by (simp add: handles_def)

lemma handles_Suc: "handles s (Suc k) = handles s k @ [Slot (pic_at (mFramePicFifo s) k)]"
  by (simp add: handles_def)

lemma handles_drop:
  assumes "\<forall>k. pic_at (mFramePicFifo s') k = pic_at (mFramePicFifo s) (Suc k)"
  shows "handles s (Suc k) = Slot (pic_at (mFramePicFifo s) 0) # handles s' k"
  unfolding handles_def upt_conv_Cons [OF zero_less_Suc] map_Suc_upt [symmetric]
  using assms by simp

lemma request_buffer_cases:
  assumes "int k + 64 < 2 ^ 31"
  obtains r where "SbmFrameRequestBuffer (Some s) (int k) = Inr (r, None)"
  | r p l where "SbmFrameRequestBuffer (Some s) (int k) = Inr (r, Some (p, l))"
  using assms by (cases "SbmFrameRequestBuffer (Some s) (int k)") (auto simp: Let_def split: if_splits)

lemma put_run:
  assumes ok: "run_ok lab hdr scan cfg single kind buf N n W held v z"
    and len: "5 \<le> length bs" "int (length bs) + 64 < 2 ^ 31"
  shows "\<exists>z' W' v'. put_piece d bs z = Inr z' \<and> run_ok lab hdr scan cfg single kind buf N n W' held v' z' \<and>
    (fr_put z' = fr_put z \<or> fr_put z' = fr_put z @ [bs])"
proof -
  let ?s = "fr_sbm z"
  have rep: "rep_view N n W held ?s v" using ok by (simp add: run_ok_def)
  note rep' = rep [unfolded rep_view_def]
  show ?thesis
  proof (rule request_buffer_cases [OF len(2), of ?s])
    fix r assume "SbmFrameRequestBuffer (Some ?s) (int (length bs)) = Inr (r, None)"
    then have "put_piece d bs z = Inr z" by (simp add: put_piece_def del: SbmFrameRequestBuffer.simps)
    with ok show ?thesis by blast
  next
    fix r p l assume req: "SbmFrameRequestBuffer (Some ?s) (int (length bs)) = Inr (r, Some (p, l))"
    have "5 \<le> int (length bs)" using len(1) by simp
    note put = put_rep [OF rep' this req, of d]
    then obtain s' e where s': "SbmFrameAddStream (Some ?s) (Some (d\<lparr>pData := p, nLength := l\<rparr>)) =
        Inr (0, Some s', Some e)" "keeps ?s s'" "left_size s' = left_size ?s"
      "mFramePicFifo s' = mFramePicFifo ?s" "nLength e = int (length bs)"
      "rep_view N n (W + int (length bs)) held s' (v\<lparr>v_pieces := v_pieces v @ [e]\<rparr>)"
      and p: "p = addr_of ?s W" "int (length bs) + 64 + nValidDataSize ?s \<le> nStreamBufferSize ?s"
      by (auto simp: rep_view_def)
    let ?v' = "v\<lparr>v_pieces := v_pieces v @ [e]\<rparr>"
    let ?z' = "z\<lparr>fr_mem := write_bytes (fr_mem z) ?s p bs, fr_sbm := s', fr_put := fr_put z @ [bs]\<rparr>"
    have b: "buffer s' = buffer ?s" and c: "control s' = control ?s" "code_found s' = code_found ?s"
      using s'(2) by (simp_all add: keeps_def)
    have "put_piece d bs z = Inr ?z'"
      by (simp add: put_piece_def req s'(1) del: SbmFrameRequestBuffer.simps SbmFrameAddStream.simps)
    moreover have "run_ok lab hdr scan cfg single kind buf N n (W + int (length bs)) held ?v' ?z'"
      using ok s'(6) c b put_units [OF rep s'(6,5) b s'(3) p(2), of lab hdr scan "fr_mem z"]
        handles_pics [of s' ?s] s'(4)
      by (simp add: run_ok_def p(1) fine_def control_def)
    ultimately show ?thesis by (intro exI [of _ ?z'] exI [of _ "W + int (length bs)"] exI [of _ ?v']) simp
  qed
qed

lemma take_run:
  assumes ok: "run_ok lab hdr scan cfg single kind buf N n W held v z"
  shows "\<exists>z' held' v'. take_picture z = Inr z' \<and> run_ok lab hdr scan cfg single kind buf N n W held' v' z' \<and>
    held' @ v_ready v' = held @ v_ready v \<and> fr_put z' = fr_put z \<and> fr_read z' = fr_read z \<and>
    progress W (fr_sbm z') v' = progress W (fr_sbm z) v \<and>
    (held @ v_ready v \<noteq> [] \<longrightarrow> held' \<noteq> []) \<and> nEosFlag (fr_sbm z') = nEosFlag (fr_sbm z)"
proof (cases "v_ready v")
  case Nil
  with ok have "take_picture z = Inr z"
    using take_none [of N n W "v_pos v" "fr_sbm z" held "v_pic v" "v_cur v" "v_pieces v"]
    by (simp add: take_picture_def run_ok_def rep_view_def del: SbmFrameRequestFramePic.simps)
  with ok Nil show ?thesis by (intro exI [of _ z] exI [of _ held] exI [of _ v]) simp
next
  case (Cons p ready)
  let ?s = "fr_sbm z"
  have "frame_rep N n W (v_pos v) ?s held (p # ready) (v_pic v) (v_cur v) (v_pieces v)"
    using ok Cons by (simp add: run_ok_def rep_view_def)
  from take_rep [OF this] obtain f where f: "SbmFrameRequestFramePic (Some ?s) =
      Inr (Some (Slot (pic_at (mFramePicFifo ?s) (length held))), Some (?s\<lparr>mFramePicFifo := f\<rparr>))"
    "pic_at f = pic_at (mFramePicFifo ?s)"
    "rep_view N n W (held @ [p]) (?s\<lparr>mFramePicFifo := f\<rparr>) (v\<lparr>v_ready := ready\<rparr>)"
    by (auto simp: rep_view_def)
  let ?s' = "?s\<lparr>mFramePicFifo := f\<rparr>" and ?v' = "v\<lparr>v_ready := ready\<rparr>"
  let ?z' = "z\<lparr>fr_sbm := ?s', fr_held := fr_held z @ [Slot (pic_at (mFramePicFifo ?s) (length held))]\<rparr>"
  have "take_picture z = Inr ?z'" by (simp add: take_picture_def f(1) del: SbmFrameRequestFramePic.simps)
  moreover have "all_units lab hdr scan (fr_mem z) ?s' (held @ [p]) ?v' = all_units lab hdr scan (fr_mem z) ?s held v"
    using all_units_keeps [of ?s' ?s lab hdr scan "fr_mem z" held v] Cons
    by (simp add: all_units_def open_units_def buffer_def)
  then have "run_ok lab hdr scan cfg single kind buf N n W (held @ [p]) ?v' ?z'"
    using ok f(3) handles_pics [of ?s' ?s "length held"] f(2)
    by (simp add: run_ok_def fine_def code_found_def handles_Suc buffer_def)
  ultimately show ?thesis using Cons by (intro exI [of _ ?z'] exI [of _ "held @ [p]"] exI [of _ ?v'])
     (simp add: progress_def code_found_def)
qed

lemma give_back_run:
  assumes ok: "run_ok lab hdr scan cfg single kind buf N n W held v z"
  shows "\<exists>z' held' v'. give_back_picture z = Inr z' \<and>
    run_ok lab hdr scan cfg single kind buf N n W held' v' z' \<and> fr_put z' = fr_put z \<and> fr_read z' = fr_read z"
proof (cases held rule: rev_cases)
  case Nil
  with ok have "give_back_picture z = Inr z" by (simp add: give_back_picture_def run_ok_def handles_def)
  with ok show ?thesis by blast
next
  case (snoc hs p)
  let ?s = "fr_sbm z"
  have "frame_rep N n W (v_pos v) ?s (hs @ [p]) (v_ready v) (v_pic v) (v_cur v) (v_pieces v)"
    using ok snoc by (simp add: run_ok_def rep_view_def)
  from give_back_rep [OF this] obtain f where
    f: "SbmFrameReturnFramePic (Some ?s) (Some (Slot (pic_at (mFramePicFifo ?s) (length hs)))) =
      Inr (0, Some (?s\<lparr>mFramePicFifo := f\<rparr>))" "pic_at f = pic_at (mFramePicFifo ?s)"
    "rep_view N n W hs (?s\<lparr>mFramePicFifo := f\<rparr>) (v\<lparr>v_ready := p # v_ready v\<rparr>)"
    by (auto simp: rep_view_def)
  let ?s' = "?s\<lparr>mFramePicFifo := f\<rparr>" and ?v' = "v\<lparr>v_ready := p # v_ready v\<rparr>"
  have h: "fr_held z = handles ?s (length hs) @ [Slot (pic_at (mFramePicFifo ?s) (length hs))]"
    using ok snoc by (simp add: run_ok_def handles_Suc)
  let ?z' = "z\<lparr>fr_sbm := ?s', fr_held := handles ?s (length hs)\<rparr>"
  have "give_back_picture z = Inr ?z'"
    by (simp add: give_back_picture_def h f(1) del: SbmFrameReturnFramePic.simps)
  moreover have "all_units lab hdr scan (fr_mem z) ?s' hs ?v' = all_units lab hdr scan (fr_mem z) ?s held v"
    using all_units_keeps [of ?s' ?s lab hdr scan "fr_mem z" held v] snoc
    by (simp add: all_units_def open_units_def buffer_def)
  then have "run_ok lab hdr scan cfg single kind buf N n W hs ?v' ?z'"
    using ok f(3) handles_pics [of ?s' ?s "length hs"] f(2)
    by (simp add: run_ok_def fine_def code_found_def buffer_def)
  ultimately show ?thesis by (intro exI [of _ ?z'] exI [of _ hs] exI [of _ ?v']) simp
qed

lemma flush_run:
  assumes ok: "run_ok lab hdr scan cfg single kind buf N n W held v z"
  shows "\<exists>z' held'. flush_picture lab z = Inr z' \<and> run_ok lab hdr scan cfg single kind buf N n W held' v z' \<and>
    fr_put z' = fr_put z \<and> held' = tl held \<and>
    progress W (fr_sbm z') v = progress W (fr_sbm z) v \<and> nEosFlag (fr_sbm z') = nEosFlag (fr_sbm z)"
proof (cases held)
  case Nil
  with ok have "flush_picture lab z = Inr z" by (simp add: flush_picture_def run_ok_def handles_def)
  with ok Nil show ?thesis by auto
next
  case (Cons p hs)
  let ?s = "fr_sbm z"
  have "frame_rep N n W (v_pos v) ?s (p # hs) (v_ready v) (v_pic v) (v_cur v) (v_pieces v)"
    using ok Cons by (simp add: run_ok_def rep_view_def)
  from flush_rep [OF this] obtain s' where s':
    "SbmFrameFlushFramePic (Some ?s) (Some (Slot (pic_at (mFramePicFifo ?s) 0))) = Inr (0, Some s')"
    "serves ?s s'" "buffer s' = buffer ?s" "left_size s' = left_size ?s"
    "\<forall>k. pic_at (mFramePicFifo s') k = pic_at (mFramePicFifo ?s) (Suc k)"
    "pFramePics (mFramePicFifo ?s) (pic_at (mFramePicFifo ?s) 0) = p" "rep_view N n W hs s' v"
    by (auto simp: rep_view_def)
  let ?us = "pic_units lab (fr_mem z) ?s p"
  have h: "fr_held z = Slot (pic_at (mFramePicFifo ?s) 0) # handles s' (length hs)"
    using ok Cons handles_drop [OF s'(5)] by (simp add: run_ok_def)
  let ?z' = "z\<lparr>fr_sbm := s', fr_held := handles s' (length hs), fr_read := fr_read z @ ?us\<rparr>"
  have "flush_picture lab z = Inr ?z'"
    by (simp add: flush_picture_def h s'(1,6) picture_of_def Let_def del: SbmFrameFlushFramePic.simps)
  moreover have "all_units lab hdr scan (fr_mem z) ?s held v =
      ?us @ all_units lab hdr scan (fr_mem z) s' hs v"
    using all_units_keeps [OF s'(3,4), of lab hdr scan "fr_mem z" hs v] Cons
    by (simp add: all_units_def)
  then have "run_ok lab hdr scan cfg single kind buf N n W hs v ?z'"
    using ok s'(2,3,7) by (simp add: run_ok_def fine_def serves_def)
  ultimately show ?thesis using Cons s'(2) by (intro exI [of _ ?z'] exI [of _ hs])
    (simp add: progress_def serves_def)
qed

text \<open>Fields that the meaning of a state does not depend on.\<close>

lemma frame_rep_same:
  assumes "mDetectInfo s' = mDetectInfo s" "frameFifo s' = frameFifo s"
    "mFramePicFifo s' = mFramePicFifo s" "pWriteAddr s' = pWriteAddr s"
    "nValidDataSize s' = nValidDataSize s" "buffer s' = buffer s" "window s' = window s"
    "pStreamBufferEnd s' = pStreamBufferEnd s"
  shows "frame_rep N n W x s' held ready p c es = frame_rep N n W x s held ready p c es"
proof -
  have "addr_of s' = addr_of s" by (rule buffer_addr [OF assms(6)])
  moreover have "reading_at s' y = reading_at s y" for y
    using assms calculation by (simp add: reading_at_def buffer_def)
  ultimately show ?thesis
    using streams_cong [OF assms(1,2), of n c es] pictures_cong [OF assms(1,3), of N held ready p] assms
    by (simp add: frame_rep_def layout_def Let_def buffer_def)
qed

lemma eos_run:
  assumes ok: "run_ok lab hdr scan cfg single kind buf N n W held v z"
  shows "run_ok lab hdr scan cfg single kind buf N n W held v (z\<lparr>fr_sbm := (fr_sbm z)\<lparr>nEosFlag := b\<rparr>\<rparr>)"
proof -
  let ?s = "fr_sbm z" and ?s' = "(fr_sbm z)\<lparr>nEosFlag := b\<rparr>"
  have "rep_view N n W held ?s v" using ok by (simp add: run_ok_def)
  then have "rep_view N n W held ?s' v"
    using frame_rep_same [of ?s' ?s] by (simp add: rep_view_def buffer_def window_def)
  moreover have "all_units lab hdr scan (fr_mem z) ?s' held v = all_units lab hdr scan (fr_mem z) ?s held v"
    by (rule all_units_keeps) (simp_all add: buffer_def)
  ultimately show ?thesis
    using ok handles_pics [of ?s' ?s] by (simp add: run_ok_def fine_def code_found_def buffer_def)
qed

section \<open>A turn of the thread\<close>

text \<open>The reset leaves an empty manager.\<close>

lemma thread_reset_rep:
  assumes rep: "frame_rep N n W x s held ready p c es"
  shows "\<exists>s'. thread_reset s = Inr s' \<and> frame_rep N n 0 0 s' [] [] None None [] \<and>
    bStreamWithStartCode s' = bStreamWithStartCode s \<and>
    mConfig s' = mConfig s \<and> sbm_mq s' = sbm_mq s \<and> code_found s' = 0 \<and> buffer s' = buffer s \<and> resetSem s' = Suc (resetSem s)"
proof -
  have pr: "pic_rep N (mFramePicFifo s) held ready" and w: "window s"
    using rep by (auto simp: frame_rep_def pictures_def layout_def Let_def)
  obtain f d out where f: "(if pCurStream (mDetectInfo s) \<noteq> None
      then and_then (flushStream s (pCurStream (mDetectInfo s)) False) (\<lambda>(_, s1).
        Inr (upd_detect (\<lambda>d. d\<lparr>pCurStream := None\<rparr>) s1)) else Inr s)
      = Inr (s\<lparr>frameFifo := f, mDetectInfo := d\<rparr>)" "pCurStream d = None" "fifo_rep n f out es"
  proof (cases c)
    case None
    then show ?thesis using that [where f = "frameFifo s" and d = "mDetectInfo s" and out = "[]"] rep
      by (simp add: frame_rep_def streams_def)
  next
    case (Some e)
    then have st: "pCurStream (mDetectInfo s) = Some (ring_at (frameFifo s) 0)" "fifo_rep n (frameFifo s) [e] es"
      using rep by (simp_all add: frame_rep_def streams_def)
    from flushStream_keep [OF st(2)] obtain f where f: "flushStream s (Some (ring_at (frameFifo s) 0)) False
        = Inr (0, s\<lparr>frameFifo := f\<rparr>)" "fifo_rep n f [] es" by blast
    show ?thesis by (rule that [where f = f and d = "(mDetectInfo s)\<lparr>pCurStream := None\<rparr>" and out = "[]"])
      (use st(1) f in \<open>simp_all add: upd_detect_def\<close>)
  qed
  then have n: "0 < n" "nMaxFrameNum f = int n" by (auto simp: fifo_rep_def)
  show ?thesis unfolding thread_reset_def f(1) using pr w n f(2)
    by (simp add: Let_def upd_detect_def frame_rep_def streams_def pictures_def layout_def window_def pic_rep_def
        fifo_rep_def addr_of_def len_of_def serves_def code_found_def buffer_def)
qed

lemma rep_view_mq:
  assumes "rep_view N n W held s v"
  shows "rep_view N n W held (s\<lparr>sbm_mq := q\<rparr>) v"
  using assms frame_rep_same [of "s\<lparr>sbm_mq := q\<rparr>" s] by (simp add: rep_view_def buffer_def window_def)

lemma pics_units_buffer: "buffer s' = buffer s \<Longrightarrow> pics_units lab m s' ps = pics_units lab m s ps"
proof -
  assume b: "buffer s' = buffer s"
  have "pic_units lab m s' = pic_units lab m s" by (rule ext) (rule pic_units_buffer [OF b])
  then show ?thesis by (simp add: pics_units_def)
qed

text \<open>
  The function pointers of a manager whose stream kind is \<open>kind\<close>: the detection is that of a
  loop body that meets the interface.
\<close>

locale frame_codec = nalu_detector body lab hdr scan cfg single
  for body and lab :: "NaluInfo \<Rightarrow> 'l" and hdr and scan and cfg and single +
  fixes fns :: sbm_functions and kind :: int
  assumes detects: "bStreamWithStartCode s = kind \<Longrightarrow> detectOneFramePic fns m s = detect body m s"
    and kind_known: "kind \<noteq> -1"

text \<open>The pieces of a list of events, and the work that is left: two for each step of the thread.\<close>

fun pieces_put :: "frame_event list \<Rightarrow> 8 word list list" where
  "pieces_put [] = []"
| "pieces_put (Put d bs # es) = bs # pieces_put es"
| "pieces_put (_ # es) = pieces_put es"

definition work :: "int \<Rightarrow> FramePicInfo list \<Rightarrow> view \<Rightarrow> 'l frame_run \<Rightarrow> nat" where
  "work W held v z = nat (2 * progress W (fr_sbm z) v) + length held + length (v_ready v)"

lemma run_events_append:
  "run_events c lab (es @ fs) z = and_then (run_events c lab es z) (run_events c lab fs)"
proof (induction es arbitrary: z)
  case Nil
  then show ?case by simp
next
  case (Cons e es)
  then show ?case by (cases "run_event c lab e z") simp_all
qed

abbreviation READ :: CdcMessage where
  "READ \<equiv> thread_msg SBM_THREAD_CMD_READ"

lemma run_few:
  assumes "run_ok lab hdr scan cfg single kind buf N n W held v z"
    and "few single (length (concat (map (units scan) (fr_put z))))"
  shows "few single (length (all_units lab hdr scan (fr_mem z) (fr_sbm z) held v))"
proof -
  have "fr_read z @ all_units lab hdr scan (fr_mem z) (fr_sbm z) held v =
      label_units hdr (concat (map (units scan) (fr_put z)))" using assms(1) by (simp add: run_ok_def)
  from arg_cong [OF this, of length] assms(2) show ?thesis by (auto simp: few_def)
qed

context frame_codec
begin

text \<open>A round on a message to read; \<open>xs\<close> are the messages behind it.\<close>

lemma read_round:
  assumes rep: "rep_view N n W held s v" and fine: "fine cfg single s (v_pic v)"
    and k: "bStreamWithStartCode s = kind" and mq: "mq_rep 32 (sbm_mq s) (READ # xs)"
    and few: "few single (length (all_units lab hdr scan m s held v))"
  shows "\<exists>s' v'. process_round fns m s = Inr (False, s') \<and> rep_view N n W held s' v' \<and>
    fine cfg single s' (v_pic v') \<and> bStreamWithStartCode s' = kind \<and> buffer s' = buffer s \<and>
    mq_rep 32 (sbm_mq s') (if xs = [] then [READ] else xs) \<and> resetSem s' = resetSem s \<and>
    nEosFlag s' = nEosFlag s \<and> nFPFlushPos (mFramePicFifo s') = nFPFlushPos (mFramePicFifo s) \<and>
    all_units lab hdr scan m s' held v' = all_units lab hdr scan m s held v \<and>
    length (v_ready v') \<le> length (v_ready v) + 1 \<and>
    (progress W s' v' < progress W s v \<or>
     progress W s' v' = progress W s v \<and> v_ready v' = v_ready v \<and>
       (rests W s' v' \<or> \<not> length (held @ v_ready v) < N))"
proof -
  from get_rep [OF mq, of 20] obtain q where
    q: "CdcMessageQueueTryGetMessage (sbm_mq s) 20 = Inr (0, Some READ, q)" "mq_rep 32 q xs" by blast
  let ?s1 = "s\<lparr>sbm_mq := q\<rparr>"
  note rep1 = rep_view_mq [OF rep, of q]
  have au1: "all_units lab hdr scan m ?s1 held v = all_units lab hdr scan m s held v"
    by (rule all_units_keeps) (simp_all add: buffer_def)
  have fine1: "fine cfg single ?s1 (v_pic v)" using fine by (simp add: fine_def code_found_def)
  have "length (open_units lab hdr scan m ?s1 v) \<le> length (all_units lab hdr scan m s held v)"
    unfolding au1 [symmetric] by (simp add: all_units_def)
  with few have few1: "few single (length (open_units lab hdr scan m ?s1 v))" by (auto simp: few_def)
  from detect_ok [OF rep1 fine1 few1] obtain s2 v' where s2: "detect body m ?s1 = Inr s2"
    "follows lab hdr scan N n W held m ?s1 v s2 v'" "fine cfg single s2 (v_pic v')"
    "progress W s2 v' < progress W ?s1 v \<or> progress W s2 v' = progress W ?s1 v \<and> v_ready v' = v_ready v \<and>
       (rests W s2 v' \<or> \<not> length (held @ v_ready v) < N)" by blast
  have det: "detectOneFramePic fns m ?s1 = Inr s2" using detects k s2(1) by simp
  have c2: "control s2 = control ?s1" and b2: "buffer s2 = buffer ?s1"
    and rep2: "rep_view N n W held s2 v'" using s2(2) by (simp_all add: follows_def)
  from c2 q(2) have mq2: "mq_rep 32 (sbm_mq s2) xs" by (simp add: control_def)
  have au2: "all_units lab hdr scan m s2 held v' = all_units lab hdr scan m s held v"
    using s2(2) pics_units_buffer [OF b2, of lab m] au1 by (auto simp: all_units_def follows_def)
  have len: "length (v_ready v') \<le> length (v_ready v) + 1" using s2(2) by (auto simp: follows_def)
  obtain q3 where run: "process_round fns m s = Inr (False, s2\<lparr>sbm_mq := q3\<rparr>)"
    and q3: "mq_rep 32 q3 (if xs = [] then [READ] else xs)"
  proof (cases "xs = []")
    case True
    from post_rep [of 32 "sbm_mq s2" "[]" READ] mq2 True obtain q3 where
      "CdcMessageQueuePostMessage (sbm_mq s2) READ = Inr (0, q3)" "mq_rep 32 q3 [READ]" by auto
    with that [of q3] q(1) det k kind_known count_rep [OF mq2] True show ?thesis
      by (simp add: process_round_def thread_read_def post_message_def thread_msg_def
          SBM_THREAD_CMD_READ_def SBM_THREAD_CMD_QUIT_def Let_def)
  next
    case False
    have "s2\<lparr>sbm_mq := sbm_mq s2\<rparr> = s2" by simp
    with that [of "sbm_mq s2"] q(1) det k kind_known count_rep [OF mq2] False mq2 show ?thesis
      by (simp add: process_round_def thread_read_def thread_msg_def
          SBM_THREAD_CMD_READ_def SBM_THREAD_CMD_QUIT_def Let_def)
  qed
  let ?s3 = "s2\<lparr>sbm_mq := q3\<rparr>"
  have "all_units lab hdr scan m ?s3 held v' = all_units lab hdr scan m s2 held v'"
    by (rule all_units_keeps) (simp_all add: buffer_def)
  then show ?thesis
    using run q3 rep_view_mq [OF rep2, of q3] s2(3,4) c2 b2 au2 len k
    by (intro exI [of _ ?s3] exI [of _ v'])
      (simp add: fine_def progress_def rests_def code_found_def control_def buffer_def)
qed

lemma turn_run:
  assumes ok: "run_ok lab hdr scan cfg single kind buf N n W held v z"
    and few: "few single (length (concat (map (units scan) (fr_put z))))"
  shows "\<exists>z' v'. thread_turn fns z = Inr z' \<and> run_ok lab hdr scan cfg single kind buf N n W held v' z' \<and>
    fr_put z' = fr_put z \<and> length (v_ready v') \<le> length (v_ready v) + 1 \<and>
    nEosFlag (fr_sbm z') = nEosFlag (fr_sbm z) \<and>
    (progress W (fr_sbm z') v' < progress W (fr_sbm z) v \<or>
     progress W (fr_sbm z') v' = progress W (fr_sbm z) v \<and> v_ready v' = v_ready v \<and>
       (rests W (fr_sbm z') v' \<or> \<not> length (held @ v_ready v) < N))"
proof -
  let ?s = "fr_sbm z"
  have inv: "rep_view N n W held ?s v" "fine cfg single ?s (v_pic v)" "bStreamWithStartCode ?s = kind"
    "mq_rep 32 (sbm_mq ?s) [READ]" using ok by (simp_all add: run_ok_def)
  from read_round [OF inv run_few [OF ok few]] obtain s' v' where
    s': "process_round fns (fr_mem z) ?s = Inr (False, s')" "rep_view N n W held s' v'"
    "fine cfg single s' (v_pic v')" "bStreamWithStartCode s' = kind" "buffer s' = buffer ?s"
    "mq_rep 32 (sbm_mq s') [READ]" "nEosFlag s' = nEosFlag ?s" "resetSem s' = resetSem ?s"
    "nFPFlushPos (mFramePicFifo s') = nFPFlushPos (mFramePicFifo ?s)"
    "all_units lab hdr scan (fr_mem z) s' held v' = all_units lab hdr scan (fr_mem z) ?s held v"
    "length (v_ready v') \<le> length (v_ready v) + 1"
    "progress W s' v' < progress W ?s v \<or> progress W s' v' = progress W ?s v \<and> v_ready v' = v_ready v \<and>
       (rests W s' v' \<or> \<not> length (held @ v_ready v) < N)" by auto
  have "pic_at (mFramePicFifo s') = pic_at (mFramePicFifo ?s)"
    using s'(2,9) inv(1) by (simp add: pic_at_def fun_eq_iff rep_view_def frame_rep_def
        pictures_def pic_rep_def)
  then have "run_ok lab hdr scan cfg single kind buf N n W held v' (z\<lparr>fr_sbm := s'\<rparr>)"
    using ok s'(2-6,8,10) handles_pics [of s' ?s] by (simp add: run_ok_def)
  moreover have "thread_turn fns z = Inr (z\<lparr>fr_sbm := s'\<rparr>)" using s'(1) by (simp add: thread_turn_def)
  ultimately show ?thesis using s'(7,11,12) by (intro exI [of _ "z\<lparr>fr_sbm := s'\<rparr>"] exI [of _ v']) simp
qed

text \<open>A message that is posted is served in the second round from then on.\<close>

lemma posted_run:
  assumes ok: "run_ok lab hdr scan cfg single kind buf N n W held v z"
    and few: "few single (length (concat (map (units scan) (fr_put z))))"
  obtains s1 s2 v2 q2 where "post_message msg1 (fr_sbm z) = Inr s1"
    "process_round fns (fr_mem z) s1 = Inr (False, s2)" "rep_view N n W held s2 v2"
    "fine cfg single s2 (v_pic v2)" "bStreamWithStartCode s2 = kind" "buffer s2 = buf" "resetSem s2 = 0"
    "CdcMessageQueueTryGetMessage (sbm_mq s2) 20 = Inr (0, Some msg1, q2)" "mq_rep 32 q2 []"
proof -
  let ?s = "fr_sbm z"
  have inv: "rep_view N n W held ?s v" "fine cfg single ?s (v_pic v)" "bStreamWithStartCode ?s = kind"
    "mq_rep 32 (sbm_mq ?s) [READ]" "buffer ?s = buf" "resetSem ?s = 0" using ok by (simp_all add: run_ok_def)
  from post_rep [OF inv(4), of msg1] obtain q where
    q: "CdcMessageQueuePostMessage (sbm_mq ?s) msg1 = Inr (0, q)" "mq_rep 32 q [READ, msg1]" by auto
  let ?s1 = "?s\<lparr>sbm_mq := q\<rparr>"
  have au1: "all_units lab hdr scan (fr_mem z) ?s1 held v = all_units lab hdr scan (fr_mem z) ?s held v"
    by (rule all_units_keeps) (simp_all add: buffer_def)
  have fine1: "fine cfg single ?s1 (v_pic v)" using inv(2) by (simp add: fine_def code_found_def)
  from read_round [where xs = "[msg1]" and m = "fr_mem z", OF rep_view_mq [OF inv(1), of q] fine1]
    inv(3) q(2) run_few [OF ok few] au1 obtain s2 v2 where
    s2: "process_round fns (fr_mem z) ?s1 = Inr (False, s2)" "rep_view N n W held s2 v2"
    "fine cfg single s2 (v_pic v2)" "bStreamWithStartCode s2 = kind" "buffer s2 = buffer ?s1"
    "mq_rep 32 (sbm_mq s2) [msg1]" "resetSem s2 = resetSem ?s1" by auto
  from get_rep [OF s2(6), of 20] obtain q2 where
    "CdcMessageQueueTryGetMessage (sbm_mq s2) 20 = Inr (0, Some msg1, q2)" "mq_rep 32 q2 []" by blast
  with that [of ?s1 s2 v2 q2] q(1) s2 inv(5,6) show ?thesis by (simp add: post_message_def buffer_def)
qed

text \<open>A request to quit ends the thread.\<close>

lemma quit_run:
  assumes "run_ok lab hdr scan cfg single kind buf N n W held v z"
    and "few single (length (concat (map (units scan) (fr_put z))))"
  shows "\<exists>s1 s2 s3. quit_request (fr_sbm z) = Inr s1 \<and>
    process_round fns (fr_mem z) s1 = Inr (False, s2) \<and> process_round fns (fr_mem z) s2 = Inr (True, s3)"
  by (rule posted_run [OF assms, of "thread_msg SBM_THREAD_CMD_QUIT"])
    (auto simp: quit_request_def process_round_def thread_msg_def Let_def)

text \<open>A reset: the caller returns, and finds the manager as it was created.\<close>

lemma reset_run:
  assumes ok: "run_ok lab hdr scan cfg single kind buf N n W held v z"
    and few: "few single (length (concat (map (units scan) (fr_put z))))"
  shows "\<exists>z'. reset_manager fns z = Inr z' \<and> fr_put z' = [] \<and> fr_read z' = [] \<and>
    run_ok lab hdr scan cfg single kind buf N n 0 [] (mk_view 0 [] None None []) z'"
proof -
  let ?RESET = "thread_msg SBM_THREAD_CMD_RESET"
  from posted_run [OF ok few, of ?RESET] obtain s1 s2 v2 q2 where
    s1: "post_message ?RESET (fr_sbm z) = Inr s1" and
    s2: "process_round fns (fr_mem z) s1 = Inr (False, s2)" "rep_view N n W held s2 v2"
    "fine cfg single s2 (v_pic v2)" "bStreamWithStartCode s2 = kind" "buffer s2 = buf" "resetSem s2 = 0"
    and q2: "CdcMessageQueueTryGetMessage (sbm_mq s2) 20 = Inr (0, Some ?RESET, q2)" "mq_rep 32 q2 []" .
  let ?s2 = "s2\<lparr>sbm_mq := q2\<rparr>"
  from thread_reset_rep [OF rep_view_mq [OF s2(2), of q2, unfolded rep_view_def]] obtain s3 where
    s3: "thread_reset ?s2 = Inr s3" "frame_rep N n 0 0 s3 [] [] None None []"
    "bStreamWithStartCode s3 = kind" "mConfig s3 = mConfig s2" "sbm_mq s3 = q2" "code_found s3 = 0"
    "buffer s3 = buf" "resetSem s3 = 1"
    using s2(4-6) by (auto simp: buffer_def)
  have r3: "process_round fns (fr_mem z) s2 = Inr (False, s3)"
    using q2(1) s3(1) by (simp add: process_round_def thread_msg_def SBM_THREAD_CMD_READ_def
        SBM_THREAD_CMD_QUIT_def SBM_THREAD_CMD_RESET_def Let_def)
  from post_rep [OF q2(2), of READ] obtain q3 where
    q3: "CdcMessageQueuePostMessage q2 READ = Inr (0, q3)" "mq_rep 32 q3 [READ]" by auto
  let ?s4 = "s3\<lparr>resetSem := 0, sbm_mq := q3\<rparr>" and ?v = "mk_view 0 [] None None []"
  let ?z' = "z\<lparr>fr_sbm := ?s4, fr_held := [], fr_put := [], fr_read := []\<rparr>"
  have "reset_manager fns z = Inr ?z'"
    using s1 s2(1) r3 q3(1) s3(5,8)
    by (simp add: reset_manager_def reset_request_def reset_return_def post_message_def)
  moreover have rep4: "rep_view N n 0 [] ?s4 ?v"
    using s3(2) frame_rep_same [of ?s4 s3] by (simp add: rep_view_def buffer_def window_def)
  have "fine cfg single ?s4 None" using s2(3) s3(4,6) by (simp add: fine_def code_found_def)
  with rep4 have "run_ok lab hdr scan cfg single kind buf N n 0 [] ?v ?z'"
    using s3(2,3,7) q3(2) by (simp add: run_ok_def handles_def buffer_def all_units_def open_units_def
        opt_units_def todo_def left_bytes_def units_short frame_rep_def streams_def)
  ultimately show ?thesis by (intro exI [of _ ?z']) simp
qed

text \<open>Any sequence of calls and turns.\<close>

lemma event_run:
  assumes ok: "run_ok lab hdr scan cfg single kind buf N n W held v z" and ev: "event_ok e"
    and few: "few single (length (concat (map (units scan) (fr_put z))))"
  shows "\<exists>z' W' held' v'. run_event fns lab e z = Inr z' \<and>
    run_ok lab hdr scan cfg single kind buf N n W' held' v' z' \<and>
    (fr_put z' = fr_put z \<or> fr_put z' = fr_put z @ pieces_put [e] \<or> fr_put z' = [])"
proof (cases e)
  case (Put d bs)
  with ev have "5 \<le> length bs" "int (length bs) + 64 < 2 ^ 31" by simp_all
  from put_run [OF ok this, of d] Put show ?thesis by fastforce
next
  case Turn
  from turn_run [OF ok few] Turn show ?thesis by fastforce
next
  case Take
  from take_run [OF ok] Take show ?thesis by fastforce
next
  case GiveBack
  from give_back_run [OF ok] GiveBack show ?thesis by fastforce
next
  case Flush
  from flush_run [OF ok] Flush show ?thesis by fastforce
next
  case Reset
  from reset_run [OF ok few] Reset show ?thesis by fastforce
next
  case (Eos b)
  from eos_run [OF ok, of b] Eos show ?thesis by fastforce
qed

lemma events_run:
  assumes "run_ok lab hdr scan cfg single kind buf N n W held v z" and "list_all event_ok es"
    and "few single (length (concat (map (units scan) (fr_put z @ pieces_put es))))"
  shows "\<exists>z' W' held' v'. run_events fns lab es z = Inr z' \<and>
    run_ok lab hdr scan cfg single kind buf N n W' held' v' z' \<and>
    length (concat (map (units scan) (fr_put z'))) \<le>
      length (concat (map (units scan) (fr_put z @ pieces_put es)))"
  using assms
proof (induction es arbitrary: z W held v)
  case Nil
  then show ?case by auto
next
  case (Cons e es)
  have few: "few single (length (concat (map (units scan) (fr_put z))))"
    using Cons.prems(3) by (auto simp: few_def)
  from Cons.prems(2) have "event_ok e" by simp
  from event_run [OF Cons.prems(1) this few] obtain z1 W1 held1 v1 where
    z1: "run_event fns lab e z = Inr z1" "run_ok lab hdr scan cfg single kind buf N n W1 held1 v1 z1"
    "fr_put z1 = fr_put z \<or> fr_put z1 = fr_put z @ pieces_put [e] \<or> fr_put z1 = []" by blast
  have le: "length (concat (map (units scan) (fr_put z1 @ pieces_put es))) \<le>
      length (concat (map (units scan) (fr_put z @ pieces_put (e # es))))"
    using z1(3) by (cases e) auto
  with Cons.prems(3) have "few single (length (concat (map (units scan) (fr_put z1 @ pieces_put es))))"
    by (auto simp: few_def)
  with Cons.IH [OF z1(2)] Cons.prems(2) obtain z' W' held' v' where
    "run_events fns lab es z1 = Inr z'" "run_ok lab hdr scan cfg single kind buf N n W' held' v' z'"
    "length (concat (map (units scan) (fr_put z'))) \<le>
      length (concat (map (units scan) (fr_put z1 @ pieces_put es)))" by auto
  with z1(1) le show ?case by (auto simp del: map_append concat_append)
qed

text \<open>
  Rounds at the end of the stream: the thread gets a turn, the decoder takes a picture and gives
  the oldest one up. Each round has an effect until nothing is left.
\<close>

lemma round_run:
  assumes ok: "run_ok lab hdr scan cfg single kind buf N n W held v z" and eos: "nEosFlag (fr_sbm z) = 1"
    and few: "few single (length (concat (map (units scan) (fr_put z))))"
  shows "\<exists>z' held' v'. run_events fns lab [Turn, Take, Flush] z = Inr z' \<and>
    run_ok lab hdr scan cfg single kind buf N n W held' v' z' \<and> fr_put z' = fr_put z \<and>
    nEosFlag (fr_sbm z') = 1 \<and>
    (work W held' v' z' < work W held v z \<or> work W held' v' z' = 0 \<and> work W held v z = 0)"
proof -
  from turn_run [OF ok few] obtain z1 v1 where
    z1: "thread_turn fns z = Inr z1" "run_ok lab hdr scan cfg single kind buf N n W held v1 z1"
    "fr_put z1 = fr_put z" "length (v_ready v1) \<le> length (v_ready v) + 1" "nEosFlag (fr_sbm z1) = nEosFlag (fr_sbm z)"
    and turn: "progress W (fr_sbm z1) v1 < progress W (fr_sbm z) v \<or>
     progress W (fr_sbm z1) v1 = progress W (fr_sbm z) v \<and> v_ready v1 = v_ready v \<and>
       (rests W (fr_sbm z1) v1 \<or> \<not> length (held @ v_ready v) < N)" by blast
  from take_run [OF z1(2)] obtain z2 held2 v2 where
    z2: "take_picture z1 = Inr z2" "run_ok lab hdr scan cfg single kind buf N n W held2 v2 z2"
    "held2 @ v_ready v2 = held @ v_ready v1" "fr_put z2 = fr_put z1"
    "progress W (fr_sbm z2) v2 = progress W (fr_sbm z1) v1" "held @ v_ready v1 \<noteq> [] \<longrightarrow> held2 \<noteq> []"
    "nEosFlag (fr_sbm z2) = nEosFlag (fr_sbm z1)" by blast
  from flush_run [OF z2(2)] obtain z3 held3 where
    z3: "flush_picture lab z2 = Inr z3" "run_ok lab hdr scan cfg single kind buf N n W held3 v2 z3"
    "fr_put z3 = fr_put z2" "held3 = tl held2" "progress W (fr_sbm z3) v2 = progress W (fr_sbm z2) v2"
    "nEosFlag (fr_sbm z3) = nEosFlag (fr_sbm z2)" by blast
  have rv: "rep_view N n W held (fr_sbm z) v" "rep_view N n W held (fr_sbm z1) v1"
    using ok z1(2) by (simp_all add: run_ok_def)
  note nn = progress_nonneg [OF rv(1)] progress_nonneg [OF rv(2)]
  have N: "0 < N" using rv(1) by (simp add: rep_view_def frame_rep_def pictures_def pic_rep_def)
  have rest: "progress W (fr_sbm z1) v1 = 0" if "rests W (fr_sbm z1) v1"
    using that eos z1(5) by (simp add: rests_def progress_def)
  have len: "length held2 + length (v_ready v2) = length held + length (v_ready v1)"
    using arg_cong [OF z2(3), of length] by simp
  have "run_events fns lab [Turn, Take, Flush] z = Inr z3" using z1(1) z2(1) z3(1) by simp
  moreover have "work W held3 v2 z3 < work W held v z \<or> work W held3 v2 z3 = 0 \<and> work W held v z = 0"
  proof (cases "held @ v_ready v1 = []")
    case True
    then have "held3 = []" "v_ready v2 = []" "held2 = []" using z2(3) z3(4) by simp_all
    then have w3: "work W held3 v2 z3 = nat (2 * progress W (fr_sbm z1) v1)"
      using z2(5) z3(5) by (simp add: work_def)
    from turn True N rest nn w3 show ?thesis by (auto simp: work_def)
  next
    case False
    then have "length held3 + 1 = length held2" using z2(6) z3(4) by (cases held2) auto
    then have w3: "work W held3 v2 z3 + 1 = nat (2 * progress W (fr_sbm z1) v1) + length held + length (v_ready v1)"
      using z2(5) z3(5) len by (simp add: work_def)
    from turn have "nat (2 * progress W (fr_sbm z1) v1) + length (v_ready v1) \<le>
        nat (2 * progress W (fr_sbm z) v) + length (v_ready v)"
      using z1(4) nn by (auto simp: nat_le_iff)
    with w3 show ?thesis by (simp add: work_def)
  qed
  ultimately show ?thesis using z1(3,5) z2(4,7) z3(2,3,6) eos
    by (intro exI [of _ z3] exI [of _ held3] exI [of _ v2]) simp
qed

lemma rounds_run:
  assumes "run_ok lab hdr scan cfg single kind buf N n W held v z" and "nEosFlag (fr_sbm z) = 1"
    and "few single (length (concat (map (units scan) (fr_put z))))" and "work W held v z \<le> k"
  shows "\<exists>z' held' v'. run_events fns lab (concat (replicate k [Turn, Take, Flush])) z = Inr z' \<and>
    run_ok lab hdr scan cfg single kind buf N n W held' v' z' \<and> fr_put z' = fr_put z \<and>
    nEosFlag (fr_sbm z') = 1 \<and> work W held' v' z' = 0"
  using assms
proof (induction k arbitrary: z held v)
  case 0
  then show ?case by auto
next
  case (Suc k)
  from round_run [OF Suc.prems(1-3)] obtain z1 held1 v1 where
    z1: "run_events fns lab [Turn, Take, Flush] z = Inr z1"
    "run_ok lab hdr scan cfg single kind buf N n W held1 v1 z1" "fr_put z1 = fr_put z"
    "nEosFlag (fr_sbm z1) = 1"
    "work W held1 v1 z1 < work W held v z \<or> work W held1 v1 z1 = 0 \<and> work W held v z = 0" by blast
  have "work W held1 v1 z1 \<le> k" using z1(5) Suc.prems(4) by linarith
  with Suc.IH [OF z1(2,4)] Suc.prems(3) z1(3) obtain z' held' v' where
    z': "run_events fns lab (concat (replicate k [Turn, Take, Flush])) z1 = Inr z'"
    "run_ok lab hdr scan cfg single kind buf N n W held' v' z'" "fr_put z' = fr_put z1"
    "nEosFlag (fr_sbm z') = 1" "work W held' v' z' = 0" by auto
  let ?es = "concat (replicate k [Turn, Take, Flush])"
  have "concat (replicate (Suc k) [Turn, Take, Flush]) = [Turn, Take, Flush] @ ?es" by simp
  then have "run_events fns lab (concat (replicate (Suc k) [Turn, Take, Flush])) z
      = and_then (Inr z1) (run_events fns lab ?es)"
    by (simp only: run_events_append z1(1))
  with z' z1(3) show ?case by (intro exI [of _ z'] exI [of _ held'] exI [of _ v']) simp
qed

text \<open>The work that is left is bounded by the size of the buffer.\<close>

lemma work_bound:
  assumes "run_ok lab hdr scan cfg single kind buf N n W held v z"
  shows "work W held v z \<le> 4 * nat (snd buf) + 2 + N"
proof -
  let ?s = "fr_sbm z"
  have rep: "rep_view N n W held ?s v" and b: "snd buf = nStreamBufferSize ?s"
    using assms by (auto simp: run_ok_def buffer_def)
  note rep' = rep [unfolded rep_view_def]
  have N: "length held + length (v_ready v) \<le> N"
    using rep' by (auto simp: frame_rep_def pictures_def pic_rep_def)
  have "nValidDataSize ?s + 64 \<le> nStreamBufferSize ?s" "0 \<le> len_of (v_pic v)"
    using rep' by (auto simp: frame_rep_def layout_def Let_def len_of_def pic_in_def split: option.splits)
  then have "W - v_pos v \<le> nStreamBufferSize ?s" using nValid_nonneg(2) [OF rep'] by linarith
  then have "2 * progress W ?s v \<le> 4 * nStreamBufferSize ?s + 2" by (simp add: progress_def)
  then have "nat (2 * progress W ?s v) \<le> 4 * nat (nStreamBufferSize ?s) + 2" by (simp add: nat_le_iff)
  with N show ?thesis unfolding work_def b by linarith
qed

lemma all_done:
  assumes ok: "run_ok lab hdr scan cfg single kind buf N n W held v z" and eos: "nEosFlag (fr_sbm z) = 1"
    and idle: "work W held v z = 0" and "single"
  shows "fr_read z = label_units hdr (concat (map (units scan) (fr_put z)))"
proof -
  let ?s = "fr_sbm z"
  have rep: "rep_view N n W held ?s v" and fine: "fine cfg single ?s (v_pic v)" using ok by (simp_all add: run_ok_def)
  have d: "progress W ?s v \<le> 0" "held = []" "v_ready v = []" using idle by (simp_all add: work_def)
  then have x: "v_pos v = W" "code_found ?s \<noteq> 1"
    using rep_view_end(2) [OF rep] by (auto simp: progress_def split: if_splits)
  have "opt_units lab (fr_mem z) ?s (v_pic v) = []"
    using fine x(2) \<open>single\<close> by (cases "v_pic v") (auto simp: opt_units_def fine_def pic_units_def)
  with todo_end [OF rep x(1)] d have "all_units lab hdr scan (fr_mem z) ?s held v = []"
    by (simp add: all_units_def open_units_def)
  with ok show ?thesis by (simp add: run_ok_def)
qed

text \<open>
  What any run gives, from a state of the invariant in which nothing has been put or read: no
  fault, and the NAL units read so far are the first ones of the pieces put.
\<close>

lemma run_prefix:
  assumes "run_ok lab hdr scan cfg single kind buf N n W held v z" and "list_all event_ok es"
    and "few single (length (concat (map (units scan) (fr_put z @ pieces_put es))))"
  shows "\<exists>z' rest. run_events fns lab es z = Inr z' \<and>
    fr_read z' @ rest = label_units hdr (concat (map (units scan) (fr_put z')))"
  using events_run [OF assms] unfolding run_ok_def by blast

lemma run_complete:
  assumes ok: "run_ok lab hdr scan cfg single kind buf N n W held v z" and ev: "list_all event_ok es"
    and few: "few single (length (concat (map (units scan) (fr_put z @ pieces_put es))))"
    and k: "4 * nat (snd buf) + 2 + N \<le> k" and "single"
  shows "\<exists>z'. run_events fns lab (es @ Eos 1 # concat (replicate k [Turn, Take, Flush])) z = Inr z' \<and>
    fr_read z' = label_units hdr (concat (map (units scan) (fr_put z')))"
proof -
  from events_run [OF ok ev few] obtain z1 W1 held1 v1 where z1: "run_events fns lab es z = Inr z1"
    "run_ok lab hdr scan cfg single kind buf N n W1 held1 v1 z1" by blast
  let ?z2 = "z1\<lparr>fr_sbm := (fr_sbm z1)\<lparr>nEosFlag := 1\<rparr>\<rparr>"
  have few': "few single (length (concat (map (units scan) (fr_put ?z2))))" using \<open>single\<close> by (simp add: few_def)
  note ok2 = eos_run [OF z1(2), of 1]
  from work_bound [OF ok2] k have "work W1 held1 v1 ?z2 \<le> k" by linarith
  from rounds_run [OF ok2 _ few' this] obtain z' held' v' where
    z': "run_events fns lab (concat (replicate k [Turn, Take, Flush])) ?z2 = Inr z'"
    "run_ok lab hdr scan cfg single kind buf N n W1 held' v' z'" "nEosFlag (fr_sbm z') = 1"
    "work W1 held' v' z' = 0" by auto
  from all_done [OF z'(2-4) \<open>single\<close>] z1(1) z'(1) show ?thesis
    by (simp add: run_events_append)
qed

end

end
