(* ===== verification/SbmFrameTheorems.thy ===== *)
theory SbmFrameTheorems
  imports SbmRuns
begin

text \<open>
  The instances of the interface for H.264 and H.265, creation, and what the frame-based stream
  manager guarantees.
\<close>

section \<open>The four instances\<close>





section \<open>Creation\<close>












text \<open>A manager and a run to try the theorems on: pieces, turns, pictures taken and flushed, a reset.\<close>

definition sample_config :: SbmFrameConfig where
  "sample_config = \<lparr>bVirFlag = 0, nSbmBufferTotalSize = 200, nWidth = 1920, nConfigSbmBufferSize = 0,
     nNaluLength = 2\<rparr>"





section \<open>What is guaranteed\<close>













section \<open>A manager at work\<close>

text \<open>A piece of 16 bytes has been taken, a picture for it is open.\<close>

definition sample_piece :: VideoStreamDataInfo where
  "sample_piece = zero_info\<lparr>pData := 4096, nLength := 16\<rparr>"

definition sample_pic :: FramePicInfo where
  "sample_pic = zero_pic\<lparr>nMaxNaluNum := 32\<rparr>"

definition sample_manager :: SbmFrame where
  "sample_manager = \<lparr>pStreamBuffer = 4096, pStreamBufferEnd = 4295, nStreamBufferSize = 200,
     pWriteAddr = 4112, nValidDataSize = 16,
     frameFifo = \<lparr>pFrames = (\<lambda>_. sample_piece), nMaxFrameNum = 4, nValidFrameNum = 1,
       nUnReadFrameNum = 0, nReadPos = 1, nWritePos = 1, nFlushPos = 0\<rparr>,
     sbm_mq = \<lparr>pName = None, pHead = None, nCount = 0, Nodes = (\<lambda>_. zero_node),
       nMaxMessageNum = 32, sem = 0\<rparr>,
     mFramePicFifo = \<lparr>pFramePics = (\<lambda>_. sample_pic), nMaxFramePicNum = 4, nValidFramePicNum = 0,
       nUnReadFramePicNum = 0, nFPReadPos = 0, nFPWritePos = 0, nFPFlushPos = 0\<rparr>,
     streamDataSem = 0, emptyFramePicSem = 0, resetSem = 0, bStreamWithStartCode = 0,
     mDetectInfo = \<lparr>pCurStream = Some 0, pCurStreamDataptr = 4096, nCurStreamDataSize = 16,
       nCurStreamRebackFlag = 0, pCurFramePic = Some 0, bCurFrameStartCodeFound = 0,
       nCurFramePtsList = replicate 10 (-1)\<rparr>,
     mConfig = sample_config\<lparr>nNaluLength := 4\<rparr>, nEosFlag = 0, pDetectBufStart = 4096,
     pDetectBufEnd = 4295, sbm_nType = SBM_TYPE_FRAME_AVC\<rparr>"

text \<open>Sixteen bytes with a start code in the middle, and with a negative length in front.\<close>

definition sample_codes :: memory where
  "sample_codes a = (if a = 4104 then 1 else if a = 4102 \<or> a = 4103 then 0 else 0x55)"

definition sample_lengths :: memory where
  "sample_lengths a = (if a = 4096 then 0xff else 0x65)"

lemma sample_manager_rep:
  "frame_rep 4 4 16 0 sample_manager [] [] (Some sample_pic) (Some sample_piece) []"
  by (simp add: frame_rep_def streams_def pictures_def layout_def window_def reading_at_def pic_rep_def
      fifo_rep_def addr_of_def ring_at_def len_of_def pic_in_def sample_manager_def sample_pic_def
      sample_piece_def zero_pic_def zero_info_def Let_def)

section \<open>The search for a start code\<close>

text \<open>C15: \<^verbatim>\<open>searchStartCode\<close> finds what a search of the list of the bytes left finds, whichever of its
  two loops runs (the one that reads around the end of the ring, or the one with a running
  pointer), and never reads outside the buffer: result 0 and the index behind the first
  start code that another byte follows, or -1.
\<close>

theorem start_code_search_is_list_search:
  assumes "frame_rep N n W x s held ready p (Some e) es"
  shows "searchStartCode m (pStreamBuffer s) (pStreamBufferEnd s) s = Inr
    (case find_code (bytes_at m s x (nat (nCurStreamDataSize (mDetectInfo s)))) of
       None \<Rightarrow> (-1, int (nat (nCurStreamDataSize (mDetectInfo s) - 3)))
     | Some k \<Rightarrow> (0, int k))"
  using searchStartCode_eq [OF frame_rep_reading(1,2) [OF assms], of m]
  by (auto simp: search_result_def left_bytes_def split: option.splits)

theorem start_code_search_is_list_search_witness:
  "searchStartCode sample_codes 4096 4295 sample_manager = Inr (0, 9)"
proof -
  have "find_code (bytes_at sample_codes sample_manager 0 16) = Some 9" by code_simp
  moreover have "pStreamBuffer sample_manager = 4096" "pStreamBufferEnd sample_manager = 4295"
    "nCurStreamDataSize (mDetectInfo sample_manager) = 16" by (simp_all add: sample_manager_def)
  ultimately show ?thesis
    using start_code_search_is_list_search [OF sample_manager_rep, of sample_codes] by simp
qed

section \<open>Lengths with the top bit set\<close>

lemma supply_not_needed:
  assumes "frame_rep N n W x s held ready p (Some e) es" and "5 \<le> left_size s"
  shows "supply_step reback s = Inr (True, s)"
proof -
  from frame_rep_reading [OF assms(1)] addr_of_range(3) [of s x]
  have "pCurStreamDataptr (mDetectInfo s) \<noteq> 0" by (simp add: reading_at_def Let_def)
  with assms(2) show ?thesis by (simp add: supply_step_def)
qed

lemma top_bit:
  fixes w :: "32 word"
  assumes "bit w 31"
  shows "sint w < 0" "2 ^ 31 \<le> uint w"
proof -
  show "sint w < 0" using assms bit_last_iff [of w] by simp
  then have "\<not> unat w < 2 ^ 31" using sint_small [of w] by linarith
  then have "int (2 ^ 31) \<le> int (unat w)" by (simp only: of_nat_le_iff not_less)
  then show "2 ^ 31 \<le> uint w" by simp
qed

lemma store_runs:
  assumes "frame_rep N n W x s held ready (Some q) (Some e) es"
  shows "\<exists>s' i. store_nalu fill flags s = Inr s' \<and> left_size s' = left_size s \<and>
    pCurFramePic (mDetectInfo s') = Some i"
proof -
  note q = frame_rep_pic [OF assms]
  have "cur_pic s = Inr q" "cur_stream s = Inr e" "pCurFramePic (mDetectInfo s) \<noteq> None"
    using cur_pic_eq [OF q(4)] cur_stream_eq assms q(4) by (auto simp: frame_rep_def pictures_def)
  with q(1,2) show ?thesis
    by (auto simp: store_nalu_def upd_cur_pic_def upd_detect_def set_pic_def Let_def)
qed

text \<open>C16: in an H.264 stream with lengths of four bytes, a length with the top bit set is taken as a
  negative size: the check against the bytes left passes, a NAL unit of negative size is stored,
  and the bytes left grow by as much as the size is below 0. (H.265 compares the same number as
  unsigned and gives the piece up.)
\<close>

theorem h264_negative_nal_size_accepted:
  assumes rep: "frame_rep N n W x s held ready (Some q) (Some e) es" and left: "5 \<le> left_size s"
    and first: "code_found s = 0" "nCurNaluIdx q = 0" and k: "nNaluLength (mConfig s) = 4"
    and top: "bit (shift_in 0 (take 4 (left_bytes m s x))) 31"
  shows "\<exists>s' size. avc_without_body m s = Inr (Go s') \<and> size < 0 \<and>
    left_size s' = left_size s - 4 - size \<and>
    \<not> hevc_fits (shift_in 0 (take 4 (left_bytes m s x))) (left_size s - 4)"
proof -
  let ?w = "shift_in 0 (take 4 (left_bytes m s x))"
  have w: "sint ?w < 0" "?w \<noteq> 0" "2 ^ 31 \<le> uint ?w" using top_bit [OF top] by auto
  from begin_pic_rep [OF rep] obtain s1 q1 where s1: "begin_pic s = Inr s1" "keeps s s1"
    "mDetectInfo s1 = mDetectInfo s" "same_nalus q1 q"
    "frame_rep N n W x s1 held ready (Some q1) (Some e) es" by blast
  note r = frame_rep_reading [OF s1(5)]
  have b: "buffer s1 = buffer s" and c: "mConfig s1 = mConfig s" using s1(2) by (simp_all add: keeps_def control_def)
  have lb: "left_bytes m s1 x = left_bytes m s x"
    using s1(3) by (simp add: left_bytes_def bytes_at_buffer [OF b])
  have B: "left_size s1 \<le> nStreamBufferSize s1" "nStreamBufferSize s1 < 2 ^ 31"
    "pCurStreamDataptr (mDetectInfo s1) = addr_of s1 x"
    using r(1,2) by (simp_all add: reading_at_def window_def Let_def)
  have "int 4 \<le> nStreamBufferSize s1" "int 4 \<le> left_size s1" "int 4 < left_size s1"
    using left s1(3) B(1) by simp_all
  note rd = read_prefix [OF r(1) this(1,2) B(3), of m, unfolded lb]
    and hb = header_byte(1) [OF s1(5) this(3), of m]
  have cp: "cur_pic s1 = Inr q1" by (rule cur_pic_eq [OF frame_rep_pic(4) [OF s1(5)]])
  from open_pic_rep [OF s1(5), of "avc_nalu_type (hd (drop 4 (left_bytes m s1 x)))"] obtain s3 q3 where
    s3: "avc_boundary (pCurStreamDataptr (mDetectInfo s1) + 4) (hd (drop 4 (left_bytes m s1 x))) s1 = Inr (True, s3)"
    "buffer s3 = buffer s1" "left_size s3 = left_size s1" "pStreamBufferEnd s3 = pStreamBufferEnd s1"
    "frame_rep N n W x s3 held ready (Some q3) (Some e) es"
    using first(1) s1(3) by (auto simp: avc_boundary_def code_found_def)
  have "int 4 \<le> left_size s3" using left s1(3) s3(3) by simp
  from skip_prefix [OF s3(5) this, of m] obtain s4 where
    "skipCurStreamDataBytes (pStreamBuffer s3) (pStreamBufferEnd s3) (int 4) s3 = Inr s4"
    "left_size s4 = left_size s3 - int 4"
    "frame_rep N n W (x + int 4) s4 held ready (Some (grow q3 (int 4))) (Some e) es" by blast
  then obtain q4 where
    s4: "skipCurStreamDataBytes (pStreamBuffer s3) (pStreamBufferEnd s3) 4 s3 = Inr s4"
    "left_size s4 = left_size s3 - 4" "frame_rep N n W (x + 4) s4 held ready (Some q4) (Some e) es" by simp
  from store_runs [OF s4(3)] obtain s5 i where
    s5: "store_nalu (avc_fill (hd (drop 4 (left_bytes m s1 x))) (sint ?w) (pCurStreamDataptr (mDetectInfo s4))) avc_flags s4 = Inr s5"
    "left_size s5 = left_size s4" "pCurFramePic (mDetectInfo s5) = Some i" by blast
  obtain s6 where s6: "skipCurStreamDataBytes (pStreamBuffer s3) (pStreamBufferEnd s3) (sint ?w) s5 = Inr s6"
    "left_size s6 = left_size s5 - sint ?w"
    using s5(3) by (auto simp: skipCurStreamDataBytes_def upd_cur_pic_def upd_detect_def set_pic_def Let_def)
  have lims: "pStreamBuffer s3 = pDetectBufStart s" "pStreamBufferEnd s3 = pDetectBufEnd s"
    "pStreamBuffer s1 = pDetectBufStart s" "pStreamBufferEnd s1 = pDetectBufEnd s"
    using window_limits [OF rep] window_limits [OF s1(5)] s3(2,4) b by (simp_all add: window_def buffer_def)
  have f: "avc_fits ?w (left_size s1 - 4)" "\<not> nCurNaluIdx q1 > MAX_NALU_NUM_IN_FRAME"
    using w(1) left s1(3,4) first(2) by (simp_all add: avc_fits_def same_nalus_def MAX_NALU_NUM_IN_FRAME_def)
  have "avc_without_body m s = Inr (Go s6)"
    using rd hb cp s3(1) s4(1) s5(1) s6(1) f w(2) c k unfolding lims
    by (simp add: avc_without_body_def detection_round_def supply_not_needed [OF rep left] s1(1)
        with_length_unit_def avc_storeNaluInfo_def Let_def)
  moreover have "\<not> hevc_fits ?w (left_size s - 4)"
  proof -
    have rest: "0 \<le> left_size s - 4" "left_size s - 4 < 2 ^ 31" using left B(1,2) s1(3) by simp_all
    have "length (take 4 (left_bytes m s x)) = 4" using left by (simp add: left_bytes_def)
    with hevc_fits_ok [of 4] rest have "hevc_fits ?w (left_size s - 4) \<longleftrightarrow> int (unat ?w) \<le> left_size s - 4"
      unfolding fits_ok_def by blast
    with w(3) rest(2) show ?thesis by simp
  qed
  ultimately show ?thesis using w(1) s1(3) s3(3) s4(2) s5(2) s6(2)
    by (intro exI [of _ s6] exI [of _ "sint ?w"]) simp
qed

theorem h264_negative_nal_size_accepted_witness:
  "\<exists>s' size. avc_without_body sample_lengths sample_manager = Inr (Go s') \<and> size < 0 \<and>
    left_size s' = 12 - size"
proof -
  have "bit (shift_in 0 (take 4 (left_bytes sample_lengths sample_manager 0))) 31" by code_simp
  moreover have "5 \<le> left_size sample_manager" "code_found sample_manager = 0" "nCurNaluIdx sample_pic = 0"
    "nNaluLength (mConfig sample_manager) = 4" "left_size sample_manager = 16"
    by (simp_all add: sample_manager_def code_found_def sample_pic_def zero_pic_def)
  ultimately show ?thesis
    using h264_negative_nal_size_accepted [OF sample_manager_rep, of sample_lengths] by auto
qed

end
