(* ===== verification/Spec2Isabelle.thy ===== *)
theory Spec2Isabelle
  imports CedarPrelude MessageQueue SbmStream VideoStream FbmTheorems FbmMemory Vp9Entropy Vp9Pictures
    IonTheorems H264Theorems H264HeaderTheorems H264PocTheorems SbmFrameTheorems
begin

text \<open>
  CedarC is the user-space driver of the Allwinner video engine. An application creates a decoder
  (\<^verbatim>\<open>vdecoder/vdecoder.c\<close>), asks for space in a ring buffer, writes compressed data and submits it. The
  stream buffer manager (\<^verbatim>\<open>vdecoder/sbm\<close>) queues the frames; a codec (\<^verbatim>\<open>vdecoder/videoengine/*\<close>) takes
  them, programs the engine and hands finished pictures to the frame buffer manager
  (\<^verbatim>\<open>vdecoder/fbm.c\<close>), from which a renderer takes and returns them. Picture memory comes from the ION
  allocator (\<^verbatim>\<open>memory/ionMemory\<close>); threads talk through message queues (\<^verbatim>\<open>base/CdcMessageQueue.c\<close>).

  \<^bold>\<open>Conventions.\<close> A C function is a HOL function of the same name that returns its result and the new
  state. Faults (null or out-of-range access, \<^verbatim>\<open>abort\<close>, a loop that does not end) are the left summand of
  the type \<open>res\<close>, so that a theorem \<open>f x = Inr y\<close> says that the code runs to its end without fault.
  Pointers are table indices or addresses; the answers of the kernel, of \<^verbatim>\<open>malloc\<close> and of the memory driver
  are arguments. Integers are words where their wrap-around matters, else \<open>int\<close> or \<open>nat\<close>. Locks are left
  out where a whole operation runs under one: an operation is then atomic. Logging is left out.

  \<^bold>\<open>Interfaces.\<close> \<^verbatim>\<open>CedarPrelude\<close> holds \<open>res\<close>, list and map lemmas, and the locales the parts are
  interpretations of: a first-in-first-out queue and its bounded form (message queue, frame lists of the
  frame buffer manager, VP9 ring), a component that follows a specification on every allowed sequence of
  calls (\<open>follows_spec\<close>: frame buffer manager, VP9 buffers, ION allocator), and the stream buffer as the
  decoder front end uses it.

  \<^bold>\<open>Parts.\<close>
  \<^item> \<^verbatim>\<open>MessageQueue\<close>: \<^verbatim>\<open>base/CdcMessageQueue.c\<close>, all functions. A step relation interleaves posts, gets,
    waits and flushes; the invariant ties semaphore tokens to stored messages.
  \<^item> \<^verbatim>\<open>SbmStream\<close>: \<^verbatim>\<open>vdecoder/sbm/sbmStream.c\<close>, the ring of bytes and the ring of frame descriptors; it
    refines a pair of queues (waiting and lent frames).
  \<^item> \<^verbatim>\<open>VideoStream\<close>: space requests and frame assembly in \<^verbatim>\<open>vdecoder/vdecoder.c\<close>.
  \<^item> \<^verbatim>\<open>FbmTypes\<close>, \<^verbatim>\<open>Fbm\<close>, \<^verbatim>\<open>FbmDisplay\<close>, \<^verbatim>\<open>FbmAlloc\<close>: \<^verbatim>\<open>vdecoder/fbm.c\<close> (queues and their walks; request,
    return, share and flush; buffers of the display; creation and picture memory). \<^verbatim>\<open>FbmPool\<close> relates them
    to an abstract pool, \<^verbatim>\<open>FbmSystem\<close> composes it over call sequences, \<^verbatim>\<open>FbmTheorems\<close> and \<^verbatim>\<open>FbmMemory\<close> hold
    the results.
  \<^item> \<^verbatim>\<open>Vp9Bool\<close>: the boolean decoder \<^verbatim>\<open>vp9hwd_bool.c\<close>; \<^verbatim>\<open>Vp9Exact\<close> relates it to arithmetic decoding on
    one big number, \<^verbatim>\<open>Vp9Codec\<close> and \<^verbatim>\<open>Vp9Codes\<close> to the encoder of the specification and the symbol codes,
    \<^verbatim>\<open>Vp9Entropy\<close> holds the results.
  \<^item> \<^verbatim>\<open>Vp9Queue\<close>: \<^verbatim>\<open>vp9hwd_buffer_queue.c\<close> and \<^verbatim>\<open>vp9hwd_fifo.c\<close>; \<^verbatim>\<open>Vp9Pool\<close> its reading as a pool,
    \<^verbatim>\<open>Vp9Pictures\<close> the results.
  \<^item> \<^verbatim>\<open>Ion\<close>, \<^verbatim>\<open>IonTheorems\<close>: \<^verbatim>\<open>memory/ionMemory/ionAlloc.c\<close>, with a record of what the process holds in the
    kernel, so that leaks show.
  \<^item> \<^verbatim>\<open>H264\<close>, \<^verbatim>\<open>H264Decode\<close>: reference marking, \<^verbatim>\<open>videoengine/h264/h264_mmco.c\<close>. \<^verbatim>\<open>H264Refs\<close> reads the two
    arrays as lists, \<^verbatim>\<open>H264Marking\<close> follows every operation, \<^verbatim>\<open>H264Theorems\<close> holds the results.

  \<^item> \<^verbatim>\<open>H264Bits\<close>: the software bit reader at the end of \<^verbatim>\<open>h264_hal.c\<close>; \<^verbatim>\<open>H264Golomb\<close> says what it reads.
    \<^verbatim>\<open>H264Syntax\<close>: the function pointers of the decoder context as a locale of readers; parsers that are proved
    from its laws hold for the software reader, which interprets it. (The reader of the engine's registers,
    the default, is I/O.)
  \<^item> \<^verbatim>\<open>H264Sps\<close>: sequence parameter sets in \<^verbatim>\<open>h264_nalu.c\<close>; \<^verbatim>\<open>H264SpsSyntax\<close>, \<^verbatim>\<open>H264SpsParts\<close> and
    \<^verbatim>\<open>H264SpsTheorems\<close> give the syntax of the standard and follow the parser part by part,
    \<^verbatim>\<open>H264HeaderTheorems\<close> holds the results. \<^verbatim>\<open>H264Poc\<close>, \<^verbatim>\<open>H264PocTheorems\<close>: \<^verbatim>\<open>H264InitPoc\<close> and what the decoder
    keeps for it between pictures.

  \<^bold>\<open>Bounds and loops.\<close> Array sizes are those of the code (frame fifo 2048, 32 pictures, 66 marking
  operations, 32 sequence parameter sets). The laws of the bit reader are for values of at most 25 bits,
  \<open>ue(v)\<close> codes below 8191 and \<open>se(v)\<close> codes of at most 49 bits: what a window of 32 bits at any bit position
  can hold. Walks over linked lists and the loops that drain a queue are \<open>partial_function (option)\<close>,
  whose undefined value becomes the fault \<open>Diverges\<close>; that they end is part of the theorems. No fuel is
  used.

  \<^bold>\<open>Not modelled.\<close> Register writes and the engine itself (\<^verbatim>\<open>*_hal.c\<close>, \<^verbatim>\<open>*_register.c\<close>, \<^verbatim>\<open>vp9hwd_asic.c\<close>),
  ioctl wrappers (\<^verbatim>\<open>ve\<close>, \<^verbatim>\<open>vp9hwd_dwl*\<close>), pixel copies, digests and debugging output are I/O; picture
  parameter sets, SEI and slice headers of H.264, its reference lists and display order, the headers of
  H.265 and VP9, the H.265 picture buffer and the frame-based stream managers are still to come. The contents of picture buffers appear nowhere.
\<close>

end
